(* ===== verification/Sponge_Prelude.thy ===== *)
theory Sponge_Prelude
  imports Main "HOL-Library.Word"
begin

text \<open>
  Shared vocabulary of the development: the fixed-width integer types of the C++ sources, the
  way a throwing member function is rendered, the facts on unsigned arithmetic and on list
  slices that every component needs, and the generic interface of a component seen as a step
  system with an invariant.

  Conventions.
  \<^item> \<open>uint8_t\<close>, \<open>uint16_t\<close>, \<open>uint32_t\<close>, \<open>uint64_t\<close> and \<open>size_t\<close> (64 bits on the platforms the
    project builds for) are words, so that sums and differences wrap as they do in C++.
  \<^item> A \<open>std::string\<close>, \<open>std::string_view\<close> or \<open>std::deque<char>\<close> is a list of bytes. Its
    \<open>size()\<close> is the word \<open>sz\<close>; a real container is shorter than \<open>2 ^ 64\<close>, and the lemmas
    that need this fact say so.
  \<^item> A class is a record, \<open>Class::method\<close> is a constant \<open>Class_method\<close> that takes the
    object and returns the new one, and an exception is a value of \<open>cpp_error\<close>: one of the standard
    exceptions with its message, a \<open>tagged_error\<close> with the attempt and the error code
    (\<open>System_error\<close>), what the standard leaves undefined, or a call of \<open>std::terminate\<close>.
\<close>

type_synonym u8 = "8 word"
type_synonym u16 = "16 word"
type_synonym u32 = "32 word"
type_synonym u64 = "64 word"
type_synonym byte = u8
type_synonym bytes = "u8 list"

datatype cpp_error =
    Out_of_range string
  | Invalid_argument string
  | Runtime_error string
  | Length_error string
  | System_error string int
  | Undefined_behaviour string
  | Terminate string

type_synonym 'a result = "cpp_error + 'a"

text \<open>The value of a call whose exception is excluded by a preceding check; the default is never
  taken, and the lemmas on the caller show it.\<close>

fun ok_or :: "'a \<Rightarrow> 'a result \<Rightarrow> 'a" where
  "ok_or d (Inl e) = d"
| "ok_or d (Inr x) = x"

abbreviation sz :: "'a list \<Rightarrow> u64" where
  "sz xs \<equiv> word_of_nat (length xs)"

named_theorems u64_nat
  \<open>rules that read unsigned arithmetic as arithmetic on the natural numbers\<close>

subsection \<open>Unsigned arithmetic without wrap-around\<close>

lemma unat_u64_bound: "unat (a :: u64) < 2 ^ 64"
  using unsigned_less [of a] by simp

lemma unat_max_u64: "unat (- 1 :: u64) = 2 ^ 64 - 1"
  by (simp add: unsigned_minus_1_eq_mask mask_eq_exp_minus_1)

lemma unat_sz [u64_nat]: "length xs < 2 ^ 64 \<Longrightarrow> unat (sz xs) = length xs"
  by (simp add: unat_of_nat)

lemma unat_of_nat_u64 [u64_nat]: "n < 2 ^ 64 \<Longrightarrow> unat (of_nat n :: u64) = n"
  by (simp add: unat_of_nat)

lemma unat_add_no_wrap [u64_nat]:
  fixes a b :: u64
  shows "unat a + unat b < 2 ^ 64 \<Longrightarrow> unat (a + b) = unat a + unat b"
  using unat_add_lem [of a b] by simp

lemma unat_sub_no_wrap [u64_nat]:
  fixes a b :: u64
  shows "b \<le> a \<Longrightarrow> unat (a - b) = unat a - unat b"
  by (rule unat_sub)

lemma unat_min_u64 [u64_nat]: "unat (min (a :: u64) b) = min (unat a) (unat b)"
  by (simp add: min_def word_le_nat_alt)

lemma take_min_length [simp]: "take (min (length xs) n) xs = take n xs"
  by (simp add: min_def)

lemma take_unat_min_sz:
  assumes "length xs < 2 ^ 64"
  shows "take (unat (min (sz xs) n)) xs = take (unat n) xs"
  unfolding unat_min_u64 unat_sz [OF assms] by (simp add: min_def)

subsection \<open>Slices of a list\<close>

text \<open>\<open>slc i j xs\<close> is the part of \<open>xs\<close> from position \<open>i\<close> up to, not including, \<open>j\<close>.\<close>

definition slc :: "nat \<Rightarrow> nat \<Rightarrow> 'a list \<Rightarrow> 'a list" where
  "slc i j xs = drop i (take j xs)"

lemma length_slc [simp]: "j \<le> length xs \<Longrightarrow> length (slc i j xs) = j - i"
  by (simp add: slc_def)

lemma slc_same [simp]: "slc i i xs = []"
  by (simp add: slc_def)

lemma slc_append: "i \<le> j \<Longrightarrow> j \<le> k \<Longrightarrow> slc i j xs @ slc j k xs = slc i k xs"
proof -
  assume ij: "i \<le> j" and jk: "j \<le> k"
  have "take j (take k xs) = take j xs" using jk by (simp add: min_def)
  then have "drop i (take k xs) = drop i (take j xs @ slc j k xs)"
    using append_take_drop_id [of j "take k xs"] by (simp add: slc_def)
  also have "\<dots> = drop i (take j xs) @ slc j k xs"
    using ij by (cases "j \<le> length xs") (simp_all add: slc_def)
  finally show ?thesis by (simp add: slc_def)
qed

lemma take_slc: "take n (slc i j xs) = slc i (min j (i + n)) xs"
  by (simp add: slc_def take_drop add.commute min.commute)

lemma drop_slc: "drop n (slc i j xs) = slc (i + n) j xs"
  by (simp add: slc_def add.commute)

lemma slc_from_0: "slc 0 j xs = take j xs"
  by (simp add: slc_def)

lemma take_append_slc: "i \<le> j \<Longrightarrow> take i xs @ slc i j xs = take j xs"
  using slc_append [of 0 i j xs] by (simp add: slc_from_0)

lemma nth_slc: "i + n < j \<Longrightarrow> j \<le> length xs \<Longrightarrow> slc i j xs ! n = xs ! (i + n)"
  by (simp add: slc_def)

subsection \<open>Timers of type int\<close>

text \<open>A variable of type \<open>int\<close> is a 32-bit word that is read with its sign. \<open>int += size_t\<close> computes
  the sum with 64 bits and truncates it to 32.\<close>

definition int_add_size :: "u32 \<Rightarrow> u64 \<Rightarrow> u32" where
  "int_add_size t ms = ucast (scast t + ms)"

lemma ucast_add_64_32: "(ucast (a + b :: u64) :: u32) = ucast a + ucast b"
  by (simp add: word_unat_eq_iff unat_word_ariths unsigned_ucast_eq take_bit_eq_mod mod_mod_cancel
      mod_add_eq)

lemma sint_small:
  assumes "unat (w :: 32 word) < 2 ^ 31"
  shows "sint w = int (unat w)"
proof -
  have "int (unat w) < int (2 ^ 31)" using assms by (rule of_nat_less_iff [THEN iffD2])
  then have "uint w < 2 ^ 31" by simp
  then show ?thesis
    by (simp add: sint_uint signed_take_bit_eq_take_bit_shift take_bit_eq_mod)
qed

lemma elapsed_eq: "(ucast (scast (t :: 32 word) + ms :: u64) :: 32 word) = t + ucast ms"
proof -
  have "(ucast (scast t :: u64) :: 32 word) = t" by transfer (simp add: take_bit_signed_take_bit)
  then show ?thesis by (simp add: ucast_add_64_32)
qed

lemma unat_elapsed:
  assumes "unat (t :: 32 word) + unat (ms :: u64) < 2 ^ 31"
  shows "unat (t + ucast ms) = unat t + unat ms"
proof -
  have "unat (ucast ms :: 32 word) = unat ms"
    using assms by (simp add: unsigned_ucast_eq take_bit_nat_eq_self)
  then show ?thesis using assms unat_add_lem [of t "ucast ms"] by simp
qed

lemma int_add_size_eq: "int_add_size t ms = t + ucast ms"
  by (simp add: int_add_size_def elapsed_eq)

subsection \<open>Step systems\<close>

text \<open>
  The interface shared by all stateful components: a state, a step function driven by calls,
  and an invariant that a permitted call preserves. \<open>ok\<close> is the obligation of the caller.
\<close>

fun run_steps :: "('s \<Rightarrow> 'e \<Rightarrow> 's) \<Rightarrow> 's \<Rightarrow> 'e list \<Rightarrow> 's" where
  "run_steps step s [] = s"
| "run_steps step s (e # es) = run_steps step (step s e) es"

fun run_ok :: "('s \<Rightarrow> 'e \<Rightarrow> 's) \<Rightarrow> ('s \<Rightarrow> 'e \<Rightarrow> bool) \<Rightarrow> 's \<Rightarrow> 'e list \<Rightarrow> bool" where
  "run_ok step ok s [] = True"
| "run_ok step ok s (e # es) = (ok s e \<and> run_ok step ok (step s e) es)"

locale step_system =
  fixes step :: "'s \<Rightarrow> 'e \<Rightarrow> 's"
    and ok :: "'s \<Rightarrow> 'e \<Rightarrow> bool"
    and inv :: "'s \<Rightarrow> bool"
  assumes step_inv: "inv s \<Longrightarrow> ok s e \<Longrightarrow> inv (step s e)"
begin

lemma run_inv: "inv s \<Longrightarrow> run_ok step ok s es \<Longrightarrow> inv (run_steps step s es)"
  by (induction es arbitrary: s) (auto intro: step_inv)

lemma run_prefix_inv:
  "inv s \<Longrightarrow> run_ok step ok s (es @ fs) \<Longrightarrow> inv (run_steps step s es)"
  by (induction es arbitrary: s) (auto intro: step_inv)

end

lemma run_steps_append: "run_steps step s (es @ fs) = run_steps step (run_steps step s es) fs"
  by (induction es arbitrary: s) auto

end
