(* ===== verification/Byte_Stream.thy ===== *)
theory Byte_Stream
  imports Sponge_Prelude
begin

text \<open>
  The flow-controlled in-memory byte stream of \<open>src/libsponge/byte_stream.{hh,cc}\<close>. The record
  has the members of class \<open>ByteStream\<close>; there is one constant for each member function. The
  lemmas show that the buffer never exceeds the capacity, that the counters account for the
  buffered bytes, and that the stream is a faithful FIFO queue: whatever sequence of calls is
  made, the bytes accepted by \<open>write\<close> are the bytes handed out by \<open>read\<close> followed by the bytes
  still buffered. The locale \<open>flow_stream\<close> is the contract that the sender, the receiver and
  the reassembler use.
\<close>

subsection \<open>State and operations\<close>

record ByteStream =
  bs_buffer_list :: bytes
  bs_capacity :: u64
  bs_bytes_written :: u64
  bs_bytes_read :: u64
  bs_end_input :: bool
  bs_end_output :: bool
  bs_error :: bool

text \<open>The constructor \<open>ByteStream(capacity)\<close>.\<close>

definition ByteStream_init :: "u64 \<Rightarrow> ByteStream" where
  "ByteStream_init capacity =
     \<lparr> bs_buffer_list = [], bs_capacity = capacity, bs_bytes_written = 0, bs_bytes_read = 0,
       bs_end_input = False, bs_end_output = False, bs_error = False \<rparr>"

definition ByteStream_input_ended :: "ByteStream \<Rightarrow> bool" where
  "ByteStream_input_ended s = bs_end_input s"

definition ByteStream_buffer_size :: "ByteStream \<Rightarrow> u64" where
  "ByteStream_buffer_size s = sz (bs_buffer_list s)"

definition ByteStream_buffer_empty :: "ByteStream \<Rightarrow> bool" where
  "ByteStream_buffer_empty s = (bs_buffer_list s = [])"

definition ByteStream_eof :: "ByteStream \<Rightarrow> bool" where
  "ByteStream_eof s = (bs_end_input s \<and> ByteStream_buffer_empty s)"

definition ByteStream_bytes_written :: "ByteStream \<Rightarrow> u64" where
  "ByteStream_bytes_written s = bs_bytes_written s"

definition ByteStream_bytes_read :: "ByteStream \<Rightarrow> u64" where
  "ByteStream_bytes_read s = bs_bytes_read s"

definition ByteStream_remaining_capacity :: "ByteStream \<Rightarrow> u64" where
  "ByteStream_remaining_capacity s = bs_capacity s - sz (bs_buffer_list s)"

definition ByteStream_error :: "ByteStream \<Rightarrow> bool" where
  "ByteStream_error s = bs_error s"

definition ByteStream_set_error :: "ByteStream \<Rightarrow> ByteStream" where
  "ByteStream_set_error s = s\<lparr>bs_error := True\<rparr>"

definition ByteStream_end_input :: "ByteStream \<Rightarrow> ByteStream" where
  "ByteStream_end_input s = s\<lparr>bs_end_input := True\<rparr>"

definition ByteStream_write :: "ByteStream \<Rightarrow> bytes \<Rightarrow> ByteStream \<times> u64" where
  "ByteStream_write s data =
     (if ByteStream_input_ended s then (s, 0)
      else let write_size = min (sz data) (ByteStream_remaining_capacity s)
           in (s\<lparr>bs_buffer_list := bs_buffer_list s @ take (unat write_size) data,
                 bs_bytes_written := bs_bytes_written s + write_size\<rparr>, write_size))"

definition ByteStream_peek_output :: "ByteStream \<Rightarrow> u64 \<Rightarrow> bytes" where
  "ByteStream_peek_output s len =
     (let n = min len (sz (bs_buffer_list s)) in take (unat n) (bs_buffer_list s))"

definition ByteStream_pop_output :: "ByteStream \<Rightarrow> u64 \<Rightarrow> ByteStream" where
  "ByteStream_pop_output s len =
     (let n = min len (ByteStream_buffer_size s)
      in s\<lparr>bs_bytes_read := bs_bytes_read s + n,
           bs_buffer_list := drop (unat n) (bs_buffer_list s)\<rparr>)"

definition ByteStream_read :: "ByteStream \<Rightarrow> u64 \<Rightarrow> ByteStream \<times> bytes" where
  "ByteStream_read s len =
     (if bs_end_output s then (s, [])
      else let ret = ByteStream_peek_output s len in (ByteStream_pop_output s len, ret))"

lemmas ByteStream_observers =
  ByteStream_input_ended_def ByteStream_buffer_size_def ByteStream_buffer_empty_def
  ByteStream_eof_def ByteStream_bytes_written_def ByteStream_bytes_read_def
  ByteStream_remaining_capacity_def ByteStream_error_def

lemmas ByteStream_setters = ByteStream_set_error_def ByteStream_end_input_def

subsection \<open>The invariant\<close>

definition ByteStream_inv :: "ByteStream \<Rightarrow> bool" where
  "ByteStream_inv s \<longleftrightarrow>
     length (bs_buffer_list s) \<le> unat (bs_capacity s) \<and>
     bs_bytes_written s = bs_bytes_read s + sz (bs_buffer_list s) \<and>
     \<not> bs_end_output s"

lemma ByteStream_inv_length:
  "ByteStream_inv s \<Longrightarrow> length (bs_buffer_list s) < 2 ^ 64"
  using unat_u64_bound [of "bs_capacity s"] by (simp add: ByteStream_inv_def)

lemma ByteStream_inv_init [simp]: "ByteStream_inv (ByteStream_init c)"
  by (simp add: ByteStream_inv_def ByteStream_init_def)

lemma unat_remaining_capacity:
  assumes "ByteStream_inv s"
  shows "unat (ByteStream_remaining_capacity s)
    = unat (bs_capacity s) - length (bs_buffer_list s)"
proof -
  have l: "unat (sz (bs_buffer_list s)) = length (bs_buffer_list s)"
    using ByteStream_inv_length [OF assms] by (rule unat_sz)
  then have "sz (bs_buffer_list s) \<le> bs_capacity s"
    using assms by (simp add: word_le_nat_alt ByteStream_inv_def)
  with l show ?thesis by (simp add: ByteStream_remaining_capacity_def unat_sub)
qed

text \<open>What \<open>write\<close> takes of its argument.\<close>

definition accepted :: "ByteStream \<Rightarrow> bytes \<Rightarrow> bytes" where
  "accepted s data =
     (if ByteStream_input_ended s then []
      else take (unat (ByteStream_remaining_capacity s)) data)"

lemma length_accepted:
  "ByteStream_inv s \<Longrightarrow>
   length (bs_buffer_list s) + length (accepted s data) \<le> unat (bs_capacity s)"
  by (auto simp: accepted_def unat_remaining_capacity ByteStream_inv_def)

lemma write_accepted:
  assumes "ByteStream_inv s" and "length data < 2 ^ 64"
  shows "ByteStream_write s data =
    (s\<lparr>bs_buffer_list := bs_buffer_list s @ accepted s data,
       bs_bytes_written := bs_bytes_written s + sz (accepted s data)\<rparr>, sz (accepted s data))"
proof (cases "ByteStream_input_ended s")
  case True
  then show ?thesis by (simp add: ByteStream_write_def accepted_def)
next
  case False
  define n where "n = min (sz data) (ByteStream_remaining_capacity s)"
  have acc: "accepted s data = take (unat n) data"
    using False assms(2) by (simp add: accepted_def n_def take_unat_min_sz)
  have "unat n \<le> length data"
    using assms(2) by (simp add: n_def unat_min_u64 unat_sz)
  then have "sz (take (unat n) data) = n" by simp
  then show ?thesis
    using False by (simp add: ByteStream_write_def Let_def acc flip: n_def)
qed

lemma write_inv:
  assumes "ByteStream_inv s" and "length data < 2 ^ 64"
  shows "ByteStream_inv (fst (ByteStream_write s data))"
  using assms(1) length_accepted [OF assms(1), of data]
  by (simp add: write_accepted [OF assms] ByteStream_inv_def add.assoc)

lemma min_sz_buffer:
  assumes "ByteStream_inv s"
  shows "unat (min n (sz (bs_buffer_list s))) = min (unat n) (length (bs_buffer_list s))"
  by (simp only: unat_min_u64 unat_sz [OF ByteStream_inv_length [OF assms]])

lemma peek_output_take:
  "ByteStream_inv s \<Longrightarrow> ByteStream_peek_output s n = take (unat n) (bs_buffer_list s)"
  by (simp add: ByteStream_peek_output_def min_sz_buffer) (simp add: min_def)

lemma pop_output_drop:
  assumes "ByteStream_inv s"
  shows "ByteStream_pop_output s n =
    s\<lparr>bs_bytes_read := bs_bytes_read s + sz (take (unat n) (bs_buffer_list s)),
      bs_buffer_list := drop (unat n) (bs_buffer_list s)\<rparr>"
proof -
  have "word_of_nat (unat (min n (sz (bs_buffer_list s)))) = sz (take (unat n) (bs_buffer_list s))"
    by (simp only: min_sz_buffer [OF assms] length_take min.commute)
  then have "min n (sz (bs_buffer_list s)) = sz (take (unat n) (bs_buffer_list s))" by simp
  moreover have "drop (min (unat n) (length (bs_buffer_list s))) (bs_buffer_list s)
      = drop (unat n) (bs_buffer_list s)"
    by (simp add: min_def)
  ultimately show ?thesis
    using min_sz_buffer [OF assms, of n]
    by (simp add: ByteStream_pop_output_def ByteStream_buffer_size_def Let_def)
qed

lemma read_take_drop:
  assumes "ByteStream_inv s"
  shows "ByteStream_read s n =
    (s\<lparr>bs_bytes_read := bs_bytes_read s + sz (take (unat n) (bs_buffer_list s)),
       bs_buffer_list := drop (unat n) (bs_buffer_list s)\<rparr>, take (unat n) (bs_buffer_list s))"
  using assms pop_output_drop [OF assms] peek_output_take [OF assms]
  by (simp add: ByteStream_read_def ByteStream_inv_def)

lemma sz_take_drop: "sz (take n xs) + sz (drop n xs) = sz xs"
  by (metis append_take_drop_id length_append of_nat_add)

lemma pop_inv: "ByteStream_inv s \<Longrightarrow> ByteStream_inv (ByteStream_pop_output s n)"
  using sz_take_drop [of "unat n" "bs_buffer_list s"]
  by (simp only: pop_output_drop) (auto simp: ByteStream_inv_def add.assoc)

lemma read_inv: "ByteStream_inv s \<Longrightarrow> ByteStream_inv (fst (ByteStream_read s n))"
  using pop_inv [of s n] by (simp add: read_take_drop pop_output_drop)

lemma end_input_inv: "ByteStream_inv s \<Longrightarrow> ByteStream_inv (ByteStream_end_input s)"
  by (simp add: ByteStream_inv_def ByteStream_end_input_def)

lemma set_error_inv: "ByteStream_inv s \<Longrightarrow> ByteStream_inv (ByteStream_set_error s)"
  by (simp add: ByteStream_inv_def ByteStream_set_error_def)

subsection \<open>The contract of a flow-controlled stream\<close>

text \<open>
  \<open>content\<close> is what the reader will see next, \<open>room\<close> how much the writer may add. A client knows
  nothing else of the stream.
\<close>

locale flow_stream =
  fixes inv :: "'s \<Rightarrow> bool"
    and content :: "'s \<Rightarrow> bytes"
    and room :: "'s \<Rightarrow> nat"
    and closed :: "'s \<Rightarrow> bool"
    and put :: "'s \<Rightarrow> bytes \<Rightarrow> 's \<times> u64"
    and get :: "'s \<Rightarrow> u64 \<Rightarrow> 's \<times> bytes"
    and finish :: "'s \<Rightarrow> 's"
    and written :: "'s \<Rightarrow> u64"
    and consumed :: "'s \<Rightarrow> u64"
  assumes put_inv: "inv s \<Longrightarrow> length xs < 2 ^ 64 \<Longrightarrow> inv (fst (put s xs))"
    and get_inv: "inv s \<Longrightarrow> inv (fst (get s n))"
    and finish_inv: "inv s \<Longrightarrow> inv (finish s)"
    and put_content: "inv s \<Longrightarrow> length xs < 2 ^ 64 \<Longrightarrow>
      content (fst (put s xs)) = content s @ take (if closed s then 0 else room s) xs"
    and put_result: "inv s \<Longrightarrow> length xs < 2 ^ 64 \<Longrightarrow>
      unat (snd (put s xs)) = min (length xs) (if closed s then 0 else room s)"
    and get_result: "inv s \<Longrightarrow> snd (get s n) = take (unat n) (content s)"
    and get_content: "inv s \<Longrightarrow> content (fst (get s n)) = drop (unat n) (content s)"
    and finish_content: "inv s \<Longrightarrow> content (finish s) = content s"
    and finish_closed: "inv s \<Longrightarrow> closed (finish s)"
    and put_counts: "inv s \<Longrightarrow> length xs < 2 ^ 64 \<Longrightarrow>
      written (fst (put s xs)) = written s + snd (put s xs) \<and>
      consumed (fst (put s xs)) = consumed s"
    and get_counts: "inv s \<Longrightarrow> written (fst (get s n)) = written s \<and>
      consumed (fst (get s n)) = consumed s + sz (snd (get s n))"
    and finish_counts: "written (finish s) = written s \<and> consumed (finish s) = consumed s"

datatype stream_call = Write bytes | Read u64 | End_input

fun call_fits :: "stream_call \<Rightarrow> bool" where
  "call_fits (Write xs) = (length xs < 2 ^ 64)"
| "call_fits (Read n) = True"
| "call_fits End_input = True"

text \<open>Run a sequence of calls, collecting the bytes taken from the writer and the bytes given to
  the reader.\<close>

fun stream_run ::
  "('s \<Rightarrow> bytes \<Rightarrow> 's \<times> u64) \<Rightarrow> ('s \<Rightarrow> u64 \<Rightarrow> 's \<times> bytes) \<Rightarrow> ('s \<Rightarrow> 's) \<Rightarrow>
   's \<Rightarrow> stream_call list \<Rightarrow> 's \<times> bytes \<times> bytes" where
  "stream_run put get fin s [] = (s, [], [])"
| "stream_run put get fin s (Write xs # cs) =
     (let (s1, n) = put s xs; (s2, taken, given) = stream_run put get fin s1 cs
      in (s2, take (unat n) xs @ taken, given))"
| "stream_run put get fin s (Read n # cs) =
     (let (s1, ys) = get s n; (s2, taken, given) = stream_run put get fin s1 cs
      in (s2, taken, ys @ given))"
| "stream_run put get fin s (End_input # cs) = stream_run put get fin (fin s) cs"

context flow_stream
begin

lemma run_fifo:
  assumes "inv s" and "list_all call_fits cs"
    and "stream_run put get finish s cs = (s', taken, given)"
  shows "inv s' \<and> content s @ taken = given @ content s' \<and>
    written s' = written s + sz taken \<and> consumed s' = consumed s + sz given"
  using assms
proof (induction cs arbitrary: s s' taken given)
  case Nil
  then show ?case by simp
next
  case (Cons c cs)
  show ?case
  proof (cases c)
    case (Write xs)
    obtain s1 n where put: "put s xs = (s1, n)" by fastforce
    obtain tk where rest: "stream_run put get finish s1 cs = (s', tk, given)"
      and taken: "taken = take (unat n) xs @ tk"
      using Cons.prems(3) put by (auto simp: Write split: prod.splits)
    have l: "length xs < 2 ^ 64" using Cons.prems(2) by (simp add: Write)
    have n: "unat n = min (length xs) (if closed s then 0 else room s)"
      using put_result [OF Cons.prems(1) l] put by simp
    then have "content s1 = content s @ take (unat n) xs"
      using put_content [OF Cons.prems(1) l] put by (simp del: take_eq_Nil split: if_splits)
    moreover have "inv s1" using put_inv [OF Cons.prems(1) l] put by simp
    moreover have "unat n \<le> length xs" using n by simp
    then have "sz (take (unat n) xs) = n" by (simp add: min_absorb2)
    ultimately show ?thesis
      using Cons.IH [OF _ _ rest] Cons.prems(2) put_counts [OF Cons.prems(1) l] put
      by (simp add: taken add.assoc)
  next
    case (Read n)
    obtain s1 ys where get: "get s n = (s1, ys)" by fastforce
    obtain gv where rest: "stream_run put get finish s1 cs = (s', taken, gv)"
      and given: "given = ys @ gv"
      using Cons.prems(3) get by (auto simp: Read split: prod.splits)
    have "content s = ys @ content s1"
      using get_result [OF Cons.prems(1), of n] get_content [OF Cons.prems(1), of n] get by simp
    moreover have "inv s1" using get_inv [OF Cons.prems(1), of n] get by simp
    ultimately show ?thesis
      using Cons.IH [OF _ _ rest] Cons.prems(2) get_counts [OF Cons.prems(1), of n] get
      by (simp add: given add.assoc)
  next
    case End_input
    then show ?thesis
      using Cons.IH [of "finish s" s' taken given] Cons.prems
      by (simp add: finish_inv finish_content finish_counts)
  qed
qed

end

text \<open>The invariant together with the capacity the stream was built with.\<close>

definition ByteStream_wf :: "u64 \<Rightarrow> ByteStream \<Rightarrow> bool" where
  "ByteStream_wf cap s \<longleftrightarrow> ByteStream_inv s \<and> bs_capacity s = cap"

interpretation bytestream: flow_stream "ByteStream_wf cap" bs_buffer_list
  "\<lambda>s. unat (ByteStream_remaining_capacity s)" ByteStream_input_ended
  ByteStream_write ByteStream_read ByteStream_end_input
  ByteStream_bytes_written ByteStream_bytes_read for cap
proof unfold_locales
  fix s :: ByteStream and xs :: bytes
  assume s: "ByteStream_wf cap s" and l: "length xs < 2 ^ 64"
  then show "ByteStream_wf cap (fst (ByteStream_write s xs))"
    by (simp add: ByteStream_wf_def write_inv) (simp add: write_accepted)
  show "bs_buffer_list (fst (ByteStream_write s xs)) = bs_buffer_list s @
      take (if ByteStream_input_ended s then 0 else unat (ByteStream_remaining_capacity s)) xs"
    and "unat (snd (ByteStream_write s xs)) = min (length xs)
      (if ByteStream_input_ended s then 0 else unat (ByteStream_remaining_capacity s))"
    and "ByteStream_bytes_written (fst (ByteStream_write s xs))
        = ByteStream_bytes_written s + snd (ByteStream_write s xs) \<and>
      ByteStream_bytes_read (fst (ByteStream_write s xs)) = ByteStream_bytes_read s"
    using s l by (simp_all add: ByteStream_wf_def write_accepted accepted_def unat_sz
        min_less_iff_disj ByteStream_observers)
next
  fix s :: ByteStream and n :: u64
  assume s: "ByteStream_wf cap s"
  then show "ByteStream_wf cap (fst (ByteStream_read s n))"
    by (simp add: ByteStream_wf_def read_inv) (simp add: read_take_drop)
  show "snd (ByteStream_read s n) = take (unat n) (bs_buffer_list s)"
    and "bs_buffer_list (fst (ByteStream_read s n)) = drop (unat n) (bs_buffer_list s)"
    and "ByteStream_bytes_written (fst (ByteStream_read s n)) = ByteStream_bytes_written s \<and>
      ByteStream_bytes_read (fst (ByteStream_read s n))
        = ByteStream_bytes_read s + sz (snd (ByteStream_read s n))"
    using s by (simp_all add: ByteStream_wf_def read_take_drop ByteStream_observers)
qed (auto simp: ByteStream_wf_def ByteStream_inv_def ByteStream_end_input_def
    ByteStream_input_ended_def ByteStream_bytes_written_def ByteStream_bytes_read_def)

text \<open>C40: the byte stream is a FIFO queue. Over any sequence of writes, reads and ends of input
  on a fresh stream of any capacity, the bytes that \<open>write\<close> reported as accepted are, in order
  and without loss or duplication, the bytes \<open>read\<close> returned followed by those still in the
  buffer; the two counters count them, and the buffer never outgrows the capacity.\<close>
theorem byte_stream_fifo:
  assumes "list_all call_fits cs"
    and "stream_run ByteStream_write ByteStream_read ByteStream_end_input (ByteStream_init cap) cs
      = (s, taken, given)"
  shows "taken = given @ bs_buffer_list s \<and> length (bs_buffer_list s) \<le> unat cap \<and>
    ByteStream_bytes_written s = sz taken \<and> ByteStream_bytes_read s = sz given"
proof -
  have "ByteStream_wf cap (ByteStream_init cap)"
    by (simp add: ByteStream_wf_def) (simp add: ByteStream_init_def)
  from bytestream.run_fifo [OF this assms] show ?thesis
    by (simp add: ByteStream_wf_def ByteStream_inv_def ByteStream_observers)
      (auto simp: ByteStream_init_def)
qed

theorem byte_stream_fifo_witness:
  "stream_run ByteStream_write ByteStream_read ByteStream_end_input (ByteStream_init 3)
     [Write [1, 2, 3, 4], Read 2, Write [7], End_input, Write [8]]
   = (\<lparr>bs_buffer_list = [3, 7], bs_capacity = 3, bs_bytes_written = 4, bs_bytes_read = 2,
       bs_end_input = True, bs_end_output = False, bs_error = False\<rparr>, [1, 2, 3, 7], [1, 2])
   \<and> [1, 2, 3, 7 :: u8] = [1, 2] @ [3, 7] \<and> length [3, 7 :: u8] \<le> unat (3 :: u64)
   \<and> (4 :: u64) = sz [1, 2, 3, 7 :: u8] \<and> (2 :: u64) = sz [1, 2 :: u8]"
  (is "?run = (?s, ?t, ?g) \<and> _")
proof -
  have run: "?run = (?s, ?t, ?g)"
    by (simp add: ByteStream_write_def ByteStream_read_def ByteStream_observers
        ByteStream_init_def ByteStream_pop_output_def ByteStream_peek_output_def
        ByteStream_end_input_def min_def)
  from byte_stream_fifo [OF _ run] run show ?thesis
    by (simp add: ByteStream_observers)
qed

end
