(* ===== verification/Stream_Reassembler.thy ===== *)
theory Stream_Reassembler
  imports Byte_Stream
begin

text \<open>
  The stream reassembler of \<open>src/libsponge/stream_reassembler.{hh,cc}\<close>. The ordered map
  \<open>_reassemble_buffer\<close> is an association list in ascending key order, which is how
  \<open>std::map<size_t, std::string>\<close> iterates: \<open>lower_bound(i)\<close> splits it into the entries with keys
  below \<open>i\<close> and the rest, \<open>emplace\<close> inserts unless the key is present, \<open>erase\<close> removes.
  The iterator that \<open>merge\<close> moves through the map is the split of the list it stands at.
\<close>

subsection \<open>State and operations\<close>

type_synonym chunk = "u64 \<times> bytes"

record StreamReassembler =
  sr_reassemble_buffer :: "chunk list"
  sr_expected :: u64
  sr_eof_index :: u64
  sr_unassembled_bytes :: u64
  sr_output :: ByteStream
  sr_capacity :: u64

definition StreamReassembler_init :: "u64 \<Rightarrow> StreamReassembler" where
  "StreamReassembler_init capacity =
     \<lparr> sr_reassemble_buffer = [], sr_expected = 0, sr_eof_index = - 1,
       sr_unassembled_bytes = 0, sr_output = ByteStream_init capacity, sr_capacity = capacity \<rparr>"

definition repeated_interval :: "u64 \<Rightarrow> u64 \<Rightarrow> u64 \<Rightarrow> u64 \<Rightarrow> bool" where
  "repeated_interval left_begin left_length right_begin right_length \<longleftrightarrow>
     right_begin + right_length \<le> left_begin + left_length"

text \<open>\<open>std::map::emplace\<close>.\<close>

fun map_emplace :: "u64 \<Rightarrow> bytes \<Rightarrow> chunk list \<Rightarrow> chunk list" where
  "map_emplace k v [] = [(k, v)]"
| "map_emplace k v ((k', v') # m) =
     (if k < k' then (k, v) # (k', v') # m
      else if k = k' then (k', v') # m
      else (k', v') # map_emplace k v m)"

text \<open>The loop of \<open>merge\<close> that abandons the stored segments covered by the new data: it yields the
  remaining byte count and the entries from the iterator on.\<close>

fun merge_forward :: "u64 \<Rightarrow> u64 \<Rightarrow> u64 \<Rightarrow> chunk list \<Rightarrow> u64 \<times> chunk list" where
  "merge_forward index n unassembled [] = (unassembled, [])"
| "merge_forward index n unassembled ((k, d) # rest) =
     (if repeated_interval index n k (sz d)
      then merge_forward index n (unassembled - sz d) rest
      else (unassembled, (k, d) # rest))"

text \<open>The second half of \<open>merge\<close>, which looks at the entry before the iterator. The result is what
  \<open>merge\<close> returns, and the new values of \<open>*index\<close> and \<open>*data\<close>.\<close>

definition merge_backward :: "chunk list \<Rightarrow> u64 \<Rightarrow> bytes \<Rightarrow> bool \<times> u64 \<times> bytes" where
  "merge_backward before index data =
     (if before = [] then (True, index, data)
      else let (k, d) = last before in
        if k + sz d > index then
          if k + sz d > index + sz data then (False, index, data)
          else (True, k + sz d, drop (unat (k + sz d - index)) data)
        else (True, index, data))"

definition StreamReassembler_merge ::
  "StreamReassembler \<Rightarrow> u64 \<Rightarrow> bytes \<Rightarrow> StreamReassembler \<times> bool \<times> u64 \<times> bytes" where
  "StreamReassembler_merge r index data =
     (let before = takeWhile (\<lambda>e. fst e < index) (sr_reassemble_buffer r);
          (unassembled, after) =
            merge_forward index (sz data) (sr_unassembled_bytes r)
              (dropWhile (\<lambda>e. fst e < index) (sr_reassemble_buffer r));
          r' = r\<lparr>sr_reassemble_buffer := before @ after, sr_unassembled_bytes := unassembled\<rparr>
      in (r',
          case after of
            [] \<Rightarrow> merge_backward before index data
          | (k, d) # _ \<Rightarrow>
              if k = index then (False, index, data)
              else if k < index + sz data
                   then merge_backward before index (take (unat (k - index)) data)
                   else merge_backward before index data))"

definition StreamReassembler_insert ::
  "StreamReassembler \<Rightarrow> u64 \<Rightarrow> bytes \<Rightarrow> StreamReassembler" where
  "StreamReassembler_insert r index data =
     (let (r', ok, index', data') =
        (if sr_reassemble_buffer r = [] then (r, True, index, data)
         else StreamReassembler_merge r index data)
      in if ok then
           r'\<lparr>sr_unassembled_bytes := sr_unassembled_bytes r' + sz data',
              sr_reassemble_buffer := map_emplace index' data' (sr_reassemble_buffer r')\<rparr>
         else r')"

text \<open>The loop of \<open>send_to_bytestream\<close>. The iterator always stands at the beginning of the map,
  because every iteration erases the entry it has looked at.\<close>

fun send_loop ::
  "chunk list \<Rightarrow> u64 \<Rightarrow> u64 \<Rightarrow> ByteStream \<Rightarrow> chunk list \<times> u64 \<times> u64 \<times> ByteStream" where
  "send_loop [] expected unassembled output = ([], expected, unassembled, output)"
| "send_loop ((index, data) # m) expected unassembled output =
     (if index \<le> expected then
        if index + sz data > expected then
          let data = (if index < expected then drop (unat (expected - index)) data else data);
              data = (if sz data > ByteStream_remaining_capacity output
                      then take (unat (ByteStream_remaining_capacity output)) data else data)
          in send_loop m (expected + sz data) (unassembled - sz data)
               (fst (ByteStream_write output data))
        else send_loop m expected unassembled output
      else ((index, data) # m, expected, unassembled, output))"

definition StreamReassembler_send_to_bytestream :: "StreamReassembler \<Rightarrow> StreamReassembler" where
  "StreamReassembler_send_to_bytestream r =
     (let (m, expected, unassembled, output) =
        send_loop (sr_reassemble_buffer r) (sr_expected r) (sr_unassembled_bytes r) (sr_output r)
      in r\<lparr>sr_reassemble_buffer := m, sr_expected := expected,
           sr_unassembled_bytes := unassembled, sr_output := output\<rparr>)"

definition StreamReassembler_push_substring ::
  "StreamReassembler \<Rightarrow> bytes \<Rightarrow> u64 \<Rightarrow> bool \<Rightarrow> StreamReassembler" where
  "StreamReassembler_push_substring r data index eof =
     (let r1 = (if eof then r\<lparr>sr_eof_index := sz data + index\<rparr> else r);
          r2 = (if index + sz data > sr_expected r1
                then StreamReassembler_send_to_bytestream (StreamReassembler_insert r1 index data)
                else r1)
      in if sr_expected r2 = sr_eof_index r2
         then r2\<lparr>sr_output := ByteStream_end_input (sr_output r2)\<rparr>
         else r2)"

definition StreamReassembler_unassembled_bytes :: "StreamReassembler \<Rightarrow> u64" where
  "StreamReassembler_unassembled_bytes r = sr_unassembled_bytes r"

definition StreamReassembler_empty :: "StreamReassembler \<Rightarrow> bool" where
  "StreamReassembler_empty r = (sr_unassembled_bytes r = 0)"

subsection \<open>Chunks as intervals of stream positions\<close>

definition chunk_lo :: "chunk \<Rightarrow> nat" where
  "chunk_lo c = unat (fst c)"

definition chunk_hi :: "chunk \<Rightarrow> nat" where
  "chunk_hi c = unat (fst c) + length (snd c)"

definition chunk_span :: "chunk \<Rightarrow> nat set" where
  "chunk_span c = {chunk_lo c..<chunk_hi c}"

definition covered :: "chunk list \<Rightarrow> nat set" where
  "covered cs = (\<Union>c\<in>set cs. chunk_span c)"

text \<open>The chunk carries the bytes that the stream \<open>S\<close> has at the chunk's positions.\<close>

definition excerpt :: "bytes \<Rightarrow> chunk \<Rightarrow> bool" where
  "excerpt S c \<longleftrightarrow> chunk_hi c \<le> length S \<and>
     (\<forall>i<length (snd c). snd c ! i = S ! (chunk_lo c + i))"

definition chunk_before :: "chunk \<Rightarrow> chunk \<Rightarrow> bool" where
  "chunk_before a b \<longleftrightarrow> chunk_lo a < chunk_lo b \<and> chunk_hi a \<le> chunk_lo b"

definition chunks_ok :: "bytes \<Rightarrow> chunk list \<Rightarrow> bool" where
  "chunks_ok S cs \<longleftrightarrow> sorted_wrt chunk_before cs \<and> (\<forall>c\<in>set cs. excerpt S c)"

lemmas chunk_simps = chunk_lo_def chunk_hi_def

lemma covered_simps [simp]:
  "covered [] = {}"
  "covered (c # cs) = chunk_span c \<union> covered cs"
  "covered (cs @ ds) = covered cs \<union> covered ds"
  by (auto simp: covered_def)

lemma chunks_ok_simps [simp]:
  "chunks_ok S []"
  "chunks_ok S (c # cs) \<longleftrightarrow> excerpt S c \<and> (\<forall>d\<in>set cs. chunk_before c d) \<and> chunks_ok S cs"
  "chunks_ok S (cs @ ds) \<longleftrightarrow>
     chunks_ok S cs \<and> chunks_ok S ds \<and> (\<forall>c\<in>set cs. \<forall>d\<in>set ds. chunk_before c d)"
  by (auto simp: chunks_ok_def sorted_wrt_append)

lemma excerpt_length: "excerpt S c \<Longrightarrow> length (snd c) = chunk_hi c - chunk_lo c"
  by (simp add: excerpt_def chunk_simps)

lemma excerpt_end:
  assumes "excerpt S (k, d)" and "length S < 2 ^ 64"
  shows "unat (k + sz d) = chunk_hi (k, d)" and "length d < 2 ^ 64"
proof -
  show l: "length d < 2 ^ 64" using assms by (simp add: excerpt_def chunk_simps)
  have "unat k + unat (sz d) < 2 ^ 64"
    unfolding unat_sz [OF l] using assms by (simp add: excerpt_def chunk_simps)
  then show "unat (k + sz d) = chunk_hi (k, d)"
    by (simp add: unat_add_no_wrap unat_sz [OF l] chunk_hi_def)
qed

text \<open>Cutting an excerpt at either end leaves an excerpt.\<close>

lemma excerpt_take: "excerpt S (k, d) \<Longrightarrow> excerpt S (k, take n d)"
  by (auto simp: excerpt_def chunk_simps)

lemma excerpt_drop:
  "excerpt S (k, d) \<Longrightarrow> n \<le> length d \<Longrightarrow> unat k' = unat k + n \<Longrightarrow> excerpt S (k', drop n d)"
  by (auto simp: excerpt_def chunk_simps add.assoc)

lemma excerpt_slc: "excerpt S c \<Longrightarrow> snd c = slc (chunk_lo c) (chunk_hi c) S"
  by (auto simp: excerpt_def chunk_simps nth_slc intro!: nth_equalityI)

lemma excerpt_iff:
  "excerpt S (k, d) \<longleftrightarrow> unat k + length d \<le> length S \<and> d = take (length d) (drop (unat k) S)"
proof -
  have "d = take (length d) (drop (unat k) S) \<longleftrightarrow> (\<forall>i<length d. d ! i = S ! (unat k + i))"
    if "unat k + length d \<le> length S"
    using that by (subst list_eq_iff_nth_eq) auto
  then show ?thesis by (auto simp: excerpt_def chunk_simps)
qed

subsection \<open>Inserting keeps the intervals apart and loses no position\<close>

lemma takeWhile_below:
  "c \<in> set (takeWhile (\<lambda>e. fst e < index) cs) \<Longrightarrow> chunk_lo c < unat index"
  by (drule set_takeWhileD) (simp add: chunk_lo_def word_less_nat_alt)

lemma dropWhile_above:
  assumes "chunks_ok S cs" and "c \<in> set (dropWhile (\<lambda>e. fst e < index) cs)"
  shows "unat index \<le> chunk_lo c"
  using assms
proof (induction cs)
  case (Cons a cs)
  show ?case
  proof (cases "fst a < index")
    case True
    with Cons show ?thesis by auto
  next
    case False
    then have "unat index \<le> chunk_lo a" by (simp add: chunk_lo_def word_less_nat_alt)
    with False Cons.prems show ?thesis by (auto simp: chunk_before_def)
  qed
qed simp

lemma merge_forward_dropWhile:
  assumes "chunks_ok S cs" and "excerpt S (index, data)" and "length S < 2 ^ 64"
  shows "snd (merge_forward index (sz data) u cs)
    = dropWhile (\<lambda>c. chunk_hi c \<le> chunk_hi (index, data)) cs"
  using assms(1)
proof (induction cs arbitrary: u)
  case (Cons c cs)
  obtain k d where c: "c = (k, d)" by (cases c)
  have "repeated_interval index (sz data) k (sz d)
      \<longleftrightarrow> chunk_hi c \<le> chunk_hi (index, data)"
    using Cons.prems excerpt_end(1) [OF assms(2,3)] excerpt_end(1) [of S k d] assms(3)
    by (simp add: repeated_interval_def word_le_nat_alt c)
  with Cons show ?case by (simp add: c)
qed simp

lemma map_emplace_middle:
  assumes "\<forall>c\<in>set before. fst c < k" and "\<forall>c\<in>set after. k \<le> fst c"
    and "\<forall>c\<in>set (tl after). k < fst c"
  shows "map_emplace k v (before @ after) =
    (if after \<noteq> [] \<and> fst (hd after) = k then before @ after else before @ (k, v) # after)"
  using assms
proof (induction before)
  case Nil
  then show ?case by (cases after) (auto simp: order.order_iff_strict)
next
  case (Cons c before)
  then show ?case by (cases c) auto
qed

lemma emplace_between:
  assumes ok: "chunks_ok S (before @ after)" and ex: "excerpt S (i, d)"
    and lo: "\<forall>c\<in>set before. chunk_lo c < unat i \<and> chunk_hi c \<le> unat i"
    and hi: "\<forall>c\<in>set after. chunk_hi (i, d) \<le> chunk_lo c"
  shows "chunks_ok S (map_emplace i d (before @ after))"
    and "covered (map_emplace i d (before @ after)) = covered (before @ after) \<union> chunk_span (i, d)"
proof -
  have b: "\<forall>c\<in>set before. fst c < i"
    using lo by (simp add: chunk_lo_def word_less_nat_alt)
  have a: "\<forall>c\<in>set after. i \<le> fst c"
    using hi by (fastforce simp: chunk_simps word_le_nat_alt)
  have a': "\<forall>c\<in>set (tl after). i < fst c"
    using ok a by (cases after) (auto simp: chunk_before_def chunk_lo_def word_less_nat_alt word_le_nat_alt)
  note split = map_emplace_middle [OF b a a', of d]
  have "chunks_ok S (map_emplace i d (before @ after)) \<and>
    covered (map_emplace i d (before @ after)) = covered (before @ after) \<union> chunk_span (i, d)"
  proof (cases "after \<noteq> [] \<and> fst (hd after) = i")
    case True
    then have "d = []" using hi by (cases after) (auto simp: chunk_simps)
    then have "chunk_span (i, d) = {}" by (simp add: chunk_span_def chunk_simps)
    with True ok split show ?thesis by simp
  next
    case False
    have "\<forall>c\<in>set after. chunk_before (i, d) c"
    proof
      fix c assume c: "c \<in> set after"
      have "i < fst c" using False a a' c by (cases after) (auto simp: order.strict_iff_order)
      with hi c show "chunk_before (i, d) c"
        by (simp add: chunk_before_def chunk_lo_def word_less_nat_alt)
    qed
    moreover have "\<forall>c\<in>set before. chunk_before c (i, d)"
      using lo by (simp add: chunk_before_def chunk_lo_def)
    ultimately show ?thesis using False ok ex split by auto
  qed
  then show "chunks_ok S (map_emplace i d (before @ after))"
    and "covered (map_emplace i d (before @ after)) = covered (before @ after) \<union> chunk_span (i, d)"
    by auto
qed

lemma last_chunk_bounds:
  assumes "chunks_ok S cs" and "c \<in> set cs"
  shows "chunk_hi c \<le> chunk_hi (last cs)"
proof (cases cs rule: rev_cases)
  case (snoc ys y)
  have "chunk_lo y \<le> chunk_hi y" by (simp add: chunk_simps)
  with assms show ?thesis by (auto simp: snoc chunk_before_def intro: le_trans)
qed (use assms in simp)

lemma merge_backward_spec:
  assumes ok: "chunks_ok S before" and lo: "\<forall>c\<in>set before. chunk_lo c < unat index"
    and ex: "excerpt S (index, d)" and len: "length S < 2 ^ 64"
    and mb: "merge_backward before index d = (b, i, d')"
  shows "if b then excerpt S (i, d') \<and> unat index \<le> unat i \<and> chunk_hi (i, d') = chunk_hi (index, d)
      \<and> (\<forall>c\<in>set before. chunk_lo c < unat i \<and> chunk_hi c \<le> unat i)
      \<and> chunk_span (index, d) \<subseteq> covered before \<union> chunk_span (i, d')
    else chunk_span (index, d) \<subseteq> covered before"
proof (cases "before = []")
  case True
  then show ?thesis using mb ex by (simp add: merge_backward_def)
next
  case False
  obtain k x where l: "last before = (k, x)" by fastforce
  have mem: "(k, x) \<in> set before" using False l by (metis last_in_set)
  have exl: "excerpt S (k, x)" using ok mem by (simp add: chunks_ok_def)
  have pe: "unat (k + sz x) = chunk_hi (k, x)" using exl len by (rule excerpt_end)
  have ie: "unat (index + sz d) = chunk_hi (index, d)" using ex len by (rule excerpt_end)
  have klo: "unat k < unat index" using lo mem by (auto simp: chunk_lo_def)
  have mx: "\<forall>c\<in>set before. chunk_hi c \<le> chunk_hi (k, x)"
    using last_chunk_bounds [OF ok] l by auto
  have cov: "chunk_span (k, x) \<subseteq> covered before" using mem by (auto simp: covered_def)
  show ?thesis
  proof (cases "index < k + sz x")
    case False
    then have "chunk_hi (k, x) \<le> unat index" by (simp add: word_less_nat_alt pe)
    with False mb ex lo mx \<open>before \<noteq> []\<close> l show ?thesis
      by (auto simp: merge_backward_def intro: le_trans)
  next
    case True
    show ?thesis
    proof (cases "index + sz d < k + sz x")
      case True2: True
      then have "chunk_hi (index, d) < chunk_hi (k, x)" by (simp add: word_less_nat_alt pe ie)
      then have "chunk_span (index, d) \<subseteq> chunk_span (k, x)"
        using klo by (auto simp: chunk_span_def chunk_simps)
      with True True2 mb \<open>before \<noteq> []\<close> l cov show ?thesis
        by (auto simp: merge_backward_def)
    next
      case F2: False
      define n where "n = unat (k + sz x - index)"
      have n: "n = chunk_hi (k, x) - unat index"
        using True by (simp add: n_def unat_sub word_less_nat_alt word_le_nat_alt pe)
      have lt: "unat index < chunk_hi (k, x)" using True by (simp add: word_less_nat_alt pe)
      have le: "chunk_hi (k, x) \<le> chunk_hi (index, d)"
        using F2 by (simp add: word_less_nat_alt pe ie)
      have nd: "n \<le> length d" using le n by (simp add: chunk_hi_def)
      have r: "b" "i = k + sz x" "d' = drop n d"
        using mb True F2 \<open>before \<noteq> []\<close> l by (auto simp: merge_backward_def n_def)
      have ui: "unat i = unat index + n" using r(2) pe n lt by simp
      have hid: "chunk_hi (i, d') = chunk_hi (index, d)"
        using nd by (simp add: chunk_hi_def r(3) ui)
      have "excerpt S (i, d')" unfolding r(3) using ex nd ui by (rule excerpt_drop)
      moreover have "chunk_span (index, d) \<subseteq> chunk_span (k, x) \<union> chunk_span (i, d')"
        using klo hid lt by (auto simp: chunk_span_def chunk_lo_def ui n)
      then have "chunk_span (index, d) \<subseteq> covered before \<union> chunk_span (i, d')"
        using cov by blast
      moreover have "\<forall>c\<in>set before. chunk_lo c < unat i \<and> chunk_hi c \<le> unat i"
        using lo mx lt n ui by fastforce
      ultimately show ?thesis using r(1) hid ui by simp
    qed
  qed
qed

lemma truncate_forward:
  assumes ok: "chunks_ok S after" and ex: "excerpt S (index, data)" and len: "length S < 2 ^ 64"
    and up: "\<forall>c\<in>set after. unat index \<le> chunk_lo c"
    and past: "after \<noteq> [] \<Longrightarrow> chunk_hi (index, data) < chunk_hi (hd after)"
    and res: "res = (case after of
            [] \<Rightarrow> merge_backward before index data
          | (k, d) # _ \<Rightarrow>
              if k = index then (False, index, data)
              else if k < index + sz data
                   then merge_backward before index (take (unat (k - index)) data)
                   else merge_backward before index data)"
  shows "\<not> fst res \<and> chunk_span (index, data) \<subseteq> covered after \<or>
    (\<exists>d2. res = merge_backward before index d2 \<and> excerpt S (index, d2) \<and>
      (\<forall>c\<in>set after. chunk_hi (index, d2) \<le> chunk_lo c) \<and>
      chunk_span (index, d2) \<subseteq> chunk_span (index, data) \<and>
      chunk_span (index, data) \<subseteq> chunk_span (index, d2) \<union> covered after)"
proof (cases after)
  case Nil
  then show ?thesis using res ex by auto
next
  case (Cons c cs)
  obtain k d where c: "c = (k, d)" by (cases c)
  have end_eq: "unat (index + sz data) = chunk_hi (index, data)" using ex len by (rule excerpt_end)
  have hi: "chunk_hi (index, data) < chunk_hi (k, d)" using past Cons c by simp
  have rest_lo: "\<forall>x\<in>set cs. chunk_hi (k, d) \<le> chunk_lo x"
    using ok by (auto simp: Cons c chunk_before_def)
  have ik: "unat index \<le> unat k" using up by (simp add: Cons c chunk_lo_def)
  consider (eq) "k = index" | (cut) "k \<noteq> index" "k < index + sz data"
    | (apart) "k \<noteq> index" "\<not> k < index + sz data" by blast
  then show ?thesis
  proof cases
    case eq
    then show ?thesis using res hi by (auto simp: Cons c chunk_span_def chunk_lo_def)
  next
    case cut
    define n where "n = unat (k - index)"
    have n: "n = unat k - unat index" using ik by (simp add: n_def unat_sub word_le_nat_alt)
    have "unat k < chunk_hi (index, data)" using cut(2) by (simp add: word_less_nat_alt end_eq)
    then have h: "chunk_hi (index, take n data) = unat k"
      using n ik by (simp add: chunk_hi_def)
    have "res = merge_backward before index (take n data)"
      using res cut by (simp add: Cons c n_def)
    moreover have "\<forall>x\<in>set after. chunk_hi (index, take n data) \<le> chunk_lo x"
      using rest_lo h by (auto simp: Cons c chunk_lo_def chunk_hi_def)
    moreover have "chunk_span (index, take n data) \<subseteq> chunk_span (index, data)"
      by (auto simp: chunk_span_def chunk_simps)
    moreover have "chunk_span (index, data) \<subseteq> chunk_span (index, take n data) \<union> covered after"
      using h hi by (auto simp: Cons c chunk_span_def chunk_lo_def)
    ultimately show ?thesis using excerpt_take [OF ex] by blast
  next
    case apart
    then have h: "chunk_hi (index, data) \<le> unat k" by (simp add: word_less_nat_alt end_eq)
    have "res = merge_backward before index data" using res apart by (simp add: Cons c)
    moreover have "\<forall>x\<in>set after. chunk_hi (index, data) \<le> chunk_lo x"
      using rest_lo h hi by (fastforce simp: Cons c chunk_lo_def)
    ultimately show ?thesis using ex by blast
  qed
qed

lemma merge_spec:
  assumes ok: "chunks_ok S (sr_reassemble_buffer r)" and ex: "excerpt S (index, data)"
    and len: "length S < 2 ^ 64"
    and m: "StreamReassembler_merge r index data = (r', b, i, d)"
  shows "\<exists>before after. sr_reassemble_buffer r' = before @ after \<and> chunks_ok S (before @ after) \<and>
    covered (sr_reassemble_buffer r) \<subseteq> covered (before @ after) \<union> chunk_span (index, data) \<and>
    covered (before @ after) \<subseteq> covered (sr_reassemble_buffer r) \<and>
    (if b then excerpt S (i, d) \<and> chunk_span (i, d) \<subseteq> chunk_span (index, data)
       \<and> (\<forall>c\<in>set before. chunk_lo c < unat i \<and> chunk_hi c \<le> unat i)
       \<and> (\<forall>c\<in>set after. chunk_hi (i, d) \<le> chunk_lo c)
       \<and> chunk_span (index, data) \<subseteq> covered (before @ after) \<union> chunk_span (i, d)
     else chunk_span (index, data) \<subseteq> covered (before @ after))"
proof -
  let ?cs = "sr_reassemble_buffer r"
  define before where "before = takeWhile (\<lambda>e. fst e < index) ?cs"
  define rest where "rest = dropWhile (\<lambda>e. fst e < index) ?cs"
  define swallowed where "swallowed = takeWhile (\<lambda>c. chunk_hi c \<le> chunk_hi (index, data)) rest"
  define after where "after = dropWhile (\<lambda>c. chunk_hi c \<le> chunk_hi (index, data)) rest"
  have cs: "?cs = before @ swallowed @ after"
    by (simp add: before_def rest_def swallowed_def after_def)
  have restsplit: "rest = swallowed @ after" by (simp add: swallowed_def after_def)
  have okc: "chunks_ok S (before @ swallowed @ after)" using ok by (simp add: cs)
  have lo: "\<forall>c\<in>set before. chunk_lo c < unat index"
    unfolding before_def by (auto dest: takeWhile_below)
  have up: "\<forall>c\<in>set rest. unat index \<le> chunk_lo c"
    using dropWhile_above [OF ok] by (simp add: rest_def)
  have sw: "covered swallowed \<subseteq> chunk_span (index, data)"
  proof -
    have "chunk_span c \<subseteq> chunk_span (index, data)" if "c \<in> set swallowed" for c
      using that up set_takeWhileD [of c _ rest] unfolding swallowed_def
      by (fastforce simp: chunk_span_def chunk_lo_def)
    then show ?thesis by (auto simp: covered_def)
  qed
  have "chunks_ok S rest" using okc by (simp add: restsplit)
  then have sndmf: "snd (merge_forward index (sz data) (sr_unassembled_bytes r) rest) = after"
    unfolding after_def using ex len by (rule merge_forward_dropWhile)
  obtain u where mf: "merge_forward index (sz data) (sr_unassembled_bytes r) rest = (u, after)"
    using sndmf by (cases "merge_forward index (sz data) (sr_unassembled_bytes r) rest") auto
  have r': "r' = r\<lparr>sr_reassemble_buffer := before @ after, sr_unassembled_bytes := u\<rparr>"
    and res: "(b, i, d) = (case after of
            [] \<Rightarrow> merge_backward before index data
          | (k, d) # _ \<Rightarrow>
              if k = index then (False, index, data)
              else if k < index + sz data
                   then merge_backward before index (take (unat (k - index)) data)
                   else merge_backward before index data)"
    using m by (simp_all add: StreamReassembler_merge_def mf flip: before_def rest_def)
  have buf: "sr_reassemble_buffer r' = before @ after" by (simp add: r')
  have up': "\<forall>c\<in>set after. unat index \<le> chunk_lo c" using up by (simp add: restsplit)
  have past: "after \<noteq> [] \<Longrightarrow> chunk_hi (index, data) < chunk_hi (hd after)"
    using hd_dropWhile [of "\<lambda>c. chunk_hi c \<le> chunk_hi (index, data)" rest]
    by (simp add: after_def)
  have oka: "chunks_ok S (before @ after)" "chunks_ok S before" "chunks_ok S after"
    using okc by auto
  have c1: "covered ?cs \<subseteq> covered (before @ after) \<union> chunk_span (index, data)"
    and c2: "covered (before @ after) \<subseteq> covered ?cs"
    using sw by (auto simp: cs)
  consider (no) "\<not> b" "chunk_span (index, data) \<subseteq> covered after"
    | (go) d2 where "merge_backward before index d2 = (b, i, d)" "excerpt S (index, d2)"
      "\<forall>c\<in>set after. chunk_hi (index, d2) \<le> chunk_lo c"
      "chunk_span (index, d2) \<subseteq> chunk_span (index, data)"
      "chunk_span (index, data) \<subseteq> chunk_span (index, d2) \<union> covered after"
    using truncate_forward [OF oka(3) ex len up' past res] by auto
  then show ?thesis
  proof cases
    case no
    then show ?thesis using buf oka(1) c1 c2 by auto
  next
    case go
    note mb = merge_backward_spec [OF oka(2) lo go(2) len go(1)]
    have "chunk_span (i, d) \<subseteq> chunk_span (index, d2)" if b
      using mb that by (auto simp: chunk_span_def chunk_lo_def)
    then have "if b then excerpt S (i, d) \<and> chunk_span (i, d) \<subseteq> chunk_span (index, data)
       \<and> (\<forall>c\<in>set before. chunk_lo c < unat i \<and> chunk_hi c \<le> unat i)
       \<and> (\<forall>c\<in>set after. chunk_hi (i, d) \<le> chunk_lo c)
       \<and> chunk_span (index, data) \<subseteq> covered (before @ after) \<union> chunk_span (i, d)
     else chunk_span (index, data) \<subseteq> covered (before @ after)"
      using mb go(3,4,5) by (cases b) (simp_all, blast+)
    then show ?thesis using buf oka(1) c1 c2 by blast
  qed
qed

text \<open>Insertion never loses a stored position, adds exactly the positions of the new data, and keeps
  the entries sorted, disjoint and truthful.\<close>

lemma insert_spec:
  assumes ok: "chunks_ok S (sr_reassemble_buffer r)" and ex: "excerpt S (index, data)"
    and len: "length S < 2 ^ 64"
  shows "chunks_ok S (sr_reassemble_buffer (StreamReassembler_insert r index data))"
    and "covered (sr_reassemble_buffer (StreamReassembler_insert r index data))
      = covered (sr_reassemble_buffer r) \<union> chunk_span (index, data)"
proof -
  let ?r = "StreamReassembler_insert r index data"
  have "chunks_ok S (sr_reassemble_buffer ?r) \<and>
    covered (sr_reassemble_buffer ?r) = covered (sr_reassemble_buffer r) \<union> chunk_span (index, data)"
  proof (cases "sr_reassemble_buffer r = []")
    case True
    then show ?thesis using ex by (simp add: StreamReassembler_insert_def)
  next
    case False
    obtain r' b i d where m: "StreamReassembler_merge r index data = (r', b, i, d)"
      by (cases "StreamReassembler_merge r index data")
    obtain before after where s: "sr_reassemble_buffer r' = before @ after"
      "chunks_ok S (before @ after)"
      "covered (sr_reassemble_buffer r) \<subseteq> covered (before @ after) \<union> chunk_span (index, data)"
      "covered (before @ after) \<subseteq> covered (sr_reassemble_buffer r)"
      "if b then excerpt S (i, d) \<and> chunk_span (i, d) \<subseteq> chunk_span (index, data)
       \<and> (\<forall>c\<in>set before. chunk_lo c < unat i \<and> chunk_hi c \<le> unat i)
       \<and> (\<forall>c\<in>set after. chunk_hi (i, d) \<le> chunk_lo c)
       \<and> chunk_span (index, data) \<subseteq> covered (before @ after) \<union> chunk_span (i, d)
     else chunk_span (index, data) \<subseteq> covered (before @ after)"
      using merge_spec [OF ok ex len m] by blast
    show ?thesis
    proof (cases b)
      case True
      with s(5) emplace_between [OF s(2), of i d] s(1,3,4) False m show ?thesis
        by (simp add: StreamReassembler_insert_def) blast
    next
      case False2: False
      with s False m show ?thesis by (simp add: StreamReassembler_insert_def) blast
    qed
  qed
  then show "chunks_ok S (sr_reassemble_buffer ?r)"
    and "covered (sr_reassemble_buffer ?r) = covered (sr_reassemble_buffer r) \<union> chunk_span (index, data)"
    by auto
qed

subsection \<open>Delivering the contiguous prefix\<close>

text \<open>\<open>first_gap e C g\<close>: \<open>g\<close> is the first position from \<open>e\<close> on that is not in \<open>C\<close>.\<close>

definition first_gap :: "nat \<Rightarrow> nat set \<Rightarrow> nat \<Rightarrow> bool" where
  "first_gap e C g \<longleftrightarrow> e \<le> g \<and> {e..<g} \<subseteq> C \<and> g \<notin> C"

lemma first_gap_unique: "first_gap e C g \<Longrightarrow> first_gap e C h \<Longrightarrow> g = h"
  by (cases g h rule: linorder_cases) (auto simp: first_gap_def subset_iff)

lemma first_gap_exists: "finite C \<Longrightarrow> \<exists>g. first_gap e C g"
proof -
  assume "finite C"
  then obtain m where "\<forall>i\<in>C. i < m" using finite_nat_set_iff_bounded by blast
  then have "e + m \<notin> C" by auto
  then have ex: "\<exists>g. e \<le> g \<and> g \<notin> C" by (rule_tac x = "e + m" in exI) simp
  define g where "g = (LEAST g. e \<le> g \<and> g \<notin> C)"
  have "e \<le> g \<and> g \<notin> C" unfolding g_def using ex by (rule LeastI_ex)
  moreover have "i \<in> C" if "e \<le> i" "i < g" for i
    using that not_less_Least [of i "\<lambda>g. e \<le> g \<and> g \<notin> C"] by (auto simp: g_def)
  ultimately show ?thesis by (auto simp: first_gap_def intro!: exI [of _ g])
qed

lemma finite_covered [simp]: "finite (covered cs)"
  by (simp add: covered_def chunk_span_def)

text \<open>The output holds the bytes of \<open>S\<close> from the reader's position up to the next expected one.\<close>

definition out_ok :: "bytes \<Rightarrow> u64 \<Rightarrow> ByteStream \<Rightarrow> bool" where
  "out_ok S e out \<longleftrightarrow> ByteStream_inv out \<and> unat e \<le> length S \<and> bs_bytes_written out = e \<and>
     unat (bs_bytes_read out) \<le> unat e \<and>
     bs_buffer_list out = slc (unat (bs_bytes_read out)) (unat e) S"

abbreviation room :: "ByteStream \<Rightarrow> nat" where
  "room out \<equiv> unat (ByteStream_remaining_capacity out)"

lemma out_ok_write:
  assumes ok: "out_ok S e out" and open_out: "\<not> ByteStream_input_ended out"
    and d: "d = slc (unat e) (unat e + length d) S" and bound: "unat e + length d \<le> length S"
    and fits: "length d \<le> room out" and len: "length S < 2 ^ 64"
  shows "out_ok S (e + sz d) (fst (ByteStream_write out d))"
    and "unat (e + sz d) = unat e + length d"
    and "room (fst (ByteStream_write out d)) = room out - length d"
    and "\<not> ByteStream_input_ended (fst (ByteStream_write out d))"
    and "bs_bytes_read (fst (ByteStream_write out d)) = bs_bytes_read out"
    and "bs_capacity (fst (ByteStream_write out d)) = bs_capacity out"
proof -
  have inv: "ByteStream_inv out" using ok by (simp add: out_ok_def)
  have l: "length d < 2 ^ 64" using bound len by simp
  have acc: "accepted out d = d" using open_out fits by (simp add: accepted_def)
  have w: "fst (ByteStream_write out d) =
      out\<lparr>bs_buffer_list := bs_buffer_list out @ d, bs_bytes_written := bs_bytes_written out + sz d\<rparr>"
    by (simp add: write_accepted [OF inv l] acc)
  have inv': "ByteStream_inv (fst (ByteStream_write out d))" using inv l by (rule write_inv)
  show e: "unat (e + sz d) = unat e + length d"
    using bound len by (simp add: unat_add_no_wrap unat_sz [OF l])
  have "bs_buffer_list out @ d = slc (unat (bs_bytes_read out)) (unat e + length d) S"
    using ok by (subst (1) d) (simp add: out_ok_def slc_append)
  then show "out_ok S (e + sz d) (fst (ByteStream_write out d))"
    using ok inv' e bound by (simp add: out_ok_def w)
  show "room (fst (ByteStream_write out d)) = room out - length d"
    by (subst unat_remaining_capacity [OF inv']) (simp add: w unat_remaining_capacity [OF inv])
  show "\<not> ByteStream_input_ended (fst (ByteStream_write out d))"
    and "bs_bytes_read (fst (ByteStream_write out d)) = bs_bytes_read out"
    and "bs_capacity (fst (ByteStream_write out d)) = bs_capacity out"
    using open_out by (simp_all add: w ByteStream_input_ended_def)
qed

text \<open>The bytes that one iteration of the loop hands to the output.\<close>

definition send_data :: "u64 \<Rightarrow> bytes \<Rightarrow> u64 \<Rightarrow> u64 \<Rightarrow> bytes" where
  "send_data index data expected space =
     (let data = (if index < expected then drop (unat (expected - index)) data else data)
      in if sz data > space then take (unat space) data else data)"

lemma send_loop_Cons:
  "send_loop ((index, data) # m) expected unassembled output =
     (if index \<le> expected then
        if index + sz data > expected then
          let d = send_data index data expected (ByteStream_remaining_capacity output)
          in send_loop m (expected + sz d) (unassembled - sz d) (fst (ByteStream_write output d))
        else send_loop m expected unassembled output
      else ((index, data) # m, expected, unassembled, output))"
  by (simp add: send_data_def Let_def)

lemma send_data_excerpt:
  assumes ex: "excerpt S (k, d)" and len: "length S < 2 ^ 64"
    and ke: "k \<le> e" and past: "e < k + sz d"
  shows "length (send_data k d e space) = min (chunk_hi (k, d) - unat e) (unat space)"
    and "send_data k d e space
      = slc (unat e) (unat e + length (send_data k d e space)) S"
    and "unat e + length (send_data k d e space) \<le> length S"
proof -
  define n where "n = unat e - unat k"
  have kd: "unat (k + sz d) = chunk_hi (k, d)" using ex len by (rule excerpt_end)
  have lt: "unat e < chunk_hi (k, d)" using past by (simp add: word_less_nat_alt kd)
  have ke': "unat k \<le> unat e" using ke by (simp add: word_le_nat_alt)
  have n: "n \<le> length d" "unat e = unat k + n" using lt ke' by (simp_all add: n_def chunk_hi_def)
  have d1: "(if k < e then drop (unat (e - k)) d else d) = drop n d"
    using ke ke' by (auto simp: n_def unat_sub word_less_nat_alt)
  have ex1: "excerpt S (e, drop n d)" using ex n by (rule excerpt_drop)
  have l1: "length (drop n d) < 2 ^ 64" using excerpt_end(2) [OF ex1 len] .
  have d2: "send_data k d e space = take (unat space) (drop n d)"
    unfolding send_data_def d1 Let_def using unat_sz [OF l1]
    by (auto simp: word_less_nat_alt)
  have ex2: "excerpt S (e, send_data k d e space)" unfolding d2 using ex1 by (rule excerpt_take)
  show "length (send_data k d e space) = min (chunk_hi (k, d) - unat e) (unat space)"
    using n by (simp add: d2 chunk_hi_def)
  show "send_data k d e space = slc (unat e) (unat e + length (send_data k d e space)) S"
    using excerpt_slc [OF ex2] by (simp add: chunk_simps)
  show "unat e + length (send_data k d e space) \<le> length S"
    using ex2 by (simp add: excerpt_def chunk_simps)
qed

definition sent_ok :: "bytes \<Rightarrow> chunk list \<Rightarrow> u64 \<Rightarrow> ByteStream \<Rightarrow>
    chunk list \<Rightarrow> u64 \<Rightarrow> ByteStream \<Rightarrow> bool" where
  "sent_ok S cs e out cs' e' out' \<longleftrightarrow>
     chunks_ok S cs' \<and> (\<forall>c\<in>set cs'. unat e' < chunk_lo c) \<and> out_ok S e' out' \<and>
     (ByteStream_input_ended out' \<longleftrightarrow> ByteStream_input_ended out) \<and> covered cs' \<subseteq> covered cs \<and>
     bs_bytes_read out' = bs_bytes_read out \<and> bs_capacity out' = bs_capacity out \<and>
     (\<forall>g. first_gap (unat e) (covered cs) g \<longrightarrow>
        unat e' = min g (unat e + room out) \<and>
        (g \<le> unat e + room out \<longrightarrow> covered cs' = covered cs - {..<unat e'}))"

text \<open>How the first gap moves when the loop goes past an entry that starts at or below \<open>e\<close>.\<close>

lemma first_gap_skip:
  assumes "chunk_hi c \<le> e"
  shows "first_gap e (covered (c # cs)) g \<longleftrightarrow> first_gap e (covered cs) g"
  using assms by (auto simp: first_gap_def chunk_span_def subset_iff)

lemma first_gap_send:
  assumes "chunk_lo c \<le> e" and "e < chunk_hi c" and "first_gap e (covered (c # cs)) g"
  shows "chunk_hi c \<le> g" and "first_gap (chunk_hi c) (covered cs) g"
proof -
  show hi: "chunk_hi c \<le> g"
    using assms by (auto simp: first_gap_def chunk_span_def)
  have "i \<in> covered cs" if "chunk_hi c \<le> i" "i < g" for i
  proof -
    have "i \<in> {e..<g}" using that assms(2) by simp
    then have "i \<in> covered (c # cs)" using assms(3) unfolding first_gap_def by blast
    with that(1) show ?thesis by (simp add: chunk_span_def)
  qed
  with hi assms(3) show "first_gap (chunk_hi c) (covered cs) g"
    by (auto simp: first_gap_def)
qed

lemma sent_ok_skip:
  assumes "sent_ok S cs e out cs' e' out'" and "chunk_hi c \<le> unat e"
  shows "sent_ok S (c # cs) e out cs' e' out'"
proof -
  have span: "chunk_span c \<subseteq> {..<unat e}" using assms(2) by (auto simp: chunk_span_def)
  have "unat e' = min g (unat e + room out) \<and>
        (g \<le> unat e + room out \<longrightarrow> covered cs' = covered (c # cs) - {..<unat e'})"
    if "first_gap (unat e) (covered (c # cs)) g" for g
  proof -
    have g: "first_gap (unat e) (covered cs) g" using that by (rule first_gap_skip [OF assms(2), THEN iffD1])
    then have e': "unat e' = min g (unat e + room out)" using assms(1) by (simp add: sent_ok_def)
    have "unat e \<le> g" using g by (simp add: first_gap_def)
    then have "chunk_span c \<subseteq> {..<unat e'}" using span e' by auto
    then have "covered (c # cs) - {..<unat e'} = covered cs - {..<unat e'}" by auto
    with g e' assms(1) show ?thesis unfolding sent_ok_def by blast
  qed
  with assms(1) show ?thesis unfolding sent_ok_def covered_simps by blast
qed

lemma sent_ok_whole:
  assumes "sent_ok S cs e1 out1 cs' e' out'" and "chunk_lo c \<le> unat e" and "unat e < chunk_hi c"
    and "unat e1 = chunk_hi c" and "unat e1 + room out1 = unat e + room out"
    and "bs_bytes_read out1 = bs_bytes_read out" and "bs_capacity out1 = bs_capacity out"
    and "ByteStream_input_ended out1 \<longleftrightarrow> ByteStream_input_ended out"
  shows "sent_ok S (c # cs) e out cs' e' out'"
proof -
  have "unat e' = min g (unat e + room out) \<and>
        (g \<le> unat e + room out \<longrightarrow> covered cs' = covered (c # cs) - {..<unat e'})"
    if "first_gap (unat e) (covered (c # cs)) g" for g
  proof -
    have hg: "chunk_hi c \<le> g" and g: "first_gap (unat e1) (covered cs) g"
      using first_gap_send [OF assms(2,3) that] assms(4) by simp_all
    then have e': "unat e' = min g (unat e1 + room out1)" using assms(1) by (simp add: sent_ok_def)
    then have "chunk_span c \<subseteq> {..<unat e'}"
      using hg assms(4) by (auto simp: chunk_span_def)
    then have "covered (c # cs) - {..<unat e'} = covered cs - {..<unat e'}" by auto
    with g e' assms(1) show ?thesis unfolding sent_ok_def assms(5) [symmetric] by blast
  qed
  with assms(1,6,7,8) show ?thesis unfolding sent_ok_def covered_simps by auto
qed

lemma sent_ok_cut:
  assumes "sent_ok S cs e1 out1 cs' e' out'" and "chunk_lo c \<le> unat e" and "unat e < chunk_hi c"
    and "unat e1 = unat e + room out" and "unat e1 < chunk_hi c" and "room out1 = 0"
    and "\<forall>x\<in>set cs. chunk_hi c \<le> chunk_lo x"
    and "bs_bytes_read out1 = bs_bytes_read out" and "bs_capacity out1 = bs_capacity out"
    and "ByteStream_input_ended out1 \<longleftrightarrow> ByteStream_input_ended out"
  shows "sent_ok S (c # cs) e out cs' e' out'"
proof -
  have "unat e1 \<notin> covered cs" using assms(5,7) by (fastforce simp: covered_def chunk_span_def)
  then have "first_gap (unat e1) (covered cs) (unat e1)" by (simp add: first_gap_def)
  then have "unat e' = unat e1" using assms(1,6) by (auto simp: sent_ok_def)
  moreover have "unat e + room out < g" if "first_gap (unat e) (covered (c # cs)) g" for g
    using first_gap_send(1) [OF assms(2,3) that] assms(4,5) by simp
  ultimately show ?thesis using assms(1,4,8,9,10) by (fastforce simp: sent_ok_def)
qed

lemma send_loop_spec:
  assumes "chunks_ok S cs" and "out_ok S e out"
    and "ByteStream_input_ended out \<Longrightarrow> covered cs \<subseteq> {..<unat e}"
    and "length S < 2 ^ 64" and "send_loop cs e u out = (cs', e', u', out')"
  shows "sent_ok S cs e out cs' e' out'"
  using assms
proof (induction cs arbitrary: e u out)
  case Nil
  then show ?case by (auto simp: sent_ok_def first_gap_def)
next
  case (Cons c cs)
  obtain k d where c: "c = (k, d)" by (cases c)
  have ex: "excerpt S (k, d)" and ok: "chunks_ok S cs"
    and bef: "\<forall>x\<in>set cs. chunk_before (k, d) x" using Cons.prems(1) by (auto simp: c)
  have kd: "unat (k + sz d) = chunk_hi (k, d)" using ex Cons.prems(4) by (rule excerpt_end)
  consider (stop) "\<not> k \<le> e" | (skip) "k \<le> e" "\<not> e < k + sz d" | (send) "k \<le> e" "e < k + sz d"
    by blast
  then show ?case
  proof cases
    case stop
    then have lt: "unat e < unat k" by (simp add: word_le_nat_alt)
    have r: "cs' = (k, d) # cs" "e' = e" "out' = out"
      using Cons.prems(5) stop by (simp_all add: c)
    have lo: "\<forall>x\<in>set cs'. unat e < chunk_lo x"
      using lt bef by (auto simp: r chunk_lo_def chunk_before_def)
    then have nc: "i \<notin> covered cs'" if "i \<le> unat e" for i
      using that by (fastforce simp: covered_def chunk_span_def)
    have "g = unat e" if "first_gap (unat e) (covered (c # cs)) g" for g
      using that nc [of "unat e"] first_gap_unique [OF that, of "unat e"]
      by (auto simp: first_gap_def r c)
    with lo nc r Cons.prems show ?thesis
      by (fastforce simp: sent_ok_def c)
  next
    case skip
    then have "chunk_hi c \<le> unat e" by (simp add: word_less_nat_alt kd c)
    moreover have "sent_ok S cs e out cs' e' out'"
      using Cons.IH [OF ok Cons.prems(2) _ Cons.prems(4)] Cons.prems(3,5) skip by (simp add: c)
    ultimately show ?thesis by (rule sent_ok_skip [rotated])
  next
    case send
    define x where "x = send_data k d e (ByteStream_remaining_capacity out)"
    note sd = send_data_excerpt [OF ex Cons.prems(4) send, of "ByteStream_remaining_capacity out",
        folded x_def]
    have fits: "length x \<le> room out" by (simp add: sd(1))
    have lo: "chunk_lo c \<le> unat e" and hi: "unat e < chunk_hi c"
      using send by (simp_all add: c chunk_lo_def word_le_nat_alt word_less_nat_alt kd)
    have op: "\<not> ByteStream_input_ended out"
      using Cons.prems(3) lo hi by (fastforce simp: chunk_span_def)
    note w = out_ok_write [OF Cons.prems(2) op sd(2,3) fits Cons.prems(4)]
    have "send_loop cs (e + sz x) (u - sz x) (fst (ByteStream_write out x)) = (cs', e', u', out')"
      using Cons.prems(5) send unfolding c send_loop_Cons x_def by (simp add: Let_def)
    then have so: "sent_ok S cs (e + sz x) (fst (ByteStream_write out x)) cs' e' out'"
      using w(4) by (intro Cons.IH [OF ok w(1) _ Cons.prems(4)]) blast+
    show ?thesis
    proof (cases "chunk_hi c - unat e \<le> room out")
      case True
      then have "length x = chunk_hi c - unat e" using sd(1) by (simp add: c)
      then show ?thesis using so lo hi op w(2-6) fits by (intro sent_ok_whole [OF so]) simp_all
    next
      case False
      then have "length x = room out" using sd(1) by (simp add: c)
      then show ?thesis using so lo hi op w(2-6) False bef
        by (intro sent_ok_cut [OF so]) (auto simp: c chunk_before_def)
    qed
  qed
qed

end
