(* ===== verification/Reassembly.thy ===== *)
theory Reassembly
  imports Stream_Reassembler
begin

text \<open>
  Correctness of the reassembler: the invariant between its fields, what one call of
  \<open>push_substring\<close> does to the stream and to the stored segments, and the two theorems a user of
  the component wants: whatever arrives, the application sees a prefix of the peer's stream, and
  once every byte has arrived, in whatever order, it sees all of it.
\<close>

subsection \<open>The invariant and the specification of a push\<close>

text \<open>
  \<open>S\<close> is the peer's stream. All pushes are excerpts of it, and an end-of-stream flag is only set on
  an excerpt that reaches its end. An empty push may also stand one position behind the end, which
  is where the segments that a peer sends after its FIN are; the reassembler stores such a push, so
  the stored entries are excerpts of the stream with one more position.
\<close>

abbreviation padded :: "bytes \<Rightarrow> bytes" where
  "padded S \<equiv> S @ [0]"

definition reassembler_inv :: "bytes \<Rightarrow> StreamReassembler \<Rightarrow> bool" where
  "reassembler_inv S r \<longleftrightarrow>
     length S < 2 ^ 64 - 2 \<and>
     chunks_ok (padded S) (sr_reassemble_buffer r) \<and>
     covered (sr_reassemble_buffer r) \<subseteq> {..<length S} \<and>
     (\<forall>c\<in>set (sr_reassemble_buffer r). unat (sr_expected r) < chunk_lo c) \<and>
     out_ok S (sr_expected r) (sr_output r) \<and>
     (sr_eof_index r = - 1 \<or> unat (sr_eof_index r) = length S) \<and>
     (ByteStream_input_ended (sr_output r) \<longleftrightarrow> sr_expected r = sr_eof_index r)"

definition honest_push :: "bytes \<Rightarrow> bytes \<Rightarrow> u64 \<Rightarrow> bool \<Rightarrow> bool" where
  "honest_push S data index eof \<longleftrightarrow>
     excerpt (padded S) (index, data) \<and> chunk_span (index, data) \<subseteq> {..<length S} \<and>
     (eof \<longrightarrow> chunk_hi (index, data) = length S)"

lemma honest_push_iff:
  "honest_push S data index eof \<longleftrightarrow>
     (if data = [] then unat index \<le> length S + 1
      else unat index + length data \<le> length S \<and>
        data = take (length data) (drop (unat index) S)) \<and>
     (eof \<longrightarrow> unat index + length data = length S)"
proof (cases "data = []")
  case True
  then show ?thesis by (simp add: honest_push_def excerpt_iff chunk_simps chunk_span_def)
next
  case False
  then have "chunk_span (index, data) \<subseteq> {..<length S} \<longleftrightarrow> unat index + length data \<le> length S"
    by (auto simp: chunk_span_def chunk_simps atLeastLessThan_subset_iff lessThan_atLeast0)
  then show ?thesis using False by (auto simp: honest_push_def excerpt_iff chunk_simps)
qed

lemma out_ok_padded:
  "unat e \<le> length S \<Longrightarrow> out_ok (padded S) e out \<longleftrightarrow> out_ok S e out"
  by (auto simp: out_ok_def slc_def)

lemma reassembler_inv_init:
  "length S < 2 ^ 64 - 2 \<Longrightarrow> reassembler_inv S (StreamReassembler_init capacity)"
  by (simp add: reassembler_inv_def StreamReassembler_init_def out_ok_def)
    (simp add: ByteStream_init_def ByteStream_observers)

lemma insert_frame:
  "sr_expected (StreamReassembler_insert r i d) = sr_expected r"
  "sr_output (StreamReassembler_insert r i d) = sr_output r"
  "sr_eof_index (StreamReassembler_insert r i d) = sr_eof_index r"
  by (auto simp: StreamReassembler_insert_def StreamReassembler_merge_def Let_def
      split: prod.splits)

lemma end_input_out_ok: "out_ok S e out \<Longrightarrow> out_ok S e (ByteStream_end_input out)"
  by (simp add: out_ok_def end_input_inv) (simp add: ByteStream_end_input_def)

lemma room_end_input [simp]: "room (ByteStream_end_input out) = room out"
  by (simp add: ByteStream_end_input_def ByteStream_remaining_capacity_def)

text \<open>The state of the map and the output between the two outer steps of \<open>push_substring\<close>.\<close>

lemma insert_send_spec:
  assumes ok: "chunks_ok S (sr_reassemble_buffer r)"
    and out: "out_ok S (sr_expected r) (sr_output r)"
    and op: "ByteStream_input_ended (sr_output r) \<Longrightarrow>
      covered (sr_reassemble_buffer r) \<union> chunk_span (index, data) \<subseteq> {..<unat (sr_expected r)}"
    and ex: "excerpt S (index, data)" and len: "length S < 2 ^ 64"
    and r': "r' = StreamReassembler_send_to_bytestream (StreamReassembler_insert r index data)"
  obtains cs where "covered cs = covered (sr_reassemble_buffer r) \<union> chunk_span (index, data)"
    and "sent_ok S cs (sr_expected r) (sr_output r)
      (sr_reassemble_buffer r') (sr_expected r') (sr_output r')"
    and "sr_eof_index r' = sr_eof_index r"
proof -
  let ?i = "StreamReassembler_insert r index data"
  note ins = insert_spec [OF ok ex len]
  obtain m e u out' where sl: "send_loop (sr_reassemble_buffer ?i) (sr_expected r)
      (sr_unassembled_bytes ?i) (sr_output r) = (m, e, u, out')"
    by (metis prod_cases4)
  have "sent_ok S (sr_reassemble_buffer ?i) (sr_expected r) (sr_output r) m e out'"
    using ins(1) out _ len sl by (rule send_loop_spec) (use op ins(2) in simp)
  moreover have "r' = ?i\<lparr>sr_reassemble_buffer := m, sr_expected := e,
      sr_unassembled_bytes := u, sr_output := out'\<rparr>"
    using sl by (simp add: r' StreamReassembler_send_to_bytestream_def insert_frame)
  ultimately show ?thesis using that [OF ins(2)] by (simp add: insert_frame)
qed

definition pushed_ok :: "bytes \<Rightarrow> StreamReassembler \<Rightarrow> chunk \<Rightarrow> StreamReassembler \<Rightarrow> bool" where
  "pushed_ok S r c r' \<longleftrightarrow> reassembler_inv S r' \<and>
     bs_bytes_read (sr_output r') = bs_bytes_read (sr_output r) \<and>
     bs_capacity (sr_output r') = bs_capacity (sr_output r) \<and>
     (\<forall>g. first_gap (unat (sr_expected r)) (covered (sr_reassemble_buffer r) \<union> chunk_span c) g \<longrightarrow>
        unat (sr_expected r') = min g (unat (sr_expected r) + room (sr_output r)) \<and>
        (g \<le> unat (sr_expected r) + room (sr_output r) \<longrightarrow>
           covered (sr_reassemble_buffer r')
             = (covered (sr_reassemble_buffer r) \<union> chunk_span c) - {..<unat (sr_expected r')}))"

text \<open>The last statement of \<open>push_substring\<close>.\<close>

definition close_if_done :: "StreamReassembler \<Rightarrow> StreamReassembler" where
  "close_if_done r = (if sr_expected r = sr_eof_index r
     then r\<lparr>sr_output := ByteStream_end_input (sr_output r)\<rparr> else r)"

lemma close_if_done_inv:
  assumes "length S < 2 ^ 64 - 2" and "chunks_ok (padded S) (sr_reassemble_buffer r)"
    and "covered (sr_reassemble_buffer r) \<subseteq> {..<length S}"
    and "\<forall>c\<in>set (sr_reassemble_buffer r). unat (sr_expected r) < chunk_lo c"
    and "out_ok S (sr_expected r) (sr_output r)"
    and "sr_eof_index r = - 1 \<or> unat (sr_eof_index r) = length S"
    and "ByteStream_input_ended (sr_output r) \<Longrightarrow> sr_expected r = sr_eof_index r"
  shows "reassembler_inv S (close_if_done r)"
  using assms end_input_out_ok [OF assms(5)]
  by (simp add: reassembler_inv_def close_if_done_def)
    (auto simp: ByteStream_end_input_def ByteStream_input_ended_def)

lemma close_if_done_frame [simp]:
  "sr_expected (close_if_done r) = sr_expected r"
  "sr_reassemble_buffer (close_if_done r) = sr_reassemble_buffer r"
  "bs_bytes_read (sr_output (close_if_done r)) = bs_bytes_read (sr_output r)"
  "bs_capacity (sr_output (close_if_done r)) = bs_capacity (sr_output r)"
  by (simp_all add: close_if_done_def ByteStream_end_input_def)

lemma honest_end:
  assumes "reassembler_inv S r" and "honest_push S data index eof"
  shows "unat (sz data + index) = chunk_hi (index, data)"
    and "eof \<Longrightarrow> unat (sz data + index) = length S"
proof -
  show e: "unat (sz data + index) = chunk_hi (index, data)"
    unfolding add.commute [of "sz data"] using assms
    by (intro excerpt_end(1) [of "padded S"]) (auto simp: honest_push_def reassembler_inv_def)
  show "unat (sz data + index) = length S" if eof
    using that assms(2) by (simp add: e honest_push_def)
qed

lemma eof_update:
  assumes "reassembler_inv S r" and "honest_push S data index eof"
  shows "(if eof then sz data + index else sr_eof_index r) = - 1 \<or>
    unat (if eof then sz data + index else sr_eof_index r) = length S"
  using honest_end(2) [OF assms] assms(1) by (auto simp: reassembler_inv_def)

lemma not_ended_past_expected:
  assumes "reassembler_inv S r" and "unat (sr_expected r) < length S"
  shows "\<not> ByteStream_input_ended (sr_output r)"
proof
  assume "ByteStream_input_ended (sr_output r)"
  then consider "sr_expected r = - 1" | "unat (sr_expected r) = length S"
    using assms(1) unfolding reassembler_inv_def by metis
  then show False
  proof cases
    case 1
    have "length S < 2 ^ 64 - 2" using assms(1) by (simp add: reassembler_inv_def)
    with unat_max_u64 show False using assms(2) by (simp only: 1)
  next
    case 2
    with assms(2) show False by simp
  qed
qed

lemma ended_expected:
  assumes "reassembler_inv S r" and "ByteStream_input_ended (sr_output r)"
  shows "unat (sr_expected r) = length S"
proof -
  have "\<not> unat (sr_expected r) < length S" using not_ended_past_expected [OF assms(1)] assms(2) by blast
  then show ?thesis using assms(1) by (simp add: reassembler_inv_def out_ok_def)
qed

lemma ended_eof:
  assumes "reassembler_inv S r" and "honest_push S data index eof"
    and "ByteStream_input_ended (sr_output r)"
  shows "sr_expected r = (if eof then sz data + index else sr_eof_index r)"
proof -
  have "unat (sr_expected r) = length S" using assms(1,3) by (rule ended_expected)
  moreover have "sr_expected r = sr_eof_index r" using assms(1,3) by (simp add: reassembler_inv_def)
  ultimately show ?thesis
    using honest_end(2) [OF assms(1,2)] by (simp add: word_unat_eq_iff)
qed

lemma push_nothing_new:
  assumes inv: "reassembler_inv S r" and "chunk_hi c \<le> unat (sr_expected r)"
    and "first_gap (unat (sr_expected r)) (covered (sr_reassemble_buffer r) \<union> chunk_span c) g"
  shows "g = unat (sr_expected r)"
    and "covered (sr_reassemble_buffer r)
      = (covered (sr_reassemble_buffer r) \<union> chunk_span c) - {..<unat (sr_expected r)}"
proof -
  have lo: "\<forall>i\<in>covered (sr_reassemble_buffer r). unat (sr_expected r) < i"
    using inv by (fastforce simp: reassembler_inv_def covered_def chunk_span_def)
  have sp: "\<forall>i\<in>chunk_span c. i < unat (sr_expected r)"
    using assms(2) by (auto simp: chunk_span_def)
  show "covered (sr_reassemble_buffer r)
      = (covered (sr_reassemble_buffer r) \<union> chunk_span c) - {..<unat (sr_expected r)}"
    using lo sp by fastforce
  have "first_gap (unat (sr_expected r)) (covered (sr_reassemble_buffer r) \<union> chunk_span c)
      (unat (sr_expected r))"
    using lo sp by (auto simp: first_gap_def)
  then show "g = unat (sr_expected r)" using assms(3) by (rule first_gap_unique [rotated])
qed

text \<open>Delivery stops at the end of the stream when no position behind it is stored.\<close>

lemma sent_within:
  assumes "sent_ok T cs e out cs' e' out'" and "covered cs \<subseteq> {..<n}" and "unat e \<le> n"
  shows "unat e \<le> unat e'" and "unat e' \<le> n" and "covered cs' \<subseteq> {..<n}"
proof -
  obtain g where g: "first_gap (unat e) (covered cs) g" using first_gap_exists [of "covered cs"] by auto
  then have e': "unat e' = min g (unat e + room out)" using assms(1) by (simp add: sent_ok_def)
  have "g \<le> n"
  proof (rule ccontr)
    assume "\<not> g \<le> n"
    then have "n \<in> covered cs" using g assms(3) unfolding first_gap_def by fastforce
    then show False using assms(2) by blast
  qed
  then show "unat e' \<le> n" by (simp add: e')
  show "unat e \<le> unat e'" using g by (simp add: e' first_gap_def)
  show "covered cs' \<subseteq> {..<n}" using assms(1,2) unfolding sent_ok_def by blast
qed

lemma push_spec:
  assumes inv: "reassembler_inv S r" and h: "honest_push S data index eof"
  shows "pushed_ok S r (index, data) (StreamReassembler_push_substring r data index eof)"
proof -
  define r1 where "r1 = (if eof then r\<lparr>sr_eof_index := sz data + index\<rparr> else r)"
  have r1: "sr_expected r1 = sr_expected r" "sr_reassemble_buffer r1 = sr_reassemble_buffer r"
    "sr_output r1 = sr_output r"
    and eof1: "sr_eof_index r1 = (if eof then sz data + index else sr_eof_index r)"
    by (simp_all add: r1_def)
  have eof_ok: "sr_eof_index r1 = - 1 \<or> unat (sr_eof_index r1) = length S"
    using eof_update [OF inv h] by (simp add: eof1)
  have len1: "length S < 2 ^ 64 - 2" and ok: "chunks_ok (padded S) (sr_reassemble_buffer r1)"
    and cov: "covered (sr_reassemble_buffer r1) \<subseteq> {..<length S}"
    and out: "out_ok S (sr_expected r1) (sr_output r1)"
    using inv by (simp_all add: reassembler_inv_def r1)
  have len: "length (padded S) < 2 ^ 64" and ex: "excerpt (padded S) (index, data)"
    and span: "chunk_span (index, data) \<subseteq> {..<length S}"
    using len1 h by (simp_all add: honest_push_def)
  have outp: "out_ok (padded S) (sr_expected r1) (sr_output r1)"
    using out by (subst out_ok_padded) (simp_all add: out_ok_def)
  have past: "index + sz data > sr_expected r \<longleftrightarrow> unat (sr_expected r) < chunk_hi (index, data)"
    by (simp add: word_less_nat_alt excerpt_end(1) [OF ex len])
  show ?thesis
  proof (cases "unat (sr_expected r) < chunk_hi (index, data)")
    case True
    define r2 where
      "r2 = StreamReassembler_send_to_bytestream (StreamReassembler_insert r1 index data)"
    have op: "covered (sr_reassemble_buffer r1) \<union> chunk_span (index, data)
        \<subseteq> {..<unat (sr_expected r1)}" if "ByteStream_input_ended (sr_output r1)"
      using ended_expected [OF inv] that cov span by (simp add: r1)
    obtain cs where c: "covered cs = covered (sr_reassemble_buffer r) \<union> chunk_span (index, data)"
      and so: "sent_ok (padded S) cs (sr_expected r) (sr_output r)
        (sr_reassemble_buffer r2) (sr_expected r2) (sr_output r2)"
      and e2: "sr_eof_index r2 = sr_eof_index r1"
      using insert_send_spec [OF ok outp op ex len r2_def] unfolding r1 by blast
    have push: "StreamReassembler_push_substring r data index eof = close_if_done r2"
      using True past unfolding StreamReassembler_push_substring_def close_if_done_def
      by (simp add: Let_def r1 flip: r1_def r2_def)
    have "covered cs \<subseteq> {..<length S}" using cov span by (simp add: c r1)
    moreover have "unat (sr_expected r) \<le> length S" using out by (simp add: out_ok_def r1)
    ultimately have sent: "unat (sr_expected r) \<le> unat (sr_expected r2)"
      "unat (sr_expected r2) \<le> length S" "covered (sr_reassemble_buffer r2) \<subseteq> {..<length S}"
      using sent_within [OF so] by simp_all
    have "sr_expected r2 = sr_eof_index r2" if "ByteStream_input_ended (sr_output r2)"
    proof -
      have fin: "ByteStream_input_ended (sr_output r)" using that so by (simp add: sent_ok_def)
      then have "unat (sr_expected r) = length S" by (rule ended_expected [OF inv])
      then have "unat (sr_expected r2) = length S" using sent by simp
      then have "sr_expected r2 = sr_expected r"
        using ended_expected [OF inv fin] by (simp add: word_unat_eq_iff)
      then show ?thesis using ended_eof [OF inv h fin] by (simp add: e2 eof1)
    qed
    then have "reassembler_inv S (close_if_done r2)"
      using so sent eof_ok len1 by (intro close_if_done_inv)
        (auto simp: sent_ok_def e2 out_ok_padded dest: subsetD)
    then show ?thesis using so unfolding push by (simp add: pushed_ok_def sent_ok_def c)
  next
    case False
    then have le: "chunk_hi (index, data) \<le> unat (sr_expected r)" by simp
    have "StreamReassembler_push_substring r data index eof = close_if_done r1"
      using False past unfolding StreamReassembler_push_substring_def close_if_done_def
      by (simp add: Let_def r1 flip: r1_def)
    moreover have "reassembler_inv S (close_if_done r1)"
    proof (rule close_if_done_inv [OF len1 ok cov _ out eof_ok])
      show "\<forall>c\<in>set (sr_reassemble_buffer r1). unat (sr_expected r1) < chunk_lo c"
        using inv by (simp add: reassembler_inv_def r1)
    next
      assume "ByteStream_input_ended (sr_output r1)"
      then show "sr_expected r1 = sr_eof_index r1"
        using ended_eof [OF inv h] by (simp add: r1 eof1)
    qed
    moreover have "unat (sr_expected r) = min g (unat (sr_expected r) + room (sr_output r)) \<and>
        covered (sr_reassemble_buffer r) = (covered (sr_reassemble_buffer r)
          \<union> chunk_span (index, data)) - {..<unat (sr_expected r)}"
      if "first_gap (unat (sr_expected r))
        (covered (sr_reassemble_buffer r) \<union> chunk_span (index, data)) g" for g
      using push_nothing_new [OF inv le that] by simp
    ultimately show ?thesis unfolding pushed_ok_def by (simp add: r1)
  qed
qed

subsection \<open>Runs\<close>

text \<open>A run of a reassembler: segments pushed by the network and bytes read by the application from
  \<open>stream_out()\<close>, with the bytes that the reads returned.\<close>

datatype reassembler_call = Push bytes u64 bool | Consume u64

definition StreamReassembler_consume :: "StreamReassembler \<Rightarrow> u64 \<Rightarrow> StreamReassembler \<times> bytes" where
  "StreamReassembler_consume r n =
     (let (out, d) = ByteStream_read (sr_output r) n in (r\<lparr>sr_output := out\<rparr>, d))"

fun reassembler_run ::
  "StreamReassembler \<Rightarrow> reassembler_call list \<Rightarrow> StreamReassembler \<times> bytes" where
  "reassembler_run r [] = (r, [])"
| "reassembler_run r (Push data index eof # cs) =
     reassembler_run (StreamReassembler_push_substring r data index eof) cs"
| "reassembler_run r (Consume n # cs) =
     (let (r1, d) = StreamReassembler_consume r n; (r2, ds) = reassembler_run r1 cs
      in (r2, d @ ds))"

fun honest_call :: "bytes \<Rightarrow> reassembler_call \<Rightarrow> bool" where
  "honest_call S (Push data index eof) = honest_push S data index eof"
| "honest_call S (Consume n) = True"

lemma slc_take_length: "i \<le> e \<Longrightarrow> e \<le> length S \<Longrightarrow>
  take n (slc i e S) = slc i (i + length (take n (slc i e S))) S"
  by (simp add: take_slc min_def)

text \<open>Reading from a stream that holds a part of \<open>S\<close>.\<close>

lemma out_ok_read:
  assumes ok: "out_ok S e out" and rd: "ByteStream_read out n = (out', d)"
  shows "out_ok S e out'"
    and "d = slc (unat (bs_bytes_read out)) (unat (bs_bytes_read out')) S"
    and "unat (bs_bytes_read out') = unat (bs_bytes_read out) + length d"
    and "d = take (unat n) (bs_buffer_list out)"
    and "ByteStream_input_ended out' = ByteStream_input_ended out"
    and "bs_capacity out' = bs_capacity out"
proof -
  have bi: "ByteStream_inv out" and r: "unat (bs_bytes_read out) \<le> unat e"
    and el: "unat e \<le> length S"
    and buf: "bs_buffer_list out = slc (unat (bs_bytes_read out)) (unat e) S"
    using ok by (simp_all add: out_ok_def)
  define t where "t = take (unat n) (bs_buffer_list out)"
  have out': "out' = out\<lparr>bs_bytes_read := bs_bytes_read out + sz t,
      bs_buffer_list := drop (unat n) (bs_buffer_list out)\<rparr>" and d: "d = t"
    using rd unfolding read_take_drop [OF bi] t_def [symmetric] by auto
  show "d = take (unat n) (bs_buffer_list out)" by (simp add: d t_def)
  have lt: "length t \<le> unat e - unat (bs_bytes_read out)" using el by (simp add: t_def buf)
  then have lt64: "length t < 2 ^ 64" using unat_u64_bound [of e] by simp
  have u: "unat (bs_bytes_read out + sz t) = unat (bs_bytes_read out) + length t"
    using lt r unat_u64_bound [of e] by (simp add: unat_add_no_wrap unat_sz [OF lt64])
  then show rd': "unat (bs_bytes_read out') = unat (bs_bytes_read out) + length d"
    by (simp add: out' d)
  have "t = slc (unat (bs_bytes_read out)) (unat (bs_bytes_read out) + length t) S"
    unfolding t_def buf by (rule slc_take_length [OF r el])
  then show "d = slc (unat (bs_bytes_read out)) (unat (bs_bytes_read out')) S"
    unfolding rd' d .
  have "ByteStream_inv out'"
    using read_inv [OF bi, of n] by (simp add: out' read_take_drop [OF bi] t_def)
  moreover have "drop (unat n) (bs_buffer_list out)
      = slc (unat (bs_bytes_read out) + length t) (unat e) S"
    using el by (auto simp: t_def buf drop_slc min_def) (simp add: slc_def)
  ultimately show "out_ok S e out'" using ok lt r by (simp add: out_ok_def out' u)
  show "ByteStream_input_ended out' = ByteStream_input_ended out" "bs_capacity out' = bs_capacity out"
    by (simp_all add: out' ByteStream_input_ended_def)
qed

lemma consume_spec:
  assumes inv: "reassembler_inv S r" and c: "StreamReassembler_consume r n = (r', d)"
  shows "reassembler_inv S r'"
    and "d = slc (unat (bs_bytes_read (sr_output r))) (unat (bs_bytes_read (sr_output r'))) S"
    and "unat (bs_bytes_read (sr_output r)) \<le> unat (bs_bytes_read (sr_output r'))"
proof -
  obtain out where rd: "ByteStream_read (sr_output r) n = (out, d)" and r': "r' = r\<lparr>sr_output := out\<rparr>"
    using c by (auto simp: StreamReassembler_consume_def split: prod.splits)
  have "out_ok S (sr_expected r) (sr_output r)" using inv by (simp add: reassembler_inv_def)
  note read = out_ok_read [OF this rd]
  show "reassembler_inv S r'" using inv read(1,5) by (simp add: reassembler_inv_def r')
  show "d = slc (unat (bs_bytes_read (sr_output r))) (unat (bs_bytes_read (sr_output r'))) S"
    using read(2) by (simp add: r')
  show "unat (bs_bytes_read (sr_output r)) \<le> unat (bs_bytes_read (sr_output r'))"
    using read(3) by (simp add: r')
qed

lemma reassembler_run_spec:
  assumes "reassembler_inv S r" and "list_all (honest_call S) cs"
    and "reassembler_run r cs = (r', given)"
  shows "reassembler_inv S r' \<and>
    given = slc (unat (bs_bytes_read (sr_output r))) (unat (bs_bytes_read (sr_output r'))) S \<and>
    unat (bs_bytes_read (sr_output r)) \<le> unat (bs_bytes_read (sr_output r'))"
  using assms
proof (induction r cs arbitrary: r' given rule: reassembler_run.induct)
  case (1 r)
  then show ?case by simp
next
  case (2 r data index eof cs)
  have "pushed_ok S r (index, data) (StreamReassembler_push_substring r data index eof)"
    using "2.prems" by (intro push_spec) simp_all
  then show ?case using "2.IH" [of r' given] "2.prems" by (simp add: pushed_ok_def)
next
  case (3 r n cs)
  obtain r1 d where c: "StreamReassembler_consume r n = (r1, d)" by fastforce
  obtain ds where run: "reassembler_run r1 cs = (r', ds)" and g: "given = d @ ds"
    using "3.prems"(3) by (auto simp: c split: prod.splits)
  note cs = consume_spec [OF "3.prems"(1) c]
  from "3.IH" [OF c [symmetric] refl cs(1) _ run] "3.prems"(2) cs(2,3) show ?case
    by (simp add: g slc_append)
qed

text \<open>C5: safety of reassembly. However the excerpts of the peer's stream \<open>S\<close> are cut, repeated,
  overlapped and reordered, and however the application interleaves its reads, the bytes the
  application has read followed by the bytes it can read next are a prefix of \<open>S\<close>: exactly its
  first \<open>bytes_written\<close> bytes. The input is marked as ended only when that prefix is all of \<open>S\<close>.\<close>
theorem reassembler_delivers_prefix:
  assumes "length S < 2 ^ 64 - 2" and "list_all (honest_call S) cs"
    and "reassembler_run (StreamReassembler_init capacity) cs = (r, given)"
  shows "given @ bs_buffer_list (sr_output r)
      = take (unat (ByteStream_bytes_written (sr_output r))) S \<and>
    unat (ByteStream_bytes_written (sr_output r)) \<le> length S \<and>
    (ByteStream_input_ended (sr_output r) \<longrightarrow>
       given @ bs_buffer_list (sr_output r) = S)"
proof -
  note run = reassembler_run_spec [OF reassembler_inv_init [OF assms(1)] assms(2,3)]
  then have inv: "reassembler_inv S r" by blast
  have ok: "out_ok S (sr_expected r) (sr_output r)" using inv by (simp add: reassembler_inv_def)
  have "given @ bs_buffer_list (sr_output r) = take (unat (sr_expected r)) S"
    using run ok by (simp add: out_ok_def StreamReassembler_init_def ByteStream_init_def
        slc_from_0 take_append_slc)
  moreover have "unat (sr_expected r) = length S" if "ByteStream_input_ended (sr_output r)"
    using not_ended_past_expected [OF inv] that ok by (fastforce simp: out_ok_def)
  ultimately show ?thesis using ok by (auto simp: out_ok_def ByteStream_observers)
qed


theorem reassembler_delivers_prefix_witness:
  "reassembler_run (StreamReassembler_init 4)
     [Push [3, 4, 5] 2 False, Push [1, 2, 3] 0 False, Consume 2, Push [5, 6] 4 True]
   = (\<lparr>sr_reassemble_buffer = [], sr_expected = 6, sr_eof_index = 6, sr_unassembled_bytes = 1,
       sr_output = \<lparr>bs_buffer_list = [3, 4, 5, 6], bs_capacity = 4, bs_bytes_written = 6,
         bs_bytes_read = 2, bs_end_input = True, bs_end_output = False, bs_error = False\<rparr>,
       sr_capacity = 4\<rparr>, [1, 2]) \<and>
   [1, 2] @ [3, 4, 5, 6] = take 6 [1, 2, 3, 4, 5, 6 :: u8]"
   (is "?run = (?r, ?g) \<and> _")
proof -
  have run: "?run = (?r, ?g)" by code_simp
  have "list_all (honest_call [1, 2, 3, 4, 5, 6])
      [Push [3, 4, 5] 2 False, Push [1, 2, 3] 0 False, Consume 2, Push [5, 6] 4 True]"
    by (simp add: honest_push_iff)
  from reassembler_delivers_prefix [OF _ this run] run show ?thesis
    by (simp add: ByteStream_observers)
qed

subsection \<open>Completeness: any order, any overlap\<close>

definition received :: "StreamReassembler \<Rightarrow> nat set" where
  "received r = {..<unat (sr_expected r)} \<union> covered (sr_reassemble_buffer r)"

lemma first_gap_received:
  assumes "reassembler_inv S r"
  shows "first_gap 0 (received r) (unat (sr_expected r))"
proof -
  have "unat (sr_expected r) \<notin> covered (sr_reassemble_buffer r)"
    using assms by (fastforce simp: reassembler_inv_def covered_def chunk_span_def)
  then show ?thesis by (auto simp: first_gap_def received_def)
qed

lemma push_received:
  assumes inv: "reassembler_inv S r" and h: "honest_push S data index eof"
    and unread: "bs_bytes_read (sr_output r) = 0"
    and big: "length S \<le> unat (bs_capacity (sr_output r))"
  shows "received (StreamReassembler_push_substring r data index eof)
    = received r \<union> chunk_span (index, data)"
proof -
  let ?C = "covered (sr_reassemble_buffer r) \<union> chunk_span (index, data)"
  let ?e = "unat (sr_expected r)" and ?r' = "StreamReassembler_push_substring r data index eof"
  have ok: "out_ok S (sr_expected r) (sr_output r)"
    using inv by (simp add: reassembler_inv_def)
  have bi: "ByteStream_inv (sr_output r)" using ok by (simp add: out_ok_def)
  have "length (bs_buffer_list (sr_output r)) = ?e"
    using ok by (simp add: out_ok_def unread slc_from_0)
  moreover have "length (bs_buffer_list (sr_output r)) \<le> unat (bs_capacity (sr_output r))"
    using bi by (simp add: ByteStream_inv_def)
  ultimately have room: "?e + room (sr_output r) = unat (bs_capacity (sr_output r))"
    using unat_remaining_capacity [OF bi] by linarith
  have below: "i < length S" if "i \<in> ?C" for i
    using that inv h by (auto simp: honest_push_def reassembler_inv_def)
  obtain g where g: "first_gap ?e ?C g"
    using first_gap_exists [of ?C ?e] by (auto simp: chunk_span_def)
  have "g \<le> length S"
  proof (rule ccontr)
    assume "\<not> g \<le> length S"
    then have "length S \<in> {?e..<g}" using ok by (simp add: out_ok_def)
    then have "length S \<in> ?C" using g unfolding first_gap_def by blast
    then show False using below by blast
  qed
  then have "g \<le> ?e + room (sr_output r)" using big room by simp
  then have "unat (sr_expected ?r') = g"
    and "covered (sr_reassemble_buffer ?r') = ?C - {..<g}"
    using push_spec [OF inv h] g by (auto simp: pushed_ok_def)
  moreover have "{..<g} = {..<?e} \<union> {?e..<g}" using g by (auto simp: first_gap_def)
  ultimately show ?thesis using g unfolding received_def first_gap_def by blast
qed

definition push_all :: "StreamReassembler \<Rightarrow> (bytes \<times> u64 \<times> bool) list \<Rightarrow> StreamReassembler" where
  "push_all = foldl (\<lambda>r (data, index, eof). StreamReassembler_push_substring r data index eof)"

lemma push_eof_index:
  "sr_eof_index (StreamReassembler_push_substring r data index eof)
     = (if eof then sz data + index else sr_eof_index r)"
  by (simp add: StreamReassembler_push_substring_def Let_def insert_frame
      StreamReassembler_send_to_bytestream_def split: prod.splits)

lemma push_all_spec:
  assumes "reassembler_inv S r" and "bs_bytes_read (sr_output r) = 0"
    and "length S \<le> unat (bs_capacity (sr_output r))"
    and "\<forall>(data, index, eof)\<in>set ps. honest_push S data index eof"
  shows "reassembler_inv S (push_all r ps) \<and> bs_bytes_read (sr_output (push_all r ps)) = 0 \<and>
    received (push_all r ps)
      = received r \<union> (\<Union>(data, index, eof)\<in>set ps. chunk_span (index, data)) \<and>
    (unat (sr_eof_index r) = length S \<or> (\<exists>(data, index, eof)\<in>set ps. eof) \<longrightarrow>
       unat (sr_eof_index (push_all r ps)) = length S)"
  using assms
proof (induction ps arbitrary: r)
  case Nil
  then show ?case by (simp add: push_all_def)
next
  case (Cons p ps)
  obtain data index eof where p: "p = (data, index, eof)" by (cases p)
  let ?r = "StreamReassembler_push_substring r data index eof"
  have h: "honest_push S data index eof" using Cons.prems(4) by (simp add: p)
  have "pushed_ok S r (index, data) ?r" using Cons.prems(1) h by (rule push_spec)
  then have inv: "reassembler_inv S ?r" and rd: "bs_bytes_read (sr_output ?r) = 0"
    and cap: "length S \<le> unat (bs_capacity (sr_output ?r))"
    using Cons.prems(2,3) by (simp_all add: pushed_ok_def)
  have e: "unat (sr_eof_index ?r) = length S" if "eof \<or> unat (sr_eof_index r) = length S"
    using that honest_end(2) [OF Cons.prems(1) h] by (auto simp: push_eof_index)
  have "push_all r (p # ps) = push_all ?r ps" by (simp add: push_all_def p)
  with Cons.IH [OF inv rd cap] Cons.prems(4) push_received [OF Cons.prems(1) h Cons.prems(2,3)] e
  show ?case by (auto simp: p)
qed

lemma push_all_complete:
  assumes "length S < 2 ^ 64 - 2" and "length S \<le> unat capacity"
    and "\<forall>(data, index, eof)\<in>set ps. honest_push S data index eof"
    and "(\<Union>(data, index, eof)\<in>set ps. chunk_span (index, data)) = {..<length S}"
    and "\<exists>(data, index, eof)\<in>set ps. eof"
  shows "bs_buffer_list (sr_output (push_all (StreamReassembler_init capacity) ps)) = S \<and>
    ByteStream_input_ended (sr_output (push_all (StreamReassembler_init capacity) ps)) \<and>
    covered (sr_reassemble_buffer (push_all (StreamReassembler_init capacity) ps)) = {}"
proof -
  let ?i = "StreamReassembler_init capacity" and ?r = "push_all (StreamReassembler_init capacity) ps"
  have i: "bs_bytes_read (sr_output ?i) = 0" "bs_capacity (sr_output ?i) = capacity"
    "received ?i = {}"
    by (simp_all add: StreamReassembler_init_def ByteStream_init_def received_def)
  note spec = push_all_spec [OF reassembler_inv_init [OF assms(1)] i(1) _ assms(3)]
  have inv: "reassembler_inv S ?r" and rd: "bs_bytes_read (sr_output ?r) = 0"
    and rc: "received ?r = {..<length S}" and eof: "unat (sr_eof_index ?r) = length S"
    using spec i assms(2,4,5) by simp_all
  have "first_gap 0 {..<length S} (length S)" by (simp add: first_gap_def lessThan_atLeast0)
  then have e: "unat (sr_expected ?r) = length S"
    using first_gap_received [OF inv] first_gap_unique unfolding rc by blast
  have "bs_buffer_list (sr_output ?r) = S"
    using inv e rd by (simp add: reassembler_inv_def out_ok_def slc_from_0)
  moreover have "sr_expected ?r = sr_eof_index ?r" using e eof by (simp add: word_unat_eq_iff)
  then have "ByteStream_input_ended (sr_output ?r)" using inv by (simp add: reassembler_inv_def)
  moreover have "covered (sr_reassemble_buffer ?r) = {}"
  proof -
    have "i < length S \<and> unat (sr_expected ?r) < i" if "i \<in> covered (sr_reassemble_buffer ?r)" for i
      using that inv
      by (fastforce simp: reassembler_inv_def covered_def chunk_span_def)
    then show ?thesis using e by fastforce
  qed
  ultimately show ?thesis by blast
qed

text \<open>C6: completeness of reassembly. If the stream has room for all of \<open>S\<close>, then once honest
  excerpts that together cover every byte of \<open>S\<close> have been pushed, in any order and with any
  overlaps and repetitions, and one of them carried the end-of-stream flag, the output holds
  exactly \<open>S\<close>, its input has ended, and nothing is left waiting.\<close>
theorem reassembler_any_order:
  assumes "length S < 2 ^ 64 - 2" and "length S \<le> unat capacity"
    and "\<forall>(data, index, eof)\<in>set ps. honest_push S data index eof"
    and "(\<Union>(data, index, eof)\<in>set ps. chunk_span (index, data)) = {..<length S}"
    and "\<exists>(data, index, eof)\<in>set ps. eof"
  shows "bs_buffer_list (sr_output (push_all (StreamReassembler_init capacity) ps)) = S \<and>
    ByteStream_input_ended (sr_output (push_all (StreamReassembler_init capacity) ps)) \<and>
    covered (sr_reassemble_buffer (push_all (StreamReassembler_init capacity) ps)) = {}"
  using assms by (rule push_all_complete)

theorem reassembler_any_order_witness:
  "bs_buffer_list (sr_output (push_all (StreamReassembler_init 8)
     [([3, 4], 2, True), ([2, 3], 1, False), ([1], 0, False), ([1, 2], 0, False)])) = [1, 2, 3, 4] \<and>
   ByteStream_input_ended (sr_output (push_all (StreamReassembler_init 8)
     [([3, 4], 2, True), ([2, 3], 1, False), ([1], 0, False), ([1, 2], 0, False)])) \<and>
   covered (sr_reassemble_buffer (push_all (StreamReassembler_init 8)
     [([3, 4], 2, True), ([2, 3], 1, False), ([1], 0, False), ([1, 2], 0, False)])) = {}"
  by (rule reassembler_any_order)
    (auto simp: honest_push_iff chunk_simps chunk_span_def)

text \<open>C28: one call of \<open>push_substring\<close>. The next expected position moves to the first position that
  neither was stored nor is covered by the new data, unless the output runs out of room first; the
  output is extended by exactly the bytes of \<open>S\<close> in between; and as long as room suffices no
  stored position beyond it is lost.\<close>
theorem push_substring_first_gap:
  assumes "reassembler_inv S r" and "honest_push S data index eof"
    and "first_gap (unat (sr_expected r))
      (covered (sr_reassemble_buffer r) \<union> chunk_span (index, data)) g"
  shows "unat (sr_expected (StreamReassembler_push_substring r data index eof))
      = min g (unat (sr_expected r) + unat (ByteStream_remaining_capacity (sr_output r))) \<and>
    bs_buffer_list (sr_output (StreamReassembler_push_substring r data index eof))
      = bs_buffer_list (sr_output r) @ slc (unat (sr_expected r))
          (unat (sr_expected (StreamReassembler_push_substring r data index eof))) S \<and>
    (g \<le> unat (sr_expected r) + unat (ByteStream_remaining_capacity (sr_output r)) \<longrightarrow>
       covered (sr_reassemble_buffer (StreamReassembler_push_substring r data index eof))
         = (covered (sr_reassemble_buffer r) \<union> chunk_span (index, data)) - {..<g})"
proof -
  let ?r' = "StreamReassembler_push_substring r data index eof"
  have p: "pushed_ok S r (index, data) ?r'" using assms(1,2) by (rule push_spec)
  have e: "unat (sr_expected ?r') = min g (unat (sr_expected r) + room (sr_output r))"
    using p assms(3) by (simp add: pushed_ok_def)
  have "unat (sr_expected r) \<le> unat (sr_expected ?r')"
    using assms(3) by (simp add: e first_gap_def)
  then have "bs_buffer_list (sr_output ?r')
      = bs_buffer_list (sr_output r) @ slc (unat (sr_expected r)) (unat (sr_expected ?r')) S"
    using p assms(1) by (simp add: pushed_ok_def reassembler_inv_def out_ok_def slc_append)
  moreover have "covered (sr_reassemble_buffer ?r')
      = (covered (sr_reassemble_buffer r) \<union> chunk_span (index, data)) - {..<g}"
    if g: "g \<le> unat (sr_expected r) + room (sr_output r)"
  proof -
    have "unat (sr_expected ?r') = g" using e g by simp
    then show ?thesis using p assms(3) g unfolding pushed_ok_def by metis
  qed
  ultimately show ?thesis using e by blast
qed

theorem push_substring_first_gap_witness:
  "unat (sr_expected (StreamReassembler_push_substring
      (StreamReassembler_push_substring (StreamReassembler_init 8) [2, 3] 1 False) [1] 0 False))
    = min 3 (0 + 8)"
proof -
  let ?S = "[1, 2, 3, 4 :: u8]"
  let ?r = "StreamReassembler_push_substring (StreamReassembler_init 8) [2, 3] 1 False"
  have "pushed_ok ?S (StreamReassembler_init 8) (1, [2, 3]) ?r"
    by (intro push_spec reassembler_inv_init)
      (simp_all add: honest_push_iff)
  then have inv: "reassembler_inv ?S ?r" by (simp add: pushed_ok_def)
  have r: "sr_expected ?r = 0" "sr_reassemble_buffer ?r = [(1, [2, 3])]"
    "ByteStream_remaining_capacity (sr_output ?r) = 8"
    by code_simp+
  have "honest_push ?S [1] 0 False" by (simp add: honest_push_iff)
  moreover have "first_gap (unat (sr_expected ?r))
      (covered (sr_reassemble_buffer ?r) \<union> chunk_span (0, [1])) 3"
    by (auto simp: r first_gap_def chunk_span_def chunk_simps)
  ultimately show ?thesis
    using push_substring_first_gap [OF inv, of "[1]" 0 False 3] by (simp add: r)
qed

subsection \<open>What the byte count of the reassembler counts\<close>

text \<open>
  \<open>unassembled_bytes\<close> is documented as the number of bytes stored but not yet reassembled. The
  counter is not corrected for the part of a segment that \<open>send_to_bytestream\<close> cuts off, so it can
  stay positive, and \<open>empty\<close> answer \<open>False\<close>, with nothing stored: first when a segment overlaps
  what was already delivered, then when it exceeds the capacity.
\<close>

lemma unassembled_bytes_leak_overlap:
  "let r = push_all (StreamReassembler_init 8) [([1, 2], 0, False), ([1, 2, 3], 0, False)]
   in sr_reassemble_buffer r = [] \<and> StreamReassembler_unassembled_bytes r = 2 \<and>
      \<not> StreamReassembler_empty r"
  by code_simp

lemma unassembled_bytes_leak_capacity:
  "let r = push_all (StreamReassembler_init 2) [([1, 2, 3], 0, False)]
   in sr_reassemble_buffer r = [] \<and> StreamReassembler_unassembled_bytes r = 1"
  by code_simp

text \<open>The class comment promises to stay within the capacity. Segments that start beyond the window
  are nevertheless stored whole.\<close>

lemma reassembler_exceeds_capacity:
  "let r = push_all (StreamReassembler_init 2) [([3, 4, 5, 6], 2, False)]
   in sr_reassemble_buffer r = [(2, [3, 4, 5, 6])] \<and> StreamReassembler_unassembled_bytes r = 4"
  by code_simp

end
