(* ===== verification/Packet_Buffer.thy ===== *)
theory Packet_Buffer
  imports Sponge_Prelude
begin

text \<open>
  The packet buffers of \<open>src/libsponge/util/buffer.{hh,cc}\<close>: a string that can drop bytes from the
  front (\<open>Buffer\<close>), a sequence of them (\<open>BufferList\<close>) and a sequence of views
  (\<open>BufferViewList\<close>). The shared storage of a \<open>Buffer\<close> is never written through, so the
  reference-counted pointer is modelled by its value, and \<open>_storage.reset()\<close> by \<open>None\<close>. The
  locale \<open>droppable\<close> says what the three have in common: whatever the layout, dropping a
  prefix is dropping it from the flat string, and dropping too much is an exception.
\<close>

subsection \<open>Buffer\<close>

record Buffer =
  buf_storage :: "bytes option"
  buf_starting_offset :: u64

definition Buffer_default :: Buffer where
  "Buffer_default = \<lparr>buf_storage = None, buf_starting_offset = 0\<rparr>"

definition Buffer_of_string :: "bytes \<Rightarrow> Buffer" where
  "Buffer_of_string str = \<lparr>buf_storage = Some str, buf_starting_offset = 0\<rparr>"

definition Buffer_str :: "Buffer \<Rightarrow> bytes" where
  "Buffer_str b =
     (case buf_storage b of None \<Rightarrow> [] | Some s \<Rightarrow> drop (unat (buf_starting_offset b)) s)"

definition Buffer_at :: "Buffer \<Rightarrow> u64 \<Rightarrow> u8 result" where
  "Buffer_at b n =
     (if n < sz (Buffer_str b) then Inr (Buffer_str b ! unat n)
      else Inl (Out_of_range ''basic_string_view::at''))"

definition Buffer_size :: "Buffer \<Rightarrow> u64" where
  "Buffer_size b = sz (Buffer_str b)"

definition Buffer_copy :: "Buffer \<Rightarrow> bytes" where
  "Buffer_copy b = Buffer_str b"

definition Buffer_remove_prefix :: "Buffer \<Rightarrow> u64 \<Rightarrow> Buffer result" where
  "Buffer_remove_prefix b n =
     (if n > sz (Buffer_str b) then Inl (Out_of_range ''Buffer::remove_prefix'')
      else let offset = buf_starting_offset b + n
           in Inr (case buf_storage b of
                None \<Rightarrow> b\<lparr>buf_starting_offset := offset\<rparr>
              | Some s \<Rightarrow>
                  if offset = sz s then b\<lparr>buf_storage := None, buf_starting_offset := offset\<rparr>
                  else b\<lparr>buf_starting_offset := offset\<rparr>))"

subsection \<open>BufferList\<close>

type_synonym BufferList = "Buffer list"

definition BufferList_of_Buffer :: "Buffer \<Rightarrow> BufferList" where
  "BufferList_of_Buffer b = [b]"

definition BufferList_append :: "BufferList \<Rightarrow> BufferList \<Rightarrow> BufferList" where
  "BufferList_append bs other = bs @ other"

definition BufferList_of_string :: "bytes \<Rightarrow> BufferList" where
  "BufferList_of_string str =
     BufferList_append [] (BufferList_of_Buffer (Buffer_of_string str))"

definition BufferList_to_Buffer :: "BufferList \<Rightarrow> Buffer result" where
  "BufferList_to_Buffer bs =
     (case bs of
        [] \<Rightarrow> Inr Buffer_default
      | [b] \<Rightarrow> Inr b
      | _ \<Rightarrow> Inl (Runtime_error ''BufferList: please use concatenate() to combine a multi-Buffer BufferList into one Buffer''))"

fun BufferList_concatenate :: "BufferList \<Rightarrow> bytes" where
  "BufferList_concatenate [] = []"
| "BufferList_concatenate (b # bs) = Buffer_str b @ BufferList_concatenate bs"

fun BufferList_size :: "BufferList \<Rightarrow> u64" where
  "BufferList_size [] = 0"
| "BufferList_size (b # bs) = Buffer_size b + BufferList_size bs"

fun BufferList_remove_prefix :: "BufferList \<Rightarrow> u64 \<Rightarrow> BufferList result" where
  "BufferList_remove_prefix [] n =
     (if n > 0 then Inl (Out_of_range ''BufferList::remove_prefix'') else Inr [])"
| "BufferList_remove_prefix (b # bs) n =
     (if n > 0 then
        if n < sz (Buffer_str b) then
          (case Buffer_remove_prefix b n of Inl e \<Rightarrow> Inl e | Inr b' \<Rightarrow> Inr (b' # bs))
        else BufferList_remove_prefix bs (n - sz (Buffer_str b))
      else Inr (b # bs))"

subsection \<open>BufferViewList\<close>

type_synonym BufferViewList = "bytes list"

definition BufferViewList_of_view :: "bytes \<Rightarrow> BufferViewList" where
  "BufferViewList_of_view str = [str]"

definition BufferViewList_of_BufferList :: "BufferList \<Rightarrow> BufferViewList" where
  "BufferViewList_of_BufferList bs = map Buffer_str bs"

fun BufferViewList_remove_prefix :: "BufferViewList \<Rightarrow> u64 \<Rightarrow> BufferViewList result" where
  "BufferViewList_remove_prefix [] n =
     (if n > 0 then Inl (Out_of_range ''BufferListView::remove_prefix'') else Inr [])"
| "BufferViewList_remove_prefix (v # vs) n =
     (if n > 0 then
        if n < sz v then Inr (drop (unat n) v # vs)
        else BufferViewList_remove_prefix vs (n - sz v)
      else Inr (v # vs))"

fun BufferViewList_size :: "BufferViewList \<Rightarrow> u64" where
  "BufferViewList_size [] = 0"
| "BufferViewList_size (v # vs) = sz v + BufferViewList_size vs"

text \<open>An \<open>iovec\<close> is a base address and a length; the bytes stand for the address.\<close>

definition BufferViewList_as_iovecs :: "BufferViewList \<Rightarrow> (bytes \<times> u64) list" where
  "BufferViewList_as_iovecs vs = map (\<lambda>x. (x, sz x)) vs"

subsection \<open>The common contract\<close>

text \<open>\<open>fits\<close> is the representation invariant together with the fact that the flat content is
  shorter than \<open>2 ^ 64\<close> bytes.\<close>

locale droppable =
  fixes fits :: "'b \<Rightarrow> bool"
    and content :: "'b \<Rightarrow> bytes"
    and size_of :: "'b \<Rightarrow> u64"
    and drop_front :: "'b \<Rightarrow> u64 \<Rightarrow> 'b result"
  assumes fits_length: "fits b \<Longrightarrow> length (content b) < 2 ^ 64"
    and size_content: "fits b \<Longrightarrow> size_of b = sz (content b)"
    and drop_ok: "fits b \<Longrightarrow> unat n \<le> length (content b) \<Longrightarrow>
      \<exists>b'. drop_front b n = Inr b' \<and> fits b' \<and> content b' = drop (unat n) (content b)"
    and drop_fails: "fits b \<Longrightarrow> length (content b) < unat n \<Longrightarrow>
      \<exists>what. drop_front b n = Inl (Out_of_range what)"
begin

lemma unat_size: "fits b \<Longrightarrow> unat (size_of b) = length (content b)"
  by (simp only: size_content unat_sz [OF fits_length])

lemma drop_cases:
  assumes "fits b"
  shows "(\<exists>b'. drop_front b n = Inr b') \<longleftrightarrow> n \<le> size_of b"
  using drop_ok [OF assms, of n] drop_fails [OF assms, of n]
  by (cases "unat n \<le> length (content b)") (auto simp: word_le_nat_alt unat_size [OF assms])

lemma drop_drop:
  assumes "fits b" and "drop_front b m = Inr b1" and "drop_front b1 n = Inr b2"
  shows "content b2 = drop (unat m + unat n) (content b)"
proof -
  have m: "unat m \<le> length (content b)"
    using assms(1,2) drop_fails [of b m] by (metis linorder_not_le sum.distinct(1))
  then have b1: "fits b1" "content b1 = drop (unat m) (content b)"
    using drop_ok [OF assms(1) m] assms(2) by auto
  have "unat n \<le> length (content b1)"
    using b1(1) assms(3) drop_fails [of b1 n] by (metis linorder_not_le sum.distinct(1))
  then have "content b2 = drop (unat n) (content b1)"
    using drop_ok [OF b1(1)] assms(3) by fastforce
  then show ?thesis by (simp add: b1(2) add.commute)
qed

end

subsection \<open>The three implementations\<close>

definition Buffer_inv :: "Buffer \<Rightarrow> bool" where
  "Buffer_inv b \<longleftrightarrow>
     (case buf_storage b of
        None \<Rightarrow> True
      | Some s \<Rightarrow> length s < 2 ^ 64 \<and> unat (buf_starting_offset b) \<le> length s)"

lemma Buffer_inv_of_string [simp]: "length s < 2 ^ 64 \<Longrightarrow> Buffer_inv (Buffer_of_string s)"
  by (simp add: Buffer_inv_def Buffer_of_string_def)

lemma Buffer_inv_default [simp]: "Buffer_inv Buffer_default"
  by (simp add: Buffer_inv_def Buffer_default_def)

lemma Buffer_str_of_string [simp]: "Buffer_str (Buffer_of_string s) = s"
  by (simp add: Buffer_str_def Buffer_of_string_def)

lemma Buffer_str_default [simp]: "Buffer_str Buffer_default = []"
  by (simp add: Buffer_str_def Buffer_default_def)

lemma Buffer_str_length: "Buffer_inv b \<Longrightarrow> length (Buffer_str b) < 2 ^ 64"
  by (auto simp: Buffer_inv_def Buffer_str_def split: option.splits)

lemma Buffer_remove_prefix_ok:
  assumes "Buffer_inv b" and "unat n \<le> length (Buffer_str b)"
  shows "\<exists>b'. Buffer_remove_prefix b n = Inr b' \<and> Buffer_inv b' \<and>
    Buffer_str b' = drop (unat n) (Buffer_str b)"
proof -
  have le: "\<not> n > sz (Buffer_str b)"
    using assms by (simp add: word_less_nat_alt unat_sz [OF Buffer_str_length])
  show ?thesis
  proof (cases "buf_storage b")
    case None
    then show ?thesis using le by (simp add: Buffer_remove_prefix_def Buffer_inv_def Buffer_str_def)
  next
    case (Some s)
    let ?o = "buf_starting_offset b"
    have s: "length s < 2 ^ 64" "unat ?o \<le> length s"
      using assms(1) by (simp_all add: Buffer_inv_def Some)
    have str: "Buffer_str b = drop (unat ?o) s" by (simp add: Buffer_str_def Some)
    have o: "unat (?o + n) = unat ?o + unat n"
      using s assms(2) by (intro unat_add_no_wrap) (simp add: str)
    have eq: "?o + n = sz s \<longleftrightarrow> unat ?o + unat n = length s"
      by (simp add: word_unat_eq_iff o unat_sz [OF s(1)])
    show ?thesis
      using le s assms(2) eq o
      by (auto simp: Buffer_remove_prefix_def Some Buffer_inv_def Buffer_str_def add.commute)
  qed
qed

interpretation buffer: droppable Buffer_inv Buffer_str Buffer_size Buffer_remove_prefix
proof unfold_locales
  fix b :: Buffer and n :: u64
  assume b: "Buffer_inv b"
  then show "length (Buffer_str b) < 2 ^ 64" by (rule Buffer_str_length)
  then show "length (Buffer_str b) < unat n \<Longrightarrow>
      \<exists>what. Buffer_remove_prefix b n = Inl (Out_of_range what)"
    by (simp add: Buffer_remove_prefix_def word_less_nat_alt unat_sz)
qed (simp_all add: Buffer_size_def Buffer_remove_prefix_ok)

definition BufferViewList_fits :: "BufferViewList \<Rightarrow> bool" where
  "BufferViewList_fits vs \<longleftrightarrow> length (concat vs) < 2 ^ 64"

lemma BufferViewList_remove_prefix_spec:
  assumes "length (concat vs) < 2 ^ 64"
  shows "if unat n \<le> length (concat vs)
    then \<exists>vs'. BufferViewList_remove_prefix vs n = Inr vs' \<and> concat vs' = drop (unat n) (concat vs)
    else BufferViewList_remove_prefix vs n = Inl (Out_of_range ''BufferListView::remove_prefix'')"
  using assms
proof (induction vs arbitrary: n)
  case Nil
  then show ?case by (auto simp: word_less_nat_alt)
next
  case (Cons v vs)
  have lv: "length v < 2 ^ 64" using Cons.prems by simp
  consider (zero) "n = 0" | (front) "n > 0" "n < sz v" | (past) "n > 0" "\<not> n < sz v"
    using word_gt_0 [of n] by blast
  then show ?case
  proof cases
    case zero
    then show ?thesis by simp
  next
    case front
    then have "unat n < length v" by (simp add: word_less_nat_alt unat_sz [OF lv])
    with front show ?thesis by simp
  next
    case past
    then have le: "length v \<le> unat n" by (simp add: word_less_nat_alt unat_sz [OF lv])
    then have u: "unat (n - sz v) = unat n - length v"
      by (simp add: unat_sub word_le_nat_alt unat_sz [OF lv])
    show ?thesis using Cons.IH [of "n - sz v"] Cons.prems past le
      by (auto simp: u split: if_splits)
  qed
qed

interpretation views: droppable BufferViewList_fits concat BufferViewList_size
  BufferViewList_remove_prefix
proof unfold_locales
  fix vs :: BufferViewList and n :: u64
  assume vs: "BufferViewList_fits vs"
  then show "length (concat vs) < 2 ^ 64" by (simp add: BufferViewList_fits_def)
  show "BufferViewList_size vs = sz (concat vs)" by (induction vs) simp_all
  note spec = BufferViewList_remove_prefix_spec [OF vs [unfolded BufferViewList_fits_def], of n]
  show "unat n \<le> length (concat vs) \<Longrightarrow>
      \<exists>vs'. BufferViewList_remove_prefix vs n = Inr vs' \<and> BufferViewList_fits vs' \<and>
        concat vs' = drop (unat n) (concat vs)"
    using spec vs by (auto simp: BufferViewList_fits_def)
  show "length (concat vs) < unat n \<Longrightarrow>
      \<exists>what. BufferViewList_remove_prefix vs n = Inl (Out_of_range what)"
    using spec by auto
qed

definition BufferList_fits :: "BufferList \<Rightarrow> bool" where
  "BufferList_fits bs \<longleftrightarrow> list_all Buffer_inv bs \<and> length (BufferList_concatenate bs) < 2 ^ 64"

lemma BufferList_remove_prefix_spec:
  assumes "list_all Buffer_inv bs" and "length (BufferList_concatenate bs) < 2 ^ 64"
  shows "if unat n \<le> length (BufferList_concatenate bs)
    then \<exists>bs'. BufferList_remove_prefix bs n = Inr bs' \<and> list_all Buffer_inv bs' \<and>
      BufferList_concatenate bs' = drop (unat n) (BufferList_concatenate bs)
    else BufferList_remove_prefix bs n = Inl (Out_of_range ''BufferList::remove_prefix'')"
  using assms
proof (induction bs arbitrary: n)
  case Nil
  then show ?case by (auto simp: word_less_nat_alt)
next
  case (Cons b bs)
  let ?v = "Buffer_str b"
  have b: "Buffer_inv b" and bs: "list_all Buffer_inv bs" using Cons.prems by simp_all
  have lv: "length ?v < 2 ^ 64" using Cons.prems by simp
  consider (zero) "n = 0" | (front) "n > 0" "n < sz ?v" | (past) "n > 0" "\<not> n < sz ?v"
    using word_gt_0 [of n] by blast
  then show ?case
  proof cases
    case zero
    then show ?thesis using b bs by simp
  next
    case front
    then have "unat n < length ?v" by (simp add: word_less_nat_alt unat_sz [OF lv])
    with front Buffer_remove_prefix_ok [OF b, of n] bs show ?thesis by auto
  next
    case past
    then have le: "length ?v \<le> unat n" by (simp add: word_less_nat_alt unat_sz [OF lv])
    then have u: "unat (n - sz ?v) = unat n - length ?v"
      by (simp add: unat_sub word_le_nat_alt unat_sz [OF lv])
    show ?thesis using Cons.IH [of "n - sz ?v"] Cons.prems past le
      by (auto simp: u split: if_splits)
  qed
qed

interpretation bufferlist: droppable BufferList_fits BufferList_concatenate BufferList_size
  BufferList_remove_prefix
proof unfold_locales
  fix bs :: BufferList and n :: u64
  assume bs: "BufferList_fits bs"
  then show "length (BufferList_concatenate bs) < 2 ^ 64" by (simp add: BufferList_fits_def)
  show "BufferList_size bs = sz (BufferList_concatenate bs)"
    by (induction bs) (simp_all add: Buffer_size_def)
  note spec = BufferList_remove_prefix_spec
    [OF bs [unfolded BufferList_fits_def, THEN conjunct1]
      bs [unfolded BufferList_fits_def, THEN conjunct2], of n]
  show "unat n \<le> length (BufferList_concatenate bs) \<Longrightarrow>
      \<exists>bs'. BufferList_remove_prefix bs n = Inr bs' \<and> BufferList_fits bs' \<and>
        BufferList_concatenate bs' = drop (unat n) (BufferList_concatenate bs)"
    using spec bs by (auto simp: BufferList_fits_def)
  show "length (BufferList_concatenate bs) < unat n \<Longrightarrow>
      \<exists>what. BufferList_remove_prefix bs n = Inl (Out_of_range what)"
    using spec by auto
qed

lemma BufferList_concatenate_append [simp]:
  "BufferList_concatenate (BufferList_append bs cs)
     = BufferList_concatenate bs @ BufferList_concatenate cs"
  unfolding BufferList_append_def by (induction bs) simp_all

lemma BufferList_concatenate_of [simp]:
  "BufferList_concatenate (BufferList_of_string s) = s"
  "BufferList_concatenate (BufferList_of_Buffer b) = Buffer_str b"
  by (simp_all add: BufferList_of_string_def BufferList_of_Buffer_def)

end
