(* ===== verification/Net_Parser.thy ===== *)
theory Net_Parser
  imports Packet_Buffer
begin

text \<open>
  The big-endian integer parser and unparser of \<open>src/libsponge/util/parser.{hh,cc}\<close>. The
  templates \<open>_parse_int<T>\<close> and \<open>_unparse_int<T>\<close> are functions that are polymorphic in the word
  type and take \<open>sizeof(T)\<close> as an argument. The locale \<open>int_codec\<close> is the contract between the
  two halves that all header formats rely on; it is interpreted for the three widths.
\<close>

datatype ParseResult =
    NoError
  | BadChecksum
  | PacketTooShort
  | WrongIPVersion
  | HeaderTooShort
  | TruncatedPacket
  | Unsupported

text \<open>The position of the enumerator, as \<open>static_cast<size_t>\<close> gives it.\<close>

fun ParseResult_index :: "ParseResult \<Rightarrow> nat" where
  "ParseResult_index NoError = 0"
| "ParseResult_index BadChecksum = 1"
| "ParseResult_index PacketTooShort = 2"
| "ParseResult_index WrongIPVersion = 3"
| "ParseResult_index HeaderTooShort = 4"
| "ParseResult_index TruncatedPacket = 5"
| "ParseResult_index Unsupported = 6"

definition as_string :: "ParseResult \<Rightarrow> string result" where
  "as_string r =
     (let names = [''NoError'', ''BadChecksum'', ''PacketTooShort'', ''WrongIPVersion'',
                   ''HeaderTooShort'', ''TruncatedPacket'']
      in if ParseResult_index r < length names then Inr (names ! ParseResult_index r)
         else Inl (Undefined_behaviour ''_names[r] out of range''))"

record NetParser =
  np_buffer :: Buffer
  np_error :: ParseResult

definition NetParser_init :: "Buffer \<Rightarrow> NetParser" where
  "NetParser_init b = \<lparr>np_buffer = b, np_error = NoError\<rparr>"

definition NetParser_set_error :: "NetParser \<Rightarrow> ParseResult \<Rightarrow> NetParser" where
  "NetParser_set_error p res = p\<lparr>np_error := res\<rparr>"

definition NetParser_error :: "NetParser \<Rightarrow> bool" where
  "NetParser_error p \<longleftrightarrow> np_error p \<noteq> NoError"

definition NetParser_check_size :: "NetParser \<Rightarrow> u64 \<Rightarrow> NetParser" where
  "NetParser_check_size p n =
     (if n > Buffer_size (np_buffer p) then NetParser_set_error p PacketTooShort else p)"

definition NetParser_parse_int :: "nat \<Rightarrow> NetParser \<Rightarrow> 'a::len word \<times> NetParser" where
  "NetParser_parse_int len p =
     (let p = NetParser_check_size p (of_nat len)
      in if NetParser_error p then (0, p)
         else (foldl (\<lambda>ret i. push_bit 8 ret + ucast (ok_or 0 (Buffer_at (np_buffer p) (of_nat i))))
                 0 [0..<len],
               p\<lparr>np_buffer := ok_or (np_buffer p) (Buffer_remove_prefix (np_buffer p) (of_nat len))\<rparr>))"

definition NetParser_u32 :: "NetParser \<Rightarrow> u32 \<times> NetParser" where
  "NetParser_u32 p = NetParser_parse_int 4 p"

definition NetParser_u16 :: "NetParser \<Rightarrow> u16 \<times> NetParser" where
  "NetParser_u16 p = NetParser_parse_int 2 p"

definition NetParser_u8 :: "NetParser \<Rightarrow> u8 \<times> NetParser" where
  "NetParser_u8 p = NetParser_parse_int 1 p"

definition NetParser_remove_prefix :: "NetParser \<Rightarrow> u64 \<Rightarrow> NetParser" where
  "NetParser_remove_prefix p n =
     (let p = NetParser_check_size p n
      in if NetParser_error p then p
         else p\<lparr>np_buffer := ok_or (np_buffer p) (Buffer_remove_prefix (np_buffer p) n)\<rparr>)"

definition NetUnparser_unparse_int :: "nat \<Rightarrow> bytes \<Rightarrow> 'a::len word \<Rightarrow> bytes" where
  "NetUnparser_unparse_int len s val =
     foldl (\<lambda>s i. s @ [ucast (and (drop_bit ((len - i - 1) * 8) val) 0xff)]) s [0..<len]"

definition NetUnparser_u32 :: "bytes \<Rightarrow> u32 \<Rightarrow> bytes" where
  "NetUnparser_u32 s val = NetUnparser_unparse_int 4 s val"

definition NetUnparser_u16 :: "bytes \<Rightarrow> u16 \<Rightarrow> bytes" where
  "NetUnparser_u16 s val = NetUnparser_unparse_int 2 s val"

definition NetUnparser_u8 :: "bytes \<Rightarrow> u8 \<Rightarrow> bytes" where
  "NetUnparser_u8 s val = NetUnparser_unparse_int 1 s val"

subsection \<open>Big-endian bytes\<close>

definition be_byte :: "'a::len word \<Rightarrow> nat \<Rightarrow> u8" where
  "be_byte val k = ucast (and (drop_bit (k * 8) val) 0xff)"

definition be_bytes :: "nat \<Rightarrow> 'a::len word \<Rightarrow> bytes" where
  "be_bytes len val = map (\<lambda>i. be_byte val (len - i - 1)) [0..<len]"

lemma length_be_bytes [simp]: "length (be_bytes len val) = len"
  by (simp add: be_bytes_def)

lemma foldl_snoc_map: "foldl (\<lambda>s i. s @ [f i]) s xs = s @ map f xs"
  by (induction xs arbitrary: s) simp_all

lemma unparse_int_be_bytes: "NetUnparser_unparse_int len s val = s @ be_bytes len val"
  by (simp add: NetUnparser_unparse_int_def be_bytes_def be_byte_def foldl_snoc_map)

lemma be_byte_step:
  fixes val :: "'a::len word"
  assumes "8 \<le> LENGTH('a)"
  shows "push_bit 8 (drop_bit (Suc k * 8) val) + ucast (be_byte val k) = drop_bit (k * 8) val"
proof -
  let ?y = "drop_bit (k * 8) val"
  have m: "(0xff :: 'a word) = mask 8" by (simp add: mask_eq_exp_minus_1)
  have "(ucast (be_byte val k) :: 'a word) = take_bit 8 ?y"
    unfolding be_byte_def m using assms by (intro bit_eqI) (auto simp: bit_simps)
  moreover have "drop_bit (Suc k * 8) val = drop_bit 8 ?y"
    by (simp add: add.commute)
  ultimately show ?thesis by (simp only: bits_ident)
qed

text \<open>Reading back the first \<open>n\<close> of \<open>len\<close> bytes gives the upper part of the value.\<close>

lemma foldl_be_bytes:
  fixes val :: "'a::len word"
  assumes "8 \<le> LENGTH('a)" and "LENGTH('a) \<le> len * 8" and "n \<le> len"
  shows "foldl (\<lambda>ret i. push_bit 8 ret + ucast (be_byte val (len - i - 1))) 0 [0..<n]
    = drop_bit ((len - n) * 8) val"
  using assms(3)
proof (induction n)
  case 0
  show ?case using assms(2) by (intro bit_eqI) (auto simp: bit_simps dest: bit_imp_le_length)
next
  case (Suc n)
  then have "len - n = Suc (len - n - 1)" by simp
  then show ?case
    using Suc be_byte_step [OF assms(1), of "len - n - 1" val] by simp
qed

subsection \<open>The parser on a known prefix\<close>

definition parses :: "NetParser \<Rightarrow> bytes \<Rightarrow> bool" where
  "parses p bs \<longleftrightarrow> np_error p = NoError \<and> Buffer_inv (np_buffer p) \<and> Buffer_str (np_buffer p) = bs"

lemma parses_init: "Buffer_inv b \<Longrightarrow> parses (NetParser_init b) (Buffer_str b)"
  by (simp add: parses_def NetParser_init_def)

lemma parses_buffer: "parses p bs \<Longrightarrow> Buffer_str (np_buffer p) = bs"
  by (simp add: parses_def)

lemma parses_no_error: "parses p bs \<Longrightarrow> np_error p = NoError"
  by (simp add: parses_def)

lemma parses_length: "parses p bs \<Longrightarrow> length bs < 2 ^ 64"
  unfolding parses_def using Buffer_str_length by blast

lemma check_size_ok:
  assumes "parses p bs" and "unat n \<le> length bs"
  shows "NetParser_check_size p n = p"
  using assms parses_length [OF assms(1)]
  by (simp add: NetParser_check_size_def Buffer_size_def parses_def word_less_nat_alt unat_sz)

lemma remove_prefix_parses:
  assumes "parses p bs" and "unat n \<le> length bs"
  shows "parses (NetParser_remove_prefix p n) (drop (unat n) bs)"
  using assms Buffer_remove_prefix_ok [of "np_buffer p" n]
  by (auto simp: NetParser_remove_prefix_def check_size_ok [OF assms] parses_def NetParser_error_def)

lemma remove_prefix_short:
  assumes "parses p bs" and "length bs < unat n"
  shows "np_error (NetParser_remove_prefix p n) = PacketTooShort"
  using assms parses_length [OF assms(1)]
  by (simp add: NetParser_remove_prefix_def NetParser_check_size_def Buffer_size_def parses_def
      word_less_nat_alt unat_sz NetParser_error_def NetParser_set_error_def)

lemma parse_int_parses:
  assumes "parses p bs" and "len \<le> length bs"
  shows "NetParser_parse_int len p
    = (foldl (\<lambda>ret i. push_bit 8 ret + ucast (bs ! i)) 0 [0..<len],
       NetParser_remove_prefix p (of_nat len))"
proof -
  have l: "length bs < 2 ^ 64" using assms(1) by (rule parses_length)
  have u: "unat (of_nat i :: u64) = i" if "i \<le> length bs" for i
    using that l by (simp add: unat_of_nat)
  have at: "ok_or 0 (Buffer_at (np_buffer p) (of_nat i)) = bs ! i" if "i < len" for i
    using that assms u [of i] l
    by (simp add: Buffer_at_def parses_def word_less_nat_alt unat_sz)
  have c: "NetParser_check_size p (of_nat len) = p"
    using check_size_ok [OF assms(1)] assms(2) u by simp
  have "foldl (\<lambda>ret i. push_bit 8 ret + ucast (ok_or 0 (Buffer_at (np_buffer p) (of_nat i)))) r [0..<len]
      = foldl (\<lambda>ret i. push_bit 8 ret + ucast (bs ! i)) r [0..<len]" for r :: "'a word"
    by (rule foldl_cong) (simp_all add: at)
  then show ?thesis
    using assms(1)
    by (simp add: NetParser_parse_int_def NetParser_remove_prefix_def c NetParser_error_def parses_def)
qed

lemma parse_int_be_bytes:
  fixes val :: "'a::len word"
  assumes "8 \<le> LENGTH('a)" and "LENGTH('a) = len * 8" and "parses p (be_bytes len val @ rest)"
  shows "fst (NetParser_parse_int len p) = val"
    and "parses (snd (NetParser_parse_int len p)) rest"
proof -
  let ?bs = "be_bytes len val @ rest"
  have "foldl (\<lambda>ret i. push_bit 8 ret + ucast (?bs ! i)) 0 [0..<len]
      = foldl (\<lambda>ret i. push_bit 8 ret + ucast (be_byte val (len - i - 1))) 0 [0..<len]"
    by (rule foldl_cong) (simp_all add: nth_append be_bytes_def)
  also have "\<dots> = val"
    using foldl_be_bytes [OF assms(1), of len len val] assms(2) by simp
  finally show "fst (NetParser_parse_int len p) = val"
    by (simp add: parse_int_parses [OF assms(3)])
  have "len < 2 ^ 64" using parses_length [OF assms(3)] by simp
  then have "unat (of_nat len :: u64) = len" by (simp add: unat_of_nat)
  then show "parses (snd (NetParser_parse_int len p)) rest"
    using remove_prefix_parses [OF assms(3), of "of_nat len"]
    by (simp add: parse_int_parses [OF assms(3)])
qed

lemma parse_int_short:
  assumes "parses p bs" and "length bs < len" and "len < 2 ^ 64"
  shows "fst (NetParser_parse_int len p) = 0"
    and "np_error (snd (NetParser_parse_int len p)) = PacketTooShort"
  using assms parses_length [OF assms(1)]
  by (simp_all add: NetParser_parse_int_def NetParser_check_size_def Buffer_size_def parses_def
      word_less_nat_alt unat_sz NetParser_error_def NetParser_set_error_def unat_of_nat)

text \<open>Errors are sticky: after one, no read succeeds and nothing is consumed.\<close>

lemma parse_int_sticky:
  assumes "np_error p \<noteq> NoError"
  shows "fst (NetParser_parse_int len p) = 0"
    and "np_buffer (snd (NetParser_parse_int len p)) = np_buffer p"
    and "np_error (snd (NetParser_parse_int len p)) \<noteq> NoError"
  using assms
  by (simp_all add: NetParser_parse_int_def NetParser_check_size_def NetParser_error_def
      NetParser_set_error_def Let_def)

subsection \<open>The codec contract\<close>

locale int_codec =
  fixes parse :: "NetParser \<Rightarrow> 'v \<times> NetParser"
    and unparse :: "bytes \<Rightarrow> 'v \<Rightarrow> bytes"
    and enc :: "'v \<Rightarrow> bytes"
    and width :: nat
  assumes unparse_enc: "unparse s v = s @ enc v"
    and length_enc: "length (enc v) = width"
    and parse_enc: "parses p (enc v @ rest) \<Longrightarrow> fst (parse p) = v"
    and rest_enc: "parses p (enc v @ rest) \<Longrightarrow> parses (snd (parse p)) rest"
    and parse_short: "parses p bs \<Longrightarrow> length bs < width \<Longrightarrow>
      np_error (snd (parse p)) = PacketTooShort"
begin

lemma enc_inj:
  assumes "enc v = enc w" and "length (enc v) < 2 ^ 64"
  shows "v = w"
proof -
  let ?p = "NetParser_init (Buffer_of_string (enc v))"
  have "parses ?p (enc v @ [])"
    using parses_init [of "Buffer_of_string (enc v)"] assms(2) by simp
  then show ?thesis using parse_enc [of ?p v "[]"] parse_enc [of ?p w "[]"] assms(1) by simp
qed

end

interpretation codec32: int_codec NetParser_u32 NetUnparser_u32 "be_bytes 4" 4
  by unfold_locales (auto simp: NetParser_u32_def NetUnparser_u32_def unparse_int_be_bytes
      parse_int_short intro!: parse_int_be_bytes)

interpretation codec16: int_codec NetParser_u16 NetUnparser_u16 "be_bytes 2" 2
  by unfold_locales (auto simp: NetParser_u16_def NetUnparser_u16_def unparse_int_be_bytes
      parse_int_short intro!: parse_int_be_bytes)

interpretation codec8: int_codec NetParser_u8 NetUnparser_u8 "be_bytes 1" 1
  by unfold_locales (auto simp: NetParser_u8_def NetUnparser_u8_def unparse_int_be_bytes
      parse_int_short intro!: parse_int_be_bytes)

lemmas unparse_enc = codec32.unparse_enc codec16.unparse_enc codec8.unparse_enc

end
