(* ===== verification/Internet_Checksum.thy ===== *)
theory Internet_Checksum
  imports Net_Parser
begin

text \<open>
  The Internet checksum of \<open>src/libsponge/util/util.{hh,cc}\<close>. The accumulator is a 32-bit word
  that wraps, as in the code; \<open>byte_sum\<close> is what it counts, and the lemmas show that no wrap
  happens for inputs of the size of an IP datagram. The loop of \<open>value()\<close> is a function with a
  termination proof.
\<close>

record InternetChecksum =
  ic_sum :: u32
  ic_parity :: bool

definition InternetChecksum_init :: "u32 \<Rightarrow> InternetChecksum" where
  "InternetChecksum_init initial_sum = \<lparr>ic_sum = initial_sum, ic_parity = False\<rparr>"

definition InternetChecksum_add_byte :: "InternetChecksum \<Rightarrow> u8 \<Rightarrow> InternetChecksum" where
  "InternetChecksum_add_byte c b =
     (let val = (ucast b :: u16);
          val = (if \<not> ic_parity c then push_bit 8 val else val)
      in c\<lparr>ic_sum := ic_sum c + ucast val, ic_parity := \<not> ic_parity c\<rparr>)"

definition InternetChecksum_add :: "InternetChecksum \<Rightarrow> bytes \<Rightarrow> InternetChecksum" where
  "InternetChecksum_add c data = foldl InternetChecksum_add_byte c data"

lemma unat_half_sum:
  fixes r :: u32
  shows "unat (drop_bit 16 r + and r 0xffff) = unat r div 2 ^ 16 + unat r mod 2 ^ 16"
proof -
  have m: "(0xffff :: u32) = mask 16" by (simp add: mask_eq_exp_minus_1)
  have d: "unat (drop_bit 16 r) = unat r div 2 ^ 16"
    unfolding unat_drop_bit_eq by (rule drop_bit_eq_div)
  have a: "unat (and r 0xffff) = unat r mod 2 ^ 16"
    unfolding m take_bit_eq_mask [symmetric] unsigned_take_bit_eq by (rule take_bit_eq_mod)
  have "unat r < 2 ^ 32" using unsigned_less [of r] by simp
  then have "unat r div 2 ^ 16 < 2 ^ 16" by (simp add: div_less_iff_less_mult)
  moreover have "unat r mod 2 ^ 16 < 2 ^ 16" by simp
  ultimately have "unat (drop_bit 16 r) + unat (and r 0xffff) < 2 ^ 32" using d a by simp
  then show ?thesis using unat_add_lem [of "drop_bit 16 r" "and r 0xffff"] d a by simp
qed

lemma half_split: "n = 65536 * (n div 2 ^ 16) + n mod (2 ^ 16 :: nat)"
  by simp

function fold_carries :: "u32 \<Rightarrow> u32" where
  "fold_carries ret =
     (if ret > 0xffff then fold_carries (drop_bit 16 ret + and ret 0xffff) else ret)"
  by pat_completeness auto
termination
proof (relation "measure unat")
  fix ret :: u32
  assume "ret > 0xffff"
  then have "unat ret \<ge> 2 ^ 16" by (simp add: word_less_nat_alt)
  then have "unat ret div 2 ^ 16 \<ge> 1" by (simp add: Suc_le_eq div_greater_zero_iff)
  then have "unat ret div 2 ^ 16 + unat ret mod 2 ^ 16 < unat ret"
    using half_split [of "unat ret"] by linarith
  then show "(drop_bit 16 ret + and ret 0xffff, ret) \<in> measure unat"
    by (simp only: in_measure unat_half_sum)
qed simp

declare fold_carries.simps [simp del]

definition InternetChecksum_value :: "InternetChecksum \<Rightarrow> u16" where
  "InternetChecksum_value c = ucast (not (fold_carries (ic_sum c)))"

subsection \<open>What the accumulator counts\<close>

fun byte_sum :: "bool \<Rightarrow> bytes \<Rightarrow> nat" where
  "byte_sum parity [] = 0"
| "byte_sum parity (b # bs) = (if parity then unat b else 256 * unat b) + byte_sum (\<not> parity) bs"

lemma unat_u8_le: "unat (b :: u8) \<le> 255"
proof -
  have "unat b < 256" using unsigned_less [of b] by simp
  then show ?thesis by simp
qed

lemma byte_sum_le: "byte_sum parity bs \<le> 65280 * length bs"
proof (induction bs arbitrary: parity)
  case (Cons b bs)
  show ?case using Cons.IH [of "\<not> parity"] unat_u8_le [of b] by auto
qed simp

lemma byte_sum_append:
  "byte_sum parity (xs @ ys) = byte_sum parity xs + byte_sum (parity \<noteq> odd (length xs)) ys"
proof (induction xs arbitrary: parity)
  case (Cons x xs)
  show ?case using Cons.IH [of "\<not> parity"] by auto
qed simp

lemma add_byte_sum:
  "ic_sum (InternetChecksum_add_byte c b)
     = ic_sum c + of_nat (if ic_parity c then unat b else 256 * unat b)"
proof -
  have "(ucast (push_bit 8 (ucast b :: u16)) :: u32) = of_nat (256 * unat b)"
    using unat_u8_le [of b]
    by (simp add: word_unat_eq_iff unsigned_ucast_eq unsigned_push_bit_eq take_bit_nat_eq_self
        push_bit_eq_mult take_bit_eq_mod mod_less unat_word_ariths)
  moreover have "(ucast (ucast b :: u16) :: u32) = ucast b"
    by (intro bit_eqI) (auto simp: bit_simps dest: bit_imp_le_length)
  ultimately show ?thesis by (simp add: InternetChecksum_add_byte_def Let_def)
qed

lemma add_sum: "ic_sum (InternetChecksum_add c bs) = ic_sum c + of_nat (byte_sum (ic_parity c) bs)"
proof (induction bs arbitrary: c)
  case (Cons b bs)
  have "ic_parity (InternetChecksum_add_byte c b) = (\<not> ic_parity c)"
    by (simp add: InternetChecksum_add_byte_def Let_def)
  then show ?case
    using Cons.IH [of "InternetChecksum_add_byte c b"] add_byte_sum [of c b]
    by (simp add: InternetChecksum_add_def)
qed (simp add: InternetChecksum_add_def)

lemma add_append:
  "InternetChecksum_add c (xs @ ys) = InternetChecksum_add (InternetChecksum_add c xs) ys"
  by (simp add: InternetChecksum_add_def)

text \<open>The bound under which the 32-bit accumulator does not wrap: enough for 65535 bytes on top
  of a pseudo-header sum.\<close>

definition checksum_fits :: "u32 \<Rightarrow> bytes \<Rightarrow> bool" where
  "checksum_fits s bs \<longleftrightarrow> unat s + 65280 * length bs < 2 ^ 32"

lemma unat_add_sum:
  assumes "checksum_fits s bs"
  shows "unat (ic_sum (InternetChecksum_add (InternetChecksum_init s) bs)) = unat s + byte_sum False bs"
proof -
  have b: "unat s + byte_sum False bs < 2 ^ 32"
    using assms byte_sum_le [of False bs] by (simp add: checksum_fits_def)
  then have "unat (of_nat (byte_sum False bs) :: u32) = byte_sum False bs"
    by (simp add: unat_of_nat)
  then show ?thesis
    using b unat_add_lem [of s "of_nat (byte_sum False bs)"]
    by (simp add: add_sum InternetChecksum_init_def)
qed

subsection \<open>One's-complement folding\<close>

lemma fold_carries_le: "unat (fold_carries r) \<le> 65535"
proof (induction r rule: fold_carries.induct)
  case (1 r)
  show ?case
  proof (cases "r > 0xffff")
    case True
    then show ?thesis using 1 by (subst fold_carries.simps) simp
  next
    case False
    then show ?thesis by (subst fold_carries.simps) (simp add: word_less_nat_alt not_less)
  qed
qed

lemma half_sum_mod: "(n div 2 ^ 16 + n mod 2 ^ 16) mod 65535 = n mod (65535 :: nat)"
proof -
  have "n = n div 2 ^ 16 + n mod 2 ^ 16 + 65535 * (n div 2 ^ 16)"
    using div_mult_mod_eq [of n "2 ^ 16"] by simp
  then show ?thesis by (metis mod_mult_self2)
qed

lemma fold_carries_mod: "unat (fold_carries r) mod 65535 = unat r mod 65535"
proof (induction r rule: fold_carries.induct)
  case (1 r)
  show ?case
  proof (cases "r > 0xffff")
    case True
    then have "unat (fold_carries r) mod 65535 = unat (drop_bit 16 r + and r 0xffff) mod 65535"
      using 1 by (simp add: fold_carries.simps [of r])
    then show ?thesis unfolding unat_half_sum half_sum_mod .
  next
    case False
    then show ?thesis by (simp add: fold_carries.simps [of r])
  qed
qed

lemma fold_carries_pos: "r \<noteq> 0 \<Longrightarrow> fold_carries r \<noteq> 0"
proof (induction r rule: fold_carries.induct)
  case (1 r)
  show ?case
  proof (cases "r > 0xffff")
    case True
    have "unat r div 2 ^ 16 + unat r mod 2 ^ 16 \<noteq> 0"
      using 1(2) half_split [of "unat r"] by (metis add_is_0 mult_0_right unat_eq_zero)
    then have "drop_bit 16 r + and r 0xffff \<noteq> 0"
      using unat_half_sum [of r] by (metis unat_0)
    then show ?thesis using 1(1) True by (simp add: fold_carries.simps [of r])
  next
    case False
    then show ?thesis using 1(2) by (simp add: fold_carries.simps [of r])
  qed
qed

lemma unat_value:
  "unat (InternetChecksum_value c) = 65535 - unat (fold_carries (ic_sum c))"
proof -
  let ?r = "fold_carries (ic_sum c)"
  have "(ucast (not ?r) :: u16) = not (ucast ?r)"
    by (intro bit_eqI) (simp add: bit_simps)
  moreover have "unat (ucast ?r :: u16) = unat ?r"
    using fold_carries_le [of "ic_sum c"] by (simp add: unsigned_ucast_eq take_bit_nat_eq_self)
  moreover have "unat (not x) = 65535 - unat x" for x :: u16
    using unat_sub [of x "- 1"]
    by (simp add: not_eq_complement diff_diff_eq [symmetric] minus_diff_commute [of x]
        word_order.extremum unsigned_minus_1_eq_mask mask_eq_exp_minus_1)
  ultimately show ?thesis by (simp add: InternetChecksum_value_def)
qed

text \<open>The checksum of the data is zero exactly when the sum is a positive multiple of 65535.\<close>

lemma value_zero_iff:
  assumes "checksum_fits s bs"
  shows "InternetChecksum_value (InternetChecksum_add (InternetChecksum_init s) bs) = 0
    \<longleftrightarrow> unat s + byte_sum False bs \<noteq> 0 \<and> (unat s + byte_sum False bs) mod 65535 = 0"
proof -
  let ?c = "InternetChecksum_add (InternetChecksum_init s) bs"
  let ?r = "fold_carries (ic_sum ?c)"
  have "InternetChecksum_value ?c = 0 \<longleftrightarrow> unat ?r = 65535"
    using unat_value [of ?c] fold_carries_le [of "ic_sum ?c"] by (simp add: word_unat_eq_iff)
  also have "\<dots> \<longleftrightarrow> unat ?r \<noteq> 0 \<and> unat ?r mod 65535 = 0"
    using fold_carries_le [of "ic_sum ?c"] by (auto simp: le_less elim!: mod_less)
  also have "\<dots> \<longleftrightarrow> unat (ic_sum ?c) \<noteq> 0 \<and> unat (ic_sum ?c) mod 65535 = 0"
    using fold_carries_pos [of "ic_sum ?c"] fold_carries_mod [of "ic_sum ?c"]
    by (auto simp: unat_eq_0 fold_carries.simps [of 0])
  finally show ?thesis by (simp only: unat_add_sum [OF assms])
qed

subsection \<open>Computing and checking\<close>

lemma unat_be_byte:
  fixes c :: "'a::len word"
  assumes "8 \<le> LENGTH('a)"
  shows "unat (be_byte c k) = unat c div 2 ^ (k * 8) mod 256"
proof -
  have m: "(0xff :: 'a word) = mask 8" by (simp add: mask_eq_exp_minus_1)
  have "be_byte c k = ucast (drop_bit (k * 8) c)"
    unfolding be_byte_def m using assms by (intro bit_eqI) (auto simp: bit_simps)
  then have "unat (be_byte c k) = take_bit 8 (drop_bit (k * 8) (unat c))"
    by (simp only: unsigned_ucast_eq unat_drop_bit_eq) simp
  then show ?thesis by (simp add: take_bit_eq_mod drop_bit_eq_div)
qed

lemma be_bytes_2: "be_bytes 2 c = [be_byte c 1, be_byte c 0]"
  by (simp add: be_bytes_def numeral_2_eq_2)

lemma byte_sum_be_bytes_2: "byte_sum False (be_bytes 2 (c :: u16)) = unat c"
proof -
  have "unat c < 256 * 256" using unsigned_less [of c] by simp
  then have "unat c div 256 < 256" by (simp add: div_less_iff_less_mult)
  then show ?thesis by (simp add: be_bytes_2 unat_be_byte)
qed

lemma byte_sum_split:
  "even (length pre) \<Longrightarrow> length mid = 2 \<Longrightarrow>
   byte_sum False (pre @ mid @ post)
     = byte_sum False pre + byte_sum False mid + byte_sum False post"
  by (simp add: byte_sum_append)

lemma complement_mod:
  fixes n r k :: nat
  assumes "r mod k = n mod k" and "r \<le> k"
  shows "(n + (k - r)) mod k = 0"
proof -
  have "(n + (k - r)) mod k = (n mod k + (k - r)) mod k" by (simp add: mod_add_left_eq)
  also have "\<dots> = (r + (k - r)) mod k" unfolding assms(1) [symmetric] by (rule mod_add_left_eq)
  finally show ?thesis using assms(2) by simp
qed

lemma checksum_field_verifies:
  fixes s :: u32
  defines "c bs \<equiv> InternetChecksum_value (InternetChecksum_add (InternetChecksum_init s) bs)"
  assumes even: "even (length pre)" and fits: "checksum_fits s (pre @ [0, 0] @ post)"
  shows "c (pre @ be_bytes 2 (c (pre @ [0, 0] @ post)) @ post) = 0"
proof -
  let ?zero = "pre @ [0, 0] @ post"
  let ?full = "pre @ be_bytes 2 (c ?zero) @ post"
  let ?n = "unat s + byte_sum False ?zero"
  let ?r = "unat (fold_carries (ic_sum (InternetChecksum_add (InternetChecksum_init s) ?zero)))"
  have r: "?r \<le> 65535" by (rule fold_carries_le)
  have "?r mod 65535 = ?n mod 65535" by (simp only: fold_carries_mod unat_add_sum [OF fits])
  then have mod: "(?n + (65535 - ?r)) mod 65535 = 0"
    using r by (intro complement_mod) simp_all
  have zero: "?r = 0" if "?n = 0"
    using that unat_add_sum [OF fits] by (simp add: unat_eq_0 fold_carries.simps [of 0])
  have "unat (c ?zero) = 65535 - ?r" unfolding c_def by (rule unat_value)
  then have sum: "unat s + byte_sum False ?full = ?n + (65535 - ?r)"
    using byte_sum_split [OF even, of "be_bytes 2 (c ?zero)" post]
      byte_sum_split [OF even, of "[0, 0]" post] byte_sum_be_bytes_2 [of "c ?zero"] by simp
  have "checksum_fits s ?full" using fits by (simp add: checksum_fits_def)
  note iff = value_zero_iff [OF this, unfolded sum]
  show ?thesis unfolding c_def [of ?full] iff using mod zero by (cases "?n = 0") auto
qed

lemma byte_sum_update:
  assumes "i < length bs"
  shows "byte_sum False (bs[i := b]) + (if odd i then 1 else 256) * unat (bs ! i)
    = byte_sum False bs + (if odd i then 1 else 256) * unat b"
proof -
  have u: "bs[i := b] = take i bs @ b # drop (Suc i) bs" using assms by (rule upd_conv_take_nth_drop)
  have s: "bs = take i bs @ bs ! i # drop (Suc i) bs" using assms by (rule id_take_nth_drop)
  have split: "byte_sum False (take i bs @ x # drop (Suc i) bs)
      = byte_sum False (take i bs) + (if odd i then 1 else 256) * unat x
        + byte_sum (even i) (drop (Suc i) bs)" for x
    using assms by (simp add: byte_sum_append)
  have "byte_sum False bs = byte_sum False (take i bs @ bs ! i # drop (Suc i) bs)"
    by (rule arg_cong [OF s])
  then show ?thesis unfolding u split by simp
qed

text \<open>C31: the Internet checksum does what the comment in util.cc promises. Compute the checksum of
  a packet whose 16-bit checksum field (at an even offset) is zero, on top of any pseudo-header
  sum; store the result in the field in network byte order; then the checksum of the packet is
  zero. The only condition is that the packet is of a size for which the 32-bit accumulator cannot
  wrap, which covers every IP datagram.\<close>
theorem internet_checksum_verifies:
  assumes "even (length pre)" and "checksum_fits s (pre @ [0, 0] @ post)"
    and "c = InternetChecksum_value (InternetChecksum_add (InternetChecksum_init s) (pre @ [0, 0] @ post))"
  shows "InternetChecksum_value
    (InternetChecksum_add (InternetChecksum_init s) (pre @ NetUnparser_u16 [] c @ post)) = 0"
  using checksum_field_verifies [OF assms(1,2)]
  by (simp add: assms(3) unparse_enc)

theorem internet_checksum_verifies_witness:
  "InternetChecksum_value (InternetChecksum_add (InternetChecksum_init 0x1abcd)
     ([0x45, 0xff] @ NetUnparser_u16 [] (InternetChecksum_value
        (InternetChecksum_add (InternetChecksum_init 0x1abcd) ([0x45, 0xff] @ [0, 0] @ [7])))
      @ [7])) = 0"
  by (rule internet_checksum_verifies [OF _ _ refl]) (simp_all add: checksum_fits_def)

lemma weighted_difference:
  fixes m n x y w :: nat
  assumes "65535 dvd n" and "65535 dvd m" and eq: "n + w * y = m + w * x"
    and w: "w = 1 \<or> w = 256" and "x \<le> 255" and "y \<le> 255"
  shows "x = y"
proof -
  obtain p q where n: "n = 65535 * p" and m: "m = 65535 * q" using assms(1,2) by (auto elim!: dvdE)
  have "65535 * p + w * y = 65535 * q + w * x" using eq n m by simp
  moreover have "w * x < 65535" "w * y < 65535" using w assms(5,6) by auto
  ultimately have "w * x = w * y" by (cases p q rule: linorder_cases) linarith+
  then show ?thesis using w by auto
qed

lemma checksum_detects_byte:
  assumes "checksum_fits s bs" and "i < length bs" and "b \<noteq> bs ! i"
    and "InternetChecksum_value (InternetChecksum_add (InternetChecksum_init s) bs) = 0"
  shows "InternetChecksum_value (InternetChecksum_add (InternetChecksum_init s) (bs[i := b])) \<noteq> 0"
proof
  assume z: "InternetChecksum_value (InternetChecksum_add (InternetChecksum_init s) (bs[i := b])) = 0"
  let ?m = "unat s + byte_sum False bs" and ?n = "unat s + byte_sum False (bs[i := b])"
  have "checksum_fits s (bs[i := b])" using assms(1) by (simp add: checksum_fits_def)
  then have "65535 dvd ?n" using z value_zero_iff by (blast dest: mod_0_imp_dvd)
  moreover have "65535 dvd ?m" using assms(1,4) value_zero_iff by (blast dest: mod_0_imp_dvd)
  moreover have "?n + (if odd i then 1 else 256) * unat (bs ! i)
      = ?m + (if odd i then 1 else 256) * unat b"
    using byte_sum_update [OF assms(2), of b] by simp
  ultimately have "unat b = unat (bs ! i)"
    by (rule weighted_difference) (auto simp: unat_u8_le)
  then show False using assms(3) by (simp add: word_unat_eq_iff)
qed

text \<open>Corruption of any single byte is detected: when a packet checks (its checksum is zero) and
  one of its bytes is replaced by a different one, the packet no longer checks.\<close>

theorem internet_checksum_detects_byte:
  assumes "checksum_fits s bs" and "i < length bs" and "b \<noteq> bs ! i"
    and "InternetChecksum_value (InternetChecksum_add (InternetChecksum_init s) bs) = 0"
  shows "InternetChecksum_value (InternetChecksum_add (InternetChecksum_init s) (bs[i := b])) \<noteq> 0"
  using assms by (rule checksum_detects_byte)

theorem internet_checksum_detects_byte_witness:
  "InternetChecksum_value (InternetChecksum_add (InternetChecksum_init 1) [0xff, 0xfe]) = 0 \<and>
   InternetChecksum_value (InternetChecksum_add (InternetChecksum_init 1) ([0xff, 0xfe][1 := 0xff])) \<noteq> 0"
proof
  show z: "InternetChecksum_value (InternetChecksum_add (InternetChecksum_init 1) [0xff, 0xfe]) = 0"
    by (simp add: value_zero_iff checksum_fits_def)
  show "InternetChecksum_value
      (InternetChecksum_add (InternetChecksum_init 1) ([0xff, 0xfe][1 := 0xff])) \<noteq> 0"
    by (rule internet_checksum_detects_byte [OF _ _ _ z]) (simp_all add: checksum_fits_def)
qed

end
