(* ===== verification/Wrapping_Integers.thy ===== *)
theory Wrapping_Integers
  imports Sponge_Prelude
begin

text \<open>
  The 32-bit wrapping sequence numbers of \<open>src/libsponge/wrapping_integers.{hh,cc}\<close>: the
  class \<open>WrappingInt32\<close>, its arithmetic, and the conversions \<open>wrap\<close> and \<open>unwrap\<close> between
  64-bit absolute sequence numbers and sequence numbers on the wire. The lemmas show that
  \<open>unwrap\<close> is a section of \<open>wrap\<close>, that it answers the candidate closest to the checkpoint,
  and that the two are inverse within half the 32-bit range. The locale \<open>seqno_codec\<close> states
  what the sender and the receiver rely on.
\<close>

subsection \<open>Definitions\<close>

datatype WrappingInt32 = WrappingInt32 (raw_value: u32)

definition wrap :: "u64 \<Rightarrow> WrappingInt32 \<Rightarrow> WrappingInt32" where
  "wrap n isn = WrappingInt32 (ucast (n + ucast (raw_value isn)))"

definition MAXUINT :: u64 where
  "MAXUINT = 0x100000000"

definition unwrap :: "WrappingInt32 \<Rightarrow> WrappingInt32 \<Rightarrow> u64 \<Rightarrow> u64" where
  "unwrap n isn checkpoint =
     (let abs_sqn = ucast (raw_value n - raw_value isn) in
      if checkpoint > abs_sqn then
        let factor = (checkpoint - abs_sqn) div MAXUINT;
            abs_sqn = abs_sqn + MAXUINT * factor
        in if abs_sqn + MAXUINT - checkpoint < checkpoint - abs_sqn
           then abs_sqn + MAXUINT else abs_sqn
      else abs_sqn)"

definition WrappingInt32_minus :: "WrappingInt32 \<Rightarrow> WrappingInt32 \<Rightarrow> int" where
  "WrappingInt32_minus a b = sint (raw_value a - raw_value b)"

definition WrappingInt32_plus_u32 :: "WrappingInt32 \<Rightarrow> u32 \<Rightarrow> WrappingInt32" where
  "WrappingInt32_plus_u32 a b = WrappingInt32 (raw_value a + b)"

definition WrappingInt32_minus_u32 :: "WrappingInt32 \<Rightarrow> u32 \<Rightarrow> WrappingInt32" where
  "WrappingInt32_minus_u32 a b = WrappingInt32_plus_u32 a (- b)"

subsection \<open>Reading the conversions over the natural numbers\<close>

lemma unat_ucast_32_64 [simp]: "unat (ucast (x :: u32) :: u64) = unat x"
  by transfer (simp add: take_bit_eq_mod)

lemma unat_ucast_64_32 [simp]: "unat (ucast (x :: u64) :: u32) = unat x mod 2 ^ 32"
  by transfer (simp add: take_bit_eq_mod nat_mod_distrib)

lemma ucast_32_64_32 [simp]: "(ucast (ucast (r :: u32) :: u64) :: u32) = r"
  by transfer simp

lemma raw_value_wrap: "raw_value (wrap n isn) = ucast n + raw_value isn"
  by (simp add: wrap_def ucast_add_64_32)

lemma offset_wrap: "raw_value (wrap n isn) - raw_value isn = ucast n"
  by (simp add: raw_value_wrap)

lemma wrap_eq_iff_ucast: "wrap a isn = wrap b isn \<longleftrightarrow> (ucast a :: u32) = ucast b"
  by (simp add: wrap_def ucast_add_64_32)

lemma wrap_eq_iff:
  "wrap a isn = wrap b isn \<longleftrightarrow> unat a mod 2 ^ 32 = unat b mod 2 ^ 32"
  unfolding wrap_eq_iff_ucast word_unat_eq_iff by simp

text \<open>The candidate below the checkpoint, and its distance from the checkpoint.\<close>

definition unwrap_nat :: "nat \<Rightarrow> nat \<Rightarrow> nat" where
  "unwrap_nat a c =
     (if a < c then
        let r = (c - a) mod 2 ^ 32 in
        if 2 ^ 32 - r < r then (c - r + 2 ^ 32) mod 2 ^ 64 else c - r
      else a)"

lemma unat_MAXUINT: "unat MAXUINT = 2 ^ 32"
  by (simp add: MAXUINT_def)

lemma unat_unwrap:
  "unat (unwrap n isn c) = unwrap_nat (unat (raw_value n - raw_value isn)) (unat c)"
proof (cases "ucast (raw_value n - raw_value isn) < c")
  case False
  then show ?thesis by (simp add: unwrap_def unwrap_nat_def word_less_nat_alt)
next
  case True
  define a where "a = (ucast (raw_value n - raw_value isn) :: u64)"
  define b where "b = a + MAXUINT * ((c - a) div MAXUINT)"
  define r where "r = (unat c - unat a) mod 2 ^ 32"
  have a: "unat a = unat (raw_value n - raw_value isn)" by (simp add: a_def)
  have ac: "unat a < unat c" using True by (simp add: a_def word_less_nat_alt)
  have "unat ((c - a) div MAXUINT) = (unat c - unat a) div 2 ^ 32"
    using ac by (simp add: unat_div_distrib unat_MAXUINT unat_sub word_le_nat_alt)
  then have m: "unat (MAXUINT * ((c - a) div MAXUINT)) = unat c - unat a - r"
    using unat_u64_bound [of c]
    by (simp add: unat_word_ariths unat_MAXUINT r_def minus_mod_eq_mult_div)
  have r_le: "r \<le> unat c - unat a" by (simp add: r_def)
  have b: "unat b = unat c - r"
    unfolding b_def using m r_le ac unat_u64_bound [of c]
    by (simp add: unat_word_ariths)
  have bc: "unat (c - b) = r" using b r_le by (simp add: unat_sub word_le_nat_alt)
  have r32: "r < 2 ^ 32" by (simp add: r_def)
  have e: "b + MAXUINT - c = MAXUINT - (c - b)" by simp
  have d: "unat (b + MAXUINT - c) = 2 ^ 32 - r"
    unfolding e using bc r32 by (subst unat_sub) (simp_all add: unat_MAXUINT word_le_nat_alt)
  have "unwrap n isn c = (if b + MAXUINT - c < c - b then b + MAXUINT else b)"
    using True by (simp add: unwrap_def Let_def flip: a_def b_def)
  moreover have "unat (b + MAXUINT) = (unat c - r + 2 ^ 32) mod 2 ^ 64"
    by (simp add: unat_word_ariths b unat_MAXUINT)
  ultimately show ?thesis
    unfolding unwrap_nat_def Let_def a [symmetric] r_def [symmetric]
    using ac by (simp add: word_less_nat_alt bc d b)
qed

subsection \<open>Correctness of the conversions\<close>

lemma wrap_unwrap [simp]: "wrap (unwrap n isn c) isn = n"
proof (cases n)
  case (WrappingInt32 x)
  define y where "y = x - raw_value isn"
  have z: "(ucast MAXUINT :: u32) = 0" by (simp add: MAXUINT_def)
  have m: "(ucast (MAXUINT * k) :: u32) = 0" for k
    by (simp add: word_unat_eq_iff unat_word_ariths unat_MAXUINT mod_mod_cancel)
  have "ucast (unwrap n isn c) = y"
    by (simp add: unwrap_def Let_def ucast_add_64_32 m z WrappingInt32 flip: y_def)
  then show ?thesis by (simp add: wrap_def ucast_add_64_32 WrappingInt32 y_def)
qed

lemma split32: obtains k r where "(x::nat) = r + 4294967296 * k" "r < 4294967296" "r = x mod 2 ^ 32"
  by (rule that [of "x mod 2 ^ 32" "x div 2 ^ 32"]) simp_all

lemma unwrap_nat_near:
  assumes "m < c + 2 ^ 31" and "c \<le> m + 2 ^ 31" and "m < 2 ^ 64"
  shows "unwrap_nat (m mod 2 ^ 32) c = m"
proof -
  obtain k a where m: "m = a + 4294967296 * k" "a < 4294967296" "a = m mod 2 ^ 32"
    by (rule split32)
  obtain q r where c: "c - a = r + 4294967296 * q" "r < 4294967296" "r = (c - a) mod 2 ^ 32"
    by (rule split32)
  show ?thesis
  proof (cases "a < c")
    case False
    then have "k = 0" using assms(1) m(1,2) by simp
    then have "m = a" using m(1) by simp
    then show ?thesis unfolding m(3) [symmetric] using False by (simp add: unwrap_nat_def)
  next
    case True
    then have c': "c = a + r + 4294967296 * q" using c(1) by simp
    have u: "unwrap_nat a c = (if 2 ^ 32 - r < r then (c - r + 2 ^ 32) mod 2 ^ 64 else c - r)"
      using True unfolding c(3) by (simp add: unwrap_nat_def Let_def)
    have k: "k = (if 2 ^ 32 - r < r then Suc q else q)"
    proof (cases "2 ^ 32 - r < r")
      case True
      then have "q < k" "k < q + 2" using assms(1,2) m(1) c' c(2) by simp_all
      then show ?thesis using True by simp
    next
      case False
      then have "q < k + 1" "k < q + 1" using assms(1,2) m(1) c' c(2) by simp_all
      then show ?thesis using False by simp
    qed
    show ?thesis
      unfolding m(3) [symmetric] u using k m(1) assms(3) c' by (simp split: if_splits)
  qed
qed

lemma unwrap_wrap:
  assumes "unat m < unat c + 2 ^ 31" and "unat c \<le> unat m + 2 ^ 31"
  shows "unwrap (wrap m isn) isn c = m"
proof -
  have "unat (unwrap (wrap m isn) isn c) = unwrap_nat (unat m mod 2 ^ 32) (unat c)"
    by (simp add: unat_unwrap offset_wrap)
  also have "\<dots> = unat m"
    using assms unat_u64_bound by (rule unwrap_nat_near)
  finally show ?thesis by (simp add: word_unat_eq_iff)
qed

lemma unwrap_nat_closest:
  assumes "c + 2 ^ 32 < 2 ^ 64" and "a < 2 ^ 32" and "m mod 2 ^ 32 = a"
  shows "\<bar>int (unwrap_nat a c) - int c\<bar> \<le> \<bar>int m - int c\<bar>"
proof -
  obtain k a' where m: "m = a' + 4294967296 * k" "a' < 4294967296" "a' = m mod 2 ^ 32"
    by (rule split32)
  have a: "a' = a" using assms(3) m(3) by simp
  obtain q r where c: "c - a = r + 4294967296 * q" "r < 4294967296" "r = (c - a) mod 2 ^ 32"
    by (rule split32)
  show ?thesis
  proof (cases "a < c")
    case False
    then show ?thesis using m(1) a by (simp add: unwrap_nat_def)
  next
    case True
    then have c': "c = a + r + 4294967296 * q" using c(1) by simp
    have u: "unwrap_nat a c = (if 2 ^ 32 - r < r then a + 4294967296 * q + 2 ^ 32 else a + 4294967296 * q)"
      unfolding unwrap_nat_def Let_def c(3) [symmetric] using True assms(1) c' by simp
    have "k \<le> q \<or> q + 1 \<le> k" by linarith
    then show ?thesis using u m(1) a c' c(2) by (auto split: if_splits)
  qed
qed

text \<open>C34: of all absolute sequence numbers that wrap to \<open>n\<close>, \<open>unwrap\<close> answers one that is
  closest to the checkpoint, as long as the checkpoint is more than \<open>2 ^ 32\<close> away from the end
  of the 64-bit range.\<close>
theorem unwrap_closest:
  assumes "unat c + 2 ^ 32 < 2 ^ 64" and "wrap m isn = n"
  shows "wrap (unwrap n isn c) isn = n \<and>
    \<bar>int (unat (unwrap n isn c)) - int (unat c)\<bar> \<le> \<bar>int (unat m) - int (unat c)\<bar>"
proof -
  have "unat m mod 2 ^ 32 = unat (raw_value n - raw_value isn)"
    using offset_wrap [of m isn] assms(2) by simp
  moreover have "unat (raw_value n - raw_value isn) < 2 ^ 32"
    using unsigned_less [of "raw_value n - raw_value isn", where ?'a = nat] by simp
  ultimately show ?thesis
    unfolding unat_unwrap wrap_unwrap using unwrap_nat_closest [OF assms(1)] by blast
qed

theorem unwrap_closest_witness:
  "wrap (unwrap (WrappingInt32 15) (WrappingInt32 16) 0) (WrappingInt32 16) = WrappingInt32 15 \<and>
   \<bar>int (unat (unwrap (WrappingInt32 15) (WrappingInt32 16) 0)) - int (unat (0 :: u64))\<bar>
     \<le> \<bar>int (unat (0x1FFFFFFFF :: u64)) - int (unat (0 :: u64))\<bar>"
  by (rule unwrap_closest) (simp_all add: wrap_def)

text \<open>C35: an absolute sequence number that lies within half the 32-bit range of the checkpoint
  (up to \<open>2 ^ 31\<close> below it, less than \<open>2 ^ 31\<close> above it) survives the trip over the wire, for every
  initial sequence number.\<close>
theorem unwrap_wrap_roundtrip:
  assumes "unat m < unat c + 2 ^ 31" and "unat c \<le> unat m + 2 ^ 31"
  shows "unwrap (wrap m isn) isn c = m"
  using assms by (rule unwrap_wrap)

theorem unwrap_wrap_roundtrip_witness:
  "unwrap (wrap 0x300000005 (WrappingInt32 0xFFFFFFFF)) (WrappingInt32 0xFFFFFFFF) 0x2FFFFFFFF
     = 0x300000005"
  by (rule unwrap_wrap_roundtrip) simp_all

subsection \<open>The interface to sender and receiver\<close>

text \<open>
  What the two ends of a connection rely on: a sequence number read off the wire is exact as long
  as the reader's checkpoint is within \<open>half\<close> of it.
\<close>

locale seqno_codec =
  fixes enc :: "u64 \<Rightarrow> 'i \<Rightarrow> 'w"
    and dec :: "'w \<Rightarrow> 'i \<Rightarrow> u64 \<Rightarrow> u64"
    and half :: nat
  assumes dec_enc: "unat m < unat c + half \<Longrightarrow> unat c \<le> unat m + half \<Longrightarrow> dec (enc m i) i c = m"
    and enc_dec: "enc (dec w i c) i = w"
begin

lemma enc_inj_near:
  assumes "enc a i = enc b i" and "unat a < unat b + half" and "unat b < unat a + half"
  shows "a = b"
proof -
  have "a = dec (enc a i) i b" using assms(2,3) by (intro dec_enc [symmetric]) linarith+
  also have "\<dots> = dec (enc b i) i b" by (simp only: assms(1))
  also have "\<dots> = b" using assms(2,3) by (intro dec_enc) linarith+
  finally show ?thesis .
qed

lemma dec_enc_below:
  "unat m < half \<Longrightarrow> unat c < half \<Longrightarrow> dec (enc m i) i c = m"
  by (rule dec_enc) linarith+

end

interpretation seqno: seqno_codec wrap unwrap "2 ^ 31"
  by unfold_locales (erule (1) unwrap_wrap, rule wrap_unwrap)

end
