(* ===== verification/TCP_Segment.thy ===== *)
theory TCP_Segment
  imports Internet_Checksum Wrapping_Integers
begin

text \<open>
  TCP headers and segments on the wire: \<open>src/libsponge/tcp_helpers/tcp_header.{hh,cc}\<close> and
  \<open>tcp_segment.{hh,cc}\<close>. Parsing assigns every header field, so \<open>parse\<close> returns the header
  instead of updating one; the parser passed by reference is returned too. The main results are
  that parsing inverts serialisation and that a segment with a corrupted byte is rejected.
\<close>

subsection \<open>TCPHeader\<close>

record TCPHeader =
  th_sport :: u16
  th_dport :: u16
  th_seqno :: WrappingInt32
  th_ackno :: WrappingInt32
  th_doff :: u8
  th_urg :: bool
  th_ack :: bool
  th_psh :: bool
  th_rst :: bool
  th_syn :: bool
  th_fin :: bool
  th_win :: u16
  th_cksum :: u16
  th_uptr :: u16

definition TCPHeader_LENGTH :: u64 where
  "TCPHeader_LENGTH = 20"

definition TCPHeader_default :: TCPHeader where
  "TCPHeader_default = \<lparr>th_sport = 0, th_dport = 0, th_seqno = WrappingInt32 0,
     th_ackno = WrappingInt32 0, th_doff = ucast (TCPHeader_LENGTH div 4), th_urg = False,
     th_ack = False, th_psh = False, th_rst = False, th_syn = False, th_fin = False, th_win = 0,
     th_cksum = 0, th_uptr = 0\<rparr>"

definition TCPHeader_parse :: "NetParser \<Rightarrow> ParseResult \<times> TCPHeader \<times> NetParser" where
  "TCPHeader_parse p =
     (let (sport, p) = NetParser_u16 p;
          (dport, p) = NetParser_u16 p;
          (seqno, p) = NetParser_u32 p;
          (ackno, p) = NetParser_u32 p;
          (doff_b, p) = NetParser_u8 p;
          doff = drop_bit 4 doff_b;
          (fl_b, p) = NetParser_u8 p;
          (win, p) = NetParser_u16 p;
          (cksum, p) = NetParser_u16 p;
          (uptr, p) = NetParser_u16 p;
          h = \<lparr>th_sport = sport, th_dport = dport, th_seqno = WrappingInt32 seqno,
               th_ackno = WrappingInt32 ackno, th_doff = doff,
               th_urg = (and fl_b 0x20 \<noteq> 0), th_ack = (and fl_b 0x10 \<noteq> 0),
               th_psh = (and fl_b 0x08 \<noteq> 0), th_rst = (and fl_b 0x04 \<noteq> 0),
               th_syn = (and fl_b 0x02 \<noteq> 0), th_fin = (and fl_b 0x01 \<noteq> 0),
               th_win = win, th_cksum = cksum, th_uptr = uptr\<rparr>
      in if doff < 5 then (HeaderTooShort, h, p)
         else let p = NetParser_remove_prefix p (ucast doff * 4 - TCPHeader_LENGTH)
              in if NetParser_error p then (np_error p, h, p) else (NoError, h, p))"

text \<open>\<open>std::string::resize\<close>: cut, or padded with zero bytes.\<close>

definition string_resize :: "bytes \<Rightarrow> nat \<Rightarrow> bytes" where
  "string_resize s n = take n s @ replicate (n - length s) 0"

definition TCPHeader_flags :: "TCPHeader \<Rightarrow> u8" where
  "TCPHeader_flags h =
     or (or (or (or (or (if th_urg h then 0x20 else 0) (if th_ack h then 0x10 else 0))
       (if th_psh h then 0x08 else 0)) (if th_rst h then 0x04 else 0))
       (if th_syn h then 0x02 else 0)) (if th_fin h then 0x01 else 0)"

definition TCPHeader_serialize :: "TCPHeader \<Rightarrow> bytes result" where
  "TCPHeader_serialize h =
     (if th_doff h < 5 then Inl (Runtime_error ''TCP header too short'')
      else let ret = [];
               ret = NetUnparser_u16 ret (th_sport h);
               ret = NetUnparser_u16 ret (th_dport h);
               ret = NetUnparser_u32 ret (raw_value (th_seqno h));
               ret = NetUnparser_u32 ret (raw_value (th_ackno h));
               ret = NetUnparser_u8 ret (push_bit 4 (th_doff h));
               ret = NetUnparser_u8 ret (TCPHeader_flags h);
               ret = NetUnparser_u16 ret (th_win h);
               ret = NetUnparser_u16 ret (th_cksum h);
               ret = NetUnparser_u16 ret (th_uptr h)
           in Inr (string_resize ret (4 * unat (th_doff h))))"

definition TCPHeader_eq :: "TCPHeader \<Rightarrow> TCPHeader \<Rightarrow> bool" where
  "TCPHeader_eq h other \<longleftrightarrow>
     th_seqno h = th_seqno other \<and> th_ackno h = th_ackno other \<and> th_doff h = th_doff other \<and>
     th_urg h = th_urg other \<and> th_ack h = th_ack other \<and> th_psh h = th_psh other \<and>
     th_rst h = th_rst other \<and> th_syn h = th_syn other \<and> th_fin h = th_fin other \<and>
     th_win h = th_win other \<and> th_uptr h = th_uptr other"

subsection \<open>TCPSegment\<close>

record TCPSegment =
  seg_header :: TCPHeader
  seg_payload :: Buffer

definition TCPSegment_default :: TCPSegment where
  "TCPSegment_default = \<lparr>seg_header = TCPHeader_default, seg_payload = Buffer_default\<rparr>"

definition TCPSegment_parse :: "TCPSegment \<Rightarrow> Buffer \<Rightarrow> u32 \<Rightarrow> ParseResult \<times> TCPSegment" where
  "TCPSegment_parse seg buffer datagram_layer_checksum =
     (let check = InternetChecksum_add (InternetChecksum_init datagram_layer_checksum) (Buffer_str buffer)
      in if InternetChecksum_value check \<noteq> 0 then (BadChecksum, seg)
         else let p = NetParser_init buffer;
                  (_, h, p) = TCPHeader_parse p
              in (np_error p, seg\<lparr>seg_header := h, seg_payload := np_buffer p\<rparr>))"

definition TCPSegment_length_in_sequence_space :: "TCPSegment \<Rightarrow> u64" where
  "TCPSegment_length_in_sequence_space seg =
     sz (Buffer_str (seg_payload seg)) + (if th_syn (seg_header seg) then 1 else 0)
       + (if th_fin (seg_header seg) then 1 else 0)"

definition TCPSegment_serialize :: "TCPSegment \<Rightarrow> u32 \<Rightarrow> BufferList result" where
  "TCPSegment_serialize seg datagram_layer_checksum =
     (let header_out = (seg_header seg)\<lparr>th_cksum := 0\<rparr>;
          check = InternetChecksum_init datagram_layer_checksum
      in case TCPHeader_serialize header_out of
           Inl e \<Rightarrow> Inl e
         | Inr hdr0 \<Rightarrow>
             let check = InternetChecksum_add check hdr0;
                 check = InternetChecksum_add check (Buffer_str (seg_payload seg));
                 header_out = header_out\<lparr>th_cksum := InternetChecksum_value check\<rparr>
             in case TCPHeader_serialize header_out of
                  Inl e \<Rightarrow> Inl e
                | Inr hdr \<Rightarrow>
                    let ret = [];
                        ret = BufferList_append ret (BufferList_of_string hdr);
                        ret = BufferList_append ret (BufferList_of_Buffer (seg_payload seg))
                    in Inr ret)"

subsection \<open>The wire format\<close>

text \<open>The header before the checksum field, the checksum, and what follows it.\<close>

definition header_front :: "TCPHeader \<Rightarrow> bytes" where
  "header_front h =
     be_bytes 2 (th_sport h) @ be_bytes 2 (th_dport h) @ be_bytes 4 (raw_value (th_seqno h)) @
     be_bytes 4 (raw_value (th_ackno h)) @ be_bytes 1 (push_bit 4 (th_doff h)) @
     be_bytes 1 (TCPHeader_flags h) @ be_bytes 2 (th_win h)"

definition header_back :: "TCPHeader \<Rightarrow> bytes" where
  "header_back h = be_bytes 2 (th_uptr h) @ replicate (4 * unat (th_doff h) - 20) 0"

lemma length_header_front [simp]: "length (header_front h) = 16"
  by (simp add: header_front_def)

lemma serialize_header:
  assumes "5 \<le> th_doff h"
  shows "TCPHeader_serialize h = Inr (header_front h @ be_bytes 2 (th_cksum h) @ header_back h)"
proof -
  have "5 \<le> unat (th_doff h)" using assms by (simp add: word_le_nat_alt)
  then show ?thesis
    using assms
    by (simp add: TCPHeader_serialize_def header_front_def header_back_def unparse_enc
        string_resize_def Let_def)
qed

lemma header_parts_cksum [simp]:
  "header_front (h\<lparr>th_cksum := c\<rparr>) = header_front h"
  "header_back (h\<lparr>th_cksum := c\<rparr>) = header_back h"
  by (simp_all add: header_front_def header_back_def TCPHeader_flags_def)

lemma be_bytes_2_zero: "be_bytes 2 (0 :: u16) = [0, 0]"
  by (simp add: be_bytes_2 be_byte_def)

text \<open>Each flag is read back from the flag byte.\<close>

lemma flags_roundtrip:
  "and (TCPHeader_flags h) 0x20 \<noteq> 0 \<longleftrightarrow> th_urg h" "and (TCPHeader_flags h) 0x10 \<noteq> 0 \<longleftrightarrow> th_ack h"
  "and (TCPHeader_flags h) 0x08 \<noteq> 0 \<longleftrightarrow> th_psh h" "and (TCPHeader_flags h) 0x04 \<noteq> 0 \<longleftrightarrow> th_rst h"
  "and (TCPHeader_flags h) 0x02 \<noteq> 0 \<longleftrightarrow> th_syn h" "and (TCPHeader_flags h) 0x01 \<noteq> 0 \<longleftrightarrow> th_fin h"
  by (cases "th_urg h"; cases "th_ack h"; cases "th_psh h"; cases "th_rst h"; cases "th_syn h";
      cases "th_fin h"; simp add: TCPHeader_flags_def)+

lemma doff_roundtrip:
  assumes "(d :: u8) \<le> 15"
  shows "drop_bit 4 (push_bit 4 d) = d"
proof -
  have "unat d \<le> 15" using assms by (simp add: word_le_nat_alt)
  moreover have "unat (drop_bit 4 (push_bit 4 d)) = drop_bit 4 (take_bit 8 (push_bit 4 (unat d)))"
    by (simp only: unat_drop_bit_eq unsigned_push_bit_eq) simp
  ultimately show ?thesis
    by (simp add: word_unat_eq_iff drop_bit_eq_div push_bit_eq_mult take_bit_eq_mod)
qed

subsection \<open>Parsing what was serialised\<close>

lemma parse_header:
  assumes doff: "5 \<le> th_doff h" "th_doff h \<le> 15"
    and p: "parses p (header_front h @ be_bytes 2 (th_cksum h) @ header_back h @ rest)"
  shows "\<exists>p'. TCPHeader_parse p = (NoError, h, p') \<and> parses p' rest"
proof -
  note p0 = p [unfolded header_front_def header_back_def append_assoc]
  note p1 = codec16.rest_enc [OF p0] note v1 = codec16.parse_enc [OF p0]
  note p2 = codec16.rest_enc [OF p1] note v2 = codec16.parse_enc [OF p1]
  note p3 = codec32.rest_enc [OF p2] note v3 = codec32.parse_enc [OF p2]
  note p4 = codec32.rest_enc [OF p3] note v4 = codec32.parse_enc [OF p3]
  note p5 = codec8.rest_enc [OF p4] note v5 = codec8.parse_enc [OF p4]
  note p6 = codec8.rest_enc [OF p5] note v6 = codec8.parse_enc [OF p5]
  note p7 = codec16.rest_enc [OF p6] note v7 = codec16.parse_enc [OF p6]
  note p8 = codec16.rest_enc [OF p7] note v8 = codec16.parse_enc [OF p7]
  note p9 = codec16.rest_enc [OF p8] note v9 = codec16.parse_enc [OF p8]
  have d: "5 \<le> unat (th_doff h)" "unat (th_doff h) \<le> 15"
    using doff by (simp_all add: word_le_nat_alt)
  have skip: "unat (ucast (th_doff h) * 4 - TCPHeader_LENGTH) = 4 * unat (th_doff h) - 20"
  proof -
    have "unat (ucast (th_doff h) * 4 :: u64) = unat (th_doff h) * 4"
      using d by (subst unat_mult_lem [THEN iffD1]) (simp_all add: unsigned_ucast_eq take_bit_nat_eq_self)
    then show ?thesis
      using d by (subst unat_sub) (simp_all add: TCPHeader_LENGTH_def word_le_nat_alt)
  qed
  note p10 = remove_prefix_parses [OF p9, of "ucast (th_doff h) * 4 - TCPHeader_LENGTH", unfolded skip]
  show ?thesis
    using doff p10 parses_no_error [OF p10]
    by (simp add: TCPHeader_parse_def split_beta Let_def v1 v2 v3 v4 v5 v6 v7 v8 v9 doff_roundtrip
        flags_roundtrip NetParser_error_def not_less)
qed

lemma serialize_segment:
  fixes seg :: TCPSegment and ck :: u32
  assumes "5 \<le> th_doff (seg_header seg)"
  defines "h \<equiv> seg_header seg" and "d \<equiv> Buffer_str (seg_payload seg)"
  defines "c \<equiv> InternetChecksum_value (InternetChecksum_add (InternetChecksum_init ck)
    (header_front h @ [0, 0] @ header_back h @ d))"
  shows "\<exists>out. TCPSegment_serialize seg ck = Inr out \<and>
    BufferList_concatenate out = header_front h @ be_bytes 2 c @ header_back h @ d"
  using assms(1)
  by (simp add: TCPSegment_serialize_def Let_def h_def d_def c_def serialize_header
      be_bytes_2_zero add_append [symmetric])

text \<open>The segments that fit an IP datagram: the data offset is a 4-bit field, and header and payload
  are short enough for the checksum.\<close>

definition segment_fits :: "TCPSegment \<Rightarrow> u32 \<Rightarrow> bool" where
  "segment_fits seg ck \<longleftrightarrow>
     5 \<le> th_doff (seg_header seg) \<and> th_doff (seg_header seg) \<le> 15 \<and>
     unat ck + 65280 * (60 + length (Buffer_str (seg_payload seg))) < 2 ^ 32"

lemma segment_fits_wire:
  assumes "segment_fits seg ck" and "length mid = 2"
  shows "checksum_fits ck (header_front (seg_header seg) @ mid @ header_back (seg_header seg)
    @ Buffer_str (seg_payload seg))"
proof -
  have "length (header_back (seg_header seg)) \<le> 42"
    using assms(1) by (auto simp: segment_fits_def header_back_def word_le_nat_alt)
  then show ?thesis using assms by (simp add: segment_fits_def checksum_fits_def)
qed

lemma serialize_verifies:
  assumes "segment_fits seg ck" and "TCPSegment_serialize seg ck = Inr out"
  shows "checksum_fits ck (BufferList_concatenate out)"
    and "InternetChecksum_value
      (InternetChecksum_add (InternetChecksum_init ck) (BufferList_concatenate out)) = 0"
proof -
  let ?h = "seg_header seg" and ?d = "Buffer_str (seg_payload seg)"
  define c where "c = InternetChecksum_value (InternetChecksum_add (InternetChecksum_init ck)
    (header_front ?h @ [0, 0] @ header_back ?h @ ?d))"
  have out: "BufferList_concatenate out = header_front ?h @ be_bytes 2 c @ header_back ?h @ ?d"
    using serialize_segment [of seg ck] assms by (simp add: segment_fits_def c_def)
  show "checksum_fits ck (BufferList_concatenate out)"
    unfolding out by (rule segment_fits_wire [OF assms(1)]) simp
  show "InternetChecksum_value
      (InternetChecksum_add (InternetChecksum_init ck) (BufferList_concatenate out)) = 0"
    unfolding out c_def
    by (rule checksum_field_verifies) (simp, rule segment_fits_wire [OF assms(1)], simp)
qed

lemma checksum_fits_length: "checksum_fits s bs \<Longrightarrow> length bs < 2 ^ 64"
  by (simp add: checksum_fits_def)

lemma parse_serialized:
  assumes "segment_fits seg ck" and ser: "TCPSegment_serialize seg ck = Inr out"
    and b: "Buffer_inv b" "Buffer_str b = BufferList_concatenate out"
  shows "\<exists>seg'. TCPSegment_parse seg0 b ck = (NoError, seg') \<and>
    seg_header seg' = (seg_header seg)\<lparr>th_cksum := th_cksum (seg_header seg')\<rparr> \<and>
    Buffer_str (seg_payload seg') = Buffer_str (seg_payload seg)"
proof -
  let ?h = "seg_header seg"
  have doff: "5 \<le> th_doff ?h" "th_doff ?h \<le> 15" using assms(1) by (simp_all add: segment_fits_def)
  obtain c :: u16 where out: "BufferList_concatenate out
       = header_front ?h @ be_bytes 2 c @ header_back ?h @ Buffer_str (seg_payload seg)"
    using serialize_segment [OF doff(1), of ck] ser by auto
  have "parses (NetParser_init b) (BufferList_concatenate out)" using parses_init [OF b(1)] b(2) by simp
  then obtain p' where "TCPHeader_parse (NetParser_init b) = (NoError, ?h\<lparr>th_cksum := c\<rparr>, p')"
    and p': "parses p' (Buffer_str (seg_payload seg))"
    using parse_header [of "?h\<lparr>th_cksum := c\<rparr>"] doff by (auto simp: out)
  then show ?thesis
    using serialize_verifies(2) [OF assms(1) ser] parses_buffer [OF p'] parses_no_error [OF p']
    by (simp add: TCPSegment_parse_def Let_def b(2))
qed

lemma serialize_defined: "segment_fits seg ck \<Longrightarrow> \<exists>out. TCPSegment_serialize seg ck = Inr out"
  using serialize_segment [of seg ck] by (auto simp: segment_fits_def)

text \<open>C8: Serialising a TCP segment and parsing the bytes gives the segment back. For every segment
  whose data offset is a legal 4-bit value and whose size fits an IP datagram, and every
  pseudo-header sum, serialisation succeeds, the parser accepts the result, every header field
  except the freshly computed checksum is the original one, and so is the payload.\<close>

theorem tcp_segment_roundtrip:
  assumes "segment_fits seg ck"
  shows "\<exists>out seg'. TCPSegment_serialize seg ck = Inr out \<and>
    TCPSegment_parse seg0 (Buffer_of_string (BufferList_concatenate out)) ck = (NoError, seg') \<and>
    seg_header seg' = (seg_header seg)\<lparr>th_cksum := th_cksum (seg_header seg')\<rparr> \<and>
    Buffer_str (seg_payload seg') = Buffer_str (seg_payload seg)"
proof -
  obtain out where ser: "TCPSegment_serialize seg ck = Inr out" using serialize_defined [OF assms] by blast
  have "Buffer_inv (Buffer_of_string (BufferList_concatenate out))"
    using checksum_fits_length [OF serialize_verifies(1) [OF assms ser]] by simp
  from parse_serialized [OF assms ser this, of seg0] ser show ?thesis by auto
qed

theorem tcp_segment_roundtrip_witness:
  "\<exists>out seg'. TCPSegment_serialize
      \<lparr>seg_header = TCPHeader_default\<lparr>th_seqno := WrappingInt32 77, th_doff := 6, th_syn := True\<rparr>,
       seg_payload = Buffer_of_string [1, 2, 3]\<rparr> 9 = Inr out \<and>
    TCPSegment_parse TCPSegment_default (Buffer_of_string (BufferList_concatenate out)) 9
      = (NoError, seg') \<and>
    seg_header seg' = (TCPHeader_default\<lparr>th_seqno := WrappingInt32 77, th_doff := 6,
      th_syn := True\<rparr>)\<lparr>th_cksum := th_cksum (seg_header seg')\<rparr> \<and>
    Buffer_str (seg_payload seg') = [1, 2, 3]"
  using tcp_segment_roundtrip [of "\<lparr>seg_header = TCPHeader_default\<lparr>th_seqno := WrappingInt32 77,
      th_doff := 6, th_syn := True\<rparr>, seg_payload = Buffer_of_string [1, 2, 3]\<rparr>" 9 TCPSegment_default]
  by (simp add: segment_fits_def)

text \<open>C29: A TCP segment in which any single byte was corrupted on the way is rejected: the parser
  answers BadChecksum and leaves the segment object as it was.\<close>

theorem tcp_segment_rejects_corruption:
  assumes "segment_fits seg ck" and "TCPSegment_serialize seg ck = Inr out"
    and "i < length (BufferList_concatenate out)" and "b \<noteq> BufferList_concatenate out ! i"
  shows "TCPSegment_parse seg0 (Buffer_of_string ((BufferList_concatenate out)[i := b])) ck
    = (BadChecksum, seg0)"
  using checksum_detects_byte [OF _ assms(3,4) serialize_verifies(2) [OF assms(1,2)]]
    serialize_verifies(1) [OF assms(1,2)]
  by (simp add: TCPSegment_parse_def Let_def)

theorem tcp_segment_rejects_corruption_witness:
  "case TCPSegment_serialize TCPSegment_default 0 of
     Inl e \<Rightarrow> False
   | Inr out \<Rightarrow>
       TCPSegment_parse TCPSegment_default (Buffer_of_string ((BufferList_concatenate out)[3 := 1])) 0
         = (BadChecksum, TCPSegment_default)"
proof -
  have "case TCPSegment_serialize TCPSegment_default 0 of Inl e \<Rightarrow> False
      | Inr out \<Rightarrow> 3 < length (BufferList_concatenate out) \<and> 1 \<noteq> BufferList_concatenate out ! 3"
    by code_simp
  moreover have "segment_fits TCPSegment_default 0"
    by (simp add: segment_fits_def TCPSegment_default_def TCPHeader_default_def TCPHeader_LENGTH_def)
  ultimately show ?thesis
    using tcp_segment_rejects_corruption [of TCPSegment_default 0 _ 3 1 TCPSegment_default]
    by (auto split: sum.splits)
qed

text \<open>\<open>TCPSegment::parse\<close> drops the result of \<open>TCPHeader::parse\<close> and only asks the parser for its
  error, which a too small data offset does not set: such a segment is reported as good.\<close>

lemma short_header_accepted:
  "let b = Buffer_of_string (replicate 16 0 @ [0xff, 0xff, 0, 0])
   in fst (TCPHeader_parse (NetParser_init b)) = HeaderTooShort \<and>
      fst (TCPSegment_parse TCPSegment_default b 0) = NoError"
  by code_simp

end
