(* ===== verification/TCP_Receiver.thy ===== *)
theory TCP_Receiver
  imports Reassembly TCP_Segment
begin

text \<open>
  The receiving half of a connection: \<open>src/libsponge/tcp_receiver.{hh,cc}\<close>. The results: a receiver
  fed with segments of one peer, in any order, delivers a prefix of the peer's stream and
  acknowledges exactly that prefix; once everything has arrived it delivers and acknowledges all
  of it; neither edge of the advertised window ever moves back.
\<close>

record TCPReceiver =
  rcv_reassembler :: StreamReassembler
  rcv_capacity :: u64
  rcv_isn :: WrappingInt32
  rcv_in_listen :: bool

text \<open>The constructor; \<open>rnd\<close> is the value of \<open>rand()\<close> that initialises \<open>_isn\<close>.\<close>

definition TCPReceiver_init :: "u64 \<Rightarrow> u32 \<Rightarrow> TCPReceiver" where
  "TCPReceiver_init capacity rnd =
     \<lparr>rcv_reassembler = StreamReassembler_init capacity, rcv_capacity = capacity,
      rcv_isn = WrappingInt32 rnd, rcv_in_listen = True\<rparr>"

definition TCPReceiver_stream_out :: "TCPReceiver \<Rightarrow> ByteStream" where
  "TCPReceiver_stream_out r = sr_output (rcv_reassembler r)"

definition TCPReceiver_window_size :: "TCPReceiver \<Rightarrow> u64" where
  "TCPReceiver_window_size r = ByteStream_remaining_capacity (TCPReceiver_stream_out r)"

definition TCPReceiver_unassembled_bytes :: "TCPReceiver \<Rightarrow> u64" where
  "TCPReceiver_unassembled_bytes r = StreamReassembler_unassembled_bytes (rcv_reassembler r)"

text \<open>The acknowledgment as an absolute number: the SYN, the bytes written, and the end of input.\<close>

definition abs_ack :: "TCPReceiver \<Rightarrow> u64" where
  "abs_ack r = ByteStream_bytes_written (TCPReceiver_stream_out r) + 1
     + (if ByteStream_input_ended (TCPReceiver_stream_out r) then 1 else 0)"

definition TCPReceiver_ackno :: "TCPReceiver \<Rightarrow> WrappingInt32 option" where
  "TCPReceiver_ackno r =
     (if rcv_in_listen r then None else Some (wrap (abs_ack r) (rcv_isn r)))"

definition TCPReceiver_segment_received :: "TCPReceiver \<Rightarrow> TCPSegment \<Rightarrow> TCPReceiver" where
  "TCPReceiver_segment_received r seg =
     (let header = seg_header seg
      in if rcv_in_listen r \<and> \<not> th_syn header then r
         else
           let r = (if rcv_in_listen r then r\<lparr>rcv_in_listen := False, rcv_isn := th_seqno header\<rparr>
                    else r);
               checkpoint = ByteStream_bytes_written (TCPReceiver_stream_out r);
               abs_seq = unwrap (th_seqno header) (rcv_isn r) checkpoint
           in if abs_seq \<ge> abs_ack r + TCPReceiver_window_size r then r
              else
                let stream_index = abs_seq - (if \<not> th_syn header then 1 else 0)
                in r\<lparr>rcv_reassembler :=
                      StreamReassembler_push_substring (rcv_reassembler r)
                        (Buffer_copy (seg_payload seg)) stream_index (th_fin header)\<rparr>)"

subsection \<open>Segments of a peer\<close>

text \<open>
  \<open>segment_at S i k seg\<close>: the segment belongs to a peer that sends the stream \<open>S\<close> with initial
  sequence number \<open>i\<close>, and its absolute sequence number is \<open>k\<close>. The SYN has number 0, byte \<open>j\<close> of
  the stream has number \<open>j + 1\<close>, and a FIN closes the stream. What the peer sends after its FIN
  is empty and has the number behind it.
\<close>

definition segment_at :: "bytes \<Rightarrow> WrappingInt32 \<Rightarrow> nat \<Rightarrow> TCPSegment \<Rightarrow> bool" where
  "segment_at S i k seg \<longleftrightarrow>
     th_seqno (seg_header seg) = wrap (of_nat k) i \<and> k \<le> length S + 2 \<and>
     (th_syn (seg_header seg) \<longleftrightarrow> k = 0) \<and>
     honest_push S (Buffer_str (seg_payload seg)) (of_nat (k - 1)) (th_fin (seg_header seg))"

text \<open>Within half the sequence space of the number of bytes written so far, so that the 32-bit
  number on the wire determines the absolute one.\<close>

definition near :: "nat \<Rightarrow> u64 \<Rightarrow> bool" where
  "near k w \<longleftrightarrow> k < unat w + 2 ^ 31 \<and> unat w \<le> k + 2 ^ 31"

definition receiver_inv :: "bytes \<Rightarrow> WrappingInt32 \<Rightarrow> TCPReceiver \<Rightarrow> bool" where
  "receiver_inv S i r \<longleftrightarrow>
     reassembler_inv S (rcv_reassembler r) \<and>
     (if rcv_in_listen r then sr_expected (rcv_reassembler r) = 0 else rcv_isn r = i)"

abbreviation written :: "TCPReceiver \<Rightarrow> u64" where
  "written r \<equiv> ByteStream_bytes_written (TCPReceiver_stream_out r)"

lemma written_expected:
  "reassembler_inv S (rcv_reassembler r) \<Longrightarrow> written r = sr_expected (rcv_reassembler r)"
  by (simp add: reassembler_inv_def out_ok_def TCPReceiver_stream_out_def ByteStream_observers)

lemma receiver_inv_init:
  "length S < 2 ^ 64 - 2 \<Longrightarrow> receiver_inv S i (TCPReceiver_init capacity rnd)"
  by (simp add: receiver_inv_def TCPReceiver_init_def reassembler_inv_init)
    (simp add: StreamReassembler_init_def)

text \<open>What a segment does, with the sequence numbers read as the peer meant them.\<close>

lemma segment_received_cases:
  assumes inv: "receiver_inv S i r" and seg: "segment_at S i k seg" and near: "near k (written r)"
  defines "r1 \<equiv> r\<lparr>rcv_in_listen := False, rcv_isn := i\<rparr>"
  shows "TCPReceiver_segment_received r seg =
    (if rcv_in_listen r \<and> k \<noteq> 0 then r
     else if of_nat k \<ge> abs_ack r + TCPReceiver_window_size r then r1
     else r1\<lparr>rcv_reassembler := StreamReassembler_push_substring (rcv_reassembler r)
       (Buffer_str (seg_payload seg)) (of_nat (k - 1)) (th_fin (seg_header seg))\<rparr>)"
proof -
  have r1: "r1 = (if rcv_in_listen r then r\<lparr>rcv_in_listen := False, rcv_isn := i\<rparr> else r)"
    using inv by (auto simp: r1_def receiver_inv_def)
  have syn: "th_seqno (seg_header seg) = i" if "k = 0"
    using seg that by (simp add: segment_at_def wrap_def)
  have k64: "unat (of_nat k :: u64) = k"
    using seg inv by (auto simp: segment_at_def receiver_inv_def reassembler_inv_def unat_of_nat)
  have un: "unwrap (th_seqno (seg_header seg)) i (written r) = of_nat k"
    using seg near k64 by (simp add: segment_at_def near_def unwrap_wrap)
  have out: "TCPReceiver_stream_out r1 = TCPReceiver_stream_out r" "abs_ack r1 = abs_ack r"
    "TCPReceiver_window_size r1 = TCPReceiver_window_size r" "rcv_isn r1 = i"
    "rcv_reassembler r1 = rcv_reassembler r"
    by (simp_all add: r1_def TCPReceiver_stream_out_def abs_ack_def TCPReceiver_window_size_def)
  have idx: "of_nat k - (if \<not> th_syn (seg_header seg) then 1 else 0) = (of_nat (k - 1) :: u64)"
    using seg by (cases k) (simp_all add: segment_at_def)
  show ?thesis
  proof (cases "rcv_in_listen r \<and> k \<noteq> 0")
    case True
    then show ?thesis using seg by (simp add: TCPReceiver_segment_received_def segment_at_def)
  next
    case False
    then have "(if rcv_in_listen r
        then r\<lparr>rcv_in_listen := False, rcv_isn := th_seqno (seg_header seg)\<rparr> else r) = r1"
      using r1 syn by auto
    moreover have "\<not> (rcv_in_listen r \<and> \<not> th_syn (seg_header seg))"
      using False seg by (simp add: segment_at_def)
    ultimately show ?thesis
      using False
      by (simp only: TCPReceiver_segment_received_def Let_def out un idx Buffer_copy_def if_False)
  qed
qed

lemma segment_received_inv:
  assumes "receiver_inv S i r" and "segment_at S i k seg" and "near k (written r)"
  shows "receiver_inv S i (TCPReceiver_segment_received r seg)"
proof -
  have "reassembler_inv S (StreamReassembler_push_substring (rcv_reassembler r)
      (Buffer_str (seg_payload seg)) (of_nat (k - 1)) (th_fin (seg_header seg)))"
    using push_spec [of S "rcv_reassembler r"] assms(1,2)
    by (auto simp: receiver_inv_def segment_at_def pushed_ok_def)
  then show ?thesis
    using assms(1) by (auto simp: segment_received_cases [OF assms] receiver_inv_def)
qed

subsection \<open>Safety over runs\<close>

text \<open>The state of a run is the receiver with the bytes the application has read so far.\<close>

datatype receiver_event = Segment_arrives TCPSegment | App_reads u64

fun receiver_step :: "TCPReceiver \<times> bytes \<Rightarrow> receiver_event \<Rightarrow> TCPReceiver \<times> bytes" where
  "receiver_step (r, given) (Segment_arrives seg) = (TCPReceiver_segment_received r seg, given)"
| "receiver_step (r, given) (App_reads n) =
     (let (re, d) = StreamReassembler_consume (rcv_reassembler r) n
      in (r\<lparr>rcv_reassembler := re\<rparr>, given @ d))"

fun honest_event :: "bytes \<Rightarrow> WrappingInt32 \<Rightarrow> TCPReceiver \<times> bytes \<Rightarrow> receiver_event \<Rightarrow> bool" where
  "honest_event S i (r, given) (Segment_arrives seg) \<longleftrightarrow>
     (\<exists>k. segment_at S i k seg \<and> near k (written r))"
| "honest_event S i (r, given) (App_reads n) \<longleftrightarrow> True"

fun receiver_run_inv :: "bytes \<Rightarrow> WrappingInt32 \<Rightarrow> TCPReceiver \<times> bytes \<Rightarrow> bool" where
  "receiver_run_inv S i (r, given) \<longleftrightarrow> receiver_inv S i r \<and>
     given = take (unat (bs_bytes_read (TCPReceiver_stream_out r))) S"

lemma consume_expected: "StreamReassembler_consume r n = (r', d) \<Longrightarrow> sr_expected r' = sr_expected r"
  by (auto simp: StreamReassembler_consume_def split: prod.splits)

lemma segment_received_bytes_read:
  assumes "receiver_inv S i r" and "segment_at S i k seg" and "near k (written r)"
  shows "bs_bytes_read (TCPReceiver_stream_out (TCPReceiver_segment_received r seg))
      = bs_bytes_read (TCPReceiver_stream_out r)"
    and "bs_capacity (TCPReceiver_stream_out (TCPReceiver_segment_received r seg))
      = bs_capacity (TCPReceiver_stream_out r)"
  using push_spec [of S "rcv_reassembler r"] assms(1,2)
  by (auto simp: segment_received_cases [OF assms] receiver_inv_def segment_at_def pushed_ok_def
      TCPReceiver_stream_out_def)

lemma receiver_step_inv:
  assumes "receiver_run_inv S i s" and "honest_event S i s e"
  shows "receiver_run_inv S i (receiver_step s e)"
proof (cases s)
  case s: (Pair r given)
  show ?thesis
  proof (cases e)
    case (Segment_arrives seg)
    then obtain k where "segment_at S i k seg" "near k (written r)" using assms(2) s by auto
    then show ?thesis
      using assms(1) segment_received_inv [of S i r k seg]
        segment_received_bytes_read [of S i r k seg] by (simp add: s Segment_arrives)
  next
    case (App_reads n)
    obtain re d where c: "StreamReassembler_consume (rcv_reassembler r) n = (re, d)" by fastforce
    have "reassembler_inv S (rcv_reassembler r)" using assms(1) by (simp add: s receiver_inv_def)
    note spec = consume_spec [OF this c] consume_expected [OF c]
    show ?thesis
      using assms(1) spec
      by (simp add: s App_reads c receiver_inv_def TCPReceiver_stream_out_def take_append_slc)
  qed
qed

interpretation receiver: step_system receiver_step "honest_event S i" "receiver_run_inv S i" for S i
  by unfold_locales (rule receiver_step_inv)

lemma receiver_inv_observed:
  assumes "receiver_inv S i r" and "given = take (unat (bs_bytes_read (TCPReceiver_stream_out r))) S"
  shows "given @ bs_buffer_list (TCPReceiver_stream_out r) = take (unat (written r)) S"
    and "unat (written r) \<le> length S"
    and "ByteStream_input_ended (TCPReceiver_stream_out r) \<Longrightarrow> unat (written r) = length S"
proof -
  let ?re = "rcv_reassembler r"
  have inv: "reassembler_inv S ?re" using assms(1) by (simp add: receiver_inv_def)
  then have ok: "out_ok S (sr_expected ?re) (sr_output ?re)" by (simp add: reassembler_inv_def)
  note w = written_expected [OF inv]
  show "given @ bs_buffer_list (TCPReceiver_stream_out r) = take (unat (written r)) S"
    unfolding w using ok assms(2)
    by (simp add: out_ok_def TCPReceiver_stream_out_def take_append_slc)
  show le: "unat (written r) \<le> length S" unfolding w using ok by (simp add: out_ok_def)
  show "unat (written r) = length S" if "ByteStream_input_ended (TCPReceiver_stream_out r)"
    using not_ended_past_expected [OF inv] that [unfolded TCPReceiver_stream_out_def] le
    unfolding w by linarith
qed

text \<open>C10: safety of the receiver. A peer sends the stream \<open>S\<close> with initial sequence number \<open>i\<close>; its
  segments arrive in any order, repeated, overlapping or not at all, and the application reads
  when it likes. As long as each 32-bit sequence number is within half the sequence space of what
  has been written, the bytes read and readable are a prefix of \<open>S\<close>, the acknowledgment number is
  that of the first byte not in this prefix (one more once the end of the stream was reached), and
  the stream is ended only when all of \<open>S\<close> is there.\<close>
theorem receiver_delivers_prefix:
  assumes "length S < 2 ^ 64 - 2"
    and "run_ok receiver_step (honest_event S i) (TCPReceiver_init capacity rnd, []) es"
    and "run_steps receiver_step (TCPReceiver_init capacity rnd, []) es = (r, given)"
  shows "\<exists>n \<le> length S.
    given @ bs_buffer_list (TCPReceiver_stream_out r) = take n S \<and>
    (ByteStream_input_ended (TCPReceiver_stream_out r) \<longrightarrow> n = length S) \<and>
    (TCPReceiver_ackno r = None \<or>
     TCPReceiver_ackno r = Some (wrap (of_nat (n + 1 +
       (if ByteStream_input_ended (TCPReceiver_stream_out r) then 1 else 0))) i))"
proof -
  have "receiver_run_inv S i (TCPReceiver_init capacity rnd, [])"
    using receiver_inv_init [of S i capacity rnd] assms(1)
    by (simp add: TCPReceiver_init_def TCPReceiver_stream_out_def StreamReassembler_init_def
        ByteStream_init_def)
  from receiver.run_inv [OF this assms(2)] have "receiver_run_inv S i (r, given)"
    by (simp add: assms(3))
  then have inv: "receiver_inv S i r"
    and g: "given = take (unat (bs_bytes_read (TCPReceiver_stream_out r))) S" by simp_all
  note obs = receiver_inv_observed [OF inv g]
  have "abs_ack r = of_nat (unat (written r) + 1 +
      (if ByteStream_input_ended (TCPReceiver_stream_out r) then 1 else 0))"
    by (simp add: abs_ack_def)
  then have "TCPReceiver_ackno r = None \<or> TCPReceiver_ackno r = Some (wrap (of_nat (unat (written r)
      + 1 + (if ByteStream_input_ended (TCPReceiver_stream_out r) then 1 else 0))) i)"
    using inv by (auto simp: TCPReceiver_ackno_def receiver_inv_def)
  then show ?thesis using obs by blast
qed

theorem receiver_delivers_prefix_witness:
  "let seg = (\<lambda>k syn d fin. \<lparr>seg_header = TCPHeader_default\<lparr>th_seqno := wrap k (WrappingInt32 (-1)),
                 th_syn := syn, th_fin := fin\<rparr>, seg_payload = Buffer_of_string d\<rparr>);
       s = run_steps receiver_step (TCPReceiver_init 4 5, [])
         [Segment_arrives (seg 0 True [] False), Segment_arrives (seg 3 False [8, 9] True),
          Segment_arrives (seg 1 False [6] False), App_reads 1]
   in \<exists>n \<le> length [6, 7, 8, 9 :: u8].
        snd s @ bs_buffer_list (TCPReceiver_stream_out (fst s)) = take n [6, 7, 8, 9] \<and>
        snd s = [6] \<and> TCPReceiver_ackno (fst s) = Some (WrappingInt32 1)"
proof -
  let ?seg = "\<lambda>k syn d fin. \<lparr>seg_header = TCPHeader_default\<lparr>th_seqno := wrap k (WrappingInt32 (-1)),
                 th_syn := syn, th_fin := fin\<rparr>, seg_payload = Buffer_of_string d\<rparr>"
  let ?es = "[Segment_arrives (?seg 0 True [] False), Segment_arrives (?seg 3 False [8, 9] True),
          Segment_arrives (?seg 1 False [6] False), App_reads 1]"
  let ?S = "[6, 7, 8, 9 :: u8]"
  let ?s = "run_steps receiver_step (TCPReceiver_init 4 5, []) ?es"
  have at: "segment_at ?S (WrappingInt32 (-1)) 0 (?seg 0 True [] False)"
    "segment_at ?S (WrappingInt32 (-1)) 3 (?seg 3 False [8, 9] True)"
    "segment_at ?S (WrappingInt32 (-1)) 1 (?seg 1 False [6] False)"
    by (simp_all add: segment_at_def honest_push_iff)
  have w: "written (TCPReceiver_init 4 5) = 0"
    "written (TCPReceiver_segment_received (TCPReceiver_init 4 5) (?seg 0 True [] False)) = 0"
    "written (TCPReceiver_segment_received (TCPReceiver_segment_received (TCPReceiver_init 4 5)
      (?seg 0 True [] False)) (?seg 3 False [8, 9] True)) = 0"
    by code_simp+
  have near: "near 0 0" "near 3 0" "near 1 0" by (simp_all add: near_def)
  have "run_ok receiver_step (honest_event ?S (WrappingInt32 (-1))) (TCPReceiver_init 4 5, []) ?es"
    using at near by (simp add: w) metis
  from receiver_delivers_prefix [OF _ this, of "fst ?s" "snd ?s"]
  have "\<exists>n \<le> length ?S. snd ?s @ bs_buffer_list (TCPReceiver_stream_out (fst ?s)) = take n ?S"
    by simp blast
  moreover have "snd ?s = [6]" "TCPReceiver_ackno (fst ?s) = Some (WrappingInt32 1)"
    by code_simp+
  ultimately show ?thesis unfolding Let_def by blast
qed

subsection \<open>The advertised window\<close>

lemma window_room: "TCPReceiver_window_size r = ByteStream_remaining_capacity (TCPReceiver_stream_out r)"
  by (rule TCPReceiver_window_size_def)

lemma edge_capacity:
  assumes "receiver_inv S i r"
  shows "unat (written r) + unat (TCPReceiver_window_size r)
    = unat (bs_bytes_read (TCPReceiver_stream_out r)) + unat (bs_capacity (TCPReceiver_stream_out r))"
proof -
  let ?re = "rcv_reassembler r" and ?out = "TCPReceiver_stream_out r"
  have inv: "reassembler_inv S ?re" using assms by (simp add: receiver_inv_def)
  then have ok: "out_ok S (sr_expected ?re) ?out"
    by (simp add: reassembler_inv_def TCPReceiver_stream_out_def)
  then have bi: "ByteStream_inv ?out" by (simp add: out_ok_def)
  have "length (bs_buffer_list ?out) = unat (written r) - unat (bs_bytes_read ?out)"
    and "unat (bs_bytes_read ?out) \<le> unat (written r)"
    using ok by (simp_all add: out_ok_def written_expected [OF inv])
  moreover have "length (bs_buffer_list ?out) \<le> unat (bs_capacity ?out)"
    using bi by (simp add: ByteStream_inv_def)
  ultimately show ?thesis
    using unat_remaining_capacity [OF bi] unfolding TCPReceiver_window_size_def by linarith
qed

lemma push_expected_mono:
  assumes "reassembler_inv S r" and "honest_push S data index eof"
  shows "unat (sr_expected r)
    \<le> unat (sr_expected (StreamReassembler_push_substring r data index eof))"
proof -
  let ?C = "covered (sr_reassemble_buffer r) \<union> chunk_span (index, data)"
  obtain g where "first_gap (unat (sr_expected r)) ?C g"
    using first_gap_exists [of ?C] by (auto simp: chunk_span_def covered_def)
  then show ?thesis using push_spec [OF assms] by (auto simp: pushed_ok_def first_gap_def)
qed

lemma segment_received_written_mono:
  assumes "receiver_inv S i r" and "segment_at S i k seg" and "near k (written r)"
  shows "unat (written r) \<le> unat (written (TCPReceiver_segment_received r seg))"
proof -
  have inv: "reassembler_inv S (rcv_reassembler r)"
    and inv': "reassembler_inv S (rcv_reassembler (TCPReceiver_segment_received r seg))"
    using assms(1) segment_received_inv [OF assms] by (simp_all add: receiver_inv_def)
  show ?thesis
    unfolding written_expected [OF inv] written_expected [OF inv']
    using push_expected_mono [OF inv] assms(2)
    by (auto simp: segment_received_cases [OF assms] segment_at_def)
qed

text \<open>C14: the window never shrinks. Whatever honest segment arrives, the left edge of the advertised
  window (the number of bytes written) does not move back, and its right edge (bytes written plus
  window size) stays where it was; it is always the number of bytes the application has read plus
  the capacity, so it moves only forward, when the application reads.\<close>
theorem receiver_window_never_shrinks:
  assumes "receiver_inv S i r" and "segment_at S i k seg" and "near k (written r)"
  defines "r' \<equiv> TCPReceiver_segment_received r seg"
  shows "unat (written r) \<le> unat (written r') \<and>
    unat (written r') + unat (TCPReceiver_window_size r')
      = unat (written r) + unat (TCPReceiver_window_size r) \<and>
    unat (written r) + unat (TCPReceiver_window_size r)
      = unat (bs_bytes_read (TCPReceiver_stream_out r))
        + unat (bs_capacity (TCPReceiver_stream_out r))"
  using edge_capacity [OF assms(1)] edge_capacity [OF segment_received_inv [OF assms(1-3)]]
    segment_received_bytes_read [OF assms(1-3)] segment_received_written_mono [OF assms(1-3)]
  unfolding r'_def by simp

theorem receiver_window_never_shrinks_witness:
  "let r = TCPReceiver_init 4 0;
       seg = \<lparr>seg_header = TCPHeader_default\<lparr>th_seqno := WrappingInt32 7, th_syn := True\<rparr>,
              seg_payload = Buffer_of_string [1, 2, 3]\<rparr>;
       r' = TCPReceiver_segment_received r seg
   in unat (written r') + unat (TCPReceiver_window_size r')
        = unat (written r) + unat (TCPReceiver_window_size r) \<and> written r' = 3"
proof -
  let ?seg = "\<lparr>seg_header = TCPHeader_default\<lparr>th_seqno := WrappingInt32 7, th_syn := True\<rparr>,
              seg_payload = Buffer_of_string [1, 2, 3]\<rparr>"
  let ?r = "TCPReceiver_init 4 0"
  have "receiver_inv [1, 2, 3] (WrappingInt32 7) ?r" by (rule receiver_inv_init) simp
  moreover have "segment_at [1, 2, 3] (WrappingInt32 7) 0 ?seg"
    by (simp add: segment_at_def honest_push_iff wrap_def TCPHeader_default_def)
  moreover have "written ?r = 0" by code_simp
  then have "near 0 (written ?r)" by (simp add: near_def)
  ultimately have "unat (written (TCPReceiver_segment_received ?r ?seg))
      + unat (TCPReceiver_window_size (TCPReceiver_segment_received ?r ?seg))
      = unat (written ?r) + unat (TCPReceiver_window_size ?r)"
    using receiver_window_never_shrinks by blast
  moreover have "written (TCPReceiver_segment_received ?r ?seg) = 3" by code_simp
  ultimately show ?thesis by (simp add: Let_def)
qed

subsection \<open>Completeness\<close>

definition receive_all :: "TCPReceiver \<Rightarrow> TCPSegment list \<Rightarrow> TCPReceiver" where
  "receive_all = foldl TCPReceiver_segment_received"

definition segment_push :: "nat \<times> TCPSegment \<Rightarrow> bytes \<times> u64 \<times> bool" where
  "segment_push = (\<lambda>(k, seg). (Buffer_str (seg_payload seg), of_nat (k - 1), th_fin (seg_header seg)))"

text \<open>While nothing is read and the capacity exceeds the stream, every segment is in the window.\<close>

lemma in_window:
  assumes "receiver_inv S i r" and "bs_bytes_read (TCPReceiver_stream_out r) = 0"
    and "length S + 1 < unat (bs_capacity (TCPReceiver_stream_out r))"
    and "unat (bs_capacity (TCPReceiver_stream_out r)) < 2 ^ 64 - 2" and "k \<le> length S + 2"
  shows "\<not> of_nat k \<ge> abs_ack r + TCPReceiver_window_size r"
proof -
  let ?e = "if ByteStream_input_ended (TCPReceiver_stream_out r) then 1 else 0 :: nat"
  let ?c = "unat (bs_capacity (TCPReceiver_stream_out r))"
  have "unat (written r) + unat (TCPReceiver_window_size r) = ?c"
    using edge_capacity [OF assms(1)] assms(2) by simp
  moreover have "abs_ack r + TCPReceiver_window_size r
      = of_nat (unat (written r) + unat (TCPReceiver_window_size r) + 1 + ?e)"
    by (simp add: abs_ack_def)
  ultimately have "abs_ack r + TCPReceiver_window_size r = of_nat (?c + 1 + ?e)"
    by (simp only:)
  moreover have "unat (of_nat (?c + 1 + ?e) :: u64) = ?c + 1 + ?e"
    using assms(4) by (intro unat_of_nat_u64) simp
  moreover have "unat (of_nat k :: u64) = k" using assms(3-5) by (simp add: unat_of_nat)
  ultimately show ?thesis using assms(3,5) by (simp add: word_le_nat_alt)
qed

lemma receive_push:
  assumes "receiver_inv S i r" and "bs_bytes_read (TCPReceiver_stream_out r) = 0"
    and "length S + 1 < unat (bs_capacity (TCPReceiver_stream_out r))"
    and "unat (bs_capacity (TCPReceiver_stream_out r)) < 2 ^ 64 - 2" and "length S < 2 ^ 31 - 2"
    and seg: "segment_at S i k seg" and "rcv_in_listen r \<Longrightarrow> k = 0"
  defines "r' \<equiv> TCPReceiver_segment_received r seg"
  shows "rcv_reassembler r' = push_all (rcv_reassembler r) [segment_push (k, seg)]"
    and "receiver_inv S i r'" and "\<not> rcv_in_listen r'"
    and "bs_bytes_read (TCPReceiver_stream_out r') = 0"
    and "bs_capacity (TCPReceiver_stream_out r') = bs_capacity (TCPReceiver_stream_out r)"
proof -
  have "unat (written r) \<le> length S" using receiver_inv_observed(2) [OF assms(1) refl] .
  then have near: "near k (written r)" using assms(5) seg by (simp add: near_def segment_at_def)
  note args = assms(1) seg near
  show "receiver_inv S i r'" unfolding r'_def by (rule segment_received_inv [OF args])
  show "bs_bytes_read (TCPReceiver_stream_out r') = 0"
    "bs_capacity (TCPReceiver_stream_out r') = bs_capacity (TCPReceiver_stream_out r)"
    unfolding r'_def segment_received_bytes_read [OF args] by (simp_all add: assms(2))
  have "\<not> of_nat k \<ge> abs_ack r + TCPReceiver_window_size r"
    using assms(1-4) seg by (intro in_window) (auto simp: segment_at_def)
  then show "rcv_reassembler r' = push_all (rcv_reassembler r) [segment_push (k, seg)]"
    and "\<not> rcv_in_listen r'"
    using assms(7) unfolding r'_def segment_received_cases [OF args]
    by (auto simp: push_all_def segment_push_def)
qed

lemma push_all_Cons: "push_all r (p # ps) = push_all (push_all r [p]) ps"
  by (simp add: push_all_def)

lemma receive_all_push:
  assumes "receiver_inv S i r" and "bs_bytes_read (TCPReceiver_stream_out r) = 0"
    and "length S + 1 < unat (bs_capacity (TCPReceiver_stream_out r))"
    and "unat (bs_capacity (TCPReceiver_stream_out r)) < 2 ^ 64 - 2" and "length S < 2 ^ 31 - 2"
    and "\<forall>(k, seg)\<in>set ks. segment_at S i k seg" and "rcv_in_listen r \<Longrightarrow> fst (hd ks) = 0"
    and "ks \<noteq> []"
  shows "rcv_reassembler (receive_all r (map snd ks)) = push_all (rcv_reassembler r) (map segment_push ks)
    \<and> receiver_inv S i (receive_all r (map snd ks)) \<and> \<not> rcv_in_listen (receive_all r (map snd ks))"
  using assms
proof (induction ks arbitrary: r)
  case (Cons p ks)
  obtain k seg where p: "p = (k, seg)" by fastforce
  let ?r = "TCPReceiver_segment_received r seg"
  have seg: "segment_at S i k seg" and l: "rcv_in_listen r \<Longrightarrow> k = 0"
    using Cons.prems(6,7) by (simp_all add: p)
  note step = receive_push [OF Cons.prems(1-5) seg l]
  have all: "receive_all r (map snd (p # ks)) = receive_all ?r (map snd ks)"
    by (simp add: receive_all_def p)
  have push: "push_all (rcv_reassembler r) (map segment_push (p # ks))
      = push_all (rcv_reassembler ?r) (map segment_push ks)"
    by (subst list.map, subst push_all_Cons) (simp only: p step(1))
  show ?case
  proof (cases ks)
    case Nil
    then show ?thesis unfolding all push using step(2,3) by (simp add: receive_all_def push_all_def)
  next
    case (Cons q qs)
    then show ?thesis
      unfolding all push using Cons.IH [of ?r] Cons.prems step(2-5) by simp
  qed
qed simp

text \<open>C9: completeness of the receiver. If the capacity exceeds the length of the stream \<open>S\<close> by two, the SYN
  arrives first, and the segments that arrive after it, in any order and with any repetitions and
  overlaps, together carry every byte of \<open>S\<close> and a FIN, then the receiver's stream holds exactly
  \<open>S\<close>, is ended, and the acknowledgment covers SYN, all bytes and FIN.\<close>
theorem receiver_any_order:
  assumes "length S < 2 ^ 31 - 2" and "length S + 1 < unat capacity" and "unat capacity < 2 ^ 64 - 2"
    and "\<forall>(k, seg)\<in>set ((0, syn) # ks). segment_at S i k seg"
    and "(\<Union>(k, seg)\<in>set ((0, syn) # ks). {k - 1 ..< k - 1 + length (Buffer_str (seg_payload seg))})
      = {..<length S}"
    and "\<exists>(k, seg)\<in>set ((0, syn) # ks). th_fin (seg_header seg)"
    and r_def: "r = receive_all (TCPReceiver_init capacity rnd) (syn # map snd ks)"
  shows "bs_buffer_list (TCPReceiver_stream_out r) = S \<and>
    ByteStream_input_ended (TCPReceiver_stream_out r) \<and>
    TCPReceiver_ackno r = Some (wrap (of_nat (length S + 2)) i)"
proof -
  let ?ks = "(0, syn) # ks" and ?r0 = "TCPReceiver_init capacity rnd"
  have len: "length S < 2 ^ 64 - 2" using assms(1) by simp
  have r0: "bs_bytes_read (TCPReceiver_stream_out ?r0) = 0"
    "bs_capacity (TCPReceiver_stream_out ?r0) = capacity"
    "rcv_reassembler ?r0 = StreamReassembler_init capacity"
    by (simp_all add: TCPReceiver_init_def TCPReceiver_stream_out_def StreamReassembler_init_def
        ByteStream_init_def)
  have r: "rcv_reassembler r = push_all (StreamReassembler_init capacity) (map segment_push ?ks)"
    and inv: "receiver_inv S i r" and l: "\<not> rcv_in_listen r"
    using receive_all_push [OF receiver_inv_init [OF len] r0(1) _ _ assms(1,4)] assms(2,3)
    by (simp_all add: r0 r_def)
  have k: "unat (of_nat (k - Suc 0) :: u64) = k - Suc 0" if "(k, seg) \<in> set ?ks" for k seg
    using that assms(1,4) by (intro unat_of_nat_u64) (fastforce simp: segment_at_def)
  have cover: "(\<Union>(data, index, eof)\<in>set (map segment_push ?ks). chunk_span (index, data))
      = (\<Union>(k, seg)\<in>set ?ks. {k - 1 ..< k - 1 + length (Buffer_str (seg_payload seg))})"
    unfolding set_map UN_simps
  proof (intro SUP_cong refl)
    fix p assume "p \<in> set ?ks"
    then show "(case segment_push p of (data, index, eof) \<Rightarrow> chunk_span (index, data))
        = (case p of (k, seg) \<Rightarrow> {k - 1 ..< k - 1 + length (Buffer_str (seg_payload seg))})"
      using k [of "fst p" "snd p"] 
      by (simp add: segment_push_def chunk_span_def chunk_simps split_beta)
  qed
  have "bs_buffer_list (sr_output (rcv_reassembler r)) = S \<and>
      ByteStream_input_ended (sr_output (rcv_reassembler r))"
  proof -
    have "\<forall>(data, index, eof)\<in>set (map segment_push ?ks). honest_push S data index eof"
      using assms(4) by (fastforce simp: segment_push_def segment_at_def)
    moreover have "\<exists>(data, index, eof)\<in>set (map segment_push ?ks). eof"
      using assms(6) by (fastforce simp: segment_push_def)
    moreover note assms(5) [folded cover]
    ultimately show ?thesis
      unfolding r using push_all_complete [OF len add_leD1 [OF less_imp_le [OF assms(2)]]] by blast
  qed
  then have out: "bs_buffer_list (TCPReceiver_stream_out r) = S"
    and ended: "ByteStream_input_ended (TCPReceiver_stream_out r)"
    by (simp_all add: TCPReceiver_stream_out_def)
  have "abs_ack r = of_nat (unat (written r) + 2)" using ended by (simp add: abs_ack_def)
  then have "abs_ack r = of_nat (length S + 2)"
    by (simp only: receiver_inv_observed(3) [OF inv refl ended])
  then show ?thesis
    using l inv out ended by (simp add: TCPReceiver_ackno_def receiver_inv_def)
qed

theorem receiver_any_order_witness:
  "let seg = (\<lambda>k syn d fin. \<lparr>seg_header = TCPHeader_default\<lparr>th_seqno := wrap k (WrappingInt32 3),
                 th_syn := syn, th_fin := fin\<rparr>, seg_payload = Buffer_of_string d\<rparr>);
       r = receive_all (TCPReceiver_init 9 1)
             (seg 0 True [] False # map snd [(2 :: nat, seg 2 False [7, 8] True), (1, seg 1 False [6, 7] False)])
   in bs_buffer_list (TCPReceiver_stream_out r) = [6, 7, 8] \<and>
      ByteStream_input_ended (TCPReceiver_stream_out r) \<and>
      TCPReceiver_ackno r = Some (wrap (of_nat (length [6, 7, 8 :: u8] + 2)) (WrappingInt32 3))"
  unfolding Let_def
  by (rule receiver_any_order [OF _ _ _ _ _ _ refl])
    (auto simp: segment_at_def honest_push_iff TCPHeader_default_def)

text \<open>
  A segment that carries no SYN but the sequence number of the SYN stands for the position before
  the first byte of the stream. The subtraction that gives its stream index wraps, and the segment
  is not ignored: here a FIN with one byte ends a stream of which no byte was received.
\<close>

lemma isn_without_syn_ends_stream:
  "let seg = (\<lambda>k syn d fin. \<lparr>seg_header = TCPHeader_default\<lparr>th_seqno := WrappingInt32 3,
                 th_syn := syn, th_fin := fin\<rparr>, seg_payload = Buffer_of_string d\<rparr>);
       r = receive_all (TCPReceiver_init 9 1) [seg 0 True [] False, seg 0 False [7] True]
   in ByteStream_input_ended (TCPReceiver_stream_out r) \<and>
      ByteStream_bytes_written (TCPReceiver_stream_out r) = 0"
  by code_simp

end
