(* ===== verification/TCP_Sender.thy ===== *)
theory TCP_Sender
  imports TCP_Receiver
begin

text \<open>
  The sending half of a connection: \<open>src/libsponge/tcp_sender.{hh,cc}\<close>, with the constants of
  \<open>tcp_helpers/tcp_config.hh\<close>. The queues are lists with the front first. The window-filling loop is
  a function with a termination proof; its body is \<open>fill_step\<close>.

  The invariant \<open>sender_inv\<close> says that the outstanding segments cover the sequence numbers from the
  first unacknowledged one to \<open>_next_seqno\<close> without gap or overlap and that all segments, also those
  waiting to be transmitted, are truthful excerpts of the outgoing stream.
\<close>

subsection \<open>Configuration\<close>

definition TCPConfig_DEFAULT_CAPACITY :: u64 where
  "TCPConfig_DEFAULT_CAPACITY = 64000"

definition TCPConfig_MAX_PAYLOAD_SIZE :: u64 where
  "TCPConfig_MAX_PAYLOAD_SIZE = 1000"

definition TCPConfig_TIMEOUT_DFLT :: u16 where
  "TCPConfig_TIMEOUT_DFLT = 1000"

definition TCPConfig_MAX_RETX_ATTEMPTS :: u32 where
  "TCPConfig_MAX_RETX_ATTEMPTS = 8"

record TCPConfig =
  cfg_rt_timeout :: u16
  cfg_recv_capacity :: u64
  cfg_send_capacity :: u64
  cfg_fixed_isn :: "WrappingInt32 option"

definition TCPConfig_default :: TCPConfig where
  "TCPConfig_default = \<lparr>cfg_rt_timeout = TCPConfig_TIMEOUT_DFLT,
     cfg_recv_capacity = TCPConfig_DEFAULT_CAPACITY, cfg_send_capacity = TCPConfig_DEFAULT_CAPACITY,
     cfg_fixed_isn = None\<rparr>"

subsection \<open>State and operations\<close>

datatype STATE = CLOSED | SYN_SENT | SYN_ACKED | FIN_SENT | FINS_ACKED

record TCPSender =
  snd_isn :: WrappingInt32
  snd_segments_out :: "TCPSegment list"
  snd_initial_retransmission_timeout :: u32
  snd_stream :: ByteStream
  snd_next_seqno :: u64
  snd_segments_outstanding :: "(u64 \<times> TCPSegment) list"
  snd_remaining_time :: u32
  snd_retransmission_timeout :: u32
  snd_alarm_run :: bool
  snd_bytes_in_flight :: u64
  snd_state :: STATE
  snd_window_size :: u64
  snd_retransmission_count :: u64

text \<open>The constructor; \<open>rnd\<close> is the value of \<open>random_device()()\<close>.\<close>

definition TCPSender_init :: "u64 \<Rightarrow> u16 \<Rightarrow> WrappingInt32 option \<Rightarrow> u32 \<Rightarrow> TCPSender" where
  "TCPSender_init capacity retx_timeout fixed_isn rnd =
     \<lparr>snd_isn = (case fixed_isn of Some i \<Rightarrow> i | None \<Rightarrow> WrappingInt32 rnd),
      snd_segments_out = [], snd_initial_retransmission_timeout = ucast retx_timeout,
      snd_stream = ByteStream_init capacity, snd_next_seqno = 0, snd_segments_outstanding = [],
      snd_remaining_time = 0, snd_retransmission_timeout = ucast retx_timeout,
      snd_alarm_run = False, snd_bytes_in_flight = 0, snd_state = CLOSED, snd_window_size = 1,
      snd_retransmission_count = 0\<rparr>"

definition TCPSender_bytes_in_flight :: "TCPSender \<Rightarrow> u64" where
  "TCPSender_bytes_in_flight s = snd_bytes_in_flight s"

definition TCPSender_next_seqno_absolute :: "TCPSender \<Rightarrow> u64" where
  "TCPSender_next_seqno_absolute s = snd_next_seqno s"

definition TCPSender_next_seqno :: "TCPSender \<Rightarrow> WrappingInt32" where
  "TCPSender_next_seqno s = wrap (snd_next_seqno s) (snd_isn s)"

text \<open>A segment with the given sequence number and flags and everything else as constructed.\<close>

definition make_segment :: "WrappingInt32 \<Rightarrow> bool \<Rightarrow> bool \<Rightarrow> bytes \<Rightarrow> TCPSegment" where
  "make_segment seqno syn fin payload =
     \<lparr>seg_header = TCPHeader_default\<lparr>th_seqno := seqno, th_syn := syn, th_fin := fin\<rparr>,
      seg_payload = Buffer_of_string payload\<rparr>"

definition TCPSender_send_syn_segment :: "TCPSender \<Rightarrow> TCPSender" where
  "TCPSender_send_syn_segment s =
     (let segment = TCPSegment_default;
          segment = segment\<lparr>seg_header :=
            (seg_header segment)\<lparr>th_seqno := TCPSender_next_seqno s, th_syn := True\<rparr>\<rparr>
      in s\<lparr>snd_state := SYN_SENT, snd_next_seqno := 1, snd_bytes_in_flight := 1,
           snd_alarm_run := True, snd_segments_out := snd_segments_out s @ [segment],
           snd_segments_outstanding := snd_segments_outstanding s @ [(0, segment)]\<rparr>)"

text \<open>One iteration of the loop of \<open>fill_window\<close>; the flag tells whether the loop goes on (it is
  false at the \<open>break\<close>).\<close>

definition fill_step :: "u64 \<Rightarrow> TCPSender \<Rightarrow> bool \<times> TCPSender" where
  "fill_step window_size s =
     (let read_size = min TCPConfig_MAX_PAYLOAD_SIZE (window_size - snd_bytes_in_flight s);
          (stream, payload) = ByteStream_read (snd_stream s) read_size;
          fin = (ByteStream_eof stream \<and> window_size - snd_bytes_in_flight s > sz payload);
          segment = make_segment (TCPSender_next_seqno s) False fin payload;
          s = s\<lparr>snd_stream := stream, snd_state := (if fin then FIN_SENT else snd_state s)\<rparr>
      in if TCPSegment_length_in_sequence_space segment = 0 then (False, s)
         else (True,
           s\<lparr>snd_segments_out := snd_segments_out s @ [segment],
             snd_segments_outstanding :=
               snd_segments_outstanding s @ [(snd_next_seqno s, segment)],
             snd_bytes_in_flight :=
               snd_bytes_in_flight s + TCPSegment_length_in_sequence_space segment,
             snd_next_seqno :=
               snd_next_seqno s + TCPSegment_length_in_sequence_space segment\<rparr>))"

lemma length_read_le: "length (snd (ByteStream_read b n)) \<le> unat n"
proof -
  have "unat (min n (sz (bs_buffer_list b))) \<le> unat n" by (simp add: unat_min_u64)
  then show ?thesis
    by (auto simp: ByteStream_read_def ByteStream_peek_output_def Let_def)
qed

definition seg_len :: "TCPSegment \<Rightarrow> nat" where
  "seg_len seg = length (Buffer_str (seg_payload seg)) + (if th_syn (seg_header seg) then 1 else 0)
     + (if th_fin (seg_header seg) then 1 else 0)"

lemma length_in_sequence_space: "TCPSegment_length_in_sequence_space seg = of_nat (seg_len seg)"
  by (simp add: TCPSegment_length_in_sequence_space_def seg_len_def)

lemma make_segment_simps [simp]:
  "seg_header (make_segment i syn fin d)
     = TCPHeader_default\<lparr>th_seqno := i, th_syn := syn, th_fin := fin\<rparr>"
  "Buffer_str (seg_payload (make_segment i syn fin d)) = d"
  "seg_len (make_segment i syn fin d) = length d + (if syn then 1 else 0) + (if fin then 1 else 0)"
  by (simp_all add: make_segment_def seg_len_def TCPHeader_default_def)

text \<open>An iteration that goes on fits the rest of the window and uses some of it.\<close>

lemma fill_step_length:
  assumes "snd_bytes_in_flight s < w" and "fill_step w s = (True, s')"
  shows "\<exists>n. 0 < n \<and> n \<le> unat (w - snd_bytes_in_flight s) \<and>
    snd_bytes_in_flight s' = snd_bytes_in_flight s + of_nat n"
proof -
  let ?rest = "w - snd_bytes_in_flight s"
  let ?n = "min TCPConfig_MAX_PAYLOAD_SIZE ?rest"
  obtain stream d where rd: "ByteStream_read (snd_stream s) ?n = (stream, d)" by fastforce
  define fin where "fin \<longleftrightarrow> ByteStream_eof stream \<and> ?rest > sz d"
  define n where "n = length d + (if fin then 1 else 0)"
  have d: "length d \<le> unat ?rest"
    using length_read_le [of "snd_stream s" ?n] unat_min_u64 [of TCPConfig_MAX_PAYLOAD_SIZE ?rest]
    by (simp add: rd)
  then have "length d < 2 ^ 64" using unat_u64_bound [of ?rest] by simp
  then have n_le: "n \<le> unat ?rest" using d by (auto simp: n_def fin_def word_less_nat_alt unat_sz)
  have "TCPSegment_length_in_sequence_space
      (make_segment (TCPSender_next_seqno s) False fin d) = of_nat n"
    by (simp add: length_in_sequence_space n_def)
  then have "snd_bytes_in_flight s' = snd_bytes_in_flight s + of_nat n" and "(of_nat n :: u64) \<noteq> 0"
    using assms(2) by (auto simp: fill_step_def rd Let_def fin_def [symmetric] split: if_splits)
  then show ?thesis using n_le by (intro exI [of _ n]) (auto intro: gr0I)
qed

function fill_loop :: "u64 \<Rightarrow> TCPSender \<Rightarrow> TCPSender" where
  "fill_loop window_size s =
     (if snd_state s = SYN_ACKED \<and> window_size > TCPSender_bytes_in_flight s then
        case fill_step window_size s of
          (True, s') \<Rightarrow> fill_loop window_size s'
        | (False, s') \<Rightarrow> s'
      else s)"
  by pat_completeness auto
termination
proof (relation "measure (\<lambda>(w, s). unat (w - snd_bytes_in_flight s))")
  fix w s b s'
  assume "snd_state s = SYN_ACKED \<and> w > TCPSender_bytes_in_flight s"
    and "(b, s') = fill_step w s" and "b = True"
  then have lt: "snd_bytes_in_flight s < w" and st: "fill_step w s = (True, s')"
    by (simp_all add: TCPSender_bytes_in_flight_def)
  obtain n where n: "0 < n" "n \<le> unat (w - snd_bytes_in_flight s)"
    "snd_bytes_in_flight s' = snd_bytes_in_flight s + of_nat n"
    using fill_step_length [OF lt st] by blast
  have u: "unat (of_nat n :: u64) = n"
    using n(2) unat_u64_bound [of "w - snd_bytes_in_flight s"] by (intro unat_of_nat_u64) simp
  have "w - snd_bytes_in_flight s' = w - snd_bytes_in_flight s - of_nat n" by (simp add: n(3))
  also have "unat \<dots> = unat (w - snd_bytes_in_flight s) - n"
    using n(2) by (simp add: unat_sub word_le_nat_alt u)
  finally show "((w, s'), (w, s)) \<in> measure (\<lambda>(w, s). unat (w - snd_bytes_in_flight s))"
    using n(1,2) by simp
qed simp

declare fill_loop.simps [simp del]

definition TCPSender_fill_window :: "TCPSender \<Rightarrow> TCPSender" where
  "TCPSender_fill_window s =
     (if snd_state s = CLOSED then TCPSender_send_syn_segment s
      else let window_size = (if snd_window_size s = 0 then 1 else snd_window_size s)
           in fill_loop window_size s)"

text \<open>The loop of \<open>ack_received\<close> that pops the acknowledged segments off the queue.\<close>

fun ack_loop :: "u64 \<Rightarrow> (u64 \<times> TCPSegment) list \<Rightarrow> TCPSender \<Rightarrow> TCPSender" where
  "ack_loop received_ackno [] s = s\<lparr>snd_segments_outstanding := []\<rparr>"
| "ack_loop received_ackno ((seqno, segment) # q) s =
     (if seqno + TCPSegment_length_in_sequence_space segment > received_ackno
      then s\<lparr>snd_segments_outstanding := (seqno, segment) # q\<rparr>
      else ack_loop received_ackno q
        (s\<lparr>snd_bytes_in_flight :=
             snd_bytes_in_flight s - TCPSegment_length_in_sequence_space segment,
           snd_remaining_time := 0,
           snd_retransmission_timeout := snd_initial_retransmission_timeout s\<rparr>))"

definition TCPSender_ack_received :: "TCPSender \<Rightarrow> WrappingInt32 \<Rightarrow> u16 \<Rightarrow> TCPSender" where
  "TCPSender_ack_received s ackno window_size =
     (let received_ackno = unwrap ackno (snd_isn s) (ByteStream_bytes_read (snd_stream s))
      in if received_ackno > snd_next_seqno s \<or>
            received_ackno < snd_next_seqno s - TCPSender_bytes_in_flight s then s
         else
           let s = s\<lparr>snd_window_size := ucast window_size, snd_retransmission_count := 0\<rparr>;
               s = ack_loop received_ackno (snd_segments_outstanding s) s;
               s = (if snd_state s = SYN_SENT \<and> snd_bytes_in_flight s < snd_next_seqno s
                    then s\<lparr>snd_state := SYN_ACKED\<rparr> else s)
           in if snd_state s = SYN_ACKED then TCPSender_fill_window s else s)"

definition TCPSender_tick :: "TCPSender \<Rightarrow> u64 \<Rightarrow> TCPSender" where
  "TCPSender_tick s ms_since_last_tick =
     (if \<not> snd_alarm_run s then s
      else
        let s = s\<lparr>snd_remaining_time := ucast (ucast (snd_remaining_time s) + ms_since_last_tick)\<rparr>
        in case snd_segments_outstanding s of
             [] \<Rightarrow> s\<lparr>snd_remaining_time := 0\<rparr>
           | (_, segment) # _ \<Rightarrow>
               if snd_remaining_time s \<ge> snd_retransmission_timeout s then
                 let s = (if snd_window_size s \<noteq> 0
                          then s\<lparr>snd_retransmission_timeout := snd_retransmission_timeout s * 2\<rparr>
                          else s)
                 in s\<lparr>snd_segments_out := snd_segments_out s @ [segment],
                      snd_retransmission_count := snd_retransmission_count s + 1,
                      snd_remaining_time := 0\<rparr>
               else s)"

definition TCPSender_consecutive_retransmissions :: "TCPSender \<Rightarrow> u32" where
  "TCPSender_consecutive_retransmissions s = ucast (snd_retransmission_count s)"

definition TCPSender_send_empty_segment :: "TCPSender \<Rightarrow> TCPSender" where
  "TCPSender_send_empty_segment s =
     (let segment = TCPSegment_default;
          segment = segment\<lparr>seg_header :=
            (seg_header segment)\<lparr>th_seqno := TCPSender_next_seqno s\<rparr>\<rparr>
      in s\<lparr>snd_segments_out := snd_segments_out s @ [segment]\<rparr>)"

end
