(* ===== verification/TCP_State.thy ===== *)
theory TCP_State
  imports TCP_Sender
begin

text \<open>
  The summary of a connection in the terms of the TCP specification:
  \<open>src/libsponge/tcp_helpers/tcp_state.{hh,cc}\<close>. The connection itself consults the summaries of its
  sender and receiver, which are character strings in the source and here.
\<close>

definition TCPReceiverStateSummary_ERROR :: string where
  "TCPReceiverStateSummary_ERROR = ''error (connection was reset)''"

definition TCPReceiverStateSummary_LISTEN :: string where
  "TCPReceiverStateSummary_LISTEN = ''waiting for SYN: ackno is empty''"

definition TCPReceiverStateSummary_SYN_RECV :: string where
  "TCPReceiverStateSummary_SYN_RECV = ''SYN received (ackno exists), and input to stream hasn't ended''"

definition TCPReceiverStateSummary_FIN_RECV :: string where
  "TCPReceiverStateSummary_FIN_RECV = ''input to stream has ended''"

definition TCPSenderStateSummary_ERROR :: string where
  "TCPSenderStateSummary_ERROR = ''error (connection was reset)''"

definition TCPSenderStateSummary_CLOSED :: string where
  "TCPSenderStateSummary_CLOSED = ''waiting for stream to begin (no SYN sent)''"

definition TCPSenderStateSummary_SYN_SENT :: string where
  "TCPSenderStateSummary_SYN_SENT = ''stream started but nothing acknowledged''"

definition TCPSenderStateSummary_SYN_ACKED :: string where
  "TCPSenderStateSummary_SYN_ACKED = ''stream ongoing''"

definition TCPSenderStateSummary_FIN_SENT :: string where
  "TCPSenderStateSummary_FIN_SENT = ''stream finished (FIN sent) but not fully acknowledged''"

definition TCPSenderStateSummary_FIN_ACKED :: string where
  "TCPSenderStateSummary_FIN_ACKED = ''stream finished and fully acknowledged''"

lemmas summary_defs =
  TCPReceiverStateSummary_ERROR_def TCPReceiverStateSummary_LISTEN_def
  TCPReceiverStateSummary_SYN_RECV_def TCPReceiverStateSummary_FIN_RECV_def
  TCPSenderStateSummary_ERROR_def TCPSenderStateSummary_CLOSED_def
  TCPSenderStateSummary_SYN_SENT_def TCPSenderStateSummary_SYN_ACKED_def
  TCPSenderStateSummary_FIN_SENT_def TCPSenderStateSummary_FIN_ACKED_def

datatype State =
    LISTEN | SYN_RCVD | SYN_SENT | ESTABLISHED | CLOSE_WAIT | LAST_ACK | FIN_WAIT_1 | FIN_WAIT_2
  | CLOSING | TIME_WAIT | CLOSED | RESET

record TCPState =
  ts_sender :: string
  ts_receiver :: string
  ts_active :: bool
  ts_linger_after_streams_finish :: bool

definition TCPState_eq :: "TCPState \<Rightarrow> TCPState \<Rightarrow> bool" where
  "TCPState_eq s other \<longleftrightarrow>
     ts_active s = ts_active other \<and>
     ts_linger_after_streams_finish s = ts_linger_after_streams_finish other \<and>
     ts_sender s = ts_sender other \<and> ts_receiver s = ts_receiver other"

definition TCPState_neq :: "TCPState \<Rightarrow> TCPState \<Rightarrow> bool" where
  "TCPState_neq s other \<longleftrightarrow> \<not> TCPState_eq s other"

text \<open>\<open>std::to_string\<close> at type \<open>bool\<close>.\<close>

definition bool_to_string :: "bool \<Rightarrow> string" where
  "bool_to_string b = (if b then ''1'' else ''0'')"

definition TCPState_name :: "TCPState \<Rightarrow> string" where
  "TCPState_name s =
     ''sender=`'' @ ts_sender s @ ''`, receiver=`'' @ ts_receiver s @ ''`, active='' @
     bool_to_string (ts_active s) @ '', linger_after_streams_finish='' @
     bool_to_string (ts_linger_after_streams_finish s)"

fun TCPState_of_State :: "State \<Rightarrow> TCPState" where
  "TCPState_of_State LISTEN =
     \<lparr>ts_sender = TCPSenderStateSummary_CLOSED, ts_receiver = TCPReceiverStateSummary_LISTEN,
      ts_active = True, ts_linger_after_streams_finish = True\<rparr>"
| "TCPState_of_State SYN_RCVD =
     \<lparr>ts_sender = TCPSenderStateSummary_SYN_SENT, ts_receiver = TCPReceiverStateSummary_SYN_RECV,
      ts_active = True, ts_linger_after_streams_finish = True\<rparr>"
| "TCPState_of_State SYN_SENT =
     \<lparr>ts_sender = TCPSenderStateSummary_SYN_SENT, ts_receiver = TCPReceiverStateSummary_LISTEN,
      ts_active = True, ts_linger_after_streams_finish = True\<rparr>"
| "TCPState_of_State ESTABLISHED =
     \<lparr>ts_sender = TCPSenderStateSummary_SYN_ACKED, ts_receiver = TCPReceiverStateSummary_SYN_RECV,
      ts_active = True, ts_linger_after_streams_finish = True\<rparr>"
| "TCPState_of_State CLOSE_WAIT =
     \<lparr>ts_sender = TCPSenderStateSummary_SYN_ACKED, ts_receiver = TCPReceiverStateSummary_FIN_RECV,
      ts_active = True, ts_linger_after_streams_finish = False\<rparr>"
| "TCPState_of_State LAST_ACK =
     \<lparr>ts_sender = TCPSenderStateSummary_FIN_SENT, ts_receiver = TCPReceiverStateSummary_FIN_RECV,
      ts_active = True, ts_linger_after_streams_finish = False\<rparr>"
| "TCPState_of_State CLOSING =
     \<lparr>ts_sender = TCPSenderStateSummary_FIN_SENT, ts_receiver = TCPReceiverStateSummary_FIN_RECV,
      ts_active = True, ts_linger_after_streams_finish = True\<rparr>"
| "TCPState_of_State FIN_WAIT_1 =
     \<lparr>ts_sender = TCPSenderStateSummary_FIN_SENT, ts_receiver = TCPReceiverStateSummary_SYN_RECV,
      ts_active = True, ts_linger_after_streams_finish = True\<rparr>"
| "TCPState_of_State FIN_WAIT_2 =
     \<lparr>ts_sender = TCPSenderStateSummary_FIN_ACKED, ts_receiver = TCPReceiverStateSummary_SYN_RECV,
      ts_active = True, ts_linger_after_streams_finish = True\<rparr>"
| "TCPState_of_State TIME_WAIT =
     \<lparr>ts_sender = TCPSenderStateSummary_FIN_ACKED, ts_receiver = TCPReceiverStateSummary_FIN_RECV,
      ts_active = True, ts_linger_after_streams_finish = True\<rparr>"
| "TCPState_of_State RESET =
     \<lparr>ts_sender = TCPSenderStateSummary_ERROR, ts_receiver = TCPReceiverStateSummary_ERROR,
      ts_active = False, ts_linger_after_streams_finish = False\<rparr>"
| "TCPState_of_State CLOSED =
     \<lparr>ts_sender = TCPSenderStateSummary_FIN_ACKED, ts_receiver = TCPReceiverStateSummary_FIN_RECV,
      ts_active = False, ts_linger_after_streams_finish = False\<rparr>"

definition TCPState_state_summary_receiver :: "TCPReceiver \<Rightarrow> string" where
  "TCPState_state_summary_receiver receiver =
     (if ByteStream_error (TCPReceiver_stream_out receiver) then TCPReceiverStateSummary_ERROR
      else if TCPReceiver_ackno receiver = None then TCPReceiverStateSummary_LISTEN
      else if ByteStream_input_ended (TCPReceiver_stream_out receiver)
      then TCPReceiverStateSummary_FIN_RECV
      else TCPReceiverStateSummary_SYN_RECV)"

definition TCPState_state_summary_sender :: "TCPSender \<Rightarrow> string" where
  "TCPState_state_summary_sender sender =
     (if ByteStream_error (snd_stream sender) then TCPSenderStateSummary_ERROR
      else if TCPSender_next_seqno_absolute sender = 0 then TCPSenderStateSummary_CLOSED
      else if TCPSender_next_seqno_absolute sender = TCPSender_bytes_in_flight sender
      then TCPSenderStateSummary_SYN_SENT
      else if \<not> ByteStream_eof (snd_stream sender) then TCPSenderStateSummary_SYN_ACKED
      else if TCPSender_next_seqno_absolute sender < ByteStream_bytes_written (snd_stream sender) + 2
      then TCPSenderStateSummary_SYN_ACKED
      else if TCPSender_bytes_in_flight sender \<noteq> 0 then TCPSenderStateSummary_FIN_SENT
      else TCPSenderStateSummary_FIN_ACKED)"

definition TCPState_of :: "TCPSender \<Rightarrow> TCPReceiver \<Rightarrow> bool \<Rightarrow> bool \<Rightarrow> TCPState" where
  "TCPState_of sender receiver active linger =
     \<lparr>ts_sender = TCPState_state_summary_sender sender,
      ts_receiver = TCPState_state_summary_receiver receiver,
      ts_active = active, ts_linger_after_streams_finish = (if active then linger else False)\<rparr>"

text \<open>The twelve official states are told apart by what the comparison looks at, and comparison is
  equality of the summaries.\<close>

lemma TCPState_eq_iff [simp]: "TCPState_eq s t \<longleftrightarrow> s = t"
  by (cases s; cases t) (auto simp: TCPState_eq_def)

lemma TCPState_of_State_inject: "TCPState_of_State a = TCPState_of_State b \<Longrightarrow> a = b"
  by (cases a; cases b) (simp_all add: summary_defs)

end
