(* ===== verification/Sender_Correctness.thy ===== *)
theory Sender_Correctness
  imports TCP_Sender
begin

text \<open>
  Correctness of the sender: the invariant between its counters, its queues and the outgoing
  stream, its preservation by every operation under every acknowledgment a peer might send, and
  the effect of filling the window and of acknowledging on the counters and queues.
\<close>

subsection \<open>The invariant\<close>

definition own_segment :: "bytes \<Rightarrow> WrappingInt32 \<Rightarrow> nat \<Rightarrow> TCPSegment \<Rightarrow> bool" where
  "own_segment S i k seg \<longleftrightarrow>
     segment_at S i k seg \<and> length (Buffer_str (seg_payload seg)) \<le> unat TCPConfig_MAX_PAYLOAD_SIZE"

text \<open>The outstanding segments cover the sequence numbers from \<open>a\<close> up to \<open>e\<close> without gap.\<close>

fun chain :: "bytes \<Rightarrow> WrappingInt32 \<Rightarrow> nat \<Rightarrow> (u64 \<times> TCPSegment) list \<Rightarrow> nat \<Rightarrow> bool" where
  "chain S i a [] e \<longleftrightarrow> a = e"
| "chain S i a ((k, seg) # q) e \<longleftrightarrow>
     unat k = a \<and> 0 < seg_len seg \<and> own_segment S i a seg \<and> chain S i (a + seg_len seg) q e"

abbreviation bytes_sent :: "TCPSender \<Rightarrow> nat" where
  "bytes_sent s \<equiv> unat (bs_bytes_read (snd_stream s))"

abbreviation next_abs :: "TCPSender \<Rightarrow> nat" where
  "next_abs s \<equiv> unat (snd_next_seqno s)"

abbreviation in_flight :: "TCPSender \<Rightarrow> nat" where
  "in_flight s \<equiv> unat (snd_bytes_in_flight s)"

fun state_ok :: "bytes \<Rightarrow> TCPSender \<Rightarrow> STATE \<Rightarrow> bool" where
  "state_ok S s CLOSED \<longleftrightarrow> next_abs s = 0 \<and> bytes_sent s = 0 \<and> in_flight s = 0"
| "state_ok S s SYN_SENT \<longleftrightarrow> next_abs s = 1 \<and> bytes_sent s = 0 \<and> in_flight s = 1"
| "state_ok S s SYN_ACKED \<longleftrightarrow> next_abs s = bytes_sent s + 1 \<and> in_flight s < next_abs s"
| "state_ok S s FIN_SENT \<longleftrightarrow> next_abs s = length S + 2 \<and> bytes_sent s = length S \<and>
     ByteStream_input_ended (snd_stream s) \<and> in_flight s < next_abs s"
| "state_ok S s FINS_ACKED \<longleftrightarrow> False"

definition stream_ok :: "bytes \<Rightarrow> ByteStream \<Rightarrow> bool" where
  "stream_ok S st \<longleftrightarrow> out_ok S (bs_bytes_written st) st \<and>
     (ByteStream_input_ended st \<longrightarrow> unat (bs_bytes_written st) = length S)"

definition sender_inv :: "bytes \<Rightarrow> TCPSender \<Rightarrow> bool" where
  "sender_inv S s \<longleftrightarrow>
     length S < 2 ^ 64 - 2 \<and> stream_ok S (snd_stream s) \<and> state_ok S s (snd_state s) \<and>
     chain S (snd_isn s) (next_abs s - in_flight s) (snd_segments_outstanding s) (next_abs s) \<and>
     (\<forall>seg\<in>set (snd_segments_out s). \<exists>k. own_segment S (snd_isn s) k seg)"

lemma chain_append:
  "chain S i a (q @ q') e \<longleftrightarrow> (\<exists>m. chain S i a q m \<and> chain S i m q' e)"
  by (induction q arbitrary: a) auto

lemma chain_le: "chain S i a q e \<Longrightarrow> a \<le> e"
  by (induction q arbitrary: a) fastforce+

lemma state_ok_in_flight: "state_ok S s st \<Longrightarrow> in_flight s \<le> next_abs s"
  by (cases st) simp_all

lemma sender_inv_next_le:
  assumes "sender_inv S s"
  shows "next_abs s \<le> length S + 2" and "snd_state s \<noteq> FIN_SENT \<Longrightarrow> next_abs s \<le> length S + 1"
proof -
  have "bytes_sent s \<le> length S" using assms by (simp add: sender_inv_def stream_ok_def out_ok_def)
  then show "next_abs s \<le> length S + 2"
    and "snd_state s \<noteq> FIN_SENT \<Longrightarrow> next_abs s \<le> length S + 1"
    using assms by (cases "snd_state s"; simp add: sender_inv_def)+
qed

lemma sender_inv_init:
  "length S < 2 ^ 64 - 2 \<Longrightarrow> sender_inv S (TCPSender_init capacity rto isn rnd)"
  by (simp add: sender_inv_def TCPSender_init_def stream_ok_def out_ok_def)
    (simp add: ByteStream_init_def ByteStream_input_ended_def)

lemma sender_inv_out_subset:
  "sender_inv S s \<Longrightarrow> set out \<subseteq> set (snd_segments_out s) \<Longrightarrow>
   sender_inv S (s\<lparr>snd_segments_out := out\<rparr>)"
  by (cases "snd_state s") (auto simp: sender_inv_def)

subsection \<open>Filling the window\<close>

lemma send_syn_inv:
  assumes "sender_inv S s" and "snd_state s = CLOSED"
  shows "sender_inv S (TCPSender_send_syn_segment s)"
proof -
  have n: "snd_next_seqno s = 0" using assms by (simp add: sender_inv_def unat_eq_0)
  have "snd_segments_outstanding s = []"
    using assms by (cases "snd_segments_outstanding s") (fastforce simp: sender_inv_def dest!: chain_le)+
  moreover have "own_segment S (snd_isn s) 0
      \<lparr>seg_header = TCPHeader_default\<lparr>th_seqno := wrap 0 (snd_isn s), th_syn := True\<rparr>,
       seg_payload = Buffer_default\<rparr>"
    by (simp add: own_segment_def segment_at_def TCPHeader_default_def honest_push_iff)
  ultimately show ?thesis
    using assms
    by (auto simp: sender_inv_def TCPSender_send_syn_segment_def TCPSender_next_seqno_def n
        TCPSegment_default_def seg_len_def TCPHeader_default_def Let_def)
qed

text \<open>What one iteration reads and sends.\<close>

lemma stream_read_sent:
  assumes st: "stream_ok S st" and rd: "ByteStream_read st n = (st', d)"
  shows "stream_ok S st'"
    and "honest_push S d (bs_bytes_read st) (ByteStream_eof st')"
    and "unat (bs_bytes_read st') = unat (bs_bytes_read st) + length d"
    and "unat (bs_bytes_read st') \<le> length S"
    and "ByteStream_eof st' \<Longrightarrow> unat (bs_bytes_read st') = length S"
proof -
  have ok: "out_ok S (bs_bytes_written st) st" using st by (simp add: stream_ok_def)
  note read = out_ok_read [OF ok rd]
  have w: "bs_bytes_written st' = bs_bytes_written st"
    using read(1) by (simp add: out_ok_def)
  show st': "stream_ok S st'" using st read(1,5) by (simp add: stream_ok_def w)
  show u: "unat (bs_bytes_read st') = unat (bs_bytes_read st) + length d" by (rule read(3))
  show le: "unat (bs_bytes_read st') \<le> length S" using read(1) by (simp add: out_ok_def)
  show eof: "unat (bs_bytes_read st') = length S" if "ByteStream_eof st'"
  proof -
    have "unat (bs_bytes_written st') = length S"
      using that st' by (simp add: stream_ok_def ByteStream_eof_def ByteStream_input_ended_def)
    then have "length (bs_buffer_list st') = length S - unat (bs_bytes_read st')"
      using read(1) by (simp add: out_ok_def w)
    then show ?thesis using that le by (simp add: ByteStream_eof_def ByteStream_buffer_empty_def)
  qed
  have "d = take (length d) (drop (unat (bs_bytes_read st)) S)"
    using read(2) unfolding u slc_def by (simp add: drop_take)
  then show "honest_push S d (bs_bytes_read st) (ByteStream_eof st')"
    using le u eof by (auto simp: honest_push_iff)
qed

lemma honest_push_eof_mono: "honest_push S d k e \<Longrightarrow> (e' \<Longrightarrow> e) \<Longrightarrow> honest_push S d k e'"
  by (auto simp: honest_push_def)

text \<open>The segment of one iteration, and the two ways the iteration can go.\<close>

definition fill_segment :: "u64 \<Rightarrow> TCPSender \<Rightarrow> TCPSegment" where
  "fill_segment w s =
     (let rest = w - snd_bytes_in_flight s;
          (stream, d) = ByteStream_read (snd_stream s) (min TCPConfig_MAX_PAYLOAD_SIZE rest)
      in make_segment (TCPSender_next_seqno s) False (ByteStream_eof stream \<and> rest > sz d) d)"

definition fill_stream :: "u64 \<Rightarrow> TCPSender \<Rightarrow> ByteStream" where
  "fill_stream w s = fst (ByteStream_read (snd_stream s)
     (min TCPConfig_MAX_PAYLOAD_SIZE (w - snd_bytes_in_flight s)))"

lemma fill_segment_spec:
  assumes inv: "sender_inv S s" and st: "snd_state s = SYN_ACKED" and lt: "snd_bytes_in_flight s < w"
  shows "own_segment S (snd_isn s) (next_abs s) (fill_segment w s)"
    and "stream_ok S (fill_stream w s)"
    and "unat (bs_bytes_read (fill_stream w s))
      = bytes_sent s + length (Buffer_str (seg_payload (fill_segment w s)))"
    and "th_fin (seg_header (fill_segment w s)) \<Longrightarrow>
      unat (bs_bytes_read (fill_stream w s)) = length S \<and> ByteStream_input_ended (fill_stream w s)"
    and "seg_len (fill_segment w s) \<le> unat w - in_flight s"
    and "seg_len (fill_segment w s) = 0 \<Longrightarrow>
      ByteStream_buffer_empty (fill_stream w s) \<and> \<not> ByteStream_input_ended (fill_stream w s)"
    and "\<not> th_syn (seg_header (fill_segment w s))"
proof -
  let ?rest = "w - snd_bytes_in_flight s"
  let ?n = "min TCPConfig_MAX_PAYLOAD_SIZE ?rest"
  obtain stream d where rd: "ByteStream_read (snd_stream s) ?n = (stream, d)" by fastforce
  define fin where "fin \<longleftrightarrow> ByteStream_eof stream \<and> ?rest > sz d"
  have seg: "fill_segment w s = make_segment (TCPSender_next_seqno s) False fin d"
    and str: "fill_stream w s = stream"
    by (simp_all add: fill_segment_def fill_stream_def rd fin_def)
  have so: "stream_ok S (snd_stream s)" and nx: "next_abs s = bytes_sent s + 1"
    using inv st by (simp_all add: sender_inv_def)
  note read = stream_read_sent [OF so rd]
  have rest: "unat ?rest = unat w - in_flight s" "0 < unat ?rest"
    using lt by (simp_all add: unat_sub_no_wrap [OF less_imp_le [OF lt]] word_less_nat_alt)
  have "length d \<le> unat ?n" using length_read_le [of "snd_stream s" ?n] by (simp add: rd)
  then have d: "length d \<le> unat TCPConfig_MAX_PAYLOAD_SIZE" "length d \<le> unat ?rest"
    unfolding unat_min_u64 by simp_all
  then have d64: "length d < 2 ^ 64" using unat_u64_bound [of ?rest] by simp
  have fin: "fin \<longleftrightarrow> ByteStream_eof stream \<and> length d < unat ?rest"
    by (simp add: fin_def word_less_nat_alt unat_sz [OF d64])
  have "honest_push S d (bs_bytes_read (snd_stream s)) fin"
    using read(2) by (rule honest_push_eof_mono) (simp add: fin)
  moreover have "TCPSender_next_seqno s = wrap (of_nat (next_abs s)) (snd_isn s)"
    by (simp add: TCPSender_next_seqno_def)
  ultimately show "own_segment S (snd_isn s) (next_abs s) (fill_segment w s)"
    using d(1) nx read(3,4)
    by (simp add: own_segment_def segment_at_def seg TCPHeader_default_def)
  show "stream_ok S (fill_stream w s)" by (simp add: str read(1))
  show "unat (bs_bytes_read (fill_stream w s))
      = bytes_sent s + length (Buffer_str (seg_payload (fill_segment w s)))"
    by (simp add: str seg read(3))
  show "unat (bs_bytes_read (fill_stream w s)) = length S \<and> ByteStream_input_ended (fill_stream w s)"
    if "th_fin (seg_header (fill_segment w s))"
    using that read(5) by (simp add: seg str fin ByteStream_eof_def ByteStream_input_ended_def)
  show "seg_len (fill_segment w s) \<le> unat w - in_flight s"
    using d(2) by (auto simp: seg fin rest(1))
  show "\<not> th_syn (seg_header (fill_segment w s))" by (simp add: seg)
  show "ByteStream_buffer_empty (fill_stream w s) \<and> \<not> ByteStream_input_ended (fill_stream w s)"
    if "seg_len (fill_segment w s) = 0"
  proof -
    have z: "d = []" "\<not> ByteStream_eof stream" using that rest(2) by (auto simp: seg fin split: if_splits)
    have n: "0 < unat ?n" using rest(2) by (simp add: unat_min_u64 TCPConfig_MAX_PAYLOAD_SIZE_def)
    have "ByteStream_inv (snd_stream s)" using so by (simp add: stream_ok_def out_ok_def)
    then have "bs_buffer_list stream = []"
      using rd z(1) n by (auto simp: read_take_drop)
    then show ?thesis using z(2) by (simp add: str ByteStream_observers)
  qed
qed

lemma fill_step_eq:
  "fill_step w s =
     (let seg = fill_segment w s; fin = th_fin (seg_header seg);
          s1 = s\<lparr>snd_stream := fill_stream w s, snd_state := (if fin then FIN_SENT else snd_state s)\<rparr>
      in if of_nat (seg_len seg) = (0 :: u64) then (False, s1)
         else (True, s1\<lparr>snd_segments_out := snd_segments_out s @ [seg],
             snd_segments_outstanding := snd_segments_outstanding s @ [(snd_next_seqno s, seg)],
             snd_bytes_in_flight := snd_bytes_in_flight s + of_nat (seg_len seg),
             snd_next_seqno := snd_next_seqno s + of_nat (seg_len seg)\<rparr>))"
  by (simp add: fill_step_def fill_segment_def fill_stream_def Let_def split_beta
      length_in_sequence_space)

lemma fill_step_spec:
  assumes inv: "sender_inv S s" and st: "snd_state s = SYN_ACKED" and lt: "snd_bytes_in_flight s < w"
    and step: "fill_step w s = (goes, s')"
  shows "sender_inv S s'"
    and "in_flight s' \<le> unat w \<and> next_abs s' - in_flight s' = next_abs s - in_flight s"
    and "\<not> goes \<Longrightarrow> ByteStream_buffer_empty (snd_stream s') \<and>
      \<not> ByteStream_input_ended (snd_stream s')"
    and "snd_state s' = SYN_ACKED \<or> snd_state s' = FIN_SENT"
proof -
  define seg where "seg = fill_segment w s"
  note spec = fill_segment_spec [OF inv st lt, folded seg_def]
  have nx: "next_abs s = bytes_sent s + 1" "in_flight s < next_abs s" "length S < 2 ^ 64 - 2"
    using inv st by (simp_all add: sender_inv_def)
  have ch: "chain S (snd_isn s) (next_abs s - in_flight s) (snd_segments_outstanding s) (next_abs s)"
    and out: "\<forall>seg\<in>set (snd_segments_out s). \<exists>k. own_segment S (snd_isn s) k seg"
    using inv unfolding sender_inv_def by blast+
  have sl: "seg_len seg = length (Buffer_str (seg_payload seg))
      + (if th_fin (seg_header seg) then 1 else 0)"
    using spec(7) by (simp add: seg_len_def)
  have wlt: "in_flight s < unat w" using lt by (simp add: word_less_nat_alt)
  have sent: "unat (bs_bytes_read (fill_stream w s)) \<le> length S"
    using spec(2) by (simp add: stream_ok_def out_ok_def)
  have u: "unat (of_nat (seg_len seg) :: u64) = seg_len seg"
    using spec(5) unat_u64_bound [of w] by (intro unat_of_nat_u64) simp
  have fl: "unat (snd_bytes_in_flight s + of_nat (seg_len seg)) = in_flight s + seg_len seg"
    using spec(5) wlt unat_u64_bound [of w] by (subst unat_add_no_wrap) (simp_all add: u)
  have ns: "unat (snd_next_seqno s + of_nat (seg_len seg)) = next_abs s + seg_len seg"
  proof -
    have "next_abs s + seg_len seg \<le> length S + 2" using nx(1) spec(3,4) sl sent by auto
    then show ?thesis using nx(3) by (subst unat_add_no_wrap) (simp_all add: u)
  qed
  have z: "(of_nat (seg_len seg) :: u64) = 0 \<longleftrightarrow> seg_len seg = 0" using u unat_eq_zero by force
  show "\<not> goes \<Longrightarrow> ByteStream_buffer_empty (snd_stream s') \<and>
      \<not> ByteStream_input_ended (snd_stream s')"
    and "snd_state s' = SYN_ACKED \<or> snd_state s' = FIN_SENT"
    and "in_flight s' \<le> unat w \<and> next_abs s' - in_flight s' = next_abs s - in_flight s"
    using step spec(5,6) st fl ns nx(2) wlt
    by (auto simp: fill_step_eq Let_def z simp flip: seg_def split: if_splits)
  show "sender_inv S s'"
  proof (cases "seg_len seg = 0")
    case True
    then have "s' = s\<lparr>snd_stream := fill_stream w s\<rparr>"
      using step sl by (simp add: fill_step_eq Let_def flip: seg_def split: if_splits)
    then show ?thesis using nx st ch out spec(2,3) sl True by (simp add: sender_inv_def)
  next
    case False
    have "chain S (snd_isn s) (next_abs s - in_flight s)
        (snd_segments_outstanding s @ [(snd_next_seqno s, seg)]) (next_abs s + seg_len seg)"
      using ch spec(1) False by (auto simp: chain_append)
    moreover have "s' = s\<lparr>snd_stream := fill_stream w s,
        snd_state := (if th_fin (seg_header seg) then FIN_SENT else SYN_ACKED),
        snd_segments_out := snd_segments_out s @ [seg],
        snd_segments_outstanding := snd_segments_outstanding s @ [(snd_next_seqno s, seg)],
        snd_bytes_in_flight := snd_bytes_in_flight s + of_nat (seg_len seg),
        snd_next_seqno := snd_next_seqno s + of_nat (seg_len seg)\<rparr>"
      using step False st by (auto simp: fill_step_eq Let_def z simp flip: seg_def split: if_splits)
    ultimately show ?thesis
      using nx spec(1-4) sl fl ns out by (auto simp: sender_inv_def)
  qed
qed

definition window_filled :: "u64 \<Rightarrow> TCPSender \<Rightarrow> bool" where
  "window_filled w s \<longleftrightarrow> snd_state s = FIN_SENT \<or> unat w \<le> in_flight s \<or>
     ByteStream_buffer_empty (snd_stream s) \<and> \<not> ByteStream_input_ended (snd_stream s)"

lemma fill_loop_spec:
  assumes "sender_inv S s"
  shows "sender_inv S (fill_loop w s) \<and>
    in_flight (fill_loop w s) \<le> max (in_flight s) (unat w) \<and>
    next_abs (fill_loop w s) - in_flight (fill_loop w s) = next_abs s - in_flight s \<and>
    (snd_state s = SYN_ACKED \<longrightarrow> window_filled w (fill_loop w s)) \<and>
    (snd_state s \<noteq> SYN_ACKED \<longrightarrow> fill_loop w s = s)"
  using assms
proof (induction w s rule: fill_loop.induct)
  case (1 w s)
  show ?case
  proof (cases "snd_state s = SYN_ACKED \<and> w > TCPSender_bytes_in_flight s")
    case False
    then have "fill_loop w s = s" by (auto simp: fill_loop.simps [of w s])
    then show ?thesis
      using False "1.prems"
      by (auto simp: window_filled_def TCPSender_bytes_in_flight_def word_less_nat_alt)
  next
    case True
    then have st: "snd_state s = SYN_ACKED" and lt: "snd_bytes_in_flight s < w"
      by (simp_all add: TCPSender_bytes_in_flight_def)
    obtain goes s1 where step: "fill_step w s = (goes, s1)" by fastforce
    note spec = fill_step_spec [OF "1.prems" st lt step]
    show ?thesis
    proof (cases goes)
      case goes: True
      then have "fill_loop w s = fill_loop w s1" using True step by (simp add: fill_loop.simps [of w s])
      moreover note "1.IH" [OF True step [symmetric]]
      moreover have "snd_state s1 \<noteq> SYN_ACKED \<Longrightarrow> window_filled w s1"
        using spec(4) by (auto simp: window_filled_def)
      ultimately show ?thesis using goes spec(1,2,4) st
        by (cases "snd_state s1 = SYN_ACKED") (auto simp: max_def split: if_splits)
    next
      case False
      then have "fill_loop w s = s1" using True step by (simp add: fill_loop.simps [of w s])
      then show ?thesis using False spec st by (auto simp: window_filled_def)
    qed
  qed
qed

lemma fill_window_spec:
  assumes "sender_inv S s"
  shows "sender_inv S (TCPSender_fill_window s)"
    and "in_flight (TCPSender_fill_window s) \<le> max (in_flight s) (max 1 (unat (snd_window_size s)))"
    and "snd_state s = SYN_ACKED \<Longrightarrow>
      window_filled (if snd_window_size s = 0 then 1 else snd_window_size s) (TCPSender_fill_window s)"
proof -
  let ?w = "if snd_window_size s = 0 then 1 else snd_window_size s"
  have w: "unat ?w = max 1 (unat (snd_window_size s))"
    by (auto simp: max_def unat_eq_zero not_le)
  note loop = fill_loop_spec [OF assms, of ?w, unfolded w]
  show "sender_inv S (TCPSender_fill_window s)"
    and "in_flight (TCPSender_fill_window s) \<le> max (in_flight s) (max 1 (unat (snd_window_size s)))"
    and "snd_state s = SYN_ACKED \<Longrightarrow> window_filled ?w (TCPSender_fill_window s)"
    using loop send_syn_inv [OF assms] unfolding TCPSender_fill_window_def
    by (auto simp: Let_def TCPSender_send_syn_segment_def)
qed

subsection \<open>Acknowledgments\<close>

lemma ack_loop_frame:
  "snd_state (ack_loop r q s) = snd_state s" "snd_stream (ack_loop r q s) = snd_stream s"
  "snd_isn (ack_loop r q s) = snd_isn s" "snd_next_seqno (ack_loop r q s) = snd_next_seqno s"
  "snd_segments_out (ack_loop r q s) = snd_segments_out s"
  "snd_window_size (ack_loop r q s) = snd_window_size s"
  "snd_alarm_run (ack_loop r q s) = snd_alarm_run s"
  "snd_retransmission_count (ack_loop r q s) = snd_retransmission_count s"
  "snd_initial_retransmission_timeout (ack_loop r q s) = snd_initial_retransmission_timeout s"
  by (induction r q s rule: ack_loop.induct) simp_all

text \<open>Exactly the segments that end at or before the acknowledgment are popped; the timer is
  restarted with the initial timeout if there was one.\<close>

lemma ack_loop_spec:
  assumes "chain S (snd_isn s) a q (next_abs s)" and "in_flight s = next_abs s - a"
    and s'_def: "s' = ack_loop r q s"
  shows "\<exists>p b. q = p @ snd_segments_outstanding s' \<and> a \<le> b \<and>
    chain S (snd_isn s) b (snd_segments_outstanding s') (next_abs s) \<and>
    in_flight s' = next_abs s - b \<and>
    (\<forall>(k, seg)\<in>set p. unat k + seg_len seg \<le> unat r) \<and>
    (\<forall>(k, seg)\<in>set (snd_segments_outstanding s'). unat r < unat k + seg_len seg) \<and>
    (if p = [] then b = a \<and> snd_remaining_time s' = snd_remaining_time s \<and>
        snd_retransmission_timeout s' = snd_retransmission_timeout s
     else b \<le> unat r \<and> snd_remaining_time s' = 0 \<and>
        snd_retransmission_timeout s' = snd_initial_retransmission_timeout s)"
  using assms(1,2) unfolding s'_def
proof (induction r q s arbitrary: a rule: ack_loop.induct)
  case (1 r s)
  then show ?case by (intro exI [of _ "[]"] exI [of _ a]) simp
next
  case (2 r k seg q s)
  let ?n = "seg_len seg"
  have ch: "chain S (snd_isn s) (a + ?n) q (next_abs s)" and k: "unat k = a" "0 < ?n"
    using "2.prems" by simp_all
  have le: "a + ?n \<le> next_abs s" using ch by (rule chain_le)
  have u: "unat (of_nat ?n :: u64) = ?n"
    using le unat_u64_bound [of "snd_next_seqno s"] by (intro unat_of_nat_u64) simp
  have end_k: "unat (k + of_nat ?n) = a + ?n"
    using le unat_u64_bound [of "snd_next_seqno s"] by (subst unat_add_no_wrap) (simp_all add: u k)
  show ?case
  proof (cases "k + TCPSegment_length_in_sequence_space seg > r")
    case True
    then have "unat r < a + ?n" by (simp add: length_in_sequence_space word_less_nat_alt end_k)
    moreover have "unat r < unat k' + seg_len seg'" if m: "(k', seg') \<in> set q" for k' seg'
    proof -
      obtain q1 q2 where "q = q1 @ (k', seg') # q2" using m by (meson split_list)
      then show ?thesis using ch calculation by (auto simp: chain_append dest!: chain_le)
    qed
    ultimately show ?thesis using True "2.prems" k
      by (intro exI [of _ "[]"] exI [of _ a]) auto
  next
    case False
    then have end_le: "a + ?n \<le> unat r"
      by (simp add: length_in_sequence_space word_less_nat_alt end_k not_less)
    let ?s1 = "s\<lparr>snd_bytes_in_flight := snd_bytes_in_flight s - TCPSegment_length_in_sequence_space seg,
      snd_remaining_time := 0, snd_retransmission_timeout := snd_initial_retransmission_timeout s\<rparr>"
    have "in_flight ?s1 = next_abs s - (a + ?n)"
      using "2.prems"(2) le by (simp add: length_in_sequence_space unat_sub_no_wrap word_le_nat_alt u)
    with "2.IH" [OF False, of "a + ?n"] ch obtain p b where
      "q = p @ snd_segments_outstanding (ack_loop r q ?s1)" "a + ?n \<le> b"
      "chain S (snd_isn s) b (snd_segments_outstanding (ack_loop r q ?s1)) (next_abs s)"
      "in_flight (ack_loop r q ?s1) = next_abs s - b"
      "\<forall>(k, seg)\<in>set p. unat k + seg_len seg \<le> unat r"
      "\<forall>(k, seg)\<in>set (snd_segments_outstanding (ack_loop r q ?s1)). unat r < unat k + seg_len seg"
      "snd_remaining_time (ack_loop r q ?s1) = 0"
      "snd_retransmission_timeout (ack_loop r q ?s1) = snd_initial_retransmission_timeout s"
      "p = [] \<Longrightarrow> b = a + ?n" "p \<noteq> [] \<Longrightarrow> b \<le> unat r"
      by (auto split: if_splits)
    then show ?thesis using False k end_le
      by (intro exI [of _ "(k, seg) # p"] exI [of _ b]) (auto simp: le_diff_conv)
  qed
qed

lemma ack_loop_bounds:
  assumes "chain S (snd_isn s) a q (next_abs s)" and "in_flight s = next_abs s - a"
    and "s' = ack_loop r q s"
  obtains b where "a \<le> b" and "b \<le> max a (unat r)" and "in_flight s' = next_abs s - b"
    and "chain S (snd_isn s) b (snd_segments_outstanding s') (next_abs s)"
proof -
  obtain p :: "(u64 \<times> TCPSegment) list" and b where "a \<le> b" "in_flight s' = next_abs s - b"
    "chain S (snd_isn s) b (snd_segments_outstanding s') (next_abs s)"
    and p: "if p = [] then b = a \<and> snd_remaining_time s' = snd_remaining_time s \<and>
        snd_retransmission_timeout s' = snd_retransmission_timeout s
     else b \<le> unat r \<and> snd_remaining_time s' = 0 \<and>
        snd_retransmission_timeout s' = snd_initial_retransmission_timeout s"
    using ack_loop_spec [OF assms] by blast
  moreover have "b \<le> max a (unat r)" using p by (auto split: if_splits)
  ultimately show thesis using that by blast
qed

lemma ack_received_eq:
  assumes "acked = unwrap ackno (snd_isn s) (ByteStream_bytes_read (snd_stream s))"
    and "\<not> (acked > snd_next_seqno s \<or> acked < snd_next_seqno s - snd_bytes_in_flight s)"
    and "s1 = ack_loop acked (snd_segments_outstanding s)
      (s\<lparr>snd_window_size := ucast win, snd_retransmission_count := 0\<rparr>)"
    and "s2 = (if snd_state s = SYN_SENT \<and> snd_bytes_in_flight s1 < snd_next_seqno s
      then s1\<lparr>snd_state := SYN_ACKED\<rparr> else s1)"
  shows "TCPSender_ack_received s ackno win
    = (if snd_state s2 = SYN_ACKED then TCPSender_fill_window s2 else s2)"
  using assms by (simp add: TCPSender_ack_received_def TCPSender_bytes_in_flight_def Let_def ack_loop_frame)

lemma ack_received_ignored:
  assumes "acked = unwrap ackno (snd_isn s) (ByteStream_bytes_read (snd_stream s))"
    and "acked > snd_next_seqno s \<or> acked < snd_next_seqno s - snd_bytes_in_flight s"
  shows "TCPSender_ack_received s ackno win = s"
  using assms by (simp add: TCPSender_ack_received_def TCPSender_bytes_in_flight_def)

lemma ack_popped_inv:
  assumes inv: "sender_inv S s"
    and s1: "s1 = ack_loop acked (snd_segments_outstanding s)
      (s\<lparr>snd_window_size := w, snd_retransmission_count := 0\<rparr>)"
    and s2: "s2 = (if snd_state s = SYN_SENT \<and> snd_bytes_in_flight s1 < snd_next_seqno s
      then s1\<lparr>snd_state := SYN_ACKED\<rparr> else s1)"
  shows "sender_inv S s2"
proof -
  let ?s0 = "s\<lparr>snd_window_size := w, snd_retransmission_count := 0\<rparr>"
  have so: "state_ok S s (snd_state s)" using inv by (simp add: sender_inv_def)
  have c: "chain S (snd_isn ?s0) (next_abs s - in_flight s) (snd_segments_outstanding s) (next_abs ?s0)"
    using inv by (simp add: sender_inv_def)
  have f: "in_flight ?s0 = next_abs ?s0 - (next_abs s - in_flight s)"
    using state_ok_in_flight [OF so] by simp
  obtain b where b: "next_abs s - in_flight s \<le> b"
    "chain S (snd_isn s) b (snd_segments_outstanding s1) (next_abs s)" "in_flight s1 = next_abs s - b"
    using ack_loop_bounds [OF c f s1] by auto
  have bn: "b \<le> next_abs s" using b(2) by (rule chain_le)
  have st1: "snd_state s1 = snd_state s" "snd_stream s1 = snd_stream s" "snd_isn s1 = snd_isn s"
    "snd_next_seqno s1 = snd_next_seqno s" "snd_segments_out s1 = snd_segments_out s"
    by (simp_all add: s1 ack_loop_frame)
  have "state_ok S s2 (snd_state s2)"
    using so b(1,3) bn by (cases "snd_state s") (auto simp: s2 st1 word_less_nat_alt)
  moreover have "snd_stream s2 = snd_stream s" "snd_isn s2 = snd_isn s"
    "snd_next_seqno s2 = snd_next_seqno s" "snd_segments_out s2 = snd_segments_out s"
    "snd_bytes_in_flight s2 = snd_bytes_in_flight s1"
    "snd_segments_outstanding s2 = snd_segments_outstanding s1"
    by (simp_all add: s2 st1)
  ultimately show ?thesis using inv b bn by (simp add: sender_inv_def)
qed

lemma ack_received_inv:
  assumes "sender_inv S s"
  shows "sender_inv S (TCPSender_ack_received s ackno win)"
proof -
  define acked where "acked = unwrap ackno (snd_isn s) (ByteStream_bytes_read (snd_stream s))"
  show ?thesis
  proof (cases "acked > snd_next_seqno s \<or> acked < snd_next_seqno s - snd_bytes_in_flight s")
    case True
    then show ?thesis using assms ack_received_ignored [OF acked_def] by simp
  next
    case False
    show ?thesis
      unfolding ack_received_eq [OF acked_def False refl refl]
      using ack_popped_inv [OF assms refl refl] fill_window_spec(1) by (auto split: if_split)
  qed
qed

subsection \<open>The other operations\<close>

lemma tick_inv:
  assumes "sender_inv S s"
  shows "sender_inv S (TCPSender_tick s ms)"
proof -
  have "\<exists>k. own_segment S (snd_isn s) k seg" if "snd_segments_outstanding s = (n, seg) # q" for n seg q
    using assms that by (auto simp: sender_inv_def)
  then show ?thesis using assms
    by (cases "snd_state s") (auto simp: sender_inv_def TCPSender_tick_def Let_def split: list.splits)
qed

lemma send_empty_inv:
  assumes "sender_inv S s" and "snd_state s \<noteq> CLOSED"
  shows "sender_inv S (TCPSender_send_empty_segment s)"
proof -
  have "next_abs s \<noteq> 0" using assms by (cases "snd_state s") (auto simp: sender_inv_def)
  moreover have le: "next_abs s \<le> length S + 2" using assms(1) by (rule sender_inv_next_le)
  moreover have "unat (of_nat (next_abs s - 1) :: u64) = next_abs s - 1"
    using unat_u64_bound [of "snd_next_seqno s"] by (intro unat_of_nat_u64) simp
  ultimately have "own_segment S (snd_isn s) (next_abs s)
      \<lparr>seg_header = TCPHeader_default\<lparr>th_seqno := wrap (snd_next_seqno s) (snd_isn s)\<rparr>,
       seg_payload = Buffer_default\<rparr>"
    by (simp add: own_segment_def segment_at_def TCPHeader_default_def honest_push_iff)
  then show ?thesis using assms
    by (cases "snd_state s") (auto simp: sender_inv_def TCPSender_send_empty_segment_def
        TCPSegment_default_def TCPSender_next_seqno_def Let_def)
qed

text \<open>The application writes the next bytes of \<open>S\<close> to the stream, and ends it after the last.\<close>

definition TCPSender_write :: "TCPSender \<Rightarrow> bytes \<Rightarrow> TCPSender" where
  "TCPSender_write s data = s\<lparr>snd_stream := fst (ByteStream_write (snd_stream s) data)\<rparr>"

definition TCPSender_end_input :: "TCPSender \<Rightarrow> TCPSender" where
  "TCPSender_end_input s = s\<lparr>snd_stream := ByteStream_end_input (snd_stream s)\<rparr>"

definition next_bytes :: "bytes \<Rightarrow> ByteStream \<Rightarrow> bytes \<Rightarrow> bool" where
  "next_bytes S st data \<longleftrightarrow>
     (\<exists>rest. drop (unat (bs_bytes_written st)) S = data @ rest)"

lemma write_stream_ok:
  assumes "stream_ok S st" and "next_bytes S st data" and "length S < 2 ^ 64"
  shows "stream_ok S (fst (ByteStream_write st data))"
proof -
  let ?w = "unat (bs_bytes_written st)"
  have ok: "out_ok S (bs_bytes_written st) st" and bi: "ByteStream_inv st" and wl: "?w \<le> length S"
    using assms(1) by (simp_all add: stream_ok_def out_ok_def)
  obtain rest where rest: "drop ?w S = data @ rest" using assms(2) by (auto simp: next_bytes_def)
  have len: "?w + length data \<le> length S" using wl arg_cong [OF rest, of length] by simp
  have dl: "length data < 2 ^ 64" using len assms(3) by simp
  define d where "d = accepted st data"
  have d: "d = take (length d) data" "length d \<le> length data"
    by (auto simp: d_def accepted_def min_def)
  show ?thesis
  proof (cases "ByteStream_input_ended st")
    case True
    then show ?thesis using assms(1) by (simp add: ByteStream_write_def)
  next
    case False
    have "fst (ByteStream_write st data) = fst (ByteStream_write st d)"
    proof -
      have "length d < 2 ^ 64" using d(2) dl by simp
      moreover have "accepted st d = d" using False by (simp add: d_def accepted_def)
      ultimately show ?thesis by (simp add: write_accepted [OF bi dl] write_accepted [OF bi] d_def)
    qed
    moreover have "d = slc ?w (?w + length d) S"
    proof -
      have "slc ?w (?w + length d) S = take (length d) (data @ rest)"
        unfolding rest [symmetric] by (simp add: slc_def drop_take)
      then show ?thesis using d by simp
    qed
    moreover have "length d \<le> room st" using False by (simp add: d_def accepted_def)
    ultimately have "out_ok S (bs_bytes_written st + sz d) (fst (ByteStream_write st data))"
      and "\<not> ByteStream_input_ended (fst (ByteStream_write st data))"
      using out_ok_write [OF ok False, of d] len d(2) assms(3) by simp_all
    then show ?thesis by (auto simp: stream_ok_def out_ok_def)
  qed
qed

lemma sender_inv_stream:
  assumes "sender_inv S s" and "stream_ok S st" and "bs_bytes_read st = bs_bytes_read (snd_stream s)"
    and "ByteStream_input_ended (snd_stream s) \<Longrightarrow> ByteStream_input_ended st"
  shows "sender_inv S (s\<lparr>snd_stream := st\<rparr>)"
proof -
  have "state_ok S (s\<lparr>snd_stream := st\<rparr>) (snd_state s)"
    using assms by (cases "snd_state s") (simp_all add: sender_inv_def)
  then show ?thesis using assms(1,2) by (simp add: sender_inv_def)
qed

lemma write_inv_sender:
  assumes "sender_inv S s" and "next_bytes S (snd_stream s) data"
  shows "sender_inv S (TCPSender_write s data)"
proof -
  have st: "stream_ok S (snd_stream s)" and len: "length S < 2 ^ 64"
    using assms(1) by (simp_all add: sender_inv_def)
  show ?thesis
    unfolding TCPSender_write_def using assms(1) write_stream_ok [OF st assms(2) len]
    by (rule sender_inv_stream) (simp_all add: ByteStream_write_def ByteStream_input_ended_def Let_def)
qed

lemma end_input_inv_sender:
  assumes "sender_inv S s" and "unat (bs_bytes_written (snd_stream s)) = length S"
  shows "sender_inv S (TCPSender_end_input s)"
proof -
  have "stream_ok S (ByteStream_end_input (snd_stream s))"
    using assms end_input_out_ok by (auto simp: sender_inv_def stream_ok_def ByteStream_end_input_def)
  with assms(1) show ?thesis
    unfolding TCPSender_end_input_def
    by (rule sender_inv_stream) (simp_all add: ByteStream_end_input_def ByteStream_input_ended_def)
qed

end
