(* ===== verification/Sender_Properties.thy ===== *)
theory Sender_Properties
  imports Sender_Correctness
begin

text \<open>
  What the sender guarantees over whole runs and in each operation: what is in flight, that the
  window is filled and respected, which segments an acknowledgment removes, and the exponential
  back-off of the retransmission timer.
\<close>

subsection \<open>What the outstanding segments carry\<close>

abbreviation payload_of :: "TCPSegment \<Rightarrow> bytes" where
  "payload_of seg \<equiv> Buffer_str (seg_payload seg)"

lemma chain_sum: "chain S i a q e \<Longrightarrow> e = a + sum_list (map (seg_len \<circ> snd) q)"
proof (induction q arbitrary: a)
  case (Cons x q)
  have "chain S i (a + seg_len (snd x)) q e" using Cons.prems by (cases x) simp
  from Cons.IH [OF this] show ?case by simp
qed simp

lemma segment_at_payload:
  assumes "segment_at S i k seg" and "length S < 2 ^ 64 - 2"
  shows "payload_of seg = slc (k - 1) (k - 1 + length (payload_of seg)) S"
    and "payload_of seg \<noteq> [] \<Longrightarrow> k - 1 + length (payload_of seg) \<le> length S"
    and "th_fin (seg_header seg) \<Longrightarrow> k - 1 + length (payload_of seg) = length S"
proof -
  have k: "k \<le> length S + 2" and h: "honest_push S (payload_of seg) (of_nat (k - 1)) (th_fin (seg_header seg))"
    using assms(1) by (simp_all add: segment_at_def)
  have u: "unat (of_nat (k - 1) :: u64) = k - 1"
    using k assms(2) by (intro unat_of_nat_u64) simp
  show "payload_of seg = slc (k - 1) (k - 1 + length (payload_of seg)) S"
    using h unfolding honest_push_iff u slc_def by (auto simp: drop_take split: if_splits)
  show "payload_of seg \<noteq> [] \<Longrightarrow> k - 1 + length (payload_of seg) \<le> length S"
    and "th_fin (seg_header seg) \<Longrightarrow> k - 1 + length (payload_of seg) = length S"
    using h unfolding honest_push_iff u by auto
qed

lemma slc_beyond: "length S \<le> i \<Longrightarrow> slc i j S = []"
  by (simp add: slc_def)

lemma chain_payload:
  assumes "chain S i a q e" and "length S < 2 ^ 64 - 2"
  shows "concat (map (payload_of \<circ> snd) q) = slc (a - 1) (min (e - 1) (length S)) S"
  using assms(1)
proof (induction q arbitrary: a)
  case Nil
  then show ?case by (auto simp: slc_def min_def)
next
  case (Cons x q)
  obtain k seg where x: "x = (k, seg)" by fastforce
  let ?d = "payload_of seg" and ?E = "min (e - 1) (length S)"
  have at: "segment_at S i a seg" and ch: "chain S i (a + seg_len seg) q e"
    using Cons.prems by (auto simp: x own_segment_def)
  note pay = segment_at_payload [OF at assms(2)]
  have e: "a + seg_len seg \<le> e" using ch by (rule chain_le)
  have syn: "th_syn (seg_header seg) \<longleftrightarrow> a = 0" using at by (simp add: segment_at_def)
  have "?d @ slc (a + seg_len seg - 1) ?E S = slc (a - 1) ?E S"
  proof (cases "th_fin (seg_header seg)")
    case True
    then have j: "a - 1 + length ?d = length S" using pay(3) by simp
    then have "length S \<le> a + seg_len seg - 1" and "?E = length S"
      using True e syn by (auto simp: seg_len_def split: if_splits)
    then show ?thesis using pay(1) j by (simp add: slc_beyond)
  next
    case False
    then have j: "a + seg_len seg - 1 = a - 1 + length ?d"
      using syn by (auto simp: seg_len_def split: if_splits)
    show ?thesis
    proof (cases "?d = []")
      case True
      then show ?thesis unfolding j by simp
    next
      case nonempty: False
      then have "a - 1 + length ?d \<le> ?E" using pay(2) e j by simp
      then show ?thesis
        unfolding j using slc_append [of "a - 1" "a - 1 + length ?d" ?E S] pay(1) by simp
    qed
  qed
  then show ?case using Cons.IH [OF ch] by (simp add: x)
qed

subsection \<open>Runs\<close>

datatype sender_event =
    App_write bytes
  | App_end
  | Fill_window
  | Ack WrappingInt32 u16
  | Tick u64
  | Send_empty
  | Transmit

text \<open>\<open>Transmit\<close> is the owner of the sender taking the first segment off the outbound queue.\<close>

fun sender_step :: "TCPSender \<Rightarrow> sender_event \<Rightarrow> TCPSender" where
  "sender_step s (App_write data) = TCPSender_write s data"
| "sender_step s App_end = TCPSender_end_input s"
| "sender_step s Fill_window = TCPSender_fill_window s"
| "sender_step s (Ack ackno win) = TCPSender_ack_received s ackno win"
| "sender_step s (Tick ms) = TCPSender_tick s ms"
| "sender_step s Send_empty = TCPSender_send_empty_segment s"
| "sender_step s Transmit = s\<lparr>snd_segments_out := tl (snd_segments_out s)\<rparr>"

fun sender_event_ok :: "bytes \<Rightarrow> TCPSender \<Rightarrow> sender_event \<Rightarrow> bool" where
  "sender_event_ok S s (App_write data) \<longleftrightarrow> next_bytes S (snd_stream s) data"
| "sender_event_ok S s App_end \<longleftrightarrow> unat (bs_bytes_written (snd_stream s)) = length S"
| "sender_event_ok S s Send_empty \<longleftrightarrow> snd_state s \<noteq> CLOSED"
| "sender_event_ok S s _ \<longleftrightarrow> True"

lemma set_tl_subset: "set (tl xs) \<subseteq> set xs"
  by (cases xs) auto

lemma sender_step_inv:
  "sender_inv S s \<Longrightarrow> sender_event_ok S s e \<Longrightarrow> sender_inv S (sender_step s e)"
  by (cases e) (auto simp: write_inv_sender end_input_inv_sender fill_window_spec(1) ack_received_inv
      tick_inv send_empty_inv intro: sender_inv_out_subset [OF _ set_tl_subset])

interpretation sender: step_system sender_step "sender_event_ok S" "sender_inv S" for S
  by unfold_locales (rule sender_step_inv)

lemma chain_members: "chain S i a q e \<Longrightarrow> (k, seg) \<in> set q \<Longrightarrow> own_segment S i (unat k) seg"
  by (induction q arbitrary: a) auto

lemma sender_inv_outstanding:
  assumes "sender_inv S s"
  shows "in_flight s = sum_list (map (seg_len \<circ> snd) (snd_segments_outstanding s))"
    and "concat (map (payload_of \<circ> snd) (snd_segments_outstanding s))
      = slc (next_abs s - in_flight s - 1) (bytes_sent s) S"
proof -
  have so: "state_ok S s (snd_state s)" and len: "length S < 2 ^ 64 - 2"
    and bl: "bytes_sent s \<le> length S"
    and ch: "chain S (snd_isn s) (next_abs s - in_flight s) (snd_segments_outstanding s) (next_abs s)"
    using assms unfolding sender_inv_def stream_ok_def out_ok_def by auto
  show "in_flight s = sum_list (map (seg_len \<circ> snd) (snd_segments_outstanding s))"
    using chain_sum [OF ch] state_ok_in_flight [OF so] by simp
  have "min (next_abs s - 1) (length S) = bytes_sent s"
    using so bl by (cases "snd_state s") auto
  then show "concat (map (payload_of \<circ> snd) (snd_segments_outstanding s))
      = slc (next_abs s - in_flight s - 1) (bytes_sent s) S"
    using chain_payload [OF ch len] by simp
qed

text \<open>C7: what the sender has in flight. The application writes the stream \<open>S\<close> piece by piece; in
  between, acknowledgments with any number and any window arrive, time passes, segments are taken
  off the queue. At all times the number of bytes in flight is the sequence space of the
  outstanding segments, these carry exactly the bytes of \<open>S\<close> from the first unacknowledged one to
  the last one read from the stream, and every segment that is outstanding or waits to be
  transmitted is a truthful excerpt of \<open>S\<close> under its sequence number with at most 1000 bytes.\<close>
theorem sender_in_flight:
  assumes "length S < 2 ^ 64 - 2"
    and "run_ok sender_step (sender_event_ok S) (TCPSender_init capacity rto isn rnd) es"
    and "s = run_steps sender_step (TCPSender_init capacity rto isn rnd) es"
  shows "unat (TCPSender_bytes_in_flight s)
      = sum_list (map (seg_len \<circ> snd) (snd_segments_outstanding s)) \<and>
    concat (map (Buffer_str \<circ> seg_payload \<circ> snd) (snd_segments_outstanding s))
      = slc (unat (TCPSender_next_seqno_absolute s) - unat (TCPSender_bytes_in_flight s) - 1)
          (unat (ByteStream_bytes_read (snd_stream s))) S \<and>
    (\<forall>seg\<in>set (snd_segments_out s) \<union> snd ` set (snd_segments_outstanding s).
       length (Buffer_str (seg_payload seg)) \<le> 1000 \<and> (\<exists>k. segment_at S (snd_isn s) k seg))"
proof -
  have inv: "sender_inv S s"
    unfolding assms(3) by (rule sender.run_inv [OF sender_inv_init [OF assms(1)] assms(2)])
  have "\<exists>k. own_segment S (snd_isn s) k seg"
    if "seg \<in> set (snd_segments_out s) \<union> snd ` set (snd_segments_outstanding s)" for seg
  proof -
    have "chain S (snd_isn s) (next_abs s - in_flight s) (snd_segments_outstanding s) (next_abs s)"
      and "\<forall>seg\<in>set (snd_segments_out s). \<exists>k. own_segment S (snd_isn s) k seg"
      using inv unfolding sender_inv_def by blast+
    then show ?thesis using that chain_members by fastforce
  qed
  then show ?thesis
    using sender_inv_outstanding [OF inv]
    by (auto simp: TCPSender_bytes_in_flight_def TCPSender_next_seqno_absolute_def o_def
        ByteStream_observers own_segment_def TCPConfig_MAX_PAYLOAD_SIZE_def)
qed

theorem sender_in_flight_witness:
  "let s = run_steps sender_step (TCPSender_init 10 1000 (Some (WrappingInt32 7)) 0)
     [App_write [1, 2, 3], Fill_window, Ack (WrappingInt32 8) 2, App_end]
   in unat (TCPSender_bytes_in_flight s)
        = sum_list (map (seg_len \<circ> snd) (snd_segments_outstanding s)) \<and>
      TCPSender_bytes_in_flight s = 2"
proof -
  let ?i = "TCPSender_init 10 1000 (Some (WrappingInt32 7)) 0"
  let ?es = "[App_write [1, 2, 3], Fill_window, Ack (WrappingInt32 8) 2, App_end]"
  have w: "bs_bytes_written (snd_stream ?i) = 0"
    "bs_bytes_written (snd_stream (TCPSender_ack_received (TCPSender_fill_window
       (TCPSender_write ?i [1, 2, 3])) (WrappingInt32 8) 2)) = 3"
    by code_simp+
  have "run_ok sender_step (sender_event_ok [1, 2, 3]) ?i ?es"
    by (simp add: w next_bytes_def)
  note sender_in_flight [OF _ this refl]
  moreover have "TCPSender_bytes_in_flight (run_steps sender_step ?i ?es) = 2" by code_simp
  ultimately show ?thesis by (simp add: Let_def)
qed

text \<open>C12: filling the window. On a connection whose SYN was acknowledged, \<open>fill_window\<close> never has more
  in flight than the window the peer advertised (a zero window counting as one) or than what was in
  flight before, and it stops only when there is nothing more it could send: the window is full,
  the FIN has been sent, or the stream is empty but not ended.\<close>
theorem fill_window_fills:
  assumes "sender_inv S s" and "snd_state s = SYN_ACKED"
  defines "s' \<equiv> TCPSender_fill_window s" and "w \<equiv> max 1 (unat (snd_window_size s))"
  shows "unat (TCPSender_bytes_in_flight s') \<le> max (unat (TCPSender_bytes_in_flight s)) w \<and>
    (w \<le> unat (TCPSender_bytes_in_flight s') \<or> snd_state s' = FIN_SENT \<or>
     ByteStream_buffer_empty (snd_stream s') \<and> \<not> ByteStream_input_ended (snd_stream s'))"
proof -
  have "unat (if snd_window_size s = 0 then 1 else snd_window_size s) = w"
    by (auto simp: w_def max_def unat_eq_zero not_le)
  then show ?thesis
    using fill_window_spec(2,3) [OF assms(1)] assms(2)
    by (auto simp: s'_def w_def window_filled_def TCPSender_bytes_in_flight_def)
qed

theorem fill_window_fills_witness:
  "let s = run_steps sender_step (TCPSender_init 10 1000 (Some (WrappingInt32 7)) 0)
     [Fill_window, Ack (WrappingInt32 8) 2, App_write [1, 2, 3]];
     s' = TCPSender_fill_window s
   in unat (TCPSender_bytes_in_flight s') \<le> 2 \<and> TCPSender_bytes_in_flight s' = 2"
proof -
  let ?i = "TCPSender_init 10 1000 (Some (WrappingInt32 7)) 0"
  let ?es = "[Fill_window, Ack (WrappingInt32 8) 2, App_write [1, 2, 3]]"
  let ?s = "run_steps sender_step ?i ?es"
  have w: "bs_bytes_written (snd_stream (TCPSender_ack_received (TCPSender_fill_window ?i)
       (WrappingInt32 8) 2)) = 0"
    by code_simp
  have st: "snd_state ?s = SYN_ACKED" "TCPSender_bytes_in_flight ?s = 0" "snd_window_size ?s = 2"
    by code_simp+
  have fl: "TCPSender_bytes_in_flight (TCPSender_fill_window ?s) = 2"
    by code_simp
  have "run_ok sender_step (sender_event_ok [1, 2, 3]) ?i ?es"
    by (simp add: w next_bytes_def)
  then have "sender_inv [1, 2, 3] ?s" by (intro sender.run_inv sender_inv_init) simp_all
  from fill_window_fills [OF this st(1)] show ?thesis unfolding Let_def fl st(2,3) by simp
qed

subsection \<open>Popping and refilling\<close>

definition extends :: "TCPSender \<Rightarrow> TCPSender \<Rightarrow> bool" where
  "extends s s' \<longleftrightarrow> (\<exists>new.
     snd_segments_outstanding s' = snd_segments_outstanding s @ new \<and>
     snd_segments_out s' = snd_segments_out s @ map snd new) \<and>
     snd_remaining_time s' = snd_remaining_time s \<and>
     snd_retransmission_timeout s' = snd_retransmission_timeout s \<and>
     snd_retransmission_count s' = snd_retransmission_count s \<and>
     snd_window_size s' = snd_window_size s \<and> snd_isn s' = snd_isn s \<and>
     snd_alarm_run s' = snd_alarm_run s \<and>
     snd_initial_retransmission_timeout s' = snd_initial_retransmission_timeout s"

lemma extends_refl: "extends s s"
  by (simp add: extends_def)

lemma extends_trans: "extends s t \<Longrightarrow> extends t u \<Longrightarrow> extends s u"
  by (auto simp: extends_def)

lemma fill_step_extends: "fill_step w s = (goes, s') \<Longrightarrow> extends s s'"
  by (auto simp: fill_step_eq Let_def extends_def split: if_splits)

lemma fill_loop_extends: "extends s (fill_loop w s)"
proof (induction w s rule: fill_loop.induct)
  case (1 w s)
  obtain goes s1 where step: "fill_step w s = (goes, s1)" by fastforce
  note fill_step_extends [OF step]
  with 1 [OF _ step [symmetric]] show ?case
    by (cases goes) (auto simp: fill_loop.simps [of w s] step intro: extends_refl extends_trans)
qed

lemma fill_window_extends: "snd_state s \<noteq> CLOSED \<Longrightarrow> extends s (TCPSender_fill_window s)"
  by (simp add: TCPSender_fill_window_def Let_def fill_loop_extends)

lemma ack_received_accepted:
  assumes "sender_inv S s" and "r = unwrap ackno (snd_isn s) (ByteStream_bytes_read (snd_stream s))"
    and "\<not> (r > snd_next_seqno s \<or> r < snd_next_seqno s - snd_bytes_in_flight s)"
    and a_def: "a = unat r" and s'_def: "s' = TCPSender_ack_received s ackno win"
  shows "\<exists>dropped rest new. snd_segments_outstanding s = dropped @ rest \<and>
    snd_segments_outstanding s' = rest @ new \<and> snd_segments_out s' = snd_segments_out s @ map snd new \<and>
    (\<forall>(k, seg)\<in>set dropped. unat k + seg_len seg \<le> a) \<and>
    (\<forall>(k, seg)\<in>set rest. a < unat k + seg_len seg) \<and>
    snd_window_size s' = ucast win \<and> snd_retransmission_count s' = 0 \<and>
    (if dropped = [] then snd_remaining_time s' = snd_remaining_time s \<and>
       snd_retransmission_timeout s' = snd_retransmission_timeout s
     else snd_remaining_time s' = 0 \<and>
       snd_retransmission_timeout s' = snd_initial_retransmission_timeout s)"
proof -
  let ?s0 = "s\<lparr>snd_window_size := ucast win, snd_retransmission_count := 0\<rparr>"
  define s1 where "s1 = ack_loop r (snd_segments_outstanding s) ?s0"
  define s2 where "s2 = (if snd_state s = SYN_SENT \<and> snd_bytes_in_flight s1 < snd_next_seqno s
      then s1\<lparr>snd_state := SYN_ACKED\<rparr> else s1)"
  have so: "state_ok S s (snd_state s)" using assms(1) by (simp add: sender_inv_def)
  have s': "s' = (if snd_state s2 = SYN_ACKED then TCPSender_fill_window s2 else s2)"
    unfolding s'_def by (rule ack_received_eq [OF assms(2,3) s1_def s2_def])
  have ext: "extends s2 s'" by (simp add: s' fill_window_extends extends_refl)
  have "chain S (snd_isn ?s0) (next_abs s - in_flight s) (snd_segments_outstanding s)
      (next_abs ?s0)" using assms(1) by (simp add: sender_inv_def)
  note ack_loop_spec [OF this _ s1_def, folded a_def]
  then obtain p where p: "snd_segments_outstanding s = p @ snd_segments_outstanding s1"
    "\<forall>(k, seg)\<in>set p. unat k + seg_len seg \<le> a"
    "\<forall>(k, seg)\<in>set (snd_segments_outstanding s1). a < unat k + seg_len seg"
    "if p = [] then snd_remaining_time s1 = snd_remaining_time s \<and>
        snd_retransmission_timeout s1 = snd_retransmission_timeout s
     else snd_remaining_time s1 = 0 \<and>
        snd_retransmission_timeout s1 = snd_initial_retransmission_timeout s"
    using state_ok_in_flight [OF so] by (fastforce split: if_splits)
  have s1: "snd_segments_out s1 = snd_segments_out s" "snd_window_size s1 = ucast win"
    "snd_retransmission_count s1 = 0"
    by (simp_all add: s1_def ack_loop_frame)
  have "extends s1 s'" using ext by (simp add: s2_def extends_def split: if_splits)
  then obtain new where "snd_segments_outstanding s' = snd_segments_outstanding s1 @ new"
    "snd_segments_out s' = snd_segments_out s1 @ map snd new"
    "snd_remaining_time s' = snd_remaining_time s1" "snd_window_size s' = snd_window_size s1"
    "snd_retransmission_timeout s' = snd_retransmission_timeout s1"
    "snd_retransmission_count s' = snd_retransmission_count s1"
    unfolding extends_def by blast
  then show ?thesis using p s1
    by (intro exI [of _ p] exI [of _ "snd_segments_outstanding s1"] exI [of _ new]) simp
qed

text \<open>C11: acknowledgments. Let \<open>a\<close> be the absolute sequence number an arriving \<open>ackno\<close> stands for, read
  relative to the number of bytes taken from the stream. When \<open>a\<close> lies between the first unacknowledged
  sequence number and the next one to be sent, exactly the outstanding segments that end at or before
  \<open>a\<close> are dropped; what is sent in reaction is appended behind the others. If any segment was
  dropped, the timer restarts with the initial timeout; otherwise timer and timeout are left alone.
  The advertised window is recorded and the count of consecutive retransmissions starts again. Every
  other acknowledgment, of data not sent yet or acknowledged before, leaves the sender as it was.\<close>
theorem ack_received_pops:
  assumes "sender_inv S s" and a_def: "a = unat (unwrap ackno (snd_isn s) (ByteStream_bytes_read (snd_stream s)))"
    and s'_def: "s' = TCPSender_ack_received s ackno win"
  shows "if unat (TCPSender_next_seqno_absolute s) - unat (TCPSender_bytes_in_flight s) \<le> a \<and>
      a \<le> unat (TCPSender_next_seqno_absolute s)
    then \<exists>dropped rest new. snd_segments_outstanding s = dropped @ rest \<and>
    snd_segments_outstanding s' = rest @ new \<and> snd_segments_out s' = snd_segments_out s @ map snd new \<and>
    (\<forall>(k, seg)\<in>set dropped. unat k + seg_len seg \<le> a) \<and>
    (\<forall>(k, seg)\<in>set rest. a < unat k + seg_len seg) \<and>
    snd_window_size s' = ucast win \<and> snd_retransmission_count s' = 0 \<and>
    (if dropped = [] then snd_remaining_time s' = snd_remaining_time s \<and>
       snd_retransmission_timeout s' = snd_retransmission_timeout s
     else snd_remaining_time s' = 0 \<and>
       snd_retransmission_timeout s' = snd_initial_retransmission_timeout s)
    else s' = s"
proof -
  define r where "r = unwrap ackno (snd_isn s) (ByteStream_bytes_read (snd_stream s))"
  have "state_ok S s (snd_state s)" using assms(1) by (simp add: sender_inv_def)
  from state_ok_in_flight [OF this]
  have range: "unat (TCPSender_next_seqno_absolute s) - unat (TCPSender_bytes_in_flight s) \<le> a \<and>
      a \<le> unat (TCPSender_next_seqno_absolute s) \<longleftrightarrow>
    \<not> (r > snd_next_seqno s \<or> r < snd_next_seqno s - snd_bytes_in_flight s)"
    by (auto simp: a_def r_def word_less_nat_alt unat_sub_no_wrap word_le_nat_alt
        TCPSender_next_seqno_absolute_def TCPSender_bytes_in_flight_def)
  show ?thesis
  proof (cases "r > snd_next_seqno s \<or> r < snd_next_seqno s - snd_bytes_in_flight s")
    case True
    then have "s' = s" unfolding s'_def by (rule ack_received_ignored [OF r_def])
    with True show ?thesis by (simp only: range simp_thms if_False)
  next
    case False
    have "a = unat r" by (simp add: a_def r_def)
    from ack_received_accepted [OF assms(1) r_def False this s'_def] show ?thesis
      by (simp only: range False if_True simp_thms)
  qed
qed

theorem ack_received_pops_witness:
  "let s = run_steps sender_step (TCPSender_init 10 1000 (Some (WrappingInt32 7)) 0) [Fill_window];
       s' = TCPSender_ack_received s (WrappingInt32 8) 5
   in length (snd_segments_outstanding s) = 1 \<and> snd_segments_outstanding s' = [] \<and>
      (\<exists>dropped rest new. snd_segments_outstanding s = dropped @ rest \<and>
         snd_segments_outstanding s' = rest @ new \<and> snd_window_size s' = 5) \<and>
      TCPSender_ack_received s (WrappingInt32 9) 5 = s"
proof -
  let ?i = "TCPSender_init 10 1000 (Some (WrappingInt32 7)) 0"
  let ?s = "run_steps sender_step ?i [Fill_window]"
  let ?a = "\<lambda>n. unat (unwrap (WrappingInt32 n) (snd_isn ?s) (ByteStream_bytes_read (snd_stream ?s)))"
  have v: "length (snd_segments_outstanding ?s) = 1"
    "snd_segments_outstanding (TCPSender_ack_received ?s (WrappingInt32 8) 5) = []"
    "TCPSender_next_seqno_absolute ?s = 1" "TCPSender_bytes_in_flight ?s = 1" "?a 8 = 1" "?a 9 = 2"
    by code_simp+
  have inv: "sender_inv [] ?s" by (intro sender.run_inv sender_inv_init) simp_all
  have "\<exists>dropped rest new. snd_segments_outstanding ?s = dropped @ rest \<and>
      snd_segments_outstanding (TCPSender_ack_received ?s (WrappingInt32 8) 5) = rest @ new \<and>
      snd_window_size (TCPSender_ack_received ?s (WrappingInt32 8) 5) = 5"
    using ack_received_pops [OF inv refl refl, of "WrappingInt32 8" 5] unfolding v(3-6) by fastforce
  moreover have "TCPSender_ack_received ?s (WrappingInt32 9) 5 = ?s"
    using ack_received_pops [OF inv refl refl, of "WrappingInt32 9" 5] unfolding v(3-6) by simp
  ultimately show ?thesis using v(1,2) by (simp add: Let_def)
qed

subsection \<open>The retransmission timer\<close>

lemma tick_expires:
  assumes "snd_alarm_run s" and "snd_segments_outstanding s = (k, seg) # q" and "snd_remaining_time s = 0"
    and "unat (snd_retransmission_timeout s) \<le> unat ms" and "unat ms < 2 ^ 32"
  shows "TCPSender_tick s ms = s\<lparr>snd_remaining_time := 0,
    snd_retransmission_timeout := (if snd_window_size s = 0 then snd_retransmission_timeout s
      else snd_retransmission_timeout s * 2),
    snd_segments_out := snd_segments_out s @ [seg],
    snd_retransmission_count := snd_retransmission_count s + 1\<rparr>"
proof -
  have "snd_retransmission_timeout s \<le> ucast ms"
    using assms(4,5) by (simp add: word_le_nat_alt)
  then show ?thesis using assms(1-3) by (simp add: TCPSender_tick_def Let_def)
qed

lemma tick_expired:
  assumes "snd_alarm_run s" and "snd_segments_outstanding s = (k, seg) # q"
    and "snd_window_size s \<noteq> 0" and "snd_remaining_time s = 0"
    and "unat (snd_retransmission_timeout s) \<le> unat ms" and "unat ms < 2 ^ 32"
  shows "TCPSender_tick s ms = s\<lparr>snd_remaining_time := 0,
    snd_retransmission_timeout := snd_retransmission_timeout s * 2,
    snd_segments_out := snd_segments_out s @ [seg],
    snd_retransmission_count := snd_retransmission_count s + 1\<rparr>"
  using tick_expires [OF assms(1,2,4-6)] assms(3) by simp

lemma tick_waits:
  assumes "unat (snd_remaining_time s) + unat ms < unat (snd_retransmission_timeout s)"
  shows "snd_segments_out (TCPSender_tick s ms) = snd_segments_out s"
proof -
  have b: "unat (snd_retransmission_timeout s) < 2 ^ 32"
    using unsigned_less [of "snd_retransmission_timeout s"] by simp
  then have "unat (ucast (snd_remaining_time s) + ms) = unat (snd_remaining_time s) + unat ms"
    using assms by (subst unat_add_no_wrap) simp_all
  then have "\<not> snd_retransmission_timeout s \<le> ucast (ucast (snd_remaining_time s) + ms)"
    using assms b by (simp add: word_le_nat_alt)
  then show ?thesis by (simp add: TCPSender_tick_def Let_def split: list.splits)
qed

text \<open>The factor by which \<open>n\<close> retransmissions in a row raise the timeout: none while the peer advertises a zero
  window, where the segment only probes it.\<close>
definition backoff :: "TCPSender \<Rightarrow> nat \<Rightarrow> nat" where
  "backoff s n = (if snd_window_size s = 0 then 1 else 2 ^ n)"

lemma backoff_0 [simp]: "backoff s 0 = 1"
  by (simp add: backoff_def)

lemma backoff_Suc: "backoff s (Suc n) = backoff s 1 * backoff s n"
  by (simp add: backoff_def)

lemma backoff_pos: "1 \<le> backoff s n"
  by (simp add: backoff_def)

lemma backoff_timeout:
  assumes "unat (snd_retransmission_timeout s) * backoff s 1 < 2 ^ 32"
  shows "unat (if snd_window_size s = 0 then snd_retransmission_timeout s else snd_retransmission_timeout s * 2)
    = unat (snd_retransmission_timeout s) * backoff s 1"
  using assms unat_mult_lem [of "snd_retransmission_timeout s" 2] by (simp add: backoff_def split: if_splits)

text \<open>C13: exponential back-off. While the oldest outstanding segment stays unacknowledged, let \<open>n\<close> calls of
  \<open>tick\<close> each bring at least the timeout then in force. Each of them retransmits that segment, so that
  \<open>n\<close> copies of it are queued and the count of consecutive retransmissions has grown by \<open>n\<close>. Each doubles
  the timeout unless the peer's window is zero, so that the timeout is the original one times \<open>2 ^ n\<close>
  (the product fitting 32 bits), and the original one for a zero window.\<close>
theorem tick_exponential_backoff:
  assumes "snd_alarm_run s" and "snd_segments_outstanding s = (k, seg) # q" and "snd_remaining_time s = 0"
    and "unat (snd_retransmission_timeout s) * backoff s (length mss) < 2 ^ 32"
    and "\<forall>j < length mss. unat (snd_retransmission_timeout s) * backoff s j \<le> unat (mss ! j) \<and>
      unat (mss ! j) < 2 ^ 32"
  defines "s' \<equiv> foldl TCPSender_tick s mss"
  shows "unat (snd_retransmission_timeout s') = unat (snd_retransmission_timeout s) * backoff s (length mss) \<and>
    snd_segments_out s' = snd_segments_out s @ replicate (length mss) seg \<and>
    snd_retransmission_count s' = snd_retransmission_count s + of_nat (length mss) \<and>
    snd_segments_outstanding s' = snd_segments_outstanding s"
  unfolding s'_def using assms(1-5)
proof (induction mss arbitrary: s)
  case Nil
  then show ?case by simp
next
  case (Cons ms mss)
  let ?rto = "unat (snd_retransmission_timeout s)" and ?b = "backoff s 1"
  let ?s1 = "TCPSender_tick s ms"
  have "?rto \<le> unat ms" "unat ms < 2 ^ 32" using Cons.prems(5) [rule_format, of 0] by simp_all
  note s1 = tick_expires [OF Cons.prems(1-3) this]
  have b: "backoff ?s1 = backoff s" by (simp add: s1 backoff_def fun_eq_iff)
  have small: "?rto * ?b * backoff s (length mss) < 2 ^ 32"
    using Cons.prems(4) by (simp add: backoff_Suc [of s "length mss"] mult.assoc)
  moreover have "?rto * ?b * 1 \<le> ?rto * ?b * backoff s (length mss)" by (rule mult_le_mono2 [OF backoff_pos])
  ultimately have "?rto * ?b < 2 ^ 32" by (simp only: mult_1_right)
  then have rto: "unat (snd_retransmission_timeout ?s1) = ?rto * ?b" unfolding s1 by (simp add: backoff_timeout)
  have "\<forall>j < length mss. ?rto * ?b * backoff s j \<le> unat (mss ! j) \<and> unat (mss ! j) < 2 ^ 32"
  proof (intro allI impI)
    fix j assume "j < length mss"
    then show "?rto * ?b * backoff s j \<le> unat (mss ! j) \<and> unat (mss ! j) < 2 ^ 32"
      using Cons.prems(5) [rule_format, of "Suc j"] by (simp add: backoff_Suc [of s j] mult.assoc)
  qed
  then have "unat (snd_retransmission_timeout (foldl TCPSender_tick ?s1 mss)) = ?rto * ?b * backoff s (length mss) \<and>
    snd_segments_out (foldl TCPSender_tick ?s1 mss) = snd_segments_out ?s1 @ replicate (length mss) seg \<and>
    snd_retransmission_count (foldl TCPSender_tick ?s1 mss) = snd_retransmission_count ?s1 + of_nat (length mss) \<and>
    snd_segments_outstanding (foldl TCPSender_tick ?s1 mss) = snd_segments_outstanding ?s1"
    using Cons.IH [of ?s1, unfolded b rto] Cons.prems(1-3) small s1 by simp
  then show ?case by (simp add: s1 backoff_Suc [of s "length mss"] mult.assoc)
qed

theorem tick_exponential_backoff_witness:
  "let s = TCPSender_fill_window (TCPSender_init 10 1000 (Some (WrappingInt32 7)) 0);
       s' = foldl TCPSender_tick s [1000, 2500, 4000];
       z = s\<lparr>snd_window_size := 0\<rparr>;
       z' = foldl TCPSender_tick z [1000, 2500, 4000]
   in unat (snd_retransmission_timeout s') = 8000 \<and> length (snd_segments_out s') = 4 \<and>
      unat (snd_retransmission_timeout z') = 1000 \<and> length (snd_segments_out z') = 4"
proof -
  let ?s = "TCPSender_fill_window (TCPSender_init 10 1000 (Some (WrappingInt32 7)) 0)"
  let ?z = "?s\<lparr>snd_window_size := 0\<rparr>" and ?mss = "[1000, 2500, 4000 :: u64]"
  have v: "snd_alarm_run ?s" "snd_window_size ?s \<noteq> 0" "snd_remaining_time ?s = 0"
    "length (snd_segments_out ?s) = 1" "length (snd_segments_outstanding ?s) = 1"
    "snd_retransmission_timeout ?s = 1000"
    by code_simp+
  from v(5) obtain k seg where o: "snd_segments_outstanding ?s = [(k, seg)]"
    by (cases "snd_segments_outstanding ?s") auto
  have j: "\<forall>j < length ?mss. 1000 * 2 ^ j \<le> unat (?mss ! j) \<and> 1000 \<le> unat (?mss ! j) \<and> unat (?mss ! j) < 2 ^ 32"
    by (auto simp: less_Suc_eq)
  have b: "backoff ?s n = 2 ^ n" "backoff ?z n = 1" for n using v(2) by (simp_all add: backoff_def)
  have "unat (snd_retransmission_timeout (foldl TCPSender_tick ?s ?mss)) = 8000 \<and>
      length (snd_segments_out (foldl TCPSender_tick ?s ?mss)) = 4"
    using tick_exponential_backoff [OF v(1) o v(3), of ?mss] v(4,6) j unfolding b by simp
  moreover have "unat (snd_retransmission_timeout (foldl TCPSender_tick ?z ?mss)) = 1000 \<and>
      length (snd_segments_out (foldl TCPSender_tick ?z ?mss)) = 4"
    using tick_exponential_backoff [of ?z k seg "[]" ?mss] v o j unfolding b by simp
  ultimately show ?thesis by (simp add: Let_def)
qed

end
