(* ===== verification/TCP_Connection.thy ===== *)
theory TCP_Connection
  imports TCP_State Sender_Properties
begin

text \<open>
  An endpoint of a connection: \<open>src/libsponge/tcp_connection.{hh,cc}\<close>. The record has the members of
  class \<open>TCPConnection\<close>, the queue \<open>_segments_out\<close> with its front first. The member
  \<open>_time_since_last_segment_received\<close> is a C++ \<open>int\<close>, a 32-bit word read with its sign.

  \<open>tick\<close> pops the queue of the sender without looking whether it is empty; the model answers
  \<open>Undefined_behaviour\<close> there, and \<open>tick_defined\<close> shows that this cannot happen.
\<close>

record TCPConnection =
  conn_cfg :: TCPConfig
  conn_receiver :: TCPReceiver
  conn_sender :: TCPSender
  conn_segments_out :: "TCPSegment list"
  conn_linger_after_streams_finish :: bool
  conn_actived :: bool
  conn_time_since_last_segment_received :: "32 word"

text \<open>The constructor; the last two arguments are the random values that the receiver and the sender
  draw.\<close>

definition TCPConnection_init :: "TCPConfig \<Rightarrow> u32 \<Rightarrow> u32 \<Rightarrow> TCPConnection" where
  "TCPConnection_init cfg rrnd srnd =
     \<lparr>conn_cfg = cfg,
      conn_receiver = TCPReceiver_init (cfg_recv_capacity cfg) rrnd,
      conn_sender =
        TCPSender_init (cfg_send_capacity cfg) (cfg_rt_timeout cfg) (cfg_fixed_isn cfg) srnd,
      conn_segments_out = [], conn_linger_after_streams_finish = True, conn_actived = True,
      conn_time_since_last_segment_received = 0\<rparr>"

subsection \<open>Accessors\<close>

definition TCPConnection_outbound_stream :: "TCPConnection \<Rightarrow> ByteStream" where
  "TCPConnection_outbound_stream c = snd_stream (conn_sender c)"

definition TCPConnection_inbound_stream :: "TCPConnection \<Rightarrow> ByteStream" where
  "TCPConnection_inbound_stream c = TCPReceiver_stream_out (conn_receiver c)"

definition TCPConnection_remaining_outbound_capacity :: "TCPConnection \<Rightarrow> u64" where
  "TCPConnection_remaining_outbound_capacity c =
     ByteStream_remaining_capacity (snd_stream (conn_sender c))"

definition TCPConnection_bytes_in_flight :: "TCPConnection \<Rightarrow> u64" where
  "TCPConnection_bytes_in_flight c = TCPSender_bytes_in_flight (conn_sender c)"

definition TCPConnection_unassembled_bytes :: "TCPConnection \<Rightarrow> u64" where
  "TCPConnection_unassembled_bytes c = TCPReceiver_unassembled_bytes (conn_receiver c)"

definition TCPConnection_time_since_last_segment_received :: "TCPConnection \<Rightarrow> u64" where
  "TCPConnection_time_since_last_segment_received c =
     scast (conn_time_since_last_segment_received c)"

definition TCPConnection_active :: "TCPConnection \<Rightarrow> bool" where
  "TCPConnection_active c = conn_actived c"

definition TCPConnection_state :: "TCPConnection \<Rightarrow> TCPState" where
  "TCPConnection_state c =
     TCPState_of (conn_sender c) (conn_receiver c) (TCPConnection_active c)
       (conn_linger_after_streams_finish c)"

subsection \<open>Sending\<close>

text \<open>What \<open>fetch_segment\<close> writes into a segment before it queues it, and its loop over the queue of
  the sender.\<close>

definition fetch_stamp :: "TCPReceiver \<Rightarrow> TCPSegment \<Rightarrow> TCPSegment" where
  "fetch_stamp receiver segment =
     (case TCPReceiver_ackno receiver of
        None \<Rightarrow> segment
      | Some ackno \<Rightarrow> segment\<lparr>seg_header := (seg_header segment)\<lparr>th_ack := True, th_ackno := ackno,
          th_win := ucast (min (0xffff :: u64) (TCPReceiver_window_size receiver))\<rparr>\<rparr>)"

fun fetch_loop :: "TCPSegment list \<Rightarrow> TCPConnection \<Rightarrow> TCPConnection" where
  "fetch_loop [] c = c\<lparr>conn_sender := (conn_sender c)\<lparr>snd_segments_out := []\<rparr>\<rparr>"
| "fetch_loop (segment # q) c =
     fetch_loop q
       (c\<lparr>conn_segments_out := conn_segments_out c @ [fetch_stamp (conn_receiver c) segment]\<rparr>)"

definition TCPConnection_fetch_segment :: "TCPConnection \<Rightarrow> TCPConnection" where
  "TCPConnection_fetch_segment c = fetch_loop (snd_segments_out (conn_sender c)) c"

definition TCPConnection_send_segment :: "TCPConnection \<Rightarrow> TCPConnection" where
  "TCPConnection_send_segment c =
     TCPConnection_fetch_segment (c\<lparr>conn_sender := TCPSender_fill_window (conn_sender c)\<rparr>)"

text \<open>The queue is not empty at \<open>front()\<close> because \<open>send_empty_segment\<close> has just appended to it.\<close>

definition TCPConnection_send_rst_segment :: "TCPConnection \<Rightarrow> TCPConnection" where
  "TCPConnection_send_rst_segment c =
     (let sender = TCPSender_send_empty_segment (conn_sender c);
          segment = hd (snd_segments_out sender);
          sender = sender\<lparr>snd_segments_out := tl (snd_segments_out sender)\<rparr>;
          segment = segment\<lparr>seg_header := (seg_header segment)\<lparr>th_rst := True\<rparr>\<rparr>;
          segment =
            (case TCPReceiver_ackno (conn_receiver c) of
               None \<Rightarrow> segment
             | Some ackno \<Rightarrow> segment\<lparr>seg_header := (seg_header segment)\<lparr>th_ack := True,
                 th_ackno := ackno, th_win := ucast (TCPReceiver_window_size (conn_receiver c))\<rparr>\<rparr>)
      in c\<lparr>conn_sender := sender, conn_segments_out := conn_segments_out c @ [segment],
           conn_actived := False\<rparr>)"

definition TCPConnection_kill_connection :: "TCPConnection \<Rightarrow> TCPConnection" where
  "TCPConnection_kill_connection c =
     (let sender = conn_sender c; receiver = conn_receiver c;
          reassembler = rcv_reassembler receiver
      in c\<lparr>conn_sender := sender\<lparr>snd_stream := ByteStream_set_error (snd_stream sender)\<rparr>,
           conn_receiver := receiver\<lparr>rcv_reassembler :=
             reassembler\<lparr>sr_output := ByteStream_set_error (sr_output reassembler)\<rparr>\<rparr>,
           conn_actived := False, conn_linger_after_streams_finish := False\<rparr>)"

definition TCPConnection_unclean_shutdown :: "TCPConnection \<Rightarrow> TCPConnection" where
  "TCPConnection_unclean_shutdown c =
     TCPConnection_kill_connection (TCPConnection_send_rst_segment c)"

definition TCPConnection_try_clean_shutdown :: "TCPConnection \<Rightarrow> TCPConnection" where
  "TCPConnection_try_clean_shutdown c =
     (if ByteStream_input_ended (TCPConnection_inbound_stream c) then
        if TCPState_state_summary_sender (conn_sender c) = TCPSenderStateSummary_SYN_ACKED
        then c\<lparr>conn_linger_after_streams_finish := False\<rparr>
        else if TCPState_state_summary_sender (conn_sender c) = TCPSenderStateSummary_FIN_ACKED then
          if \<not> conn_linger_after_streams_finish c \<or>
             sint (conn_time_since_last_segment_received c)
               \<ge> 10 * int (unat (cfg_rt_timeout (conn_cfg c)))
          then c\<lparr>conn_actived := False\<rparr>
          else c
        else c
      else c)"

subsection \<open>Events\<close>

definition TCPConnection_connect :: "TCPConnection \<Rightarrow> TCPConnection" where
  "TCPConnection_connect c = TCPConnection_send_segment c"

definition TCPConnection_write :: "TCPConnection \<Rightarrow> bytes \<Rightarrow> TCPConnection \<times> u64" where
  "TCPConnection_write c data =
     (let (stream, write_size) = ByteStream_write (snd_stream (conn_sender c)) data;
          c = c\<lparr>conn_sender := (conn_sender c)\<lparr>snd_stream := stream\<rparr>\<rparr>
      in (TCPConnection_send_segment c, write_size))"

definition TCPConnection_end_input_stream :: "TCPConnection \<Rightarrow> TCPConnection" where
  "TCPConnection_end_input_stream c =
     TCPConnection_send_segment
       (c\<lparr>conn_sender := (conn_sender c)\<lparr>snd_stream :=
          ByteStream_end_input (snd_stream (conn_sender c))\<rparr>\<rparr>)"

definition TCPConnection_segment_received :: "TCPConnection \<Rightarrow> TCPSegment \<Rightarrow> TCPConnection" where
  "TCPConnection_segment_received c seg =
     (if \<not> TCPConnection_active c then c
      else if th_rst (seg_header seg) then TCPConnection_kill_connection c
      else
        let c = c\<lparr>conn_time_since_last_segment_received := 0\<rparr>;
            c = (if th_ack (seg_header seg)
                 then c\<lparr>conn_sender := TCPSender_ack_received (conn_sender c)
                        (th_ackno (seg_header seg)) (th_win (seg_header seg))\<rparr>
                 else c);
            c = c\<lparr>conn_receiver := TCPReceiver_segment_received (conn_receiver c) seg\<rparr>
        in if TCPState_state_summary_receiver (conn_receiver c) = TCPReceiverStateSummary_LISTEN
           then c
           else
             let c = TCPConnection_try_clean_shutdown c;
                 c = c\<lparr>conn_sender := TCPSender_fill_window (conn_sender c)\<rparr>;
                 c = (if TCPSegment_length_in_sequence_space seg \<noteq> 0 then
                        if snd_segments_out (conn_sender c) = []
                        then c\<lparr>conn_sender := TCPSender_send_empty_segment (conn_sender c)\<rparr>
                        else c
                      else
                        case TCPReceiver_ackno (conn_receiver c) of
                          None \<Rightarrow> c
                        | Some ackno \<Rightarrow>
                            if th_seqno (seg_header seg) = WrappingInt32_minus_u32 ackno 1
                            then c\<lparr>conn_sender := TCPSender_send_empty_segment (conn_sender c)\<rparr>
                            else c);
                 c = TCPConnection_fetch_segment c
             in TCPConnection_try_clean_shutdown c)"

definition TCPConnection_tick :: "TCPConnection \<Rightarrow> u64 \<Rightarrow> TCPConnection result" where
  "TCPConnection_tick c ms_since_last_tick =
     (if \<not> TCPConnection_active c then Inr c
      else
        let c = c\<lparr>conn_time_since_last_segment_received :=
              int_add_size (conn_time_since_last_segment_received c) ms_since_last_tick\<rparr>;
            c = c\<lparr>conn_sender := TCPSender_tick (conn_sender c) ms_since_last_tick\<rparr>;
            retrans_count = TCPSender_consecutive_retransmissions (conn_sender c)
        in if retrans_count > TCPConfig_MAX_RETX_ATTEMPTS then
             case snd_segments_out (conn_sender c) of
               [] \<Rightarrow> Inl (Undefined_behaviour ''pop of an empty queue'')
             | segment # q \<Rightarrow>
                 let c = c\<lparr>conn_sender := (conn_sender c)\<lparr>snd_segments_out := q\<rparr>\<rparr>;
                     c = TCPConnection_send_rst_segment c
                 in Inr (TCPConnection_kill_connection c)
           else Inr (TCPConnection_try_clean_shutdown (TCPConnection_fetch_segment c)))"

text \<open>The destructor; the catch clause only concerns exceptions, and the calls throw none.\<close>

definition TCPConnection_destroy :: "TCPConnection \<Rightarrow> TCPConnection" where
  "TCPConnection_destroy c =
     (if TCPConnection_active c
      then TCPConnection_kill_connection (TCPConnection_send_rst_segment c) else c)"

end
