(* ===== verification/Connection_Invariant.thy ===== *)
theory Connection_Invariant
  imports TCP_Connection
begin

text \<open>
  What every connection satisfies, whatever segments arrive: the relation between its flags, the
  phases of its sender and receiver and the error flags of its streams. From it follow the
  classification of the reachable states by the official TCP state names, the meaning of a clean
  shutdown, and that \<open>tick\<close> never pops an empty queue.
\<close>

subsection \<open>What the operations of the sender leave alone\<close>

fun rank :: "STATE \<Rightarrow> nat" where
  "rank STATE.CLOSED = 0"
| "rank STATE.SYN_SENT = 1"
| "rank STATE.SYN_ACKED = 2"
| "rank STATE.FIN_SENT = 3"
| "rank STATE.FINS_ACKED = 4"

definition finished :: "TCPSender \<Rightarrow> bool" where
  "finished s \<longleftrightarrow> snd_state s = STATE.FIN_SENT \<and> snd_bytes_in_flight s = 0"

definition sender_frame :: "TCPSender \<Rightarrow> TCPSender \<Rightarrow> bool" where
  "sender_frame s s' \<longleftrightarrow>
     bs_error (snd_stream s') = bs_error (snd_stream s) \<and> snd_isn s' = snd_isn s \<and>
     rank (snd_state s) \<le> rank (snd_state s') \<and> (finished s \<longrightarrow> finished s') \<and>
     snd_retransmission_count s' \<le> snd_retransmission_count s"

lemma sender_frame_refl [simp]: "sender_frame s s"
  by (simp add: sender_frame_def)

lemma sender_frame_trans: "sender_frame s t \<Longrightarrow> sender_frame t u \<Longrightarrow> sender_frame s u"
  by (auto simp: sender_frame_def)

lemma rank_0 [simp]: "rank st = 0 \<longleftrightarrow> st = STATE.CLOSED"
  by (cases st) simp_all

lemma read_error: "ByteStream_read st n = (st', d) \<Longrightarrow> bs_error st' = bs_error st"
  by (auto simp: ByteStream_read_def ByteStream_pop_output_def Let_def split: if_splits)

lemma fill_loop_frame: "sender_frame s (fill_loop w s)"
proof (induction w s rule: fill_loop.induct)
  case (1 w s)
  obtain goes t where step: "fill_step w s = (goes, t)" by fastforce
  have "sender_frame s t" if "snd_state s = STATE.SYN_ACKED"
    using step that
    by (auto simp: fill_step_def sender_frame_def finished_def Let_def dest: read_error
        split: prod.splits if_splits)
  with 1 [OF _ step [symmetric]] show ?case
    by (cases goes) (auto simp: fill_loop.simps [of w s] step intro: sender_frame_trans)
qed

lemma fill_window_frame: "sender_frame s (TCPSender_fill_window s)"
  using fill_loop_frame
  by (simp add: TCPSender_fill_window_def TCPSender_send_syn_segment_def Let_def)
    (simp add: sender_frame_def finished_def)

lemma fill_window_not_closed: "snd_state (TCPSender_fill_window s) \<noteq> STATE.CLOSED"
proof (cases "snd_state s = STATE.CLOSED")
  case True
  then show ?thesis by (simp add: TCPSender_fill_window_def TCPSender_send_syn_segment_def Let_def)
next
  case False
  then have "0 < rank (snd_state s)" by (cases "snd_state s") simp_all
  also have "\<dots> \<le> rank (snd_state (TCPSender_fill_window s))"
    using fill_window_frame [of s] by (simp add: sender_frame_def)
  finally show ?thesis by (metis less_numeral_extra(3) rank_0)
qed

lemma nothing_outstanding:
  assumes "sender_inv S s" and "snd_bytes_in_flight s = 0"
  shows "snd_segments_outstanding s = []"
proof -
  have "chain S (snd_isn s) (next_abs s - in_flight s) (snd_segments_outstanding s) (next_abs s)"
    using assms(1) unfolding sender_inv_def by blast
  then have "chain S (snd_isn s) (next_abs s) (snd_segments_outstanding s) (next_abs s)"
    by (simp add: assms(2))
  then show ?thesis
    by (cases "snd_segments_outstanding s") (fastforce dest: chain_le)+
qed

lemma closed_in_flight: "sender_inv S s \<Longrightarrow> snd_state s = STATE.CLOSED \<Longrightarrow> snd_bytes_in_flight s = 0"
  by (simp add: sender_inv_def unat_eq_0)

lemma ack_received_frame:
  assumes "sender_inv S s"
  shows "sender_frame s (TCPSender_ack_received s ackno win)"
proof -
  define acked where "acked = unwrap ackno (snd_isn s) (ByteStream_bytes_read (snd_stream s))"
  show ?thesis
  proof (cases "acked > snd_next_seqno s \<or> acked < snd_next_seqno s - snd_bytes_in_flight s")
    case True
    then show ?thesis using ack_received_ignored [OF acked_def] by simp
  next
    case False
    define s1 where "s1 = ack_loop acked (snd_segments_outstanding s)
      (s\<lparr>snd_window_size := ucast win, snd_retransmission_count := 0\<rparr>)"
    define s2 where "s2 = (if snd_state s = STATE.SYN_SENT \<and> snd_bytes_in_flight s1 < snd_next_seqno s
      then s1\<lparr>snd_state := STATE.SYN_ACKED\<rparr> else s1)"
    have "finished s1" if "finished s"
      using that nothing_outstanding [OF assms] by (simp add: s1_def finished_def)
    then have "sender_frame s s2"
      by (auto simp: s2_def sender_frame_def) (auto simp: s1_def ack_loop_frame finished_def)
    then show ?thesis
      unfolding ack_received_eq [OF acked_def False s1_def s2_def]
      using fill_window_frame by (auto intro: sender_frame_trans split: if_split)
  qed
qed

lemma send_empty_frame: "sender_frame s (TCPSender_send_empty_segment s)"
  by (simp add: sender_frame_def TCPSender_send_empty_segment_def finished_def Let_def)

text \<open>The timer changes only the timer and the queue, and retransmits when it counts.\<close>

lemma tick_frame:
  "snd_stream (TCPSender_tick s ms) = snd_stream s" "snd_isn (TCPSender_tick s ms) = snd_isn s"
  "snd_state (TCPSender_tick s ms) = snd_state s"
  "snd_bytes_in_flight (TCPSender_tick s ms) = snd_bytes_in_flight s"
  "snd_next_seqno (TCPSender_tick s ms) = snd_next_seqno s"
  "snd_segments_outstanding (TCPSender_tick s ms) = snd_segments_outstanding s"
  by (simp_all add: TCPSender_tick_def Let_def split: list.splits)

lemma tick_counts:
  "snd_retransmission_count (TCPSender_tick s ms) = snd_retransmission_count s \<or>
   snd_retransmission_count (TCPSender_tick s ms) = snd_retransmission_count s + 1 \<and>
   snd_segments_out (TCPSender_tick s ms) \<noteq> []"
  by (simp add: TCPSender_tick_def Let_def split: list.splits)

subsection \<open>What a segment does to the flags of the receiver\<close>

lemma send_loop_flags:
  "bs_error (snd (snd (snd (send_loop m e u out)))) = bs_error out \<and>
   bs_end_input (snd (snd (snd (send_loop m e u out)))) = bs_end_input out"
proof (induction m e u out rule: send_loop.induct)
  case (2 index data m e u out)
  have w: "bs_error (fst (ByteStream_write st d)) = bs_error st"
    "bs_end_input (fst (ByteStream_write st d)) = bs_end_input st" for st d
    by (simp_all add: ByteStream_write_def Let_def)
  show ?case using 2 by (simp add: Let_def w)
qed simp

lemma push_flags:
  "bs_error (sr_output (StreamReassembler_push_substring r d i eof)) = bs_error (sr_output r)"
  "bs_end_input (sr_output r) \<Longrightarrow>
   bs_end_input (sr_output (StreamReassembler_push_substring r d i eof))"
  using send_loop_flags
  by (auto simp: StreamReassembler_push_substring_def StreamReassembler_send_to_bytestream_def
      ByteStream_end_input_def insert_frame Let_def split: prod.splits) (metis snd_conv)+

abbreviation in_error :: "TCPReceiver \<Rightarrow> bool" where
  "in_error r \<equiv> bs_error (TCPReceiver_stream_out r)"

abbreviation in_ended :: "TCPReceiver \<Rightarrow> bool" where
  "in_ended r \<equiv> bs_end_input (TCPReceiver_stream_out r)"

definition receiver_frame :: "TCPReceiver \<Rightarrow> TCPReceiver \<Rightarrow> bool" where
  "receiver_frame r r' \<longleftrightarrow> in_error r' = in_error r \<and> (in_ended r \<longrightarrow> in_ended r') \<and>
     (rcv_in_listen r' \<longrightarrow> r' = r)"

lemma segment_received_frame:
  "receiver_frame r (TCPReceiver_segment_received r seg)"
  by (simp add: receiver_frame_def TCPReceiver_segment_received_def TCPReceiver_stream_out_def
      Let_def push_flags)

subsection \<open>The summaries\<close>

lemma FINS_ACKED_unused: "sender_inv S s \<Longrightarrow> snd_state s \<noteq> STATE.FINS_ACKED"
  by (auto simp: sender_inv_def)

lemma sender_summary:
  assumes inv: "sender_inv S s" and "\<not> bs_error (snd_stream s)"
  shows "TCPState_state_summary_sender s =
    (if snd_state s = STATE.CLOSED then TCPSenderStateSummary_CLOSED
     else if snd_state s = STATE.SYN_SENT then TCPSenderStateSummary_SYN_SENT
     else if snd_state s = STATE.SYN_ACKED then TCPSenderStateSummary_SYN_ACKED
     else if finished s then TCPSenderStateSummary_FIN_ACKED else TCPSenderStateSummary_FIN_SENT)"
proof -
  let ?st = "snd_stream s"
  have so: "state_ok S s (snd_state s)" and stream: "stream_ok S ?st" and len: "length S < 2 ^ 64 - 2"
    using inv by (simp_all add: sender_inv_def)
  have w: "unat (bs_bytes_written ?st) \<le> length S" and r: "bytes_sent s \<le> unat (bs_bytes_written ?st)"
    and buf: "bs_buffer_list ?st = slc (bytes_sent s) (unat (bs_bytes_written ?st)) S"
    using stream by (simp_all add: stream_ok_def out_ok_def)
  have w2: "unat (bs_bytes_written ?st + 2) = unat (bs_bytes_written ?st) + 2"
    using unat_add_no_wrap [of "bs_bytes_written ?st" 2] w len by simp
  have eof: "bytes_sent s = unat (bs_bytes_written ?st)" if "bs_buffer_list ?st = []"
    using that w r arg_cong [OF buf, of length] by simp
  have same: "snd_next_seqno s = snd_bytes_in_flight s \<longleftrightarrow> next_abs s = in_flight s"
    by (simp add: word_unat_eq_iff)
  show ?thesis
  proof (cases "snd_state s")
    case FIN_SENT
    then have "next_abs s = unat (bs_bytes_written ?st + 2)" "ByteStream_eof ?st"
      using so stream w2 buf
      by (simp_all add: stream_ok_def ByteStream_observers)
    then show ?thesis
      using FIN_SENT so assms(2)
      by (auto simp: TCPState_state_summary_sender_def finished_def same
          TCPSender_next_seqno_absolute_def TCPSender_bytes_in_flight_def ByteStream_observers
          word_less_nat_alt unat_eq_zero)
  qed (use so assms(2) in \<open>auto simp: TCPState_state_summary_sender_def same word_less_nat_alt w2 eof
        TCPSender_next_seqno_absolute_def TCPSender_bytes_in_flight_def ByteStream_observers
        unat_eq_zero\<close>)
qed

lemma receiver_summary_LISTEN:
  "\<not> in_error r \<Longrightarrow>
   TCPState_state_summary_receiver r = TCPReceiverStateSummary_LISTEN \<longleftrightarrow> rcv_in_listen r"
  by (auto simp: TCPState_state_summary_receiver_def TCPReceiver_ackno_def ByteStream_error_def
      summary_defs)

subsection \<open>The invariant\<close>

text \<open>A connection that was not reset, at any point of a handler.\<close>

definition conn_ok :: "bytes \<Rightarrow> TCPConnection \<Rightarrow> bool" where
  "conn_ok S c \<longleftrightarrow>
     sender_inv S (conn_sender c) \<and>
     (snd_state (conn_sender c) = STATE.CLOSED \<longrightarrow> snd_segments_out (conn_sender c) = []) \<and>
     \<not> bs_error (snd_stream (conn_sender c)) \<and> \<not> in_error (conn_receiver c) \<and>
     (rcv_in_listen (conn_receiver c) \<longrightarrow> \<not> in_ended (conn_receiver c)) \<and>
     snd_retransmission_count (conn_sender c) \<le> 8 \<and>
     (\<not> conn_linger_after_streams_finish c \<longrightarrow>
        in_ended (conn_receiver c) \<and> 2 \<le> rank (snd_state (conn_sender c))) \<and>
     (\<not> conn_actived c \<longrightarrow> in_ended (conn_receiver c) \<and> finished (conn_sender c))"

text \<open>Between handlers, \<open>try_clean_shutdown\<close> has nothing more to do except for the passing of time.\<close>

definition settled :: "TCPConnection \<Rightarrow> bool" where
  "settled c \<longleftrightarrow> (conn_actived c \<and> in_ended (conn_receiver c) \<longrightarrow>
     (snd_state (conn_sender c) = STATE.SYN_ACKED \<longrightarrow> \<not> conn_linger_after_streams_finish c) \<and>
     (finished (conn_sender c) \<longrightarrow> conn_linger_after_streams_finish c))"

definition answered :: "TCPConnection \<Rightarrow> bool" where
  "answered c \<longleftrightarrow> rcv_in_listen (conn_receiver c) \<or> snd_state (conn_sender c) \<noteq> STATE.CLOSED"

text \<open>A connection that was reset, by a segment, by the destructor or by too many retransmissions.\<close>

definition conn_reset :: "bytes \<Rightarrow> TCPConnection \<Rightarrow> bool" where
  "conn_reset S c \<longleftrightarrow>
     sender_inv S (conn_sender c) \<and> bs_error (snd_stream (conn_sender c)) \<and>
     in_error (conn_receiver c) \<and> \<not> conn_actived c \<and> \<not> conn_linger_after_streams_finish c"

definition conn_inv :: "bytes \<Rightarrow> TCPConnection \<Rightarrow> bool" where
  "conn_inv S c \<longleftrightarrow> conn_reset S c \<or> conn_ok S c \<and> settled c \<and> answered c"

lemma conn_inv_init:
  "length S < 2 ^ 64 - 2 \<Longrightarrow> conn_inv S (TCPConnection_init cfg rrnd srnd)"
  using sender_inv_init
  by (simp add: conn_inv_def conn_ok_def settled_def answered_def TCPConnection_init_def)
    (simp add: TCPSender_init_def TCPReceiver_init_def TCPReceiver_stream_out_def
      StreamReassembler_init_def ByteStream_init_def)

lemma conn_ok_sender:
  assumes "conn_ok S c" and "sender_frame (conn_sender c) s" and "sender_inv S s"
    and "snd_state s = STATE.CLOSED \<Longrightarrow> snd_segments_out s = []"
  shows "conn_ok S (c\<lparr>conn_sender := s\<rparr>)"
  using assms by (auto simp: conn_ok_def sender_frame_def)

lemma conn_ok_receiver:
  assumes "conn_ok S c" and "receiver_frame (conn_receiver c) r"
  shows "conn_ok S (c\<lparr>conn_receiver := r\<rparr>)"
  using assms by (auto simp: conn_ok_def receiver_frame_def)

lemma fetch_segment_eq:
  "TCPConnection_fetch_segment c =
     c\<lparr>conn_sender := (conn_sender c)\<lparr>snd_segments_out := []\<rparr>,
       conn_segments_out := conn_segments_out c
         @ map (fetch_stamp (conn_receiver c)) (snd_segments_out (conn_sender c))\<rparr>"
proof -
  have "fetch_loop q c = c\<lparr>conn_sender := (conn_sender c)\<lparr>snd_segments_out := []\<rparr>,
      conn_segments_out := conn_segments_out c @ map (fetch_stamp (conn_receiver c)) q\<rparr>" for q
    by (induction q c rule: fetch_loop.induct) simp_all
  then show ?thesis by (simp add: TCPConnection_fetch_segment_def)
qed

subsection \<open>Every handler preserves it\<close>

lemma clear_out_frame [simp]: "sender_frame s (s\<lparr>snd_segments_out := out\<rparr>)"
  by (simp add: sender_frame_def finished_def)

lemma fetch_ok: "conn_ok S c \<Longrightarrow> conn_ok S (TCPConnection_fetch_segment c)"
  using sender_inv_out_subset [of S "conn_sender c" "[]"]
  by (auto simp: fetch_segment_eq conn_ok_def finished_def)

lemma fetch_settled [simp]:
  "settled (TCPConnection_fetch_segment c) = settled c"
  "answered (TCPConnection_fetch_segment c) = answered c"
  by (simp_all add: fetch_segment_eq settled_def answered_def finished_def)

lemma fill_window_ok:
  assumes "conn_ok S c"
  shows "conn_ok S (c\<lparr>conn_sender := TCPSender_fill_window (conn_sender c)\<rparr>)"
  using assms
  by (rule conn_ok_sender)
    (use assms fill_window_frame fill_window_spec(1) fill_window_not_closed in \<open>auto simp: conn_ok_def\<close>)

lemma try_clean_shutdown_eq:
  assumes "conn_ok S c"
  shows "TCPConnection_try_clean_shutdown c =
    (if in_ended (conn_receiver c) then
       if snd_state (conn_sender c) = STATE.SYN_ACKED then c\<lparr>conn_linger_after_streams_finish := False\<rparr>
       else if finished (conn_sender c) \<and> (\<not> conn_linger_after_streams_finish c \<or>
         sint (conn_time_since_last_segment_received c) \<ge> 10 * int (unat (cfg_rt_timeout (conn_cfg c))))
       then c\<lparr>conn_actived := False\<rparr> else c
     else c)"
proof -
  have inv: "sender_inv S (conn_sender c)" and e: "\<not> bs_error (snd_stream (conn_sender c))"
    using assms by (simp_all add: conn_ok_def)
  show ?thesis
    unfolding TCPConnection_try_clean_shutdown_def sender_summary [OF inv e]
      TCPConnection_inbound_stream_def ByteStream_input_ended_def
    using FINS_ACKED_unused [OF inv]
    by (cases "snd_state (conn_sender c)") (auto simp: summary_defs finished_def)
qed

lemma try_clean_ok:
  assumes "conn_ok S c"
  shows "conn_ok S (TCPConnection_try_clean_shutdown c)" and "settled (TCPConnection_try_clean_shutdown c)"
  using assms unfolding try_clean_shutdown_eq [OF assms]
  by (auto simp: conn_ok_def settled_def finished_def)

lemma try_clean_same:
  "conn_sender (TCPConnection_try_clean_shutdown c) = conn_sender c"
  "conn_receiver (TCPConnection_try_clean_shutdown c) = conn_receiver c"
  "conn_segments_out (TCPConnection_try_clean_shutdown c) = conn_segments_out c"
  "conn_cfg (TCPConnection_try_clean_shutdown c) = conn_cfg c"
  "conn_time_since_last_segment_received (TCPConnection_try_clean_shutdown c)
     = conn_time_since_last_segment_received c"
  by (simp_all add: TCPConnection_try_clean_shutdown_def)

text \<open>Filling the window does not unsettle: it never produces an acknowledged FIN.\<close>

lemma fill_window_state:
  assumes "sender_inv S s"
  shows "snd_state (TCPSender_fill_window s) = STATE.SYN_ACKED \<Longrightarrow> snd_state s = STATE.SYN_ACKED"
    and "finished (TCPSender_fill_window s) \<Longrightarrow> finished s"
proof -
  let ?s' = "TCPSender_fill_window s"
  consider (closed) "snd_state s = STATE.CLOSED" | (acked) "snd_state s = STATE.SYN_ACKED"
    | (other) "snd_state s \<noteq> STATE.CLOSED" "snd_state s \<noteq> STATE.SYN_ACKED" by blast
  then have "(snd_state ?s' = STATE.SYN_ACKED \<longrightarrow> snd_state s = STATE.SYN_ACKED) \<and>
    (finished ?s' \<longrightarrow> finished s)"
  proof cases
    case closed
    then show ?thesis
      by (simp add: TCPSender_fill_window_def TCPSender_send_syn_segment_def finished_def Let_def)
  next
    case acked
    have "next_abs ?s' - in_flight ?s' = next_abs s - in_flight s"
      using fill_loop_spec [OF assms] acked by (simp add: TCPSender_fill_window_def Let_def)
    moreover have "next_abs s \<le> length S + 1" using sender_inv_next_le(2) [OF assms] acked by simp
    moreover have "next_abs ?s' = length S + 2" if "snd_state ?s' = STATE.FIN_SENT"
      using fill_window_spec(1) [OF assms] that by (simp add: sender_inv_def)
    ultimately have "\<not> finished ?s'" by (auto simp: finished_def)
    then show ?thesis using acked by simp
  next
    case other
    then show ?thesis using fill_loop_spec [OF assms] by (simp add: TCPSender_fill_window_def Let_def)
  qed
  then show "snd_state ?s' = STATE.SYN_ACKED \<Longrightarrow> snd_state s = STATE.SYN_ACKED"
    and "finished ?s' \<Longrightarrow> finished s" by blast+
qed

lemma send_segment_ok:
  assumes "conn_ok S c" and "settled c"
  shows "conn_ok S (TCPConnection_send_segment c)" and "settled (TCPConnection_send_segment c)"
    and "answered (TCPConnection_send_segment c)"
proof -
  let ?c = "c\<lparr>conn_sender := TCPSender_fill_window (conn_sender c)\<rparr>"
  have inv: "sender_inv S (conn_sender c)" using assms(1) by (simp add: conn_ok_def)
  show "conn_ok S (TCPConnection_send_segment c)"
    by (simp add: TCPConnection_send_segment_def fetch_ok fill_window_ok assms(1))
  have "settled ?c" and "answered ?c"
    using assms(2) fill_window_state [OF inv] fill_window_not_closed
    by (auto simp: settled_def answered_def)
  then show "settled (TCPConnection_send_segment c)" and "answered (TCPConnection_send_segment c)"
    by (simp_all add: TCPConnection_send_segment_def)
qed

lemma conn_reset_sender:
  assumes "conn_reset S c" and "sender_inv S s" and "bs_error (snd_stream s)"
  shows "conn_reset S (c\<lparr>conn_sender := s, conn_segments_out := out\<rparr>)"
  using assms by (simp add: conn_reset_def)

lemma send_segment_inv:
  assumes "conn_inv S c"
  shows "conn_inv S (TCPConnection_send_segment c)"
proof (cases "conn_reset S c")
  case True
  let ?s = "TCPSender_fill_window (conn_sender c)"
  have inv: "sender_inv S (conn_sender c)" and e: "bs_error (snd_stream (conn_sender c))"
    using True by (simp_all add: conn_reset_def)
  have "bs_error (snd_stream ?s)" using fill_window_frame [of "conn_sender c"] e
    by (simp add: sender_frame_def)
  then show ?thesis
    using conn_reset_sender [OF True sender_inv_out_subset [OF fill_window_spec(1) [OF inv], of "[]"]]
    by (simp add: conn_inv_def TCPConnection_send_segment_def fetch_segment_eq)
next
  case False
  then show ?thesis using assms send_segment_ok [of S c] by (simp add: conn_inv_def)
qed

lemma set_error_stream_ok [simp]: "stream_ok S (ByteStream_set_error st) = stream_ok S st"
  by (simp add: stream_ok_def out_ok_def ByteStream_set_error_def ByteStream_inv_def
      ByteStream_input_ended_def)

lemma kill_reset:
  assumes "sender_inv S (conn_sender c)"
  shows "conn_reset S (TCPConnection_kill_connection c)"
proof -
  let ?st = "snd_stream (conn_sender c)"
  have "stream_ok S ?st" using assms by (simp add: sender_inv_def)
  then have "stream_ok S (ByteStream_set_error ?st)" by simp
  then have "sender_inv S ((conn_sender c)\<lparr>snd_stream := ByteStream_set_error ?st\<rparr>)"
    using assms by (intro sender_inv_stream) (auto simp: ByteStream_set_error_def ByteStream_input_ended_def)
  then show ?thesis
    by (simp add: conn_reset_def TCPConnection_kill_connection_def Let_def ByteStream_set_error_def
        TCPReceiver_stream_out_def)
qed

text \<open>Sending the reset leaves the sender with what was queued behind the first segment.\<close>

lemma rst_sender:
  "conn_sender (TCPConnection_send_rst_segment c) =
     (let s = conn_sender c in
      if snd_segments_out s = [] then s
      else (TCPSender_send_empty_segment s)\<lparr>snd_segments_out :=
        tl (snd_segments_out (TCPSender_send_empty_segment s))\<rparr>)"
  by (simp add: TCPConnection_send_rst_segment_def TCPSender_send_empty_segment_def Let_def)

lemma rst_sender_inv:
  assumes "sender_inv S (conn_sender c)"
    and "snd_state (conn_sender c) = STATE.CLOSED \<Longrightarrow> snd_segments_out (conn_sender c) = []"
  shows "sender_inv S (conn_sender (TCPConnection_send_rst_segment c))"
proof (cases "snd_segments_out (conn_sender c) = []")
  case False
  then have "sender_inv S (TCPSender_send_empty_segment (conn_sender c))"
    using assms by (intro send_empty_inv) auto
  then show ?thesis
    unfolding rst_sender using False by (simp add: Let_def sender_inv_out_subset set_tl_subset)
qed (use assms(1) in \<open>simp add: rst_sender\<close>)

lemma destroy_inv:
  assumes "conn_inv S c"
  shows "conn_inv S (TCPConnection_destroy c)"
proof (cases "conn_actived c")
  case True
  then have "conn_ok S c" using assms by (auto simp: conn_inv_def conn_reset_def)
  then have "sender_inv S (conn_sender (TCPConnection_send_rst_segment c))"
    by (intro rst_sender_inv) (simp_all add: conn_ok_def)
  then show ?thesis
    using True kill_reset
    by (simp add: conn_inv_def TCPConnection_destroy_def TCPConnection_active_def)
qed (use assms in \<open>simp add: TCPConnection_destroy_def TCPConnection_active_def\<close>)

lemma ack_received_closed:
  assumes "sender_inv S s" and "snd_state s = STATE.CLOSED" and "snd_segments_out s = []"
  shows "snd_segments_out (TCPSender_ack_received s ackno win) = []"
  using assms
  by (auto simp: TCPSender_ack_received_def Let_def ack_loop_frame sender_inv_def)

definition conn_acked :: "TCPConnection \<Rightarrow> TCPSegment \<Rightarrow> TCPConnection" where
  "conn_acked c seg = c\<lparr>conn_time_since_last_segment_received := 0,
     conn_sender := (if th_ack (seg_header seg)
       then TCPSender_ack_received (conn_sender c) (th_ackno (seg_header seg)) (th_win (seg_header seg))
       else conn_sender c),
     conn_receiver := TCPReceiver_segment_received (conn_receiver c) seg\<rparr>"

definition reply :: "TCPSegment \<Rightarrow> TCPConnection \<Rightarrow> TCPConnection" where
  "reply seg c =
     (if (if TCPSegment_length_in_sequence_space seg \<noteq> 0 then snd_segments_out (conn_sender c) = []
          else (case TCPReceiver_ackno (conn_receiver c) of None \<Rightarrow> False
                | Some ackno \<Rightarrow> th_seqno (seg_header seg) = WrappingInt32_minus_u32 ackno 1))
      then c\<lparr>conn_sender := TCPSender_send_empty_segment (conn_sender c)\<rparr> else c)"

lemma segment_received_eq:
  "TCPConnection_segment_received c seg =
     (if \<not> conn_actived c then c
      else if th_rst (seg_header seg) then TCPConnection_kill_connection c
      else if TCPState_state_summary_receiver (conn_receiver (conn_acked c seg))
        = TCPReceiverStateSummary_LISTEN then conn_acked c seg
      else
        let c = TCPConnection_try_clean_shutdown (conn_acked c seg);
            c = reply seg (c\<lparr>conn_sender := TCPSender_fill_window (conn_sender c)\<rparr>)
        in TCPConnection_try_clean_shutdown (TCPConnection_fetch_segment c))"
proof -
  have same: "(let c = c\<lparr>conn_time_since_last_segment_received := 0\<rparr>;
      c = (if th_ack (seg_header seg)
           then c\<lparr>conn_sender := TCPSender_ack_received (conn_sender c)
             (th_ackno (seg_header seg)) (th_win (seg_header seg))\<rparr> else c)
    in c\<lparr>conn_receiver := TCPReceiver_segment_received (conn_receiver c) seg\<rparr>) = conn_acked c seg"
    by (simp add: conn_acked_def Let_def)
  show ?thesis
    unfolding same [symmetric]
    by (simp add: TCPConnection_segment_received_def TCPConnection_active_def reply_def Let_def
        split: option.split)
qed

lemma conn_acked_ok:
  assumes "conn_ok S c"
  shows "conn_ok S (conn_acked c seg)"
proof -
  have inv: "sender_inv S (conn_sender c)" using assms by (simp add: conn_ok_def)
  have "conn_ok S (c\<lparr>conn_sender := conn_sender (conn_acked c seg)\<rparr>)"
  proof (rule conn_ok_sender [OF assms])
    show "sender_frame (conn_sender c) (conn_sender (conn_acked c seg))"
      and "sender_inv S (conn_sender (conn_acked c seg))"
      using ack_received_frame [OF inv] ack_received_inv [OF inv] inv by (simp_all add: conn_acked_def)
    assume "snd_state (conn_sender (conn_acked c seg)) = STATE.CLOSED"
    then have "snd_state (conn_sender c) = STATE.CLOSED"
      using ack_received_frame [OF inv]
      by (auto simp: conn_acked_def sender_frame_def simp flip: rank_0 split: if_splits)
        (metis le_zero_eq)
    then show "snd_segments_out (conn_sender (conn_acked c seg)) = []"
      using assms ack_received_closed [OF inv] by (simp add: conn_acked_def conn_ok_def)
  qed
  then have "conn_ok S (c\<lparr>conn_sender := conn_sender (conn_acked c seg),
      conn_receiver := conn_receiver (conn_acked c seg)\<rparr>)"
    using conn_ok_receiver [OF _, of S "c\<lparr>conn_sender := conn_sender (conn_acked c seg)\<rparr>"]
      segment_received_frame by (simp add: conn_acked_def)
  then show ?thesis by (simp add: conn_acked_def conn_ok_def)
qed

lemma reply_ok:
  assumes "conn_ok S c" and "snd_state (conn_sender c) \<noteq> STATE.CLOSED"
  shows "conn_ok S (reply seg c)" and "snd_state (conn_sender (reply seg c)) \<noteq> STATE.CLOSED"
proof -
  let ?s = "TCPSender_send_empty_segment (conn_sender c)"
  have st: "snd_state ?s = snd_state (conn_sender c)"
    by (simp add: TCPSender_send_empty_segment_def Let_def)
  have "sender_inv S ?s" using assms by (intro send_empty_inv) (simp_all add: conn_ok_def)
  then have "conn_ok S (c\<lparr>conn_sender := ?s\<rparr>)"
    using assms conn_ok_sender [OF assms(1) send_empty_frame] by (simp add: st)
  then show "conn_ok S (reply seg c)" and "snd_state (conn_sender (reply seg c)) \<noteq> STATE.CLOSED"
    using assms by (simp_all add: reply_def st)
qed

lemma segment_received_conn_inv:
  assumes "conn_inv S c"
  shows "conn_inv S (TCPConnection_segment_received c seg)"
proof (cases "conn_actived c")
  case True
  then have ok: "conn_ok S c" using assms by (auto simp: conn_inv_def conn_reset_def)
  have acked: "conn_ok S (conn_acked c seg)" by (rule conn_acked_ok [OF ok])
  define c1 where "c1 = TCPConnection_try_clean_shutdown (conn_acked c seg)"
  define c2 where "c2 = reply seg (c1\<lparr>conn_sender := TCPSender_fill_window (conn_sender c1)\<rparr>)"
  have c1: "conn_ok S c1" unfolding c1_def by (rule try_clean_ok [OF acked])
  have c2: "conn_ok S c2" "snd_state (conn_sender c2) \<noteq> STATE.CLOSED"
    using reply_ok [OF fill_window_ok [OF c1]] fill_window_not_closed by (simp_all add: c2_def)
  have c3: "conn_ok S (TCPConnection_fetch_segment c2)" "answered (TCPConnection_fetch_segment c2)"
    using c2 fetch_ok by simp_all (simp add: answered_def)
  have final: "conn_inv S (TCPConnection_try_clean_shutdown (TCPConnection_fetch_segment c2))"
    using try_clean_ok [OF c3(1)] c3(2) by (simp add: conn_inv_def answered_def try_clean_same)
  have "conn_inv S (conn_acked c seg)" if "rcv_in_listen (conn_receiver (conn_acked c seg))"
    using that acked by (auto simp: conn_inv_def settled_def answered_def conn_ok_def)
  moreover have "conn_inv S (TCPConnection_kill_connection c)"
    using kill_reset ok by (simp add: conn_inv_def conn_ok_def)
  moreover have "\<not> in_error (conn_receiver (conn_acked c seg))" using acked by (simp add: conn_ok_def)
  ultimately show ?thesis
    unfolding segment_received_eq Let_def c1_def [symmetric] c2_def [symmetric]
    using final True by (auto simp: receiver_summary_LISTEN)
qed (use assms in \<open>simp add: segment_received_eq\<close>)

lemma MAX_RETX: "TCPSender_consecutive_retransmissions s > TCPConfig_MAX_RETX_ATTEMPTS \<longleftrightarrow>
    8 < unat (snd_retransmission_count s) mod 2 ^ 32"
  by (simp add: TCPSender_consecutive_retransmissions_def TCPConfig_MAX_RETX_ATTEMPTS_def
      word_less_nat_alt)

text \<open>The connection after the timer of the sender has run.\<close>

definition conn_ticked :: "TCPConnection \<Rightarrow> u64 \<Rightarrow> TCPConnection" where
  "conn_ticked c ms = c\<lparr>conn_time_since_last_segment_received :=
       int_add_size (conn_time_since_last_segment_received c) ms,
     conn_sender := TCPSender_tick (conn_sender c) ms\<rparr>"

lemma tick_eq:
  assumes "conn_ok S c" and "conn_actived c"
  shows "TCPConnection_tick c ms = Inr
    (let c = conn_ticked c ms in
     if snd_retransmission_count (conn_sender c) > 8
     then TCPConnection_kill_connection (TCPConnection_send_rst_segment
       (c\<lparr>conn_sender := (conn_sender c)\<lparr>snd_segments_out := tl (snd_segments_out (conn_sender c))\<rparr>\<rparr>))
     else TCPConnection_try_clean_shutdown (TCPConnection_fetch_segment c))"
proof -
  let ?s = "TCPSender_tick (conn_sender c) ms"
  have le: "unat (snd_retransmission_count (conn_sender c)) \<le> 8"
    using assms(1) by (simp add: conn_ok_def word_le_nat_alt)
  then have u: "unat (snd_retransmission_count (conn_sender c) + 1)
      = unat (snd_retransmission_count (conn_sender c)) + 1"
    using unat_add_no_wrap [of "snd_retransmission_count (conn_sender c)" 1] by simp
  then have c: "unat (snd_retransmission_count ?s) \<le> 9"
    and pushed: "8 < snd_retransmission_count ?s \<Longrightarrow> snd_segments_out ?s \<noteq> []"
    using tick_counts [of "conn_sender c" ms] le by (auto simp: word_less_nat_alt)
  have "TCPSender_consecutive_retransmissions ?s > TCPConfig_MAX_RETX_ATTEMPTS \<longleftrightarrow>
      snd_retransmission_count ?s > 8"
    unfolding MAX_RETX using c by (simp add: word_less_nat_alt)
  then show ?thesis
    using assms(2) pushed
    by (cases "snd_segments_out ?s")
      (auto simp: TCPConnection_tick_def TCPConnection_active_def conn_ticked_def Let_def)
qed

lemma tick_conn_inv:
  assumes "conn_inv S c"
  shows "\<exists>c'. TCPConnection_tick c ms = Inr c' \<and> conn_inv S c'"
proof (cases "conn_actived c")
  case True
  then have ok: "conn_ok S c" and settled: "settled c" "answered c"
    using assms by (auto simp: conn_inv_def conn_reset_def)
  let ?t = "conn_ticked c ms"
  let ?s = "conn_sender ?t"
  have inv: "sender_inv S ?s" using ok tick_inv by (simp add: conn_ticked_def conn_ok_def)
  have closed: "snd_segments_out ?s = []" if "snd_state ?s = STATE.CLOSED"
  proof -
    have "sender_inv S (conn_sender c)" and "snd_state (conn_sender c) = STATE.CLOSED"
      using ok that by (simp_all add: conn_ok_def conn_ticked_def tick_frame)
    then have "snd_segments_outstanding (conn_sender c) = []"
      using nothing_outstanding closed_in_flight by blast
    moreover have "snd_segments_out (conn_sender c) = []"
      using ok that by (simp add: conn_ok_def conn_ticked_def tick_frame)
    ultimately show ?thesis by (simp add: conn_ticked_def TCPSender_tick_def Let_def)
  qed
  have ok': "conn_ok S ?t" if "\<not> 8 < snd_retransmission_count ?s"
    using that ok inv closed by (auto simp: conn_ok_def conn_ticked_def tick_frame finished_def)
  let ?r = "?t\<lparr>conn_sender := ?s\<lparr>snd_segments_out := tl (snd_segments_out ?s)\<rparr>\<rparr>"
  have "sender_inv S (conn_sender (TCPConnection_send_rst_segment ?r))"
    using inv closed by (intro rst_sender_inv) (auto intro: sender_inv_out_subset [OF _ set_tl_subset])
  then have "conn_inv S (TCPConnection_kill_connection (TCPConnection_send_rst_segment ?r))"
    using kill_reset by (simp add: conn_inv_def)
  moreover have "conn_inv S (TCPConnection_try_clean_shutdown (TCPConnection_fetch_segment ?t))"
    if "\<not> 8 < snd_retransmission_count ?s"
    using try_clean_ok [OF fetch_ok [OF ok' [OF that]]] settled
    by (simp add: conn_inv_def answered_def try_clean_same fetch_segment_eq conn_ticked_def tick_frame)
  ultimately show ?thesis unfolding tick_eq [OF ok True] by (simp add: Let_def)
qed (use assms in \<open>simp add: TCPConnection_tick_def TCPConnection_active_def\<close>)

lemma stream_update_inv:
  assumes "conn_inv S c" and "sender_inv S ((conn_sender c)\<lparr>snd_stream := st\<rparr>)"
    and "bs_error st = bs_error (snd_stream (conn_sender c))"
  shows "conn_inv S (c\<lparr>conn_sender := (conn_sender c)\<lparr>snd_stream := st\<rparr>\<rparr>)"
  using assms by (auto simp: conn_inv_def conn_ok_def conn_reset_def settled_def answered_def finished_def)

subsection \<open>Runs of a connection\<close>

text \<open>What can happen to a connection: calls of its user, segments and the passing of time, its
  destruction, the user reading the inbound stream, and the owner taking the first segment off the
  queue. The state of a run is the connection with the bytes its user has read.\<close>

datatype conn_event =
    Connect
  | Write bytes
  | End_input
  | Segment TCPSegment
  | Time u64
  | Destroy
  | Read u64
  | Take

fun conn_step :: "TCPConnection \<times> bytes \<Rightarrow> conn_event \<Rightarrow> TCPConnection \<times> bytes" where
  "conn_step (c, given) Connect = (TCPConnection_connect c, given)"
| "conn_step (c, given) (Write data) = (fst (TCPConnection_write c data), given)"
| "conn_step (c, given) End_input = (TCPConnection_end_input_stream c, given)"
| "conn_step (c, given) (Segment seg) = (TCPConnection_segment_received c seg, given)"
| "conn_step (c, given) (Time ms) = (ok_or c (TCPConnection_tick c ms), given)"
| "conn_step (c, given) Destroy = (TCPConnection_destroy c, given)"
| "conn_step (c, given) (Read n) =
     (let (re, d) = StreamReassembler_consume (rcv_reassembler (conn_receiver c)) n
      in (c\<lparr>conn_receiver := (conn_receiver c)\<lparr>rcv_reassembler := re\<rparr>\<rparr>, given @ d))"
| "conn_step (c, given) Take = (c\<lparr>conn_segments_out := tl (conn_segments_out c)\<rparr>, given)"

text \<open>The user writes the stream \<open>S\<close> from front to back, and ends it behind the last byte.\<close>

fun conn_event_ok :: "bytes \<Rightarrow> TCPConnection \<times> bytes \<Rightarrow> conn_event \<Rightarrow> bool" where
  "conn_event_ok S (c, given) (Write data) \<longleftrightarrow> next_bytes S (snd_stream (conn_sender c)) data"
| "conn_event_ok S (c, given) End_input \<longleftrightarrow>
     unat (bs_bytes_written (snd_stream (conn_sender c))) = length S"
| "conn_event_ok S (c, given) e \<longleftrightarrow> True"

lemma consume_flags:
  assumes "StreamReassembler_consume r n = (r', d)"
  shows "bs_error (sr_output r') = bs_error (sr_output r)"
    and "bs_end_input (sr_output r') = bs_end_input (sr_output r)"
  using assms
  by (auto simp: StreamReassembler_consume_def ByteStream_read_def ByteStream_pop_output_def Let_def
      split: prod.splits if_splits)

lemma conn_step_inv:
  assumes "conn_inv S (fst cg)" and "conn_event_ok S cg e"
  shows "conn_inv S (fst (conn_step cg e))"
proof (cases cg)
  case cg: (Pair c given)
  have inv: "conn_inv S c" using assms(1) by (simp add: cg)
  then have sinv: "sender_inv S (conn_sender c)" by (auto simp: conn_inv_def conn_ok_def conn_reset_def)
  show ?thesis
  proof (cases e)
    case (Write data)
    have "conn_inv S (c\<lparr>conn_sender := TCPSender_write (conn_sender c) data\<rparr>)"
      unfolding TCPSender_write_def using inv
      by (rule stream_update_inv)
        (use write_inv_sender [OF sinv] assms(2) in
          \<open>auto simp: cg Write TCPSender_write_def ByteStream_write_def Let_def\<close>)
    then show ?thesis
      using send_segment_inv
      by (simp add: cg Write TCPConnection_write_def TCPSender_write_def case_prod_beta Let_def)
  next
    case End_input
    have "conn_inv S (c\<lparr>conn_sender := TCPSender_end_input (conn_sender c)\<rparr>)"
      unfolding TCPSender_end_input_def using inv
      by (rule stream_update_inv)
        (use end_input_inv_sender [OF sinv] assms(2) in
          \<open>auto simp: cg End_input TCPSender_end_input_def ByteStream_end_input_def\<close>)
    then show ?thesis
      using send_segment_inv
      by (simp add: cg End_input TCPConnection_end_input_stream_def TCPSender_end_input_def)
  next
    case (Time ms)
    then show ?thesis using tick_conn_inv [OF inv, of ms] by (auto simp: cg)
  next
    case (Read n)
    then show ?thesis
      using inv consume_flags [of "rcv_reassembler (conn_receiver c)" n]
      by (auto simp: cg conn_inv_def conn_ok_def conn_reset_def settled_def answered_def
          TCPReceiver_stream_out_def split: prod.splits)
  next
    case Take
    then show ?thesis
      using inv by (simp add: cg conn_inv_def conn_ok_def conn_reset_def settled_def answered_def)
  qed (use inv send_segment_inv segment_received_conn_inv destroy_inv in
      \<open>simp_all add: cg TCPConnection_connect_def\<close>)
qed

interpretation connection: step_system conn_step "conn_event_ok S" "conn_inv S \<circ> fst" for S
  by unfold_locales (simp add: conn_step_inv)

end
