(* ===== verification/Connection_Properties.thy ===== *)
theory Connection_Properties
  imports Connection_Invariant
begin

text \<open>
  What a single connection guarantees to its owner, whatever the network delivers: which states it
  can be in, that it leaves TIME-WAIT on time, and that it gives up on a silent peer.
\<close>

subsection \<open>The official states\<close>

text \<open>Four combinations of sender and receiver that have no official name: the SYN was acknowledged
  before the SYN of the peer arrived (with the outbound stream in any later phase), or the peer
  finished before it acknowledged the SYN.\<close>

definition unofficial_states :: "TCPState list" where
  "unofficial_states = map (\<lambda>(s, r). \<lparr>ts_sender = s, ts_receiver = r, ts_active = True,
       ts_linger_after_streams_finish = True\<rparr>)
     [(TCPSenderStateSummary_SYN_ACKED, TCPReceiverStateSummary_LISTEN),
      (TCPSenderStateSummary_FIN_SENT, TCPReceiverStateSummary_LISTEN),
      (TCPSenderStateSummary_FIN_ACKED, TCPReceiverStateSummary_LISTEN),
      (TCPSenderStateSummary_SYN_SENT, TCPReceiverStateSummary_FIN_RECV)]"

lemma receiver_summary:
  "\<not> in_error r \<Longrightarrow> TCPState_state_summary_receiver r =
    (if rcv_in_listen r then TCPReceiverStateSummary_LISTEN
     else if in_ended r then TCPReceiverStateSummary_FIN_RECV else TCPReceiverStateSummary_SYN_RECV)"
  by (simp add: TCPState_state_summary_receiver_def TCPReceiver_ackno_def ByteStream_observers)

lemma reset_state: "conn_reset S c \<Longrightarrow> TCPConnection_state c = TCPState_of_State RESET"
  by (simp add: conn_reset_def TCPConnection_state_def TCPState_of_def TCPConnection_active_def
      TCPState_state_summary_sender_def TCPState_state_summary_receiver_def ByteStream_observers)

lemma conn_state_eq:
  assumes "conn_ok S c"
  shows "TCPConnection_state c =
    \<lparr>ts_sender = (if snd_state (conn_sender c) = STATE.CLOSED then TCPSenderStateSummary_CLOSED
       else if snd_state (conn_sender c) = STATE.SYN_SENT then TCPSenderStateSummary_SYN_SENT
       else if snd_state (conn_sender c) = STATE.SYN_ACKED then TCPSenderStateSummary_SYN_ACKED
       else if finished (conn_sender c) then TCPSenderStateSummary_FIN_ACKED
       else TCPSenderStateSummary_FIN_SENT),
     ts_receiver = (if rcv_in_listen (conn_receiver c) then TCPReceiverStateSummary_LISTEN
       else if in_ended (conn_receiver c) then TCPReceiverStateSummary_FIN_RECV
       else TCPReceiverStateSummary_SYN_RECV),
     ts_active = conn_actived c,
     ts_linger_after_streams_finish = (conn_actived c \<and> conn_linger_after_streams_finish c)\<rparr>"
  using assms sender_summary [of S "conn_sender c"] receiver_summary [of "conn_receiver c"]
  by (simp add: conn_ok_def TCPConnection_state_def TCPState_of_def TCPConnection_active_def)

lemma conn_inv_state:
  assumes "conn_inv S c"
  shows "(\<exists>st. TCPConnection_state c = TCPState_of_State st) \<or>
    TCPConnection_state c \<in> set unofficial_states"
proof (cases "conn_reset S c")
  case True
  then show ?thesis using reset_state by blast
next
  case False
  then have ok: "conn_ok S c" and s: "settled c" "answered c" using assms by (auto simp: conn_inv_def)
  let ?s = "conn_sender c" and ?r = "conn_receiver c"
  let ?official = "\<lambda>st. TCPConnection_state c = TCPState_of_State st"
  have st: "snd_state ?s \<noteq> STATE.FINS_ACKED"
    using ok FINS_ACKED_unused by (auto simp: conn_ok_def)
  show ?thesis
  proof (cases "conn_actived c")
    case False
    then have "?official CLOSED"
      using ok unfolding conn_state_eq [OF ok] by (auto simp: conn_ok_def finished_def)
    then show ?thesis by blast
  next
    case True
    have "?official (if rcv_in_listen ?r then if snd_state ?s = STATE.CLOSED then LISTEN else SYN_SENT
        else if in_ended ?r then
          if snd_state ?s = STATE.SYN_ACKED then CLOSE_WAIT
          else if finished ?s then TIME_WAIT
          else if conn_linger_after_streams_finish c then CLOSING else LAST_ACK
        else if snd_state ?s = STATE.SYN_SENT then SYN_RCVD
          else if snd_state ?s = STATE.SYN_ACKED then ESTABLISHED
          else if finished ?s then FIN_WAIT_2 else FIN_WAIT_1)
      \<or> TCPConnection_state c \<in> set unofficial_states"
      using ok s st True unfolding conn_state_eq [OF ok]
      by (cases "snd_state ?s")
        (auto simp: conn_ok_def settled_def answered_def finished_def unofficial_states_def)
    then show ?thesis by blast
  qed
qed

text \<open>C25: the states of a connection. Over any sequence of calls of its user, which writes the stream
  \<open>S\<close>, ticks of any length and segments of any content, \<open>state()\<close> is one of the twelve official states
  of the TCP specification as \<open>TCPState\<close> renders them, or one of four combinations without a name: the
  own SYN acknowledged by a segment that came before the SYN of the peer, or a FIN of the peer before
  the acknowledgment of the own SYN.\<close>
theorem connection_state_official:
  assumes "length S < 2 ^ 64 - 2"
    and "run_ok conn_step (conn_event_ok S) (TCPConnection_init cfg rrnd srnd, []) es"
  defines "c \<equiv> fst (run_steps conn_step (TCPConnection_init cfg rrnd srnd, []) es)"
  shows "(\<exists>st. TCPConnection_state c = TCPState_of_State st) \<or>
    TCPConnection_state c \<in> set unofficial_states"
  using connection.run_inv [OF _ assms(2)] conn_inv_init [OF assms(1)] conn_inv_state
  unfolding c_def by simp

text \<open>The four nameless states do occur: here the acknowledgment of the SYN arrives alone.\<close>

theorem connection_state_official_witness:
  "let bare_ack = TCPSegment_default\<lparr>seg_header := TCPHeader_default\<lparr>th_ack := True,
         th_ackno := WrappingInt32 8, th_win := 10\<rparr>\<rparr>;
       es = [Connect, Segment bare_ack];
       cfg = TCPConfig_default\<lparr>cfg_fixed_isn := Some (WrappingInt32 7)\<rparr>;
       c = fst (run_steps conn_step (TCPConnection_init cfg 0 0, []) es)
   in ((\<exists>st. TCPConnection_state c = TCPState_of_State st) \<or>
         TCPConnection_state c \<in> set unofficial_states) \<and>
      TCPConnection_state c = hd unofficial_states"
proof -
  let ?ack = "TCPSegment_default\<lparr>seg_header := TCPHeader_default\<lparr>th_ack := True,
         th_ackno := WrappingInt32 8, th_win := 10\<rparr>\<rparr>"
  let ?cfg = "TCPConfig_default\<lparr>cfg_fixed_isn := Some (WrappingInt32 7)\<rparr>"
  let ?es = "[Connect, Segment ?ack]"
  let ?c = "fst (run_steps conn_step (TCPConnection_init ?cfg 0 0, []) ?es)"
  have "run_ok conn_step (conn_event_ok []) (TCPConnection_init ?cfg 0 0, []) ?es" by simp
  then have "(\<exists>st. TCPConnection_state ?c = TCPState_of_State st) \<or>
      TCPConnection_state ?c \<in> set unofficial_states"
    by (rule connection_state_official [rotated]) simp
  moreover have "TCPConnection_state ?c = hd unofficial_states" by code_simp
  ultimately show ?thesis unfolding Let_def by blast
qed

subsection \<open>Leaving TIME-WAIT\<close>

lemma ten_times_le: "10 * int a \<le> int b \<longleftrightarrow> 10 * a \<le> b"
  by linarith

abbreviation idle :: "TCPConnection \<Rightarrow> nat" where
  "idle c \<equiv> unat (conn_time_since_last_segment_received c)"

definition waiting :: "bytes \<Rightarrow> TCPConnection \<Rightarrow> bool" where
  "waiting S c \<longleftrightarrow> conn_ok S c \<and> conn_actived c \<and> in_ended (conn_receiver c) \<and>
     finished (conn_sender c) \<and> conn_linger_after_streams_finish c"

lemma waiting_state:
  assumes "conn_ok S c" and "TCPConnection_state c = TCPState_of_State TIME_WAIT"
  shows "waiting S c"
  using assms(2) unfolding conn_state_eq [OF assms(1)] waiting_def
  by (auto simp: assms(1) summary_defs split: if_splits)

lemma waiting_tick:
  assumes w: "waiting S c" and "idle c + unat ms < 2 ^ 31"
  obtains c' where "TCPConnection_tick c ms = Inr c'" "idle c' = idle c + unat ms"
    "conn_cfg c' = conn_cfg c" "conn_ok S c'"
    "if idle c + unat ms < 10 * unat (cfg_rt_timeout (conn_cfg c)) then waiting S c'
     else \<not> conn_actived c'"
proof -
  let ?t = "conn_ticked c ms"
  have ok: "conn_ok S c" and act: "conn_actived c" and fin: "finished (conn_sender c)"
    using w by (simp_all add: waiting_def)
  have inv: "sender_inv S (conn_sender c)" using ok by (simp add: conn_ok_def)
  have "snd_segments_outstanding (conn_sender c) = []"
    using nothing_outstanding [OF inv] fin by (simp add: finished_def)
  then have same: "snd_retransmission_count (TCPSender_tick (conn_sender c) ms)
      = snd_retransmission_count (conn_sender c)"
    by (simp add: TCPSender_tick_def Let_def)
  let ?f = "TCPConnection_fetch_segment ?t"
  have okt: "conn_ok S ?f"
    using ok tick_inv [OF inv, of ms] same fin
    by (intro fetch_ok) (auto simp: conn_ok_def conn_ticked_def tick_frame finished_def)
  have idle: "idle ?f = idle c + unat ms"
    using unat_elapsed [OF assms(2)] by (simp add: fetch_segment_eq conn_ticked_def int_add_size_eq)
  then have "sint (conn_time_since_last_segment_received ?f) = int (idle c + unat ms)"
    using sint_small [of "conn_time_since_last_segment_received ?f"] assms(2) by simp
  then have "sint (conn_time_since_last_segment_received ?f)
      \<ge> 10 * int (unat (cfg_rt_timeout (conn_cfg c))) \<longleftrightarrow>
      10 * unat (cfg_rt_timeout (conn_cfg c)) \<le> idle c + unat ms"
    by (simp only: ten_times_le)
  moreover have "in_ended (conn_receiver ?f)" "finished (conn_sender ?f)"
    "conn_linger_after_streams_finish ?f" "conn_cfg ?f = conn_cfg c" "conn_actived ?f"
    using w by (simp_all add: waiting_def fetch_segment_eq conn_ticked_def finished_def tick_frame)
  ultimately have tc: "TCPConnection_try_clean_shutdown ?f =
      (if 10 * unat (cfg_rt_timeout (conn_cfg c)) \<le> idle c + unat ms
       then ?f\<lparr>conn_actived := False\<rparr> else ?f)" and wf: "waiting S ?f"
    unfolding try_clean_shutdown_eq [OF okt] using okt by (simp_all add: waiting_def finished_def)
  have "\<not> 8 < snd_retransmission_count (conn_sender ?t)"
    using ok same by (simp add: conn_ok_def conn_ticked_def not_less)
  then have "TCPConnection_tick c ms = Inr (TCPConnection_try_clean_shutdown ?f)"
    unfolding tick_eq [OF ok act] by (simp add: Let_def)
  moreover have "idle (TCPConnection_try_clean_shutdown ?f) = idle c + unat ms"
    "conn_cfg (TCPConnection_try_clean_shutdown ?f) = conn_cfg c"
    using idle by (simp_all add: try_clean_same) (simp add: fetch_segment_eq conn_ticked_def)
  moreover have "if idle c + unat ms < 10 * unat (cfg_rt_timeout (conn_cfg c))
      then waiting S (TCPConnection_try_clean_shutdown ?f)
      else \<not> conn_actived (TCPConnection_try_clean_shutdown ?f)"
    using wf by (auto simp: tc)
  ultimately show thesis using try_clean_ok(1) [OF okt] by (intro that)
qed

lemma ticks_inactive: "\<not> conn_actived c \<Longrightarrow> run_steps conn_step (c, g) (map Time mss) = (c, g)"
  by (induction mss) (simp_all add: TCPConnection_tick_def TCPConnection_active_def)

lemma waiting_ticks:
  assumes "waiting S c" and "idle c + sum_list (map unat mss) < 2 ^ 31" and "mss \<noteq> []"
  shows "conn_actived (fst (run_steps conn_step (c, g) (map Time mss))) \<longleftrightarrow>
    idle c + sum_list (map unat mss) < 10 * unat (cfg_rt_timeout (conn_cfg c))"
  using assms
proof (induction mss arbitrary: c)
  case (Cons ms mss)
  have "idle c + unat ms < 2 ^ 31" using Cons.prems(2) by simp
  from waiting_tick [OF Cons.prems(1) this]
  obtain c' where c': "TCPConnection_tick c ms = Inr c'" "idle c' = idle c + unat ms"
    "conn_cfg c' = conn_cfg c"
    "if idle c + unat ms < 10 * unat (cfg_rt_timeout (conn_cfg c)) then waiting S c'
     else \<not> conn_actived c'" by blast
  show ?case
  proof (cases "idle c + unat ms < 10 * unat (cfg_rt_timeout (conn_cfg c))")
    case True
    then show ?thesis
      using Cons.IH [of c'] Cons.prems c' by (cases "mss = []") (auto simp: waiting_def add.assoc)
  next
    case False
    then show ?thesis using c' ticks_inactive [of c' g mss] by simp
  qed
qed simp

text \<open>C26: leaving TIME-WAIT. A connection in TIME-WAIT that receives nothing more stays active exactly
  until ten times the retransmission timeout has passed since the last segment, in however many
  ticks that time arrives. (The counter is a signed 32-bit number of milliseconds, hence the bound.)\<close>
theorem time_wait_expires:
  assumes "conn_inv S c" and "TCPConnection_state c = TCPState_of_State TIME_WAIT"
    and "idle c + sum_list (map unat mss) < 2 ^ 31" and "mss \<noteq> []"
  shows "TCPConnection_active (fst (run_steps conn_step (c, g) (map Time mss))) \<longleftrightarrow>
    idle c + sum_list (map unat mss) < 10 * unat (cfg_rt_timeout (conn_cfg c))"
proof -
  have "\<not> conn_reset S c" using assms(2) by (auto dest: reset_state)
  then have "waiting S c" using assms(1,2) waiting_state by (auto simp: conn_inv_def)
  then show ?thesis using assms(3,4) by (simp add: TCPConnection_active_def waiting_ticks)
qed

definition sample_cfg :: TCPConfig where
  "sample_cfg = TCPConfig_default\<lparr>cfg_fixed_isn := Some (WrappingInt32 7)\<rparr>"

definition sample_segment :: "u32 \<Rightarrow> bool \<Rightarrow> bool \<Rightarrow> u32 \<Rightarrow> TCPSegment" where
  "sample_segment seqno syn fin ackno =
     TCPSegment_default\<lparr>seg_header := TCPHeader_default\<lparr>th_seqno := WrappingInt32 seqno, th_syn := syn,
       th_fin := fin, th_ack := True, th_ackno := WrappingInt32 ackno, th_win := 10\<rparr>\<rparr>"

text \<open>A connection that was opened, closed by its user and closed by the peer.\<close>

definition sample_closing :: TCPConnection where
  "sample_closing = fst (run_steps conn_step (TCPConnection_init sample_cfg 0 0, [])
     [Connect, Segment (sample_segment 100 True False 8), End_input,
      Segment (sample_segment 101 False True 9)])"

lemma sample_closing_inv: "conn_inv [] sample_closing"
proof -
  have w: "bs_bytes_written (snd_stream (conn_sender (TCPConnection_segment_received
      (TCPConnection_connect (TCPConnection_init sample_cfg 0 0))
      (sample_segment 100 True False 8)))) = 0" by code_simp
  have i: "conn_inv [] (TCPConnection_init sample_cfg 0 0)" by (rule conn_inv_init) simp
  have "run_ok conn_step (conn_event_ok []) (TCPConnection_init sample_cfg 0 0, [])
      [Connect, Segment (sample_segment 100 True False 8), End_input,
       Segment (sample_segment 101 False True 9)]"
    by (simp add: w)
  from connection.run_inv [OF _ this] i show ?thesis by (simp add: sample_closing_def)
qed

theorem time_wait_expires_witness:
  "TCPConnection_state sample_closing = TCPState_of_State TIME_WAIT \<and>
   TCPConnection_active (fst (run_steps conn_step (sample_closing, []) (map Time [5000, 4999]))) \<and>
   \<not> TCPConnection_active (fst (run_steps conn_step (sample_closing, []) (map Time [5000, 5000])))"
proof -
  have v: "TCPConnection_state sample_closing = TCPState_of_State TIME_WAIT"
    "conn_time_since_last_segment_received sample_closing = 0"
    "cfg_rt_timeout (conn_cfg sample_closing) = 1000"
    by code_simp+
  show ?thesis
    using v time_wait_expires [OF sample_closing_inv v(1), of "[5000, 4999]" "[]"]
      time_wait_expires [OF sample_closing_inv v(1), of "[5000, 5000]" "[]"] by simp
qed

subsection \<open>Giving up\<close>

text \<open>A connection that waits for an acknowledgment of \<open>seg\<close>, with the timer just restarted, the
  timeout \<open>rto\<close> and \<open>n\<close> retransmissions behind it.\<close>

definition stalled :: "bytes \<Rightarrow> TCPSegment \<Rightarrow> nat \<Rightarrow> nat \<Rightarrow> TCPConnection \<Rightarrow> bool" where
  "stalled S seg rto n c \<longleftrightarrow>
     conn_ok S c \<and> conn_actived c \<and> snd_segments_out (conn_sender c) = [] \<and>
     snd_alarm_run (conn_sender c) \<and> snd_window_size (conn_sender c) \<noteq> 0 \<and>
     snd_remaining_time (conn_sender c) = 0 \<and>
     unat (snd_retransmission_timeout (conn_sender c)) = rto \<and>
     unat (snd_retransmission_count (conn_sender c)) = n \<and>
     (\<exists>k q. snd_segments_outstanding (conn_sender c) = (k, seg) # q)"

lemma stalled_ticked:
  assumes st: "stalled S seg rto n c" and "rto \<le> unat ms" and "unat ms < 2 ^ 32" and "n \<le> 8"
    and "rto * 2 < 2 ^ 32"
  shows "conn_ticked c ms = c\<lparr>conn_time_since_last_segment_received :=
      int_add_size (conn_time_since_last_segment_received c) ms,
    conn_sender := (conn_sender c)\<lparr>snd_remaining_time := 0,
      snd_retransmission_timeout := snd_retransmission_timeout (conn_sender c) * 2,
      snd_segments_out := [seg],
      snd_retransmission_count := snd_retransmission_count (conn_sender c) + 1\<rparr>\<rparr>"
    and "unat (snd_retransmission_count (conn_sender c) + 1) = n + 1"
    and "unat (snd_retransmission_timeout (conn_sender c) * 2) = rto * 2"
proof -
  let ?s = "conn_sender c"
  obtain k q where o: "snd_segments_outstanding ?s = (k, seg) # q" using st by (auto simp: stalled_def)
  have a: "snd_alarm_run ?s" "snd_window_size ?s \<noteq> 0" "snd_remaining_time ?s = 0"
    "unat (snd_retransmission_timeout ?s) = rto" "unat (snd_retransmission_count ?s) = n"
    "snd_segments_out ?s = []" using st by (simp_all add: stalled_def)
  show "conn_ticked c ms = c\<lparr>conn_time_since_last_segment_received :=
      int_add_size (conn_time_since_last_segment_received c) ms,
    conn_sender := ?s\<lparr>snd_remaining_time := 0,
      snd_retransmission_timeout := snd_retransmission_timeout ?s * 2,
      snd_segments_out := [seg], snd_retransmission_count := snd_retransmission_count ?s + 1\<rparr>\<rparr>"
    using tick_expired [OF a(1) o a(2,3), of ms] assms(2,3) a by (simp add: conn_ticked_def)
  show "unat (snd_retransmission_count ?s + 1) = n + 1"
    using unat_add_no_wrap [of "snd_retransmission_count ?s" 1] a(5) assms(4) by simp
  show "unat (snd_retransmission_timeout ?s * 2) = rto * 2"
    using unat_mult_lem [of "snd_retransmission_timeout ?s" 2] a(4) assms(5) by simp
qed

lemma stalled_retransmits:
  assumes st: "stalled S seg rto n c" and "rto \<le> unat ms" "unat ms < 2 ^ 32" "n < 8" "rto * 2 < 2 ^ 32"
  obtains c' where "TCPConnection_tick c ms = Inr c'" "stalled S seg (rto * 2) (n + 1) c'"
    "conn_segments_out c' = conn_segments_out c @ [fetch_stamp (conn_receiver c) seg]"
    "conn_receiver c' = conn_receiver c"
    "TCPSender_next_seqno (conn_sender c') = TCPSender_next_seqno (conn_sender c)"
proof -
  let ?s = "conn_sender c" and ?t = "conn_ticked c ms"
  have n8: "n \<le> 8" using assms(4) by simp
  note t = stalled_ticked [OF assms(1-3) n8 assms(5)]
  have ok: "conn_ok S c" and act: "conn_actived c" using st by (simp_all add: stalled_def)
  have inv: "sender_inv S ?s" using ok by (simp add: conn_ok_def)
  have c8: "\<not> 8 < snd_retransmission_count ?s + 1" "snd_retransmission_count ?s + 1 \<le> 8"
    using t(2) assms(4) by (simp_all add: word_less_nat_alt word_le_nat_alt)
  have busy: "\<not> finished ?s"
    using st nothing_outstanding [OF inv] by (auto simp: stalled_def finished_def)
  have closed: "snd_state ?s \<noteq> STATE.CLOSED"
    using st nothing_outstanding [OF inv] closed_in_flight [OF inv] by (auto simp: stalled_def)
  let ?f = "TCPConnection_fetch_segment ?t"
  have "sender_inv S (conn_sender ?t)" using tick_inv [OF inv] by (simp add: conn_ticked_def)
  then have "conn_ok S ?t"
    using ok closed c8(2) busy act unfolding t(1) by (auto simp: conn_ok_def finished_def)
  then have okf: "conn_ok S ?f" by (rule fetch_ok)
  let ?c' = "TCPConnection_try_clean_shutdown ?f"
  have act': "conn_actived ?c'"
    unfolding try_clean_shutdown_eq [OF okf] using busy act
    by (auto simp: fetch_segment_eq t(1) finished_def)
  have "TCPConnection_tick c ms = Inr ?c'"
    unfolding tick_eq [OF ok act] using c8(1) by (simp add: Let_def t(1))
  moreover have "stalled S seg (rto * 2) (n + 1) ?c'"
    unfolding stalled_def try_clean_same using st try_clean_ok(1) [OF okf] act' t(2,3)
    by (simp add: fetch_segment_eq t(1) stalled_def)
  ultimately show thesis
    by (rule that) (simp_all add: try_clean_same fetch_segment_eq t(1) TCPSender_next_seqno_def)
qed

text \<open>The reset that closes the connection.\<close>

definition rst_segment :: "TCPConnection \<Rightarrow> TCPSegment \<Rightarrow> bool" where
  "rst_segment c seg \<longleftrightarrow> th_rst (seg_header seg) \<and> Buffer_str (seg_payload seg) = [] \<and>
     th_seqno (seg_header seg) = TCPSender_next_seqno (conn_sender c) \<and>
     \<not> th_syn (seg_header seg) \<and> \<not> th_fin (seg_header seg) \<and>
     (\<forall>ackno. TCPReceiver_ackno (conn_receiver c) = Some ackno \<longrightarrow>
        th_ack (seg_header seg) \<and> th_ackno (seg_header seg) = ackno)"

lemma send_rst_eq:
  assumes "snd_segments_out (conn_sender c) = []"
  shows "\<exists>rst. rst_segment c rst \<and> TCPConnection_send_rst_segment c =
    c\<lparr>conn_segments_out := conn_segments_out c @ [rst], conn_actived := False\<rparr>"
proof (intro exI conjI)
  let ?rst = "last (conn_segments_out (TCPConnection_send_rst_segment c))"
  show "rst_segment c ?rst"
    using assms
    by (cases "TCPReceiver_ackno (conn_receiver c)")
      (simp_all add: TCPConnection_send_rst_segment_def TCPSender_send_empty_segment_def Let_def
        rst_segment_def TCPSegment_default_def TCPHeader_default_def TCPSender_next_seqno_def)
  have "conn_sender (TCPConnection_send_rst_segment c) = conn_sender c"
    by (simp add: rst_sender assms)
  then show "TCPConnection_send_rst_segment c =
      c\<lparr>conn_segments_out := conn_segments_out c @ [?rst], conn_actived := False\<rparr>"
    by (intro TCPConnection.equality) (simp_all add: TCPConnection_send_rst_segment_def Let_def)
qed

lemma kill_segments_out:
  "conn_segments_out (TCPConnection_kill_connection c) = conn_segments_out c"
  by (simp add: TCPConnection_kill_connection_def Let_def)

lemma stalled_gives_up:
  assumes st: "stalled S seg rto 8 c" and "rto \<le> unat ms" "unat ms < 2 ^ 32" "rto * 2 < 2 ^ 32"
  obtains c' rst where "TCPConnection_tick c ms = Inr c'" "conn_reset S c'"
    "conn_segments_out c' = conn_segments_out c @ [rst]" "rst_segment c rst"
proof -
  let ?t = "conn_ticked c ms"
  let ?r = "?t\<lparr>conn_sender := (conn_sender ?t)\<lparr>snd_segments_out := []\<rparr>\<rparr>"
  have n8: "(8 :: nat) \<le> 8" by simp
  note t = stalled_ticked [OF assms(1-3) n8 assms(4)]
  have ok: "conn_ok S c" and act: "conn_actived c" using st by (simp_all add: stalled_def)
  have inv: "sender_inv S (conn_sender ?t)"
    using ok tick_inv by (simp add: conn_ok_def conn_ticked_def)
  obtain rst where rst: "rst_segment ?r rst" "TCPConnection_send_rst_segment ?r =
      ?r\<lparr>conn_segments_out := conn_segments_out ?r @ [rst], conn_actived := False\<rparr>"
    using send_rst_eq [of ?r] by auto
  have "TCPConnection_tick c ms
      = Inr (TCPConnection_kill_connection (TCPConnection_send_rst_segment ?r))"
    unfolding tick_eq [OF ok act] using t(2) by (simp add: Let_def t(1) word_less_nat_alt)
  moreover have "conn_reset S (TCPConnection_kill_connection (TCPConnection_send_rst_segment ?r))"
    using sender_inv_out_subset [OF inv, of "[]"] by (intro kill_reset) (simp add: rst(2))
  moreover have "rst_segment c rst"
    using rst(1) by (simp add: rst_segment_def t(1) TCPSender_next_seqno_def)
  moreover have "conn_segments_out (TCPConnection_kill_connection (TCPConnection_send_rst_segment ?r))
      = conn_segments_out c @ [rst]"
    unfolding kill_segments_out rst(2) by (simp add: conn_ticked_def)
  ultimately show thesis by (intro that)
qed

lemma stalled_run:
  assumes "stalled S seg rto n c" and "n + length mss = 9" and "rto * 2 ^ length mss < 2 ^ 32"
    and "\<forall>j < length mss. rto * 2 ^ j \<le> unat (mss ! j) \<and> unat (mss ! j) < 2 ^ 32" and "mss \<noteq> []"
  shows "\<exists>rst. conn_reset S (fst (run_steps conn_step (c, g) (map Time mss))) \<and> rst_segment c rst \<and>
    conn_segments_out (fst (run_steps conn_step (c, g) (map Time mss))) =
      conn_segments_out c @ replicate (length mss - 1) (fetch_stamp (conn_receiver c) seg) @ [rst]"
  using assms
proof (induction mss arbitrary: c n rto)
  case (Cons ms mss)
  have ms: "rto \<le> unat ms" "unat ms < 2 ^ 32" using Cons.prems(4) [rule_format, of 0] by simp_all
  have small: "rto * 2 * 2 ^ length mss < 2 ^ 32" using Cons.prems(3) by (simp add: mult.assoc)
  then have r2: "rto * 2 < 2 ^ 32" by (rule le_less_trans [rotated]) simp
  show ?case
  proof (cases "mss = []")
    case True
    then have "stalled S seg rto 8 c" using Cons.prems(1,2) by simp
    then obtain c' rst where "TCPConnection_tick c ms = Inr c'" "conn_reset S c'"
      "conn_segments_out c' = conn_segments_out c @ [rst]" "rst_segment c rst"
      using stalled_gives_up [OF _ ms r2] by blast
    then show ?thesis using True by auto
  next
    case False
    then have "n < 8" using Cons.prems(2) by (cases mss) simp_all
    then obtain c' where c': "TCPConnection_tick c ms = Inr c'" "stalled S seg (rto * 2) (n + 1) c'"
      "conn_segments_out c' = conn_segments_out c @ [fetch_stamp (conn_receiver c) seg]"
      "conn_receiver c' = conn_receiver c"
      "TCPSender_next_seqno (conn_sender c') = TCPSender_next_seqno (conn_sender c)"
      using stalled_retransmits [OF Cons.prems(1) ms _ r2] by blast
    have step: "run_steps conn_step (c, g) (map Time (ms # mss)) = run_steps conn_step (c', g) (map Time mss)"
      using c'(1) by simp
    have "\<forall>j < length mss. rto * 2 * 2 ^ j \<le> unat (mss ! j) \<and> unat (mss ! j) < 2 ^ 32"
    proof (intro allI impI)
      fix j assume "j < length mss"
      then show "rto * 2 * 2 ^ j \<le> unat (mss ! j) \<and> unat (mss ! j) < 2 ^ 32"
        using Cons.prems(4) [rule_format, of "Suc j"] by (simp add: mult.assoc)
    qed
    moreover have "n + 1 + length mss = 9" using Cons.prems(2) by simp
    ultimately have ih: "\<exists>rst. conn_reset S (fst (run_steps conn_step (c', g) (map Time mss))) \<and>
        rst_segment c' rst \<and> conn_segments_out (fst (run_steps conn_step (c', g) (map Time mss))) =
        conn_segments_out c' @ replicate (length mss - 1) (fetch_stamp (conn_receiver c') seg) @ [rst]"
      using Cons.IH [OF c'(2)] small False by blast
    have "rst_segment c' = rst_segment c" using c'(4,5) by (simp add: rst_segment_def fun_eq_iff)
    moreover have "length mss = Suc (length mss - 1)" using False by (cases mss) simp_all
    then have "replicate (length mss) x = x # replicate (length mss - 1) x" for x :: TCPSegment
      by (metis replicate_Suc)
    ultimately show ?thesis using ih unfolding step c'(3,4) by simp
  qed
qed simp

text \<open>C27: giving up on a silent peer. A connection waits for the acknowledgment of its oldest segment
  \<open>seg\<close>, which was not retransmitted yet, and nine timeouts in a row pass, each at least as long as
  the timeout then in force (which doubles every time; the last product fits 32 bits). The first
  eight each send \<open>seg\<close> again, with the current acknowledgment. The ninth sends a single empty
  segment with the RST flag, the next sequence number and the current acknowledgment, after which
  the connection is in state RESET: inactive, with the error flag of both streams set.\<close>
theorem silent_peer_reset:
  assumes "conn_inv S c" and "TCPConnection_active c" and "snd_segments_out (conn_sender c) = []"
    and "snd_alarm_run (conn_sender c)" and "snd_window_size (conn_sender c) \<noteq> 0"
    and "snd_remaining_time (conn_sender c) = 0" and "snd_retransmission_count (conn_sender c) = 0"
    and "snd_segments_outstanding (conn_sender c) = (k, seg) # q"
    and "rto = unat (snd_retransmission_timeout (conn_sender c))" and "rto * 2 ^ 9 < 2 ^ 32"
    and "length mss = 9" and "\<forall>j < 9. rto * 2 ^ j \<le> unat (mss ! j) \<and> unat (mss ! j) < 2 ^ 32"
    and c'_def: "c' = fst (run_steps conn_step (c, given) (map Time mss))"
  shows "TCPConnection_state c' = TCPState_of_State RESET \<and> (\<exists>rst. rst_segment c rst \<and>
    conn_segments_out c' = conn_segments_out c
      @ replicate 8 (fetch_stamp (conn_receiver c) seg) @ [rst])"
proof -
  have "conn_ok S c"
    using assms(1,2) by (auto simp: conn_inv_def conn_reset_def TCPConnection_active_def)
  then have "stalled S seg rto 0 c"
    using assms(2-9) by (simp add: stalled_def TCPConnection_active_def)
  from stalled_run [OF this, of mss given] assms(10-12)
  have "\<exists>rst. conn_reset S c' \<and> rst_segment c rst \<and> conn_segments_out c' = conn_segments_out c
      @ replicate 8 (fetch_stamp (conn_receiver c) seg) @ [rst]"
    by (force simp: c'_def)
  then show ?thesis using reset_state by blast
qed

theorem silent_peer_reset_witness:
  "let c = TCPConnection_connect (TCPConnection_init sample_cfg 0 0);
       c' = fst (run_steps conn_step (c, []) (map Time (replicate 9 256000)))
   in TCPConnection_state c' = TCPState_of_State RESET \<and> length (conn_segments_out c') = 10"
proof -
  let ?c = "TCPConnection_connect (TCPConnection_init sample_cfg 0 0)"
  have inv: "conn_inv [] ?c"
    unfolding TCPConnection_connect_def by (intro send_segment_inv conn_inv_init) simp
  have v: "TCPConnection_active ?c" "snd_segments_out (conn_sender ?c) = []"
    "snd_alarm_run (conn_sender ?c)" "snd_window_size (conn_sender ?c) \<noteq> 0"
    "snd_remaining_time (conn_sender ?c) = 0" "snd_retransmission_count (conn_sender ?c) = 0"
    "length (snd_segments_outstanding (conn_sender ?c)) = 1"
    "snd_retransmission_timeout (conn_sender ?c) = 1000" "length (conn_segments_out ?c) = 1"
    by code_simp+
  from v(7) obtain k seg where o: "snd_segments_outstanding (conn_sender ?c) = [(k, seg)]"
    by (cases "snd_segments_outstanding (conn_sender ?c)") auto
  have "\<forall>j < (9 :: nat). 1000 * 2 ^ j \<le> unat (replicate 9 (256000 :: u64) ! j) \<and>
      unat (replicate 9 (256000 :: u64) ! j) < 2 ^ 32"
  proof (intro allI impI)
    fix j :: nat assume "j < 9"
    moreover from this have "(2 :: nat) ^ j \<le> 2 ^ 8" by (intro power_increasing) simp_all
    ultimately show "1000 * 2 ^ j \<le> unat (replicate 9 (256000 :: u64) ! j) \<and>
      unat (replicate 9 (256000 :: u64) ! j) < 2 ^ 32" by simp
  qed
  with silent_peer_reset [OF inv v(1-6) o refl _ _ _ refl, of "replicate 9 256000" "[]"] v(8,9)
  show ?thesis by (auto simp: Let_def)
qed

end
