(* ===== verification/Reliable_Delivery.thy ===== *)
theory Reliable_Delivery
  imports Sender_Properties
begin

text \<open>
  A sender and a receiver joined by an unreliable network. The network keeps every segment and
  every acknowledgment ever transmitted and may deliver any of them at any time, any number of
  times or never, so loss, duplication, delay and reordering are all there. The relation
  \<open>link_step\<close> has one rule for each thing that can happen; reachability is its reflexive transitive
  closure and the results are invariants proved by rule induction.
\<close>

record link =
  lk_sender :: TCPSender
  lk_receiver :: TCPReceiver
  lk_segments :: "TCPSegment set"
  lk_acks :: "(WrappingInt32 \<times> u16) set"
  lk_given :: bytes

text \<open>The connection that owns the sender fills in the acknowledgment fields of a segment before it
  is transmitted.\<close>

definition stamp :: "bool \<Rightarrow> WrappingInt32 \<Rightarrow> u16 \<Rightarrow> TCPSegment \<Rightarrow> TCPSegment" where
  "stamp ack ackno win seg =
     seg\<lparr>seg_header := (seg_header seg)\<lparr>th_ack := ack, th_ackno := ackno, th_win := win\<rparr>\<rparr>"

fun local_event :: "sender_event \<Rightarrow> bool" where
  "local_event (Ack ackno win) = False"
| "local_event Transmit = False"
| "local_event e = True"

inductive link_step :: "bytes \<Rightarrow> link \<Rightarrow> link \<Rightarrow> bool" for S where
  local: "local_event e \<Longrightarrow> sender_event_ok S (lk_sender l) e \<Longrightarrow>
    link_step S l (l\<lparr>lk_sender := sender_step (lk_sender l) e\<rparr>)"
| transmit: "snd_segments_out (lk_sender l) = seg # rest \<Longrightarrow>
    link_step S l (l\<lparr>lk_sender := (lk_sender l)\<lparr>snd_segments_out := rest\<rparr>,
      lk_segments := insert (stamp ack ackno win seg) (lk_segments l)\<rparr>)"
| deliver: "seg \<in> lk_segments l \<Longrightarrow>
    link_step S l (l\<lparr>lk_receiver := TCPReceiver_segment_received (lk_receiver l) seg\<rparr>)"
| acknowledge: "TCPReceiver_ackno (lk_receiver l) = Some ackno \<Longrightarrow>
    link_step S l (l\<lparr>lk_acks := insert (ackno, win) (lk_acks l)\<rparr>)"
| deliver_ack: "(ackno, win) \<in> lk_acks l \<Longrightarrow>
    link_step S l (l\<lparr>lk_sender := TCPSender_ack_received (lk_sender l) ackno win\<rparr>)"
| read: "StreamReassembler_consume (rcv_reassembler (lk_receiver l)) n = (re, d) \<Longrightarrow>
    link_step S l (l\<lparr>lk_receiver := (lk_receiver l)\<lparr>rcv_reassembler := re\<rparr>,
      lk_given := lk_given l @ d\<rparr>)"

definition link_init :: "TCPSender \<Rightarrow> TCPReceiver \<Rightarrow> link" where
  "link_init s r = \<lparr>lk_sender = s, lk_receiver = r, lk_segments = {}, lk_acks = {}, lk_given = []\<rparr>"

subsection \<open>The invariant\<close>

abbreviation first_unacked :: "TCPSender \<Rightarrow> nat" where
  "first_unacked s \<equiv> next_abs s - in_flight s"

definition ack_nat :: "TCPReceiver \<Rightarrow> nat" where
  "ack_nat r = (if rcv_in_listen r then 0 else unat (written r) + 1
     + (if ByteStream_input_ended (TCPReceiver_stream_out r) then 1 else 0))"

definition link_inv :: "bytes \<Rightarrow> WrappingInt32 \<Rightarrow> link \<Rightarrow> bool" where
  "link_inv S i l \<longleftrightarrow>
     length S < 2 ^ 31 - 2 \<and> sender_inv S (lk_sender l) \<and> snd_isn (lk_sender l) = i \<and>
     receiver_run_inv S i (lk_receiver l, lk_given l) \<and>
     (\<forall>seg\<in>lk_segments l. \<exists>k. segment_at S i k seg) \<and>
     (\<forall>(a, w)\<in>lk_acks l. \<exists>k \<le> ack_nat (lk_receiver l). a = wrap (of_nat k) i) \<and>
     first_unacked (lk_sender l) \<le> ack_nat (lk_receiver l)"

lemma stamp_segment_at [simp]: "segment_at S i k (stamp a b c seg) = segment_at S i k seg"
  by (simp add: stamp_def segment_at_def)

lemma ack_nat_abs_ack:
  assumes "receiver_inv S i r" and "\<not> rcv_in_listen r" and "length S < 2 ^ 31 - 2"
  shows "abs_ack r = of_nat (ack_nat r)" and "ack_nat r \<le> length S + 2"
proof -
  show "abs_ack r = of_nat (ack_nat r)" using assms(2) by (simp add: abs_ack_def ack_nat_def)
  show "ack_nat r \<le> length S + 2"
    using receiver_inv_observed(2) [OF assms(1) refl] by (simp add: ack_nat_def)
qed

lemma push_ended_mono:
  assumes inv: "reassembler_inv S r" and h: "honest_push S data index eof"
    and e: "ByteStream_input_ended (sr_output r)"
  shows "ByteStream_input_ended (sr_output (StreamReassembler_push_substring r data index eof))"
proof -
  let ?r' = "StreamReassembler_push_substring r data index eof"
  have inv': "reassembler_inv S ?r'" using push_spec [OF inv h] by (simp add: pushed_ok_def)
  have L: "unat (sr_expected r) = length S" using inv e by (rule ended_expected)
  have "unat (sr_expected ?r') = length S"
    using push_expected_mono [OF inv h] inv' L by (simp add: reassembler_inv_def out_ok_def)
  then have "sr_expected ?r' = sr_expected r" using L by (simp add: word_unat_eq_iff)
  also have "\<dots> = sr_eof_index ?r'" using ended_eof [OF inv h e] by (simp add: push_eof_index)
  finally show ?thesis using inv' by (simp add: reassembler_inv_def)
qed

lemma ack_nat_segment_mono:
  assumes "receiver_inv S i r" and "segment_at S i k seg" and "near k (written r)"
  shows "ack_nat r \<le> ack_nat (TCPReceiver_segment_received r seg)"
proof -
  let ?r' = "TCPReceiver_segment_received r seg"
  have "ByteStream_input_ended (TCPReceiver_stream_out ?r')"
    if "ByteStream_input_ended (TCPReceiver_stream_out r)"
    using that push_ended_mono [of S "rcv_reassembler r"] assms(1,2)
    by (auto simp: segment_received_cases [OF assms] TCPReceiver_stream_out_def receiver_inv_def
        segment_at_def)
  moreover have "rcv_in_listen ?r' \<Longrightarrow> rcv_in_listen r"
    by (auto simp: segment_received_cases [OF assms] split: if_splits)
  ultimately show ?thesis
    using segment_received_written_mono [OF assms] by (auto simp: ack_nat_def)
qed

lemma near_small:
  assumes "receiver_inv S i r" and "segment_at S i k seg" and "length S < 2 ^ 31 - 2"
  shows "near k (written r)"
  using receiver_inv_observed(2) [OF assms(1) refl] assms(2,3) by (simp add: near_def segment_at_def)

lemma link_inv_init:
  assumes "length S < 2 ^ 31 - 2" and "s = TCPSender_init scap rto isn srnd"
  shows "link_inv S (snd_isn s) (link_init s (TCPReceiver_init rcap rrnd))"
proof -
  have len: "length S < 2 ^ 64 - 2" using assms(1) by simp
  have "receiver_run_inv S (snd_isn s) (TCPReceiver_init rcap rrnd, [])"
    using receiver_inv_init [OF len, of "snd_isn s" rcap rrnd]
    by (simp add: TCPReceiver_init_def TCPReceiver_stream_out_def StreamReassembler_init_def
        ByteStream_init_def)
  then show ?thesis
    using assms(1) sender_inv_init [OF len, of scap rto isn srnd]
    by (simp add: link_inv_def link_init_def assms(2)) (simp add: TCPSender_init_def)
qed

text \<open>Steps that only concern the sender.\<close>

lemma local_first_unacked:
  assumes "sender_inv S s" and "local_event e"
  shows "first_unacked (sender_step s e) = first_unacked s" and "snd_isn (sender_step s e) = snd_isn s"
proof -
  have z: "first_unacked s = 0" if "snd_state s = CLOSED" using that assms(1) by (simp add: sender_inv_def)
  have fw: "first_unacked (TCPSender_fill_window s) = first_unacked s \<and>
      snd_isn (TCPSender_fill_window s) = snd_isn s"
  proof (cases "snd_state s = CLOSED")
    case True
    then show ?thesis
      using z by (simp add: TCPSender_fill_window_def TCPSender_send_syn_segment_def Let_def)
  next
    case False
    then show ?thesis
      using fill_window_extends [OF False] fill_loop_spec [OF assms(1)]
      by (simp add: extends_def TCPSender_fill_window_def Let_def)
  qed
  have tk: "snd_next_seqno (TCPSender_tick s ms) = snd_next_seqno s"
    "snd_bytes_in_flight (TCPSender_tick s ms) = snd_bytes_in_flight s"
    "snd_isn (TCPSender_tick s ms) = snd_isn s" for ms
    by (simp_all add: TCPSender_tick_def Let_def split: list.splits)
  show "first_unacked (sender_step s e) = first_unacked s" and "snd_isn (sender_step s e) = snd_isn s"
    using assms(2) fw tk by (cases e; simp add: TCPSender_write_def TCPSender_end_input_def
        TCPSender_send_empty_segment_def Let_def)+
qed

text \<open>An acknowledgment moves the first unacknowledged number at most to the one it carries.\<close>

lemma ack_first_unacked:
  assumes inv: "sender_inv S s" and len: "length S < 2 ^ 31 - 2" and k: "k \<le> length S + 2"
  shows "first_unacked (TCPSender_ack_received s (wrap (of_nat k) (snd_isn s)) win)
      \<le> max (first_unacked s) k"
    and "snd_isn (TCPSender_ack_received s (wrap (of_nat k) (snd_isn s)) win) = snd_isn s"
proof -
  let ?r = "of_nat k :: u64" and ?a = "wrap (of_nat k) (snd_isn s)"
  let ?w = "s\<lparr>snd_window_size := ucast win, snd_retransmission_count := 0\<rparr>"
  have u: "unat ?r = k" using k len by (intro unat_of_nat_u64) simp
  have "bytes_sent s \<le> length S" using inv by (simp add: sender_inv_def stream_ok_def out_ok_def)
  then have r: "?r = unwrap ?a (snd_isn s) (ByteStream_bytes_read (snd_stream s))"
    using k len by (intro unwrap_wrap [symmetric]) (simp_all add: u ByteStream_bytes_read_def)
  show "first_unacked (TCPSender_ack_received s ?a win) \<le> max (first_unacked s) k"
    and "snd_isn (TCPSender_ack_received s ?a win) = snd_isn s"
  proof (atomize (full), cases "?r > snd_next_seqno s \<or> ?r < snd_next_seqno s - snd_bytes_in_flight s")
    case True
    show "first_unacked (TCPSender_ack_received s ?a win) \<le> max (first_unacked s) k \<and>
      snd_isn (TCPSender_ack_received s ?a win) = snd_isn s"
      unfolding ack_received_ignored [OF r True] by simp
  next
    case False
    define s1 where "s1 = ack_loop ?r (snd_segments_outstanding s) ?w"
    define s2 where "s2 = (if snd_state s = SYN_SENT \<and> snd_bytes_in_flight s1 < snd_next_seqno s
      then s1\<lparr>snd_state := SYN_ACKED\<rparr> else s1)"
    have so: "state_ok S s (snd_state s)" using inv by (simp add: sender_inv_def)
    have c: "chain S (snd_isn ?w) (first_unacked s) (snd_segments_outstanding s) (next_abs ?w)"
      using inv by (simp add: sender_inv_def)
    have f: "in_flight ?w = next_abs ?w - first_unacked s" using state_ok_in_flight [OF so] by simp
    obtain b where b: "b \<le> max (first_unacked s) (unat ?r)" "in_flight s1 = next_abs s - b"
      "chain S (snd_isn s) b (snd_segments_outstanding s1) (next_abs s)"
      using ack_loop_bounds [OF c f s1_def] by auto
    then have fu: "first_unacked s2 = b" "snd_isn s2 = snd_isn s"
      using chain_le [OF b(3)] by (simp_all add: s2_def s1_def ack_loop_frame)
    have inv2: "sender_inv S s2" using inv s1_def s2_def by (rule ack_popped_inv)
    have "TCPSender_ack_received s ?a win
        = (if snd_state s2 = SYN_ACKED then TCPSender_fill_window s2 else s2)"
      by (rule ack_received_eq [OF r False s1_def s2_def])
    then show "first_unacked (TCPSender_ack_received s ?a win) \<le> max (first_unacked s) k \<and>
      snd_isn (TCPSender_ack_received s ?a win) = snd_isn s"
      using local_first_unacked [OF inv2, of Fill_window] fu b(1) u by (simp split: if_split)
  qed
qed

lemma link_inv_receiver:
  assumes inv: "link_inv S i l" and r: "receiver_run_inv S i (r, g)"
    and le: "ack_nat (lk_receiver l) \<le> ack_nat r"
  shows "link_inv S i (l\<lparr>lk_receiver := r, lk_given := g\<rparr>)"
proof -
  have "\<exists>k \<le> ack_nat r. a = wrap (of_nat k) i" if "(a, w) \<in> lk_acks l" for a w
  proof -
    from inv that obtain k where "k \<le> ack_nat (lk_receiver l)" "a = wrap (of_nat k) i"
      unfolding link_inv_def by blast
    with le show ?thesis by (intro exI [of _ k]) simp
  qed
  moreover have "first_unacked (lk_sender l) \<le> ack_nat r"
    using inv le by (simp add: link_inv_def)
  ultimately show ?thesis using inv r by (auto simp: link_inv_def)
qed

lemma link_step_inv:
  assumes "link_step S l l'" and "link_inv S i l"
  shows "link_inv S i l'"
  using assms
proof (induction rule: link_step.induct)
  case (local e l)
  then show ?case
    using sender_step_inv [of S "lk_sender l" e] local_first_unacked [of S "lk_sender l" e]
    by (simp add: link_inv_def)
next
  case (transmit l seg rest ack ackno win)
  have "\<exists>k. segment_at S i k seg"
    using transmit by (auto simp: link_inv_def sender_inv_def own_segment_def)
  moreover have "sender_inv S ((lk_sender l)\<lparr>snd_segments_out := rest\<rparr>)"
    using transmit by (intro sender_inv_out_subset) (auto simp: link_inv_def)
  ultimately show ?case using transmit by (auto simp: link_inv_def)
next
  case (deliver seg l)
  let ?r' = "TCPReceiver_segment_received (lk_receiver l) seg"
  obtain k where seg: "segment_at S i k seg" and inv: "receiver_inv S i (lk_receiver l)"
    and len: "length S < 2 ^ 31 - 2"
    using deliver by (auto simp: link_inv_def)
  note near = near_small [OF inv seg len]
  have "receiver_run_inv S i (receiver_step (lk_receiver l, lk_given l) (Segment_arrives seg))"
    using deliver seg near by (intro receiver_step_inv) (auto simp: link_inv_def)
  then have "receiver_run_inv S i (?r', lk_given l)" by (simp only: receiver_step.simps)
  moreover have "ack_nat (lk_receiver l) \<le> ack_nat ?r'" by (rule ack_nat_segment_mono [OF inv seg near])
  ultimately have "link_inv S i (l\<lparr>lk_receiver := ?r', lk_given := lk_given l\<rparr>)"
    by (rule link_inv_receiver [OF deliver(2)])
  then show ?case by simp
next
  case (acknowledge l ackno win)
  have inv: "receiver_inv S i (lk_receiver l)" and len: "length S < 2 ^ 31 - 2"
    using acknowledge by (simp_all add: link_inv_def)
  have "\<not> rcv_in_listen (lk_receiver l)" and "ackno = wrap (abs_ack (lk_receiver l)) i"
    using acknowledge(1) inv by (auto simp: TCPReceiver_ackno_def receiver_inv_def split: if_splits)
  then have "ackno = wrap (of_nat (ack_nat (lk_receiver l))) i"
    using ack_nat_abs_ack(1) [OF inv _ len] by simp
  then show ?case using acknowledge(2) by (auto simp: link_inv_def)
next
  case (deliver_ack ackno win l)
  have inv: "sender_inv S (lk_sender l)" and i: "snd_isn (lk_sender l) = i"
    and len: "length S < 2 ^ 31 - 2" and rinv: "receiver_inv S i (lk_receiver l)"
    using deliver_ack(2) by (simp_all add: link_inv_def)
  obtain k where k: "k \<le> ack_nat (lk_receiver l)" "ackno = wrap (of_nat k) i"
    using deliver_ack by (auto simp: link_inv_def)
  have "ack_nat (lk_receiver l) \<le> length S + 2"
    using ack_nat_abs_ack(2) [OF rinv _ len] by (cases "rcv_in_listen (lk_receiver l)")
      (simp_all add: ack_nat_def)
  then have "k \<le> length S + 2" using k(1) by simp
  note ack = ack_first_unacked [OF inv len this, of win, unfolded i, folded k(2)]
  have "first_unacked (lk_sender l) \<le> ack_nat (lk_receiver l)"
    using deliver_ack(2) by (simp add: link_inv_def)
  then have "first_unacked (TCPSender_ack_received (lk_sender l) ackno win) \<le> ack_nat (lk_receiver l)"
    using ack(1) k(1) by linarith
  then show ?case
    using deliver_ack(2) ack(2) ack_received_inv [OF inv, of ackno win] by (simp add: link_inv_def)
next
  case (read l n re d)
  let ?r' = "(lk_receiver l)\<lparr>rcv_reassembler := re\<rparr>"
  have inv: "reassembler_inv S (rcv_reassembler (lk_receiver l))"
    using read(2) by (simp add: link_inv_def receiver_inv_def)
  have "receiver_run_inv S i (receiver_step (lk_receiver l, lk_given l) (App_reads n))"
    using read(2) by (intro receiver_step_inv) (simp_all add: link_inv_def)
  then have "receiver_run_inv S i (?r', lk_given l @ d)" by (simp add: read(1))
  moreover have "ack_nat ?r' = ack_nat (lk_receiver l)"
  proof -
    have "written ?r' = written (lk_receiver l)"
      using written_expected [OF inv] written_expected [of S ?r'] consume_expected [OF read(1)]
        consume_spec(1) [OF inv read(1)] by simp
    moreover have "ByteStream_input_ended (sr_output re)
        = ByteStream_input_ended (sr_output (rcv_reassembler (lk_receiver l)))"
      using read(1) by (auto simp: StreamReassembler_consume_def ByteStream_read_def
          ByteStream_pop_output_def ByteStream_input_ended_def Let_def split: prod.splits if_splits)
    ultimately show ?thesis by (simp add: ack_nat_def TCPReceiver_stream_out_def)
  qed
  ultimately show ?case using link_inv_receiver [OF read(2), of ?r' "lk_given l @ d"] by simp
qed

lemma link_reachable_inv:
  assumes "(link_step S)\<^sup>*\<^sup>* l l'" and "link_inv S i l"
  shows "link_inv S i l'"
  using assms by (induction rule: rtranclp_induct) (auto intro: link_step_inv)

text \<open>C2: reliable delivery. An application writes the stream \<open>S\<close> (shorter than \<open>2 ^ 31 - 2\<close> bytes) to
  a sender whose segments travel over a network that loses, duplicates, delays and reorders them as
  it likes, as it does with the acknowledgments; timers expire and both sides are scheduled at
  will. In every state that can be reached, what the receiving application has read followed by
  what it can read is a prefix of \<open>S\<close>, and the stream is ended only when that prefix is all of \<open>S\<close>.
  Every sequence number the sender takes as acknowledged belongs to a byte (or SYN or FIN) that
  the receiver has in its stream.\<close>
theorem reliable_delivery:
  assumes "length S < 2 ^ 31 - 2"
    and "(link_step S)\<^sup>*\<^sup>* (link_init (TCPSender_init scap rto isn srnd) (TCPReceiver_init rcap rrnd)) l"
  defines "out \<equiv> TCPReceiver_stream_out (lk_receiver l)" and "s \<equiv> lk_sender l"
  shows "(\<exists>n \<le> length S. lk_given l @ bs_buffer_list out = take n S \<and>
      (ByteStream_input_ended out \<longrightarrow> n = length S) \<and>
      unat (TCPSender_next_seqno_absolute s) - unat (TCPSender_bytes_in_flight s)
        \<le> n + 1 + (if ByteStream_input_ended out then 1 else 0))"
proof -
  let ?i = "snd_isn (TCPSender_init scap rto isn srnd)"
  have "link_inv S ?i l"
    using link_reachable_inv [OF assms(2) link_inv_init [OF assms(1) refl]] .
  then have inv: "receiver_inv S ?i (lk_receiver l)"
    and g: "lk_given l = take (unat (bs_bytes_read (TCPReceiver_stream_out (lk_receiver l)))) S"
    and a: "first_unacked (lk_sender l) \<le> ack_nat (lk_receiver l)"
    by (simp_all add: link_inv_def)
  have "ack_nat (lk_receiver l) \<le> unat (written (lk_receiver l)) + 1
      + (if ByteStream_input_ended (TCPReceiver_stream_out (lk_receiver l)) then 1 else 0)"
    by (simp add: ack_nat_def)
  then show ?thesis
    using receiver_inv_observed [OF inv g] a
    unfolding out_def s_def TCPSender_next_seqno_absolute_def TCPSender_bytes_in_flight_def
    by (intro exI [of _ "unat (written (lk_receiver l))"]) auto
qed

theorem reliable_delivery_witness:
  "let s = TCPSender_init 10 1000 (Some (WrappingInt32 7)) 0; r = TCPReceiver_init 10 0
   in \<exists>l. (link_step [5])\<^sup>*\<^sup>* (link_init s r) l \<and>
        TCPReceiver_ackno (lk_receiver l) = Some (WrappingInt32 8) \<and>
        (\<exists>n \<le> length [5 :: u8].
           lk_given l @ bs_buffer_list (TCPReceiver_stream_out (lk_receiver l)) = take n [5])"
proof -
  let ?s = "TCPSender_init 10 1000 (Some (WrappingInt32 7)) 0" and ?r = "TCPReceiver_init 10 0"
  let ?seg = "TCPSegment_default\<lparr>seg_header := TCPHeader_default\<lparr>th_seqno := WrappingInt32 7,
    th_syn := True\<rparr>\<rparr>"
  let ?a = "link_init ?s ?r"
  let ?b = "?a\<lparr>lk_sender := sender_step (lk_sender ?a) Fill_window\<rparr>"
  let ?c = "?b\<lparr>lk_sender := (lk_sender ?b)\<lparr>snd_segments_out := []\<rparr>,
      lk_segments := insert (stamp False (WrappingInt32 0) 0 ?seg) (lk_segments ?b)\<rparr>"
  let ?d = "?c\<lparr>lk_receiver := TCPReceiver_segment_received (lk_receiver ?c)
      (stamp False (WrappingInt32 0) 0 ?seg)\<rparr>"
  have out: "snd_segments_out (TCPSender_fill_window ?s) = [?seg]" by code_simp
  have ack: "TCPReceiver_ackno (TCPReceiver_segment_received ?r (stamp False (WrappingInt32 0) 0 ?seg))
      = Some (WrappingInt32 8)" by code_simp
  have "link_step [5] ?a ?b" by (rule link_step.local) simp_all
  moreover have "link_step [5] ?b ?c"
    by (rule link_step.transmit) (simp add: link_init_def out)
  moreover have "link_step [5] ?c ?d" by (rule link_step.deliver) simp
  ultimately have steps: "(link_step [5])\<^sup>*\<^sup>* ?a ?d" by simp
  moreover have "TCPReceiver_ackno (lk_receiver ?d) = Some (WrappingInt32 8)"
    using ack by (simp add: link_init_def)
  moreover have "\<exists>n \<le> length [5 :: u8].
      lk_given ?d @ bs_buffer_list (TCPReceiver_stream_out (lk_receiver ?d)) = take n [5]"
    using reliable_delivery [OF _ steps] by fastforce
  ultimately show ?thesis unfolding Let_def by blast
qed

end
