(* ===== verification/Connection_Pair.thy ===== *)
theory Connection_Pair
  imports Connection_Properties Reliable_Delivery
begin

text \<open>
  Two connections that talk to each other over an unreliable network. The network keeps every segment
  that was ever transmitted and may deliver it at any time, any number of times or never. Both users
  write, read, close and destroy their connection when they like, and time passes on both sides.
  The results are the guarantee of both byte streams and the meaning of a clean close.
\<close>

subsection \<open>What the sender queues is not yet stamped\<close>

definition plain :: "TCPSegment \<Rightarrow> bool" where
  "plain seg \<longleftrightarrow> \<not> th_ack (seg_header seg) \<and> \<not> th_rst (seg_header seg)"

definition plain_sender :: "TCPSender \<Rightarrow> bool" where
  "plain_sender s \<longleftrightarrow>
     (\<forall>seg\<in>set (snd_segments_out s). plain seg) \<and>
     (\<forall>x\<in>set (snd_segments_outstanding s). plain (snd x))"

lemma plain_make_segment [simp]: "plain (make_segment i syn fin d)"
  by (simp add: plain_def make_segment_def TCPHeader_default_def)

lemma plain_fill_loop: "plain_sender s \<Longrightarrow> plain_sender (fill_loop w s)"
proof (induction w s rule: fill_loop.induct)
  case (1 w s)
  obtain goes t where step: "fill_step w s = (goes, t)" by fastforce
  have "plain_sender t"
    using step "1.prems"
    by (auto simp: fill_step_def plain_sender_def Let_def split: prod.splits if_splits)
  then have "plain_sender (fill_loop w t)"
    if "snd_state s = STATE.SYN_ACKED \<and> w > TCPSender_bytes_in_flight s" and goes
    using "1.IH" [OF that(1) step [symmetric]] that(2) by simp
  then show ?case
    using \<open>plain_sender t\<close> "1.prems" by (cases goes) (simp_all add: fill_loop.simps [of w s] step)
qed

lemma plain_fill_window:
  assumes "plain_sender s"
  shows "plain_sender (TCPSender_fill_window s)"
proof (cases "snd_state s = STATE.CLOSED")
  case True
  then show ?thesis
    using assms by (simp add: TCPSender_fill_window_def TCPSender_send_syn_segment_def Let_def
        plain_sender_def plain_def TCPSegment_default_def TCPHeader_default_def)
next
  case False
  then show ?thesis using plain_fill_loop [OF assms] by (simp add: TCPSender_fill_window_def Let_def)
qed

lemma ack_loop_subset: "set (snd_segments_outstanding (ack_loop r q s)) \<subseteq> set q"
  by (induction r q s rule: ack_loop.induct) auto

lemma plain_ack_received:
  assumes "plain_sender s"
  shows "plain_sender (TCPSender_ack_received s ackno win)"
proof -
  define acked where "acked = unwrap ackno (snd_isn s) (ByteStream_bytes_read (snd_stream s))"
  show ?thesis
  proof (cases "acked > snd_next_seqno s \<or> acked < snd_next_seqno s - snd_bytes_in_flight s")
    case True
    then show ?thesis using assms ack_received_ignored [OF acked_def] by simp
  next
    case False
    define s1 where "s1 = ack_loop acked (snd_segments_outstanding s)
      (s\<lparr>snd_window_size := ucast win, snd_retransmission_count := 0\<rparr>)"
    define s2 where "s2 = (if snd_state s = STATE.SYN_SENT \<and> snd_bytes_in_flight s1 < snd_next_seqno s
      then s1\<lparr>snd_state := STATE.SYN_ACKED\<rparr> else s1)"
    have "set (snd_segments_outstanding s2) \<subseteq> set (snd_segments_outstanding s)"
      "snd_segments_out s2 = snd_segments_out s"
      using ack_loop_subset by (simp_all add: s2_def s1_def ack_loop_frame)
    then have "plain_sender s2" using assms by (auto simp: plain_sender_def)
    then show ?thesis
      unfolding ack_received_eq [OF acked_def False s1_def s2_def]
      by (simp add: plain_fill_window split: if_split)
  qed
qed

lemma plain_tick: "plain_sender s \<Longrightarrow> plain_sender (TCPSender_tick s ms)"
  by (auto simp: plain_sender_def TCPSender_tick_def Let_def split: list.splits)

lemma plain_send_empty: "plain_sender s \<Longrightarrow> plain_sender (TCPSender_send_empty_segment s)"
  by (auto simp: plain_sender_def TCPSender_send_empty_segment_def Let_def plain_def
      TCPSegment_default_def TCPHeader_default_def)

lemma plain_out_subset:
  "plain_sender s \<Longrightarrow> set out \<subseteq> set (snd_segments_out s) \<Longrightarrow> plain_sender (s\<lparr>snd_segments_out := out\<rparr>)"
  by (auto simp: plain_sender_def)

lemma plain_stream [simp]: "plain_sender (s\<lparr>snd_stream := st\<rparr>) = plain_sender s"
  by (simp add: plain_sender_def)

subsection \<open>One endpoint\<close>

text \<open>
  A segment on its way: unless it is a reset, it is a truthful excerpt of the stream \<open>S\<close> of its
  sender, which started with the sequence number \<open>i\<close>, and it acknowledges at most \<open>N\<close> numbers of the
  stream in the other direction, which started with \<open>i'\<close>.
\<close>

definition seg_ok :: "bytes \<Rightarrow> WrappingInt32 \<Rightarrow> nat \<Rightarrow> WrappingInt32 \<Rightarrow> TCPSegment \<Rightarrow> bool" where
  "seg_ok S i N i' seg \<longleftrightarrow> th_rst (seg_header seg) \<or>
     (\<exists>k. segment_at S i k seg) \<and>
     (th_ack (seg_header seg) \<longrightarrow> (\<exists>n \<le> N. th_ackno (seg_header seg) = wrap (of_nat n) i'))"

text \<open>
  An endpoint sends \<open>S\<close> and receives \<open>S'\<close>. The peer has received the numbers below \<open>M\<close> of \<open>S\<close>, and no
  number from \<open>M\<close> on counts as acknowledged.
\<close>

definition endpoint ::
  "bytes \<Rightarrow> WrappingInt32 \<Rightarrow> bytes \<Rightarrow> WrappingInt32 \<Rightarrow> nat \<Rightarrow> TCPConnection \<Rightarrow> bytes \<Rightarrow> bool" where
  "endpoint S i S' i' M c given \<longleftrightarrow>
     sender_inv S (conn_sender c) \<and> snd_isn (conn_sender c) = i \<and> plain_sender (conn_sender c) \<and>
     first_unacked (conn_sender c) \<le> M \<and> receiver_run_inv S' i' (conn_receiver c, given) \<and>
     length S' < 2 ^ 31 - 2 \<and>
     (\<forall>seg\<in>set (conn_segments_out c). seg_ok S i (ack_nat (conn_receiver c)) i' seg)"

lemma seg_ok_mono: "seg_ok S i N i' seg \<Longrightarrow> N \<le> N' \<Longrightarrow> seg_ok S i N' i' seg"
  unfolding seg_ok_def by (meson order_trans)

lemma endpoint_sender:
  assumes "endpoint S i S' i' M c given" and "sender_inv S s" and "snd_isn s = i"
    and "plain_sender s" and "first_unacked s \<le> M"
  shows "endpoint S i S' i' M (c\<lparr>conn_sender := s\<rparr>) given"
  using assms by (simp add: endpoint_def)

lemma endpoint_receiver:
  assumes "endpoint S i S' i' M c given" and "receiver_run_inv S' i' (r, given')"
    and "ack_nat (conn_receiver c) \<le> ack_nat r"
  shows "endpoint S i S' i' M (c\<lparr>conn_receiver := r\<rparr>) given'"
  using assms seg_ok_mono [OF _ assms(3)] by (simp add: endpoint_def)

lemma fetch_stamp_ok:
  assumes e: "endpoint S i S' i' M c given" and seg: "seg \<in> set (snd_segments_out (conn_sender c))"
  shows "seg_ok S i (ack_nat (conn_receiver c)) i' (fetch_stamp (conn_receiver c) seg)"
proof -
  let ?r = "conn_receiver c"
  have inv: "receiver_inv S' i' ?r" and len: "length S' < 2 ^ 31 - 2"
    using e by (simp_all add: endpoint_def)
  obtain k where k: "segment_at S i k seg"
    using e seg by (auto simp: endpoint_def sender_inv_def own_segment_def)
  have "plain seg" using e seg by (auto simp: endpoint_def plain_sender_def)
  show ?thesis
  proof (cases "rcv_in_listen ?r")
    case True
    then show ?thesis
      using k \<open>plain seg\<close> by (auto simp: seg_ok_def fetch_stamp_def TCPReceiver_ackno_def plain_def)
  next
    case False
    then have a: "TCPReceiver_ackno ?r = Some (wrap (of_nat (ack_nat ?r)) i')"
      using inv ack_nat_abs_ack(1) [OF inv False len] by (simp add: TCPReceiver_ackno_def receiver_inv_def)
    have "segment_at S i k (fetch_stamp ?r seg)"
      using k by (simp add: a fetch_stamp_def segment_at_def)
    then show ?thesis by (auto simp: seg_ok_def a fetch_stamp_def)
  qed
qed

lemma endpoint_fetch:
  assumes "endpoint S i S' i' M c given"
  shows "endpoint S i S' i' M (TCPConnection_fetch_segment c) given"
  using assms fetch_stamp_ok [OF assms]
    sender_inv_out_subset [of S "conn_sender c" "[]"] plain_out_subset [of "conn_sender c" "[]"]
  by (auto simp: fetch_segment_eq endpoint_def)

lemma endpoint_fill_window:
  assumes "endpoint S i S' i' M c given"
  shows "endpoint S i S' i' M (c\<lparr>conn_sender := TCPSender_fill_window (conn_sender c)\<rparr>) given"
proof -
  have inv: "sender_inv S (conn_sender c)" using assms by (simp add: endpoint_def)
  show ?thesis
    using assms local_first_unacked [OF inv, of Fill_window] fill_window_spec(1) [OF inv]
    by (intro endpoint_sender) (simp_all add: endpoint_def plain_fill_window)
qed

lemma endpoint_send_segment:
  "endpoint S i S' i' M c given \<Longrightarrow> endpoint S i S' i' M (TCPConnection_send_segment c) given"
  by (simp add: TCPConnection_send_segment_def endpoint_fetch endpoint_fill_window)

lemma endpoint_flags [simp]:
  "endpoint S i S' i' M (c\<lparr>conn_actived := b\<rparr>) given = endpoint S i S' i' M c given"
  "endpoint S i S' i' M (c\<lparr>conn_linger_after_streams_finish := b\<rparr>) given = endpoint S i S' i' M c given"
  "endpoint S i S' i' M (c\<lparr>conn_time_since_last_segment_received := n\<rparr>) given
     = endpoint S i S' i' M c given"
  by (simp_all add: endpoint_def)

lemma endpoint_try_clean [simp]:
  "endpoint S i S' i' M (TCPConnection_try_clean_shutdown c) given = endpoint S i S' i' M c given"
  by (simp add: TCPConnection_try_clean_shutdown_def)

lemma set_error_reassembler [simp]:
  "reassembler_inv S (r\<lparr>sr_output := ByteStream_set_error (sr_output r)\<rparr>) = reassembler_inv S r"
  by (simp add: reassembler_inv_def out_ok_def ByteStream_set_error_def ByteStream_inv_def
      ByteStream_input_ended_def)

lemma endpoint_kill:
  assumes "endpoint S i S' i' M c given"
  shows "endpoint S i S' i' M (TCPConnection_kill_connection c) given"
proof -
  let ?r = "(conn_receiver c)\<lparr>rcv_reassembler := (rcv_reassembler (conn_receiver c))\<lparr>sr_output :=
      ByteStream_set_error (sr_output (rcv_reassembler (conn_receiver c)))\<rparr>\<rparr>"
  have "sender_inv S (conn_sender (TCPConnection_kill_connection c))"
    using kill_reset [of S c] assms by (simp add: conn_reset_def endpoint_def)
  moreover have "receiver_run_inv S' i' (?r, given)"
    using assms by (simp add: endpoint_def receiver_inv_def TCPReceiver_stream_out_def)
      (simp add: ByteStream_set_error_def)
  moreover have "ack_nat ?r = ack_nat (conn_receiver c)"
    by (simp add: ack_nat_def TCPReceiver_stream_out_def ByteStream_set_error_def ByteStream_observers)
  ultimately show ?thesis
    using assms by (simp add: endpoint_def TCPConnection_kill_connection_def Let_def)
qed

lemma endpoint_rst:
  assumes "endpoint S i S' i' M c given"
    and "snd_state (conn_sender c) = STATE.CLOSED \<Longrightarrow> snd_segments_out (conn_sender c) = []"
  shows "endpoint S i S' i' M (TCPConnection_send_rst_segment c) given"
proof -
  let ?c = "TCPConnection_send_rst_segment c"
  have inv: "sender_inv S (conn_sender c)" using assms(1) by (simp add: endpoint_def)
  have "plain_sender (conn_sender ?c)"
    using assms(1) plain_out_subset [OF plain_send_empty set_tl_subset]
    by (simp add: rst_sender endpoint_def Let_def)
  moreover have "snd_isn (conn_sender ?c) = snd_isn (conn_sender c)"
    "first_unacked (conn_sender ?c) = first_unacked (conn_sender c)"
    by (simp_all add: rst_sender TCPSender_send_empty_segment_def Let_def)
  moreover have "conn_receiver ?c = conn_receiver c"
    "\<exists>rst. conn_segments_out ?c = conn_segments_out c @ [rst] \<and> th_rst (seg_header rst)"
    by (auto simp: TCPConnection_send_rst_segment_def Let_def split: option.split)
  ultimately show ?thesis
    using assms(1) rst_sender_inv [OF inv assms(2)] by (auto simp: endpoint_def seg_ok_def)
qed

lemma endpoint_acked:
  assumes e: "endpoint S i S' i' M c given" and seg: "seg_ok S' i' M i seg"
    and rst: "\<not> th_rst (seg_header seg)" and len: "length S < 2 ^ 31 - 2" and M: "M \<le> length S + 2"
  shows "endpoint S i S' i' M (conn_acked c seg) given"
    and "ack_nat (conn_receiver c) \<le> ack_nat (conn_receiver (conn_acked c seg))"
proof -
  let ?s = "conn_sender c" and ?r = "conn_receiver c"
  let ?s' = "conn_sender (conn_acked c seg)" and ?r' = "TCPReceiver_segment_received ?r seg"
  have inv: "sender_inv S ?s" and rinv: "receiver_inv S' i' ?r" and len': "length S' < 2 ^ 31 - 2"
    and i: "snd_isn ?s = i" and fu: "first_unacked ?s \<le> M" and p: "plain_sender ?s"
    using e by (simp_all add: endpoint_def)
  have "sender_inv S ?s' \<and> snd_isn ?s' = i \<and> plain_sender ?s' \<and> first_unacked ?s' \<le> M"
  proof (cases "th_ack (seg_header seg)")
    case True
    then obtain n where n: "n \<le> M" "th_ackno (seg_header seg) = wrap (of_nat n) (snd_isn ?s)"
      using seg rst i by (auto simp: seg_ok_def)
    have "n \<le> length S + 2" using n(1) M by simp
    from ack_first_unacked [OF inv len this] show ?thesis
      using True n fu i ack_received_inv [OF inv] plain_ack_received [OF p]
      by (simp add: conn_acked_def le_max_iff_disj) (meson le_trans max.bounded_iff)
  qed (use inv i p fu in \<open>simp add: conn_acked_def\<close>)
  then have s: "endpoint S i S' i' M (c\<lparr>conn_sender := ?s'\<rparr>) given"
    using e by (intro endpoint_sender) simp_all
  obtain k where k: "segment_at S' i' k seg" using seg rst by (auto simp: seg_ok_def)
  have near: "near k (written ?r)" by (rule near_small [OF rinv k len'])
  have "receiver_run_inv S' i' (receiver_step (?r, given) (Segment_arrives seg))"
    using e k near by (intro receiver_step_inv) (auto simp: endpoint_def)
  then have run: "receiver_run_inv S' i' (?r', given)" by (simp only: receiver_step.simps)
  show mono: "ack_nat ?r \<le> ack_nat (conn_receiver (conn_acked c seg))"
    unfolding conn_acked_def by (simp add: ack_nat_segment_mono [OF rinv k near])
  then have "endpoint S i S' i' M (c\<lparr>conn_sender := ?s', conn_receiver := ?r'\<rparr>) given"
    using endpoint_receiver [OF s run] by (simp add: conn_acked_def)
  moreover have "conn_acked c seg = c\<lparr>conn_sender := ?s', conn_receiver := ?r',
      conn_time_since_last_segment_received := 0\<rparr>" by (simp add: conn_acked_def)
  ultimately show "endpoint S i S' i' M (conn_acked c seg) given" by (metis endpoint_flags(3))
qed

lemma endpoint_reply:
  assumes "endpoint S i S' i' M c given" and "snd_state (conn_sender c) \<noteq> STATE.CLOSED"
  shows "endpoint S i S' i' M (reply seg c) given"
proof -
  let ?s = "TCPSender_send_empty_segment (conn_sender c)"
  have inv: "sender_inv S (conn_sender c)" using assms(1) by (simp add: endpoint_def)
  have "endpoint S i S' i' M (c\<lparr>conn_sender := ?s\<rparr>) given"
    using assms local_first_unacked [OF inv, of Send_empty] send_empty_inv [OF inv]
    by (intro endpoint_sender) (simp_all add: endpoint_def plain_send_empty)
  then show ?thesis using assms(1) by (simp add: reply_def)
qed

lemma reply_receiver [simp]: "conn_receiver (reply seg c) = conn_receiver c"
  by (simp add: reply_def)

lemma endpoint_segment:
  assumes e: "endpoint S i S' i' M c given" and seg: "seg_ok S' i' M i seg"
    and len: "length S < 2 ^ 31 - 2" and M: "M \<le> length S + 2"
  shows "endpoint S i S' i' M (TCPConnection_segment_received c seg) given"
    and "ack_nat (conn_receiver c) \<le> ack_nat (conn_receiver (TCPConnection_segment_received c seg))"
proof -
  note acked = endpoint_acked [OF e seg _ len M]
  let ?a = "TCPConnection_try_clean_shutdown (conn_acked c seg)"
  let ?f = "?a\<lparr>conn_sender := TCPSender_fill_window (conn_sender ?a)\<rparr>"
  have "endpoint S i S' i' M (TCPConnection_fetch_segment (reply seg ?f)) given"
    if "\<not> th_rst (seg_header seg)"
    using acked(1) [OF that] fill_window_not_closed
    by (intro endpoint_fetch endpoint_reply endpoint_fill_window) simp_all
  then show "endpoint S i S' i' M (TCPConnection_segment_received c seg) given"
    using e acked(1) endpoint_kill [OF e] by (simp add: segment_received_eq Let_def)
  show "ack_nat (conn_receiver c) \<le> ack_nat (conn_receiver (TCPConnection_segment_received c seg))"
    using acked(2)
    by (simp add: segment_received_eq Let_def try_clean_same fetch_segment_eq)
      (simp add: TCPConnection_kill_connection_def Let_def ack_nat_def TCPReceiver_stream_out_def
        ByteStream_set_error_def ByteStream_observers)
qed

lemma endpoint_tick:
  assumes e: "endpoint S i S' i' M c given" and inv: "conn_inv S c" and tick: "TCPConnection_tick c ms = Inr c'"
  shows "endpoint S i S' i' M c' given" and "ack_nat (conn_receiver c') = ack_nat (conn_receiver c)"
proof -
  let ?t = "conn_ticked c ms"
  let ?s = "conn_sender ?t"
  let ?r = "?t\<lparr>conn_sender := ?s\<lparr>snd_segments_out := tl (snd_segments_out ?s)\<rparr>\<rparr>"
  have "endpoint S i S' i' M c' given \<and> ack_nat (conn_receiver c') = ack_nat (conn_receiver c)"
  proof (cases "conn_actived c")
    case True
    then have ok: "conn_ok S c" using inv by (auto simp: conn_inv_def conn_reset_def)
    have sinv: "sender_inv S (conn_sender c)" using e by (simp add: endpoint_def)
    have t: "endpoint S i S' i' M ?t given"
      using e local_first_unacked [OF sinv, of "Tick ms"] tick_inv [OF sinv] plain_tick
      by (simp add: endpoint_def conn_ticked_def)
    have closed: "snd_segments_out ?s = []" if "snd_state ?s = STATE.CLOSED"
      using that ok nothing_outstanding [OF sinv] closed_in_flight [OF sinv]
      by (simp add: conn_ok_def conn_ticked_def tick_frame) (simp add: TCPSender_tick_def Let_def)
    have "endpoint S i S' i' M ?r given"
      using t by (intro endpoint_sender)
        (auto simp: endpoint_def intro: sender_inv_out_subset plain_out_subset dest: set_tl_subset [THEN subsetD])
    then have "endpoint S i S' i' M
        (TCPConnection_kill_connection (TCPConnection_send_rst_segment ?r)) given"
      using closed by (intro endpoint_kill endpoint_rst) simp_all
    moreover have "ack_nat (conn_receiver (TCPConnection_kill_connection
        (TCPConnection_send_rst_segment ?r))) = ack_nat (conn_receiver c)"
      by (simp add: TCPConnection_kill_connection_def TCPConnection_send_rst_segment_def Let_def
          conn_ticked_def ack_nat_def TCPReceiver_stream_out_def ByteStream_set_error_def
          ByteStream_observers)
    moreover have "endpoint S i S' i' M (TCPConnection_fetch_segment ?t) given"
      using t by (rule endpoint_fetch)
    moreover have "conn_receiver (TCPConnection_fetch_segment ?t) = conn_receiver c"
      by (simp add: fetch_segment_eq conn_ticked_def)
    ultimately show ?thesis
      using tick unfolding tick_eq [OF ok True] by (auto simp: Let_def try_clean_same)
  qed (use tick e in \<open>auto simp: TCPConnection_tick_def TCPConnection_active_def\<close>)
  then show "endpoint S i S' i' M c' given" and "ack_nat (conn_receiver c') = ack_nat (conn_receiver c)"
    by simp_all
qed

text \<open>What may happen to an endpoint: segments come from the peer, the user behaves.\<close>

definition event_ok :: "bytes \<Rightarrow> WrappingInt32 \<Rightarrow> bytes \<Rightarrow> WrappingInt32 \<Rightarrow> nat \<Rightarrow>
    TCPConnection \<times> bytes \<Rightarrow> conn_event \<Rightarrow> bool" where
  "event_ok S i S' i' M cg e \<longleftrightarrow>
     conn_event_ok S cg e \<and> (\<forall>seg. e = Segment seg \<longrightarrow> seg_ok S' i' M i seg)"

lemma endpoint_stream:
  assumes "endpoint S i S' i' M c given" and "sender_inv S ((conn_sender c)\<lparr>snd_stream := st\<rparr>)"
  shows "endpoint S i S' i' M (c\<lparr>conn_sender := (conn_sender c)\<lparr>snd_stream := st\<rparr>\<rparr>) given"
  using assms by (intro endpoint_sender) (simp_all add: endpoint_def)

lemma consume_ack_nat:
  assumes inv: "reassembler_inv S (rcv_reassembler r)"
    and c: "StreamReassembler_consume (rcv_reassembler r) n = (re, d)"
  shows "ack_nat (r\<lparr>rcv_reassembler := re\<rparr>) = ack_nat r"
proof -
  have "written (r\<lparr>rcv_reassembler := re\<rparr>) = written r"
    using written_expected [OF inv] written_expected [of S "r\<lparr>rcv_reassembler := re\<rparr>"]
      consume_expected [OF c] consume_spec(1) [OF inv c] by simp
  then show ?thesis
    using consume_flags(2) [OF c]
    by (simp add: ack_nat_def TCPReceiver_stream_out_def ByteStream_input_ended_def)
qed

lemma send_segment_receiver: "conn_receiver (TCPConnection_send_segment c) = conn_receiver c"
  by (simp add: TCPConnection_send_segment_def fetch_segment_eq)

lemma endpoint_read:
  assumes e: "endpoint S i S' i' M c given"
    and c: "StreamReassembler_consume (rcv_reassembler (conn_receiver c)) n = (re, d)"
  shows "endpoint S i S' i' M
    (c\<lparr>conn_receiver := (conn_receiver c)\<lparr>rcv_reassembler := re\<rparr>\<rparr>) (given @ d)"
proof -
  have inv: "reassembler_inv S' (rcv_reassembler (conn_receiver c))"
    using e by (simp add: endpoint_def receiver_inv_def)
  have "receiver_run_inv S' i' (receiver_step (conn_receiver c, given) (App_reads n))"
    using e by (intro receiver_step_inv) (simp_all add: endpoint_def)
  then have "receiver_run_inv S' i' ((conn_receiver c)\<lparr>rcv_reassembler := re\<rparr>, given @ d)"
    by (simp add: c)
  then show ?thesis using consume_ack_nat [OF inv c] by (intro endpoint_receiver [OF e]) simp_all
qed

lemma endpoint_destroy:
  assumes e: "endpoint S i S' i' M c given" and inv: "conn_inv S c"
  shows "endpoint S i S' i' M (TCPConnection_destroy c) given"
    and "ack_nat (conn_receiver (TCPConnection_destroy c)) = ack_nat (conn_receiver c)"
proof -
  have "endpoint S i S' i' M (TCPConnection_kill_connection (TCPConnection_send_rst_segment c)) given"
    if "conn_actived c"
    using that inv by (intro endpoint_kill endpoint_rst [OF e])
      (auto simp: conn_inv_def conn_reset_def conn_ok_def)
  then show "endpoint S i S' i' M (TCPConnection_destroy c) given"
    using e by (simp add: TCPConnection_destroy_def TCPConnection_active_def)
  show "ack_nat (conn_receiver (TCPConnection_destroy c)) = ack_nat (conn_receiver c)"
    by (simp add: TCPConnection_destroy_def TCPConnection_kill_connection_def
        TCPConnection_send_rst_segment_def Let_def ack_nat_def TCPReceiver_stream_out_def
        ByteStream_set_error_def ByteStream_observers)
qed

lemma endpoint_step:
  assumes e: "endpoint S i S' i' M c given" and inv: "conn_inv S c"
    and ok: "event_ok S i S' i' M (c, given) ev" and len: "length S < 2 ^ 31 - 2" and M: "M \<le> length S + 2"
    and step: "conn_step (c, given) ev = (c', given')"
  shows "endpoint S i S' i' M c' given' \<and> ack_nat (conn_receiver c) \<le> ack_nat (conn_receiver c')"
proof -
  have sinv: "sender_inv S (conn_sender c)" and rinv: "reassembler_inv S' (rcv_reassembler (conn_receiver c))"
    using e by (simp_all add: endpoint_def receiver_inv_def)
  show ?thesis
  proof (cases ev)
    case (Write data)
    then have "sender_inv S (TCPSender_write (conn_sender c) data)"
      using ok by (intro write_inv_sender [OF sinv]) (simp add: event_ok_def)
    then have "endpoint S i S' i' M (c\<lparr>conn_sender := TCPSender_write (conn_sender c) data\<rparr>) given"
      unfolding TCPSender_write_def by (rule endpoint_stream [OF e])
    from endpoint_send_segment [OF this] show ?thesis
      using step by (auto simp: Write TCPConnection_write_def TCPSender_write_def case_prod_beta Let_def
          send_segment_receiver)
  next
    case End_input
    then have "sender_inv S (TCPSender_end_input (conn_sender c))"
      using ok by (intro end_input_inv_sender [OF sinv]) (simp add: event_ok_def)
    then have "endpoint S i S' i' M (c\<lparr>conn_sender := TCPSender_end_input (conn_sender c)\<rparr>) given"
      unfolding TCPSender_end_input_def by (rule endpoint_stream [OF e])
    from endpoint_send_segment [OF this] show ?thesis
      using step by (auto simp: End_input TCPConnection_end_input_stream_def TCPSender_end_input_def
          send_segment_receiver)
  next
    case (Segment seg)
    then have "seg_ok S' i' M i seg" using ok by (simp add: event_ok_def)
    from endpoint_segment [OF e this len M] show ?thesis using step by (simp add: Segment)
  next
    case (Time ms)
    then show ?thesis
      using step endpoint_tick [OF e inv] tick_conn_inv [OF inv, of ms] by auto
  next
    case Destroy
    then show ?thesis using step endpoint_destroy [OF e inv] by simp
  next
    case (Read n)
    obtain re d where c: "StreamReassembler_consume (rcv_reassembler (conn_receiver c)) n = (re, d)"
      by fastforce
    then show ?thesis using step endpoint_read [OF e c] consume_ack_nat [OF rinv c] by (auto simp: Read)
  next
    case Take
    then show ?thesis
      using step e set_tl_subset [of "conn_segments_out c"] by (auto simp: endpoint_def)
  qed (use step endpoint_send_segment [OF e] in \<open>auto simp: TCPConnection_connect_def send_segment_receiver\<close>)
qed

subsection \<open>Two endpoints and the network\<close>

record pair =
  pr_a :: "TCPConnection \<times> bytes"
  pr_b :: "TCPConnection \<times> bytes"
  pr_ab :: "TCPSegment set"
  pr_ba :: "TCPSegment set"

definition mirror :: "pair \<Rightarrow> pair" where
  "mirror p = \<lparr>pr_a = pr_b p, pr_b = pr_a p, pr_ab = pr_ba p, pr_ba = pr_ab p\<rparr>"

text \<open>The steps of the first endpoint: something happens to it, where the segments it receives come
  from the network, or its first queued segment is transmitted.\<close>

inductive left_step :: "bytes \<Rightarrow> pair \<Rightarrow> pair \<Rightarrow> bool" for S where
  act: "conn_event_ok S (pr_a p) e \<Longrightarrow> (\<And>seg. e = Segment seg \<Longrightarrow> seg \<in> pr_ba p) \<Longrightarrow>
    left_step S p (p\<lparr>pr_a := conn_step (pr_a p) e\<rparr>)"
| transmit: "conn_segments_out (fst (pr_a p)) = seg # rest \<Longrightarrow>
    left_step S p (p\<lparr>pr_a := conn_step (pr_a p) Take, pr_ab := insert seg (pr_ab p)\<rparr>)"

inductive pair_step :: "bytes \<Rightarrow> bytes \<Rightarrow> pair \<Rightarrow> pair \<Rightarrow> bool" for Sa Sb where
  left: "left_step Sa p p' \<Longrightarrow> pair_step Sa Sb p p'"
| right: "left_step Sb (mirror p) (mirror p') \<Longrightarrow> pair_step Sa Sb p p'"

definition pair_init :: "TCPConnection \<Rightarrow> TCPConnection \<Rightarrow> pair" where
  "pair_init a b = \<lparr>pr_a = (a, []), pr_b = (b, []), pr_ab = {}, pr_ba = {}\<rparr>"

abbreviation got :: "TCPConnection \<times> bytes \<Rightarrow> nat" where
  "got cg \<equiv> ack_nat (conn_receiver (fst cg))"

definition half_inv :: "bytes \<Rightarrow> WrappingInt32 \<Rightarrow> bytes \<Rightarrow> WrappingInt32 \<Rightarrow> pair \<Rightarrow> bool" where
  "half_inv S i S' i' p \<longleftrightarrow> length S < 2 ^ 31 - 2 \<and> conn_inv S (fst (pr_a p)) \<and>
     endpoint S i S' i' (got (pr_b p)) (fst (pr_a p)) (snd (pr_a p)) \<and>
     (\<forall>seg\<in>pr_ab p. seg_ok S i (got (pr_a p)) i' seg)"

definition pair_inv :: "bytes \<Rightarrow> WrappingInt32 \<Rightarrow> bytes \<Rightarrow> WrappingInt32 \<Rightarrow> pair \<Rightarrow> bool" where
  "pair_inv S i S' i' p \<longleftrightarrow> half_inv S i S' i' p \<and> half_inv S' i' S i (mirror p)"

lemma mirror_simps [simp]:
  "pr_a (mirror p) = pr_b p" "pr_b (mirror p) = pr_a p" "pr_ab (mirror p) = pr_ba p"
  "pr_ba (mirror p) = pr_ab p" "mirror (mirror p) = p"
  by (simp_all add: mirror_def)

lemma pair_inv_mirror: "pair_inv S i S' i' p \<longleftrightarrow> pair_inv S' i' S i (mirror p)"
  by (auto simp: pair_inv_def)

lemma endpoint_M_mono: "endpoint S i S' i' M c g \<Longrightarrow> M \<le> M' \<Longrightarrow> endpoint S i S' i' M' c g"
  by (simp add: endpoint_def)

lemma got_bound:
  assumes "endpoint S i S' i' M c g"
  shows "ack_nat (conn_receiver c) \<le> length S' + 2"
proof (cases "rcv_in_listen (conn_receiver c)")
  case True
  then show ?thesis by (simp add: ack_nat_def)
next
  case False
  then show ?thesis using assms ack_nat_abs_ack(2) [OF _ False, of S' i'] by (simp add: endpoint_def)
qed

lemma left_step_inv:
  assumes "left_step S p p'" and "pair_inv S i S' i' p"
  shows "pair_inv S i S' i' p'"
  using assms
proof (induction rule: left_step.induct)
  case (act p e)
  obtain c g where a: "pr_a p = (c, g)" by fastforce
  obtain c' g' where st: "conn_step (c, g) e = (c', g')" by fastforce
  have inv: "conn_inv S c" and ep: "endpoint S i S' i' (got (pr_b p)) c g" and len: "length S < 2 ^ 31 - 2"
    and ba: "\<forall>seg\<in>pr_ba p. seg_ok S' i' (got (pr_b p)) i seg"
    and b: "endpoint S' i' S i (got (pr_a p)) (fst (pr_b p)) (snd (pr_b p))"
    using act(3) by (simp_all add: pair_inv_def half_inv_def a)
  have "event_ok S i S' i' (got (pr_b p)) (c, g) e" using act(1,2) ba by (auto simp: event_ok_def a)
  from endpoint_step [OF ep inv this len got_bound [OF b] st]
  have e': "endpoint S i S' i' (got (pr_b p)) c' g'"
    and mono: "ack_nat (conn_receiver c) \<le> ack_nat (conn_receiver c')" by simp_all
  have "conn_inv S c'" using conn_step_inv [of S "(c, g)" e] inv act(1) by (simp add: a st)
  then show ?case
    using act(3) e' endpoint_M_mono [OF b] mono seg_ok_mono [OF _ mono]
    by (simp add: pair_inv_def half_inv_def a st)
next
  case (transmit p seg rest)
  obtain c g where a: "pr_a p = (c, g)" by fastforce
  have "seg_ok S i (ack_nat (conn_receiver c)) i' seg"
    using transmit by (simp add: pair_inv_def half_inv_def endpoint_def a)
  moreover have "conn_inv S (c\<lparr>conn_segments_out := rest\<rparr>)"
    using transmit(2) conn_step_inv [of S "(c, g)" Take] transmit(1)
    by (simp add: pair_inv_def half_inv_def a)
  ultimately show ?case
    using transmit by (auto simp: pair_inv_def half_inv_def endpoint_def a)
qed

lemma pair_step_inv:
  assumes "pair_step Sa Sb p p'" and "pair_inv Sa i Sb i' p"
  shows "pair_inv Sa i Sb i' p'"
  using assms
proof (cases rule: pair_step.cases)
  case left
  then show ?thesis using assms(2) by (rule left_step_inv)
next
  case right
  then have "pair_inv Sb i' Sa i (mirror p')"
    using assms(2) pair_inv_mirror by (blast intro: left_step_inv)
  then show ?thesis using pair_inv_mirror by blast
qed

lemma pair_reachable_inv:
  assumes "(pair_step Sa Sb)\<^sup>*\<^sup>* p p'" and "pair_inv Sa i Sb i' p"
  shows "pair_inv Sa i Sb i' p'"
  using assms by (induction rule: rtranclp_induct) (auto intro: pair_step_inv)

lemma endpoint_init:
  assumes "length S < 2 ^ 31 - 2" and "length S' < 2 ^ 31 - 2" and "c = TCPConnection_init cfg rrnd srnd"
  shows "endpoint S (snd_isn (conn_sender c)) S' i' 0 c []"
proof -
  have "sender_inv S (conn_sender c)"
    using assms(1) sender_inv_init [of S] by (simp add: assms(3) TCPConnection_init_def)
  moreover have "receiver_inv S' i' (conn_receiver c)"
    using assms(2) receiver_inv_init [of S'] by (simp add: assms(3) TCPConnection_init_def)
  ultimately show ?thesis
    using assms(2) by (simp add: endpoint_def)
      (simp add: assms(3) TCPConnection_init_def TCPSender_init_def TCPReceiver_init_def
        TCPReceiver_stream_out_def StreamReassembler_init_def ByteStream_init_def plain_sender_def)
qed

lemma pair_inv_init:
  assumes "length Sa < 2 ^ 31 - 2" and "length Sb < 2 ^ 31 - 2"
    and "a = TCPConnection_init cfga ra sa" and "b = TCPConnection_init cfgb rb sb"
  shows "pair_inv Sa (snd_isn (conn_sender a)) Sb (snd_isn (conn_sender b)) (pair_init a b)"
proof -
  have "conn_inv Sa a" "conn_inv Sb b"
    using assms conn_inv_init [of Sa] conn_inv_init [of Sb] by simp_all
  then show ?thesis
    using endpoint_init [OF assms(1,2,3)] endpoint_init [OF assms(2,1,4)] assms(1,2)
    by (auto simp: pair_inv_def half_inv_def pair_init_def intro: endpoint_M_mono)
qed

text \<open>What the invariant says of the stream from the second endpoint to the first.\<close>

definition delivers :: "bytes \<Rightarrow> TCPConnection \<times> bytes \<Rightarrow> bool" where
  "delivers S cg \<longleftrightarrow> (\<exists>n \<le> length S.
     snd cg @ bs_buffer_list (TCPConnection_inbound_stream (fst cg)) = take n S \<and>
     (ByteStream_input_ended (TCPConnection_inbound_stream (fst cg)) \<longrightarrow> n = length S))"

definition delivered :: "bytes \<Rightarrow> TCPConnection \<times> bytes \<Rightarrow> bool" where
  "delivered S cg \<longleftrightarrow>
     snd cg @ bs_buffer_list (TCPConnection_inbound_stream (fst cg)) = S \<and>
     ByteStream_input_ended (TCPConnection_inbound_stream (fst cg))"

lemma endpoint_delivers:
  assumes "endpoint S i S' i' M c g"
  shows "delivers S' (c, g)"
    and "length S' + 2 \<le> ack_nat (conn_receiver c) \<Longrightarrow> delivered S' (c, g)"
    and "in_ended (conn_receiver c) \<Longrightarrow> delivered S' (c, g)"
proof -
  have inv: "receiver_inv S' i' (conn_receiver c)"
    and g: "g = take (unat (bs_bytes_read (TCPReceiver_stream_out (conn_receiver c)))) S'"
    using assms by (simp_all add: endpoint_def)
  note obs = receiver_inv_observed [OF inv g]
  show "delivers S' (c, g)" using obs by (auto simp: delivers_def TCPConnection_inbound_stream_def)
  show ended: "delivered S' (c, g)" if "in_ended (conn_receiver c)"
    using obs that by (simp add: delivered_def TCPConnection_inbound_stream_def ByteStream_input_ended_def)
  show "delivered S' (c, g)" if "length S' + 2 \<le> ack_nat (conn_receiver c)"
    using that obs(2) by (intro ended) (auto simp: ack_nat_def ByteStream_input_ended_def split: if_splits)
qed

lemma closed_delivered:
  assumes inv: "pair_inv Sa i Sb i' p"
    and closed: "TCPConnection_state (fst (pr_a p)) = TCPState_of_State CLOSED"
  shows "delivered Sa (pr_b p) \<and> delivered Sb (pr_a p)"
proof -
  obtain a ga b gb where ab: "pr_a p = (a, ga)" "pr_b p = (b, gb)" by fastforce
  have ea: "endpoint Sa i Sb i' (ack_nat (conn_receiver b)) a ga" and ci: "conn_inv Sa a"
    and eb: "endpoint Sb i' Sa i (ack_nat (conn_receiver a)) b gb"
    using inv by (simp_all add: pair_inv_def half_inv_def ab)
  have "\<not> conn_reset Sa a" using closed by (auto simp: ab summary_defs dest: reset_state)
  then have ok: "conn_ok Sa a" using ci by (simp add: conn_inv_def)
  have "\<not> conn_actived a" using closed unfolding ab fst_conv conn_state_eq [OF ok] by simp
  then have "in_ended (conn_receiver a)" and fin: "finished (conn_sender a)"
    using ok by (simp_all add: conn_ok_def)
  moreover have "first_unacked (conn_sender a) = length Sa + 2"
    using ok fin by (simp add: conn_ok_def sender_inv_def finished_def)
  then have "length Sa + 2 \<le> ack_nat (conn_receiver b)" using ea by (simp add: endpoint_def)
  ultimately show ?thesis using endpoint_delivers [OF ea] endpoint_delivers [OF eb] by (simp add: ab)
qed

text \<open>C1: two connections. Users \<open>a\<close> and \<open>b\<close> write the streams \<open>Sa\<close> and \<open>Sb\<close> (each shorter than
  \<open>2 ^ 31 - 2\<close> bytes) to connections joined by a network that loses, duplicates, delays and reorders
  segments as it likes; they read, close, tick and destroy their connections when they like, and
  either side may be reset. In every state that can be reached, what each user has read and can
  read is a prefix of what the other has written, and its end is signalled only behind the last
  byte. If a connection reaches the state CLOSED, the close was clean for both streams: all it wrote
  has arrived at the other side together with the end of the stream, and all the other side wrote
  has arrived here.\<close>
theorem duplex_delivery:
  assumes "length Sa < 2 ^ 31 - 2" and "length Sb < 2 ^ 31 - 2"
    and "(pair_step Sa Sb)\<^sup>*\<^sup>*
      (pair_init (TCPConnection_init cfga ra sa) (TCPConnection_init cfgb rb sb)) p"
  shows "delivers Sa (pr_b p) \<and> delivers Sb (pr_a p) \<and>
    (TCPConnection_state (fst (pr_a p)) = TCPState_of_State CLOSED \<or>
     TCPConnection_state (fst (pr_b p)) = TCPState_of_State CLOSED \<longrightarrow>
       delivered Sa (pr_b p) \<and> delivered Sb (pr_a p))"
proof -
  obtain i i' where inv: "pair_inv Sa i Sb i' p"
    using pair_reachable_inv [OF assms(3) pair_inv_init [OF assms(1,2) refl refl]] by blast
  then have inv': "pair_inv Sb i' Sa i (mirror p)" by (rule pair_inv_mirror [THEN iffD1])
  have "delivers Sb (fst (pr_a p), snd (pr_a p))" "delivers Sa (fst (pr_b p), snd (pr_b p))"
    using inv by (auto simp: pair_inv_def half_inv_def simp del: prod.collapse intro: endpoint_delivers(1))
  then have "delivers Sb (pr_a p)" "delivers Sa (pr_b p)" by simp_all
  then show ?thesis using closed_delivered [OF inv] closed_delivered [OF inv'] by auto
qed

subsection \<open>Executing a schedule\<close>

text \<open>The steps of the pair along a given schedule; the flag says which side acts.\<close>

lemma next_bytes_iff [code]:
  "next_bytes S st data \<longleftrightarrow> take (length data) (drop (unat (bs_bytes_written st)) S) = data"
proof
  assume "next_bytes S st data"
  then show "take (length data) (drop (unat (bs_bytes_written st)) S) = data"
    by (auto simp: next_bytes_def)
next
  assume "take (length data) (drop (unat (bs_bytes_written st)) S) = data"
  then show "next_bytes S st data"
    unfolding next_bytes_def by (metis append_take_drop_id)
qed

fun left_exec :: "bytes \<Rightarrow> conn_event \<Rightarrow> pair \<Rightarrow> pair option" where
  "left_exec S Take p =
     (case conn_segments_out (fst (pr_a p)) of [] \<Rightarrow> None
      | seg # _ \<Rightarrow> Some (p\<lparr>pr_a := conn_step (pr_a p) Take, pr_ab := insert seg (pr_ab p)\<rparr>))"
| "left_exec S (Segment seg) p =
     (if conn_event_ok S (pr_a p) (Segment seg) \<and> seg \<in> pr_ba p
      then Some (p\<lparr>pr_a := conn_step (pr_a p) (Segment seg)\<rparr>) else None)"
| "left_exec S e p =
     (if conn_event_ok S (pr_a p) e then Some (p\<lparr>pr_a := conn_step (pr_a p) e\<rparr>) else None)"

lemma left_exec_step: "left_exec S e p = Some p' \<Longrightarrow> left_step S p p'"
  by (cases "(S, e, p)" rule: left_exec.cases)
    (auto split: list.splits if_splits intro: left_step.intros)

fun pair_exec :: "bytes \<Rightarrow> bytes \<Rightarrow> (bool \<times> conn_event) list \<Rightarrow> pair \<Rightarrow> pair option" where
  "pair_exec Sa Sb [] p = Some p"
| "pair_exec Sa Sb ((True, e) # es) p =
     (case left_exec Sa e p of None \<Rightarrow> None | Some p' \<Rightarrow> pair_exec Sa Sb es p')"
| "pair_exec Sa Sb ((False, e) # es) p =
     (case left_exec Sb e (mirror p) of None \<Rightarrow> None
      | Some p' \<Rightarrow> pair_exec Sa Sb es (mirror p'))"

lemma pair_exec_steps: "pair_exec Sa Sb es p = Some p' \<Longrightarrow> (pair_step Sa Sb)\<^sup>*\<^sup>* p p'"
proof (induction Sa Sb es p rule: pair_exec.induct)
  case (2 Sa Sb e es p)
  then show ?case
    by (auto split: option.splits intro: converse_rtranclp_into_rtranclp pair_step.left left_exec_step)
next
  case (3 Sa Sb e es p)
  have "pair_step Sa Sb p (mirror q)" if "left_exec Sb e (mirror p) = Some q" for q
    using left_exec_step [OF that] by (intro pair_step.right) simp
  with 3 show ?case by (auto split: option.splits intro: converse_rtranclp_into_rtranclp)
qed simp

definition pair_segment :: "u32 \<Rightarrow> bool \<Rightarrow> bool \<Rightarrow> (u32 \<times> u16) option \<Rightarrow> Buffer \<Rightarrow> TCPSegment" where
  "pair_segment seqno syn fin ack payload =
     \<lparr>seg_header = TCPHeader_default\<lparr>th_seqno := WrappingInt32 seqno, th_syn := syn, th_fin := fin,
        th_ack := (ack \<noteq> None), th_ackno := WrappingInt32 (case ack of None \<Rightarrow> 0 | Some (a, w) \<Rightarrow> a),
        th_win := (case ack of None \<Rightarrow> 0 | Some (a, w) \<Rightarrow> w)\<rparr>,
      seg_payload = payload\<rparr>"

text \<open>A whole connection: handshake, close by \<open>b\<close>, one byte from \<open>a\<close>, close by \<open>a\<close>.\<close>

definition sample_schedule :: "(bool \<times> conn_event) list" where
  "sample_schedule =
     (let seg = pair_segment; none = Buffer_default; str = Buffer_of_string in
      [(True, Connect), (True, Take),
       (False, Segment (seg 7 True False None none)), (False, Take),
       (True, Segment (seg 100 True False (Some (8, 10)) none)), (True, Take),
       (False, Segment (seg 8 False False (Some (101, 10)) none)), (False, End_input), (False, Take),
       (True, Segment (seg 101 False True (Some (8, 10)) (str []))), (True, Take),
       (True, Write [5]), (True, Take), (True, End_input), (True, Take),
       (False, Segment (seg 8 False False (Some (102, 10)) (str [5]))),
       (False, Segment (seg 9 False True (Some (102, 10)) (str []))), (False, Take), (False, Take),
       (True, Segment (seg 102 False False (Some (10, 9)) none))])"

definition sample_pair :: pair where
  "sample_pair =
     (let cfg = \<lambda>isn. sample_cfg\<lparr>cfg_fixed_isn := Some (WrappingInt32 isn), cfg_recv_capacity := 10\<rparr>
      in pair_init (TCPConnection_init (cfg 7) 0 0) (TCPConnection_init (cfg 100) 0 0))"

theorem duplex_delivery_witness:
  "case pair_exec [5] [] sample_schedule sample_pair of
     None \<Rightarrow> False
   | Some p \<Rightarrow> TCPConnection_state (fst (pr_a p)) = TCPState_of_State CLOSED \<and>
       delivered [5] (pr_b p) \<and> delivered [] (pr_a p)"
proof -
  have v: "(case pair_exec [5] [] sample_schedule sample_pair of None \<Rightarrow> False
      | Some p \<Rightarrow> TCPConnection_state (fst (pr_a p)) = TCPState_of_State CLOSED)"
    by code_simp
  then obtain p where p: "pair_exec [5] [] sample_schedule sample_pair = Some p"
    and c: "TCPConnection_state (fst (pr_a p)) = TCPState_of_State CLOSED"
    by (cases "pair_exec [5] [] sample_schedule sample_pair") (simp_all only: option.case)
  have "delivered [5] (pr_b p) \<and> delivered [] (pr_a p)"
    using duplex_delivery [OF _ _ pair_exec_steps [OF p, unfolded sample_pair_def Let_def]] c by simp
  then show ?thesis using p c by simp
qed

end
