(* ===== verification/IPv4.thy ===== *)
theory IPv4
  imports TCP_Segment
begin

text \<open>
  IPv4 headers and datagrams on the wire: \<open>src/libsponge/tcp_helpers/ipv4_header.{hh,cc}\<close> and
  \<open>ipv4_datagram.{hh,cc}\<close>. \<open>parse\<close> returns early on a short packet and then leaves the header as it
  was, so it takes the old header. The results are that parsing inverts serialisation and that the
  header parser notices a corrupted byte; that \<open>IPv4Datagram::parse\<close> does not ask it is shown by
  \<open>bad_checksum_accepted\<close>.
\<close>

subsection \<open>IPv4Header\<close>

record IPv4Header =
  ip_ver :: u8
  ip_hlen :: u8
  ip_tos :: u8
  ip_len :: u16
  ip_id :: u16
  ip_df :: bool
  ip_mf :: bool
  ip_offset :: u16
  ip_ttl :: u8
  ip_proto :: u8
  ip_cksum :: u16
  ip_src :: u32
  ip_dst :: u32

definition IPv4Header_LENGTH :: u64 where
  "IPv4Header_LENGTH = 20"

definition IPv4Header_DEFAULT_TTL :: u8 where
  "IPv4Header_DEFAULT_TTL = 128"

definition IPv4Header_PROTO_TCP :: u8 where
  "IPv4Header_PROTO_TCP = 6"

definition IPv4Header_default :: IPv4Header where
  "IPv4Header_default =
     \<lparr>ip_ver = 4, ip_hlen = ucast (IPv4Header_LENGTH div 4), ip_tos = 0, ip_len = 0, ip_id = 0,
      ip_df = True, ip_mf = False, ip_offset = 0, ip_ttl = IPv4Header_DEFAULT_TTL,
      ip_proto = IPv4Header_PROTO_TCP, ip_cksum = 0, ip_src = 0, ip_dst = 0\<rparr>"

definition IPv4Header_parse ::
  "IPv4Header \<Rightarrow> NetParser \<Rightarrow> ParseResult \<times> IPv4Header \<times> NetParser" where
  "IPv4Header_parse h p =
     (let original_serialized_version = np_buffer p;
          data_size = Buffer_size (np_buffer p)
      in if data_size < IPv4Header_LENGTH then (PacketTooShort, h, p)
         else
           let (first_byte, p) = NetParser_u8 p;
               (tos, p) = NetParser_u8 p;
               (len, p) = NetParser_u16 p;
               (id, p) = NetParser_u16 p;
               (fo_val, p) = NetParser_u16 p;
               (ttl, p) = NetParser_u8 p;
               (proto, p) = NetParser_u8 p;
               (cksum, p) = NetParser_u16 p;
               (src, p) = NetParser_u32 p;
               (dst, p) = NetParser_u32 p;
               hlen = and first_byte 0x0f;
               h = \<lparr>ip_ver = drop_bit 4 first_byte, ip_hlen = hlen, ip_tos = tos, ip_len = len,
                    ip_id = id, ip_df = (and fo_val 0x4000 \<noteq> 0), ip_mf = (and fo_val 0x2000 \<noteq> 0),
                    ip_offset = and fo_val 0x1fff, ip_ttl = ttl, ip_proto = proto,
                    ip_cksum = cksum, ip_src = src, ip_dst = dst\<rparr>
           in if data_size < 4 * ucast hlen then (PacketTooShort, h, p)
              else if ip_ver h \<noteq> 4 then (WrongIPVersion, h, p)
              else if hlen < 5 then (HeaderTooShort, h, p)
              else if data_size \<noteq> ucast len then (TruncatedPacket, h, p)
              else
                let p = NetParser_remove_prefix p (ucast hlen * 4 - IPv4Header_LENGTH)
                in if NetParser_error p then (np_error p, h, p)
                   else
                     let check = InternetChecksum_add (InternetChecksum_init 0)
                           (take (4 * unat hlen) (Buffer_str original_serialized_version))
                     in if InternetChecksum_value check \<noteq> 0 then (BadChecksum, h, p)
                        else (NoError, h, p))"

definition IPv4Header_fo_val :: "IPv4Header \<Rightarrow> u16" where
  "IPv4Header_fo_val h =
     or (or (if ip_df h then 0x4000 else 0) (if ip_mf h then 0x2000 else 0)) (and (ip_offset h) 0x1fff)"

definition IPv4Header_serialize :: "IPv4Header \<Rightarrow> bytes result" where
  "IPv4Header_serialize h =
     (if ip_ver h \<noteq> 4 then Inl (Runtime_error ''wrong IP version'')
      else if 4 * ucast (ip_hlen h) < IPv4Header_LENGTH
      then Inl (Runtime_error ''IP header too short'')
      else let ret = [];
               first_byte = or (push_bit 4 (ip_ver h)) (and (ip_hlen h) 0xf);
               ret = NetUnparser_u8 ret first_byte;
               ret = NetUnparser_u8 ret (ip_tos h);
               ret = NetUnparser_u16 ret (ip_len h);
               ret = NetUnparser_u16 ret (ip_id h);
               ret = NetUnparser_u16 ret (IPv4Header_fo_val h);
               ret = NetUnparser_u8 ret (ip_ttl h);
               ret = NetUnparser_u8 ret (ip_proto h);
               ret = NetUnparser_u16 ret (ip_cksum h);
               ret = NetUnparser_u32 ret (ip_src h);
               ret = NetUnparser_u32 ret (ip_dst h)
           in Inr (string_resize ret (4 * unat (ip_hlen h))))"

definition IPv4Header_payload_length :: "IPv4Header \<Rightarrow> u16" where
  "IPv4Header_payload_length h = ip_len h - 4 * ucast (ip_hlen h)"

definition IPv4Header_pseudo_cksum :: "IPv4Header \<Rightarrow> u32" where
  "IPv4Header_pseudo_cksum h =
     (let pcksum = drop_bit 16 (ip_src h) + and (ip_src h) 0xffff;
          pcksum = pcksum + (drop_bit 16 (ip_dst h) + and (ip_dst h) 0xffff);
          pcksum = pcksum + ucast (ip_proto h);
          pcksum = pcksum + ucast (IPv4Header_payload_length h)
      in pcksum)"

subsection \<open>IPv4Datagram\<close>

record IPv4Datagram =
  dg_header :: IPv4Header
  dg_payload :: BufferList

definition IPv4Datagram_default :: IPv4Datagram where
  "IPv4Datagram_default = \<lparr>dg_header = IPv4Header_default, dg_payload = []\<rparr>"

definition IPv4Datagram_parse :: "IPv4Datagram \<Rightarrow> Buffer \<Rightarrow> ParseResult \<times> IPv4Datagram" where
  "IPv4Datagram_parse d buffer =
     (let p = NetParser_init buffer;
          (_, h, p) = IPv4Header_parse (dg_header d) p;
          d = d\<lparr>dg_header := h, dg_payload := BufferList_of_Buffer (np_buffer p)\<rparr>
      in if BufferList_size (dg_payload d) \<noteq> ucast (IPv4Header_payload_length h)
         then (PacketTooShort, d)
         else (np_error p, d))"

definition IPv4Datagram_serialize :: "IPv4Datagram \<Rightarrow> BufferList result" where
  "IPv4Datagram_serialize d =
     (if BufferList_size (dg_payload d) \<noteq> ucast (IPv4Header_payload_length (dg_header d))
      then Inl (Runtime_error ''IPv4Datagram::serialize: payload is wrong size'')
      else
        let header_out = (dg_header d)\<lparr>ip_cksum := 0\<rparr>
        in case IPv4Header_serialize header_out of
             Inl e \<Rightarrow> Inl e
           | Inr header_zero_checksum \<Rightarrow>
               let check = InternetChecksum_add (InternetChecksum_init 0) header_zero_checksum;
                   header_out = header_out\<lparr>ip_cksum := InternetChecksum_value check\<rparr>
               in case IPv4Header_serialize header_out of
                    Inl e \<Rightarrow> Inl e
                  | Inr hdr \<Rightarrow>
                      let ret = [];
                          ret = BufferList_append ret (BufferList_of_string hdr);
                          ret = BufferList_append ret (dg_payload d)
                      in Inr ret)"

subsection \<open>The wire format\<close>

definition ip_front :: "IPv4Header \<Rightarrow> bytes" where
  "ip_front h =
     be_bytes 1 (or (push_bit 4 (ip_ver h)) (and (ip_hlen h) 0xf)) @ be_bytes 1 (ip_tos h) @
     be_bytes 2 (ip_len h) @ be_bytes 2 (ip_id h) @ be_bytes 2 (IPv4Header_fo_val h) @
     be_bytes 1 (ip_ttl h) @ be_bytes 1 (ip_proto h)"

definition ip_back :: "IPv4Header \<Rightarrow> bytes" where
  "ip_back h = be_bytes 4 (ip_src h) @ be_bytes 4 (ip_dst h) @ replicate (4 * unat (ip_hlen h) - 20) 0"

text \<open>The headers with legal fields: version 4, a header length between 5 and 15 words, and a 13-bit
  fragment offset.\<close>

definition ip_legal :: "IPv4Header \<Rightarrow> bool" where
  "ip_legal h \<longleftrightarrow> ip_ver h = 4 \<and> 5 \<le> ip_hlen h \<and> ip_hlen h \<le> 15 \<and> ip_offset h \<le> 0x1fff"

lemma length_ip_front [simp]: "length (ip_front h) = 10"
  by (simp add: ip_front_def)

lemma length_ip_back: "5 \<le> unat (ip_hlen h) \<Longrightarrow> length (ip_back h) = 4 * unat (ip_hlen h) - 12"
  by (simp add: ip_back_def)

lemma ip_legal_hlen:
  assumes "ip_legal h"
  shows "5 \<le> unat (ip_hlen h)" and "unat (ip_hlen h) \<le> 15"
    and "unat (4 * ucast (ip_hlen h) :: u64) = 4 * unat (ip_hlen h)"
    and "unat (ucast (ip_hlen h) * 4 - IPv4Header_LENGTH :: u64) = 4 * unat (ip_hlen h) - 20"
proof -
  show l: "5 \<le> unat (ip_hlen h)" "unat (ip_hlen h) \<le> 15"
    using assms by (simp_all add: ip_legal_def word_le_nat_alt)
  have u: "unat (ucast (ip_hlen h) :: u64) = unat (ip_hlen h)"
    using l by (simp add: unsigned_ucast_eq take_bit_nat_eq_self)
  show m: "unat (4 * ucast (ip_hlen h) :: u64) = 4 * unat (ip_hlen h)"
    using l u by (subst unat_mult_lem [THEN iffD1]) simp_all
  then have "unat (ucast (ip_hlen h) * 4 :: u64) = 4 * unat (ip_hlen h)" by (simp add: mult.commute)
  then show "unat (ucast (ip_hlen h) * 4 - IPv4Header_LENGTH :: u64) = 4 * unat (ip_hlen h) - 20"
    using l by (subst unat_sub) (simp_all add: IPv4Header_LENGTH_def word_le_nat_alt)
qed

lemma serialize_ip_header:
  assumes "ip_legal h"
  shows "IPv4Header_serialize h = Inr (ip_front h @ be_bytes 2 (ip_cksum h) @ ip_back h)"
  using assms ip_legal_hlen [OF assms]
  by (simp add: IPv4Header_serialize_def ip_front_def ip_back_def unparse_enc string_resize_def Let_def
      ip_legal_def IPv4Header_LENGTH_def word_less_nat_alt)

lemma ip_parts_cksum [simp]:
  "ip_front (h\<lparr>ip_cksum := c\<rparr>) = ip_front h" "ip_back (h\<lparr>ip_cksum := c\<rparr>) = ip_back h"
  "ip_legal (h\<lparr>ip_cksum := c\<rparr>) = ip_legal h"
  "IPv4Header_payload_length (h\<lparr>ip_cksum := c\<rparr>) = IPv4Header_payload_length h"
  by (simp_all add: ip_front_def ip_back_def IPv4Header_fo_val_def ip_legal_def
      IPv4Header_payload_length_def)

text \<open>The packed fields are read back.\<close>

lemma first_byte_roundtrip:
  assumes "(x :: u8) \<le> 15"
  shows "drop_bit 4 (or 64 (and x 0xf)) = 4" and "and (or 64 (and x 0xf)) 0xf = x"
proof -
  have u: "unat x \<le> 15" using assms by (simp add: word_le_nat_alt)
  have m: "(0xf :: u8) = mask 4" by (simp add: mask_eq_exp_minus_1)
  have "take_bit 4 (unat x) = unat x" using u by (simp add: take_bit_nat_eq_self)
  then have a: "and x 0xf = x"
    unfolding m take_bit_eq_mask [symmetric] by (simp add: word_unat_eq_iff unsigned_take_bit_eq)
  have "unat (drop_bit 4 x) = 0" unfolding unat_drop_bit_eq using u by (simp add: drop_bit_eq_div)
  then have "drop_bit 4 x = 0" by (simp only: unat_eq_0)
  then show "drop_bit 4 (or 64 (and x 0xf)) = 4" unfolding a by (simp only: drop_bit_or) simp
  show "and (or 64 (and x 0xf)) 0xf = x" unfolding a by (simp add: bit.conj_disj_distrib2 a)
qed

lemma fo_val_roundtrip:
  assumes "ip_offset h \<le> 0x1fff"
  shows "and (IPv4Header_fo_val h) 0x4000 \<noteq> 0 \<longleftrightarrow> ip_df h"
    and "and (IPv4Header_fo_val h) 0x2000 \<noteq> 0 \<longleftrightarrow> ip_mf h"
    and "and (IPv4Header_fo_val h) 0x1fff = ip_offset h"
proof -
  let ?o = "ip_offset h"
  have m: "(0x1fff :: u16) = mask 13" by (simp add: mask_eq_exp_minus_1)
  have "unat ?o \<le> 0x1fff" using assms by (simp add: word_le_nat_alt)
  then have "take_bit 13 (unat ?o) = unat ?o" by (simp add: take_bit_nat_eq_self)
  then have a: "and ?o 0x1fff = ?o"
    unfolding m take_bit_eq_mask [symmetric] by (simp add: word_unat_eq_iff unsigned_take_bit_eq)
  have z: "and (and ?o 0x1fff) 0x4000 = 0" "and (and ?o 0x1fff) 0x2000 = 0"
    by (simp_all add: and.assoc)
  show "and (IPv4Header_fo_val h) 0x4000 \<noteq> 0 \<longleftrightarrow> ip_df h"
    and "and (IPv4Header_fo_val h) 0x2000 \<noteq> 0 \<longleftrightarrow> ip_mf h"
    by (simp_all add: IPv4Header_fo_val_def bit.conj_disj_distrib2 z)
  show "and (IPv4Header_fo_val h) 0x1fff = ?o"
    by (simp add: IPv4Header_fo_val_def bit.conj_disj_distrib2 a)
qed

subsection \<open>Parsing what was serialised\<close>

abbreviation ip_checksum :: "bytes \<Rightarrow> u16" where
  "ip_checksum bs \<equiv> InternetChecksum_value (InternetChecksum_add (InternetChecksum_init 0) bs)"

lemma unat_u16_bound: "unat (n :: u16) < 65536"
  using unsigned_less [of n] by simp

lemma unat_ucast_16_64: "unat (ucast (n :: u16) :: u64) = unat n"
proof -
  have "unat n < 2 ^ 64" using unat_u16_bound [of n] by simp
  then show ?thesis by (simp add: unsigned_ucast_eq take_bit_nat_eq_self)
qed

lemma parse_ip_header:
  assumes legal: "ip_legal h"
    and p: "parses p (ip_front h @ be_bytes 2 (ip_cksum h) @ ip_back h @ rest)"
    and len: "unat (ip_len h) = 4 * unat (ip_hlen h) + length rest"
    and sum: "ip_checksum (ip_front h @ be_bytes 2 (ip_cksum h) @ ip_back h) = 0"
  shows "\<exists>p'. IPv4Header_parse h' p = (NoError, h, p') \<and> parses p' rest"
proof -
  note p0 = p [unfolded ip_front_def ip_back_def append_assoc]
  note p1 = codec8.rest_enc [OF p0] note v1 = codec8.parse_enc [OF p0]
  note p2 = codec8.rest_enc [OF p1] note v2 = codec8.parse_enc [OF p1]
  note p3 = codec16.rest_enc [OF p2] note v3 = codec16.parse_enc [OF p2]
  note p4 = codec16.rest_enc [OF p3] note v4 = codec16.parse_enc [OF p3]
  note p5 = codec16.rest_enc [OF p4] note v5 = codec16.parse_enc [OF p4]
  note p6 = codec8.rest_enc [OF p5] note v6 = codec8.parse_enc [OF p5]
  note p7 = codec8.rest_enc [OF p6] note v7 = codec8.parse_enc [OF p6]
  note p8 = codec16.rest_enc [OF p7] note v8 = codec16.parse_enc [OF p7]
  note p9 = codec32.rest_enc [OF p8] note v9 = codec32.parse_enc [OF p8]
  note p10 = codec32.rest_enc [OF p9] note v10 = codec32.parse_enc [OF p9]
  note hl = ip_legal_hlen [OF legal]
  have fields: "ip_ver h = 4" "ip_hlen h \<le> 15" "ip_offset h \<le> 0x1fff" "\<not> ip_hlen h < 5"
    using legal by (auto simp: ip_legal_def)
  have str: "Buffer_str (np_buffer p) = ip_front h @ be_bytes 2 (ip_cksum h) @ ip_back h @ rest"
    using p by (rule parses_buffer)
  have total: "length (Buffer_str (np_buffer p)) = 4 * unat (ip_hlen h) + length rest"
    using hl(1) by (simp add: str length_ip_back)
  have small: "unat (Buffer_size (np_buffer p)) = unat (ip_len h)"
    unfolding Buffer_size_def total len [symmetric]
    using unat_u16_bound [of "ip_len h"] by (intro unat_of_nat_u64) simp
  have size: "\<not> Buffer_size (np_buffer p) < IPv4Header_LENGTH"
    "\<not> Buffer_size (np_buffer p) < 4 * ucast (ip_hlen h)" "Buffer_size (np_buffer p) = ucast (ip_len h)"
    using small len hl
    by (simp_all add: word_less_nat_alt IPv4Header_LENGTH_def word_unat_eq_iff unat_ucast_16_64)
  note p11 = remove_prefix_parses [OF p10, of "ucast (ip_hlen h) * 4 - IPv4Header_LENGTH", unfolded hl(4)]
  have take: "take (4 * unat (ip_hlen h)) (Buffer_str (np_buffer p))
      = ip_front h @ be_bytes 2 (ip_cksum h) @ ip_back h"
    using hl(1) by (simp add: str length_ip_back)
  have push: "push_bit 4 (4 :: u8) = 64" by simp
  show ?thesis
    using p11 parses_no_error [OF p11] sum fields size fo_val_roundtrip [OF fields(3)]
      first_byte_roundtrip [OF fields(2)]
    by (simp add: IPv4Header_parse_def split_beta Let_def v1 v2 v3 v4 v5 v6 v7 v8 v9 v10 push take
        NetParser_error_def)
qed

lemma BufferList_size_sz: "BufferList_size bs = sz (BufferList_concatenate bs)"
  by (induction bs) (simp_all add: Buffer_size_def)

text \<open>The datagrams that can be sent: legal header fields and a length field that counts header and
  payload.\<close>

definition datagram_fits :: "IPv4Datagram \<Rightarrow> bool" where
  "datagram_fits d \<longleftrightarrow> ip_legal (dg_header d) \<and>
     unat (ip_len (dg_header d))
       = 4 * unat (ip_hlen (dg_header d)) + length (BufferList_concatenate (dg_payload d))"

lemma payload_length_fits:
  assumes "5 \<le> unat (ip_hlen h)" "unat (ip_hlen h) \<le> 15" and "unat (ip_len h) = 4 * unat (ip_hlen h) + n"
  shows "(ucast (IPv4Header_payload_length h) :: u64) = of_nat n"
proof -
  have u: "unat (ucast (ip_hlen h) :: u16) = unat (ip_hlen h)"
    using assms by (simp add: unsigned_ucast_eq take_bit_nat_eq_self)
  then have m: "unat (4 * ucast (ip_hlen h) :: u16) = 4 * unat (ip_hlen h)"
    using assms by (subst unat_mult_lem [THEN iffD1]) simp_all
  then have "unat (IPv4Header_payload_length h) = n"
    unfolding IPv4Header_payload_length_def
    using assms(3) by (subst unat_sub) (simp_all add: word_le_nat_alt)
  moreover have "unat (of_nat n :: u64) = n"
    using assms(3) unat_u16_bound [of "ip_len h"] by (intro unat_of_nat_u64) simp
  ultimately show ?thesis by (simp add: word_unat_eq_iff unat_ucast_16_64)
qed

lemma ip_checksum_fits: "length bs \<le> 60 \<Longrightarrow> checksum_fits 0 bs"
  by (simp add: checksum_fits_def)

lemma serialize_datagram:
  assumes fits: "datagram_fits d"
  defines "h \<equiv> dg_header d"
  shows "\<exists>out (c :: u16). IPv4Datagram_serialize d = Inr out \<and> BufferList_concatenate out
      = ip_front h @ be_bytes 2 c @ ip_back h @ BufferList_concatenate (dg_payload d) \<and>
    ip_checksum (ip_front h @ be_bytes 2 c @ ip_back h) = 0"
proof -
  have legal: "ip_legal h" using fits by (simp add: datagram_fits_def h_def)
  note hl = ip_legal_hlen [OF legal]
  define c where "c = ip_checksum (ip_front h @ [0, 0] @ ip_back h)"
  have "length (ip_front h @ [0, 0] @ ip_back h) \<le> 60" using hl by (simp add: length_ip_back)
  then have "ip_checksum (ip_front h @ be_bytes 2 c @ ip_back h) = 0"
    unfolding c_def by (intro checksum_field_verifies ip_checksum_fits) simp_all
  moreover have "\<exists>out. IPv4Datagram_serialize d = Inr out \<and> BufferList_concatenate out
      = ip_front h @ be_bytes 2 c @ ip_back h @ BufferList_concatenate (dg_payload d)"
    using payload_length_fits [OF hl(1,2)] fits legal
    by (simp add: IPv4Datagram_serialize_def datagram_fits_def BufferList_size_sz serialize_ip_header
        be_bytes_2_zero c_def flip: h_def)
  ultimately show ?thesis by blast
qed

lemma parse_datagram:
  assumes fits: "datagram_fits d" and b: "Buffer_inv b"
    and str: "Buffer_str b = ip_front (dg_header d) @ be_bytes 2 c @ ip_back (dg_header d)
      @ BufferList_concatenate (dg_payload d)"
    and sum: "ip_checksum (ip_front (dg_header d) @ be_bytes 2 c @ ip_back (dg_header d)) = 0"
  shows "\<exists>d'. IPv4Datagram_parse d0 b = (NoError, d') \<and> dg_header d' = (dg_header d)\<lparr>ip_cksum := c\<rparr> \<and>
    BufferList_concatenate (dg_payload d') = BufferList_concatenate (dg_payload d) \<and>
    (\<exists>b'. dg_payload d' = [b'] \<and> Buffer_inv b')"
proof -
  let ?h = "(dg_header d)\<lparr>ip_cksum := c\<rparr>" and ?d = "BufferList_concatenate (dg_payload d)"
  have legal: "ip_legal ?h" and len: "unat (ip_len ?h) = 4 * unat (ip_hlen ?h) + length ?d"
    using fits by (simp_all add: datagram_fits_def)
  have "parses (NetParser_init b) (ip_front ?h @ be_bytes 2 (ip_cksum ?h) @ ip_back ?h @ ?d)"
    using parses_init [OF b] str by simp
  from parse_ip_header [OF legal this len, of "dg_header d0"] sum
  obtain p' where p': "IPv4Header_parse (dg_header d0) (NetParser_init b) = (NoError, ?h, p')"
    "parses p' ?d" by auto
  have "(ucast (IPv4Header_payload_length ?h) :: u64) = sz ?d"
    using payload_length_fits [of ?h] ip_legal_hlen [OF legal] len by simp
  then show ?thesis
    using p'(1) parses_buffer [OF p'(2)] parses_no_error [OF p'(2)] p'(2)
    by (simp add: IPv4Datagram_parse_def Let_def BufferList_of_Buffer_def Buffer_size_def)
      (simp add: parses_def)
qed

text \<open>C38: an IPv4 datagram survives the wire. For every datagram with legal header fields whose length
  field counts header and payload, serialisation succeeds, the parser accepts the bytes, every
  header field except the freshly computed checksum is the original one, and so is the payload.\<close>
theorem ipv4_datagram_roundtrip:
  assumes "datagram_fits d"
  shows "\<exists>out d'. IPv4Datagram_serialize d = Inr out \<and>
    IPv4Datagram_parse d0 (Buffer_of_string (BufferList_concatenate out)) = (NoError, d') \<and>
    dg_header d' = (dg_header d)\<lparr>ip_cksum := ip_cksum (dg_header d')\<rparr> \<and>
    BufferList_concatenate (dg_payload d') = BufferList_concatenate (dg_payload d)"
proof -
  obtain out and c :: u16 where out: "IPv4Datagram_serialize d = Inr out"
    "BufferList_concatenate out = ip_front (dg_header d) @ be_bytes 2 c @ ip_back (dg_header d)
      @ BufferList_concatenate (dg_payload d)"
    "ip_checksum (ip_front (dg_header d) @ be_bytes 2 c @ ip_back (dg_header d)) = 0"
    using serialize_datagram [OF assms] by blast
  have "length (BufferList_concatenate out) = unat (ip_len (dg_header d))"
    using assms ip_legal_hlen(1) [of "dg_header d"]
    by (simp add: out(2) datagram_fits_def length_ip_back)
  then have "Buffer_inv (Buffer_of_string (BufferList_concatenate out))"
    using unat_u16_bound [of "ip_len (dg_header d)"] by simp
  from parse_datagram [OF assms this _ out(3), of d0] out(1,2) show ?thesis by fastforce
qed

theorem ipv4_datagram_roundtrip_witness:
  "let d = \<lparr>dg_header = IPv4Header_default\<lparr>ip_len := 27, ip_hlen := 6, ip_mf := True, ip_offset := 0x1234,
              ip_src := 0x0a000001, ip_dst := 0xc0a80101\<rparr>,
            dg_payload = [Buffer_of_string [1, 2], Buffer_of_string [3]]\<rparr>
   in \<exists>out d'. IPv4Datagram_serialize d = Inr out \<and>
        IPv4Datagram_parse IPv4Datagram_default (Buffer_of_string (BufferList_concatenate out))
          = (NoError, d') \<and>
        dg_header d' = (dg_header d)\<lparr>ip_cksum := ip_cksum (dg_header d')\<rparr> \<and>
        BufferList_concatenate (dg_payload d') = [1, 2, 3]"
proof -
  let ?d = "\<lparr>dg_header = IPv4Header_default\<lparr>ip_len := 27, ip_hlen := 6, ip_mf := True, ip_offset := 0x1234,
              ip_src := 0x0a000001, ip_dst := 0xc0a80101\<rparr>,
            dg_payload = [Buffer_of_string [1, 2], Buffer_of_string [3]]\<rparr>"
  have "datagram_fits ?d"
    by (simp add: datagram_fits_def ip_legal_def IPv4Header_default_def)
  from ipv4_datagram_roundtrip [OF this, of IPv4Datagram_default] show ?thesis by (simp add: Let_def)
qed

subsection \<open>Corruption\<close>

lemma be_bytes_1 [simp]: "be_bytes (Suc 0) (b :: u8) = [b]"
proof -
  have "be_byte b 0 = b"
    using unat_be_byte [of b 0] unat_u8_le [of b] by (simp add: word_unat_eq_iff)
  then show ?thesis by (simp add: be_bytes_def)
qed

lemma parse_u8:
  assumes "parses p (b # bs)"
  shows "fst (NetParser_u8 p) = b"
  using codec8.parse_enc [of p b bs] assms by simp

text \<open>Whoever is answered \<open>NoError\<close> has a header whose checksum is right, over the length that the
  first byte gives.\<close>

lemma parse_NoError_checksum:
  assumes "parses p (b # bs)" and "fst (IPv4Header_parse h p) = NoError"
  shows "ip_checksum (take (4 * unat (and b 0xf)) (b # bs)) = 0"
  using assms(2) parses_buffer [OF assms(1)] parse_u8 [OF assms(1)]
  by (simp add: IPv4Header_parse_def split_beta Let_def NetParser_error_def split: if_splits)

text \<open>The header parser notices corruption. If one byte of a serialised IPv4 header is changed on
  the way (any byte but the first, which holds version and header length), \<open>IPv4Header::parse\<close> does
  not answer NoError.\<close>
theorem ipv4_header_rejects_corruption:
  assumes "datagram_fits d" and "IPv4Datagram_serialize d = Inr out"
    and "0 < i" and "i < 4 * unat (ip_hlen (dg_header d))" and "b \<noteq> BufferList_concatenate out ! i"
  shows "fst (IPv4Header_parse h
    (NetParser_init (Buffer_of_string ((BufferList_concatenate out)[i := b])))) \<noteq> NoError"
proof
  let ?h = "dg_header d" and ?o = "BufferList_concatenate out"
  assume ok: "fst (IPv4Header_parse h (NetParser_init (Buffer_of_string (?o[i := b])))) = NoError"
  have legal: "ip_legal ?h" using assms(1) by (simp add: datagram_fits_def)
  note hl = ip_legal_hlen [OF legal]
  obtain c :: u16 where out: "?o = ip_front ?h @ be_bytes 2 c @ ip_back ?h
      @ BufferList_concatenate (dg_payload d)"
    and sum: "ip_checksum (ip_front ?h @ be_bytes 2 c @ ip_back ?h) = 0"
    using serialize_datagram [OF assms(1)] assms(2) by auto
  let ?hdr = "ip_front ?h @ be_bytes 2 c @ ip_back ?h" and ?n = "4 * unat (ip_hlen ?h)"
  define b0 where "b0 = or 64 (and (ip_hlen ?h) 0xf)"
  have len: "length ?hdr = ?n" using hl by (simp add: length_ip_back)
  have "length ?o = unat (ip_len ?h)" using assms(1) len by (simp add: out datagram_fits_def)
  then have small: "length ?o < 2 ^ 64" using unat_u16_bound [of "ip_len ?h"] by simp
  have "ip_ver ?h = 4" using legal by (simp add: ip_legal_def)
  then have "?o \<noteq> []" "hd ?o = b0" by (simp_all add: out ip_front_def b0_def)
  then obtain bs where o: "?o = b0 # bs" by (cases ?o) simp_all
  then have o': "?o[i := b] = b0 # bs[i - 1 := b]" using assms(3) by (cases i) simp_all
  have hl0: "and b0 0xf = ip_hlen ?h"
    unfolding b0_def using legal by (intro first_byte_roundtrip) (simp add: ip_legal_def)
  have "parses (NetParser_init (Buffer_of_string (?o[i := b]))) (b0 # bs[i - 1 := b])"
    unfolding o' [symmetric] using parses_init [of "Buffer_of_string (?o[i := b])"] small by simp
  from parse_NoError_checksum [OF this ok] have "ip_checksum (take ?n (?o[i := b])) = 0"
    unfolding o' [symmetric] hl0 .
  moreover have "take ?n (?o[i := b]) = ?hdr[i := b]"
    using assms(4) len by (simp add: out take_update_swap flip: append_assoc)
  moreover have "checksum_fits 0 ?hdr" using hl len by (intro ip_checksum_fits) simp
  then have "ip_checksum (?hdr[i := b]) \<noteq> 0"
    using assms(4,5) len sum
    by (intro checksum_detects_byte) (simp_all add: out nth_append flip: append_assoc)
  ultimately show False by simp
qed

theorem ipv4_header_rejects_corruption_witness:
  "case IPv4Datagram_serialize (IPv4Datagram_default\<lparr>dg_header := IPv4Header_default\<lparr>ip_len := 20\<rparr>\<rparr>) of
     Inl e \<Rightarrow> False
   | Inr out \<Rightarrow> fst (IPv4Header_parse IPv4Header_default
       (NetParser_init (Buffer_of_string ((BufferList_concatenate out)[8 := 3])))) \<noteq> NoError"
proof -
  let ?d = "IPv4Datagram_default\<lparr>dg_header := IPv4Header_default\<lparr>ip_len := 20\<rparr>\<rparr>"
  have "case IPv4Datagram_serialize ?d of Inl e \<Rightarrow> False
      | Inr out \<Rightarrow> 3 \<noteq> BufferList_concatenate out ! 8" by code_simp
  moreover have "datagram_fits ?d"
    by (simp add: datagram_fits_def ip_legal_def IPv4Header_default_def IPv4Datagram_default_def
        IPv4Header_LENGTH_def)
  moreover have "8 < 4 * unat (ip_hlen (dg_header ?d))"
    by (simp add: IPv4Header_default_def IPv4Header_LENGTH_def)
  ultimately show ?thesis
    using ipv4_header_rejects_corruption [of ?d _ 8 3 IPv4Header_default] by (auto split: sum.splits)
qed

text \<open>\<open>IPv4Datagram::parse\<close> drops the answer of \<open>IPv4Header::parse\<close>: a datagram with a wrong header
  checksum is accepted.\<close>

lemma bad_checksum_accepted:
  "let b = Buffer_of_string ([0x45, 0, 0, 20] @ replicate 16 7)
   in fst (IPv4Header_parse IPv4Header_default (NetParser_init b)) = BadChecksum \<and>
      fst (IPv4Datagram_parse IPv4Datagram_default b) = NoError"
  by code_simp

end
