(* ===== verification/Decimal.thy ===== *)
theory Decimal
  imports Sponge_Prelude
begin

text \<open>
  Decimal and hexadecimal numerals as the C++ library prints and reads them: \<open>std::to_string\<close>,
  \<open>std::stoi\<close> on what it reads, the stream manipulator \<open>hex\<close>, and the dotted quads of
  \<open>inet_ntoa\<close>. The sources use them for addresses and for diagnostic text.
\<close>

definition digit_char :: "nat \<Rightarrow> char" where
  "digit_char d = ''0123456789abcdef'' ! d"

function to_base :: "nat \<Rightarrow> nat \<Rightarrow> string" where
  "to_base b n = (if n < b \<or> b < 2 then [digit_char n] else to_base b (n div b) @ [digit_char (n mod b)])"
  by pat_completeness auto
termination
proof (relation "measure snd")
  fix b n :: nat
  assume "\<not> (n < b \<or> b < 2)"
  then have "1 < b" "0 < n" by auto
  then have "n div b < n" by (rule div_less_dividend)
  then show "((b, n div b), (b, n)) \<in> measure snd" by simp
qed (rule wf_measure)

declare to_base.simps [simp del]

definition dec :: "nat \<Rightarrow> string" where
  "dec n = to_base 10 n"

definition hex :: "nat \<Rightarrow> string" where
  "hex n = to_base 16 n"

text \<open>The numeral with at least the given width, padded with zeros: \<open>setw\<close> with \<open>setfill('0')\<close>.\<close>

definition zero_pad :: "nat \<Rightarrow> string \<Rightarrow> string" where
  "zero_pad w s = replicate (w - length s) (CHR ''0'') @ s"

definition digit_val :: "char \<Rightarrow> nat option" where
  "digit_val c = (if c \<in> set ''0123456789'' then Some (of_char c - 48) else None)"

text \<open>\<open>std::stoi\<close> on a string that starts with a digit: the value of the longest prefix of digits.
  Without a digit in front it throws.\<close>

fun digits_val :: "nat \<Rightarrow> string \<Rightarrow> nat" where
  "digits_val a [] = a"
| "digits_val a (c # cs) = (case digit_val c of None \<Rightarrow> a | Some d \<Rightarrow> digits_val (10 * a + d) cs)"

definition stoi :: "string \<Rightarrow> nat result" where
  "stoi s = (case s of
     [] \<Rightarrow> Inl (Invalid_argument ''stoi'')
   | c # cs \<Rightarrow> (case digit_val c of None \<Rightarrow> Inl (Invalid_argument ''stoi'')
       | Some d \<Rightarrow> Inr (digits_val 0 s)))"

lemma less_10_cases:
  "(d :: nat) < 10 \<Longrightarrow> d = 0 \<or> d = 1 \<or> d = 2 \<or> d = 3 \<or> d = 4 \<or> d = 5 \<or> d = 6 \<or> d = 7 \<or> d = 8 \<or> d = 9"
  by presburger

lemma digit_val_char [simp]: "d < 10 \<Longrightarrow> digit_val (digit_char d) = Some d"
  by (drule less_10_cases) (auto simp: digit_val_def digit_char_def)

lemma digits_val_append:
  "\<forall>c\<in>set xs. digit_val c \<noteq> None \<Longrightarrow> digits_val a (xs @ ys) = digits_val (digits_val a xs) ys"
  by (induction xs arbitrary: a) auto

lemma dec_rec: "dec n = (if n < 10 then [digit_char n] else dec (n div 10) @ [digit_char (n mod 10)])"
  unfolding dec_def by (subst to_base.simps) simp

lemma dec_digits: "c \<in> set (dec n) \<Longrightarrow> digit_val c \<noteq> None"
proof (induction n rule: less_induct)
  case (less n)
  have "n div 10 < n" if "\<not> n < 10" using that by simp
  with less show ?case by (fastforce simp: dec_rec [of n] split: if_splits)
qed

lemma digits_val_dec: "digits_val 0 (dec n) = n"
proof (induction n rule: less_induct)
  case (less n)
  show ?case
  proof (cases "n < 10")
    case True
    then show ?thesis by (simp add: dec_rec [of n])
  next
    case False
    then have "digits_val 0 (dec (n div 10)) = n div 10" by (intro less.IH) simp
    moreover have "\<forall>c\<in>set (dec (n div 10)). digit_val c \<noteq> None" using dec_digits by blast
    ultimately show ?thesis using False by (simp add: dec_rec [of n] digits_val_append)
  qed
qed

lemma dec_not_Nil [simp]: "dec n \<noteq> []"
  by (simp add: dec_def to_base.simps [of 10 n])

lemma stoi_dec: "stoi (dec n) = Inr n"
proof -
  obtain c cs where d: "dec n = c # cs" by (cases "dec n") simp_all
  then obtain v where "digit_val c = Some v" using dec_digits [of c n] by auto
  then have "stoi (dec n) = Inr (digits_val 0 (dec n))" by (simp add: d stoi_def)
  then show ?thesis by (simp add: digits_val_dec)
qed

subsection \<open>Dotted quads\<close>

definition octet :: "u32 \<Rightarrow> nat \<Rightarrow> nat" where
  "octet a k = unat a div 256 ^ k mod 256"

text \<open>\<open>inet_ntoa({htobe32(a)})\<close>.\<close>

definition inet_ntoa :: "u32 \<Rightarrow> string" where
  "inet_ntoa a = dec (octet a 3) @ ''.'' @ dec (octet a 2) @ ''.'' @ dec (octet a 1) @ ''.'' @ dec (octet a 0)"

text \<open>Reading a dotted quad.\<close>

fun split_at :: "char \<Rightarrow> string \<Rightarrow> string \<Rightarrow> string list" where
  "split_at c acc [] = [acc]"
| "split_at c acc (x # xs) = (if x = c then acc # split_at c [] xs else split_at c (acc @ [x]) xs)"

definition inet_aton :: "string \<Rightarrow> u32 option" where
  "inet_aton s = (case split_at (CHR ''.'') [] s of
     [a, b, c, d] \<Rightarrow>
       (case (stoi a, stoi b, stoi c, stoi d) of
          (Inr a, Inr b, Inr c, Inr d) \<Rightarrow>
            Some (of_nat (a * 256 ^ 3 + b * 256 ^ 2 + c * 256 + d))
        | _ \<Rightarrow> None)
   | _ \<Rightarrow> None)"

lemma split_at_no: "c \<notin> set xs \<Longrightarrow> split_at c acc (xs @ c # ys) = (acc @ xs) # split_at c [] ys"
  by (induction xs arbitrary: acc) auto

lemma split_at_end: "c \<notin> set xs \<Longrightarrow> split_at c acc xs = [acc @ xs]"
  by (induction xs arbitrary: acc) auto

lemma dot_not_in_dec: "CHR ''.'' \<notin> set (dec n)"
  using dec_digits [of "CHR ''.''" n] by (auto simp: digit_val_def)

lemma base_256:
  fixes n :: nat
  assumes "n = q * 256 + r" "q = q' * 256 + r'" "q' = q'' * 256 + r''"
  shows "q'' * 256 ^ 3 + r'' * 256 ^ 2 + r' * 256 + r = n"
  using assms by simp

lemma octets_sum:
  "octet a 3 * 256 ^ 3 + octet a 2 * 256 ^ 2 + octet a 1 * 256 + octet a 0 = unat a"
proof -
  have "unat a < 256 ^ 4" using unsigned_less [of a] by simp
  then have 3: "octet a 3 = unat a div 256 ^ 3"
    by (simp add: octet_def less_mult_imp_div_less)
  have step: "n = n div 256 * 256 + n mod (256 :: nat)" for n by simp
  have d: "unat a div 256 div 256 = unat a div 256 ^ 2" "unat a div 256 ^ 2 div 256 = unat a div 256 ^ 3"
    by (simp_all flip: div_mult2_eq)
  have "octet a 0 = unat a mod 256" "octet a 1 = unat a div 256 mod 256"
    "octet a 2 = unat a div 256 ^ 2 mod 256" by (simp_all add: octet_def)
  moreover have "unat a = unat a div 256 * 256 + unat a mod 256"
    "unat a div 256 = unat a div 256 ^ 2 * 256 + unat a div 256 mod 256"
    "unat a div 256 ^ 2 = unat a div 256 ^ 3 * 256 + unat a div 256 ^ 2 mod 256"
    using step [of "unat a"] step [of "unat a div 256", unfolded d]
      step [of "unat a div 256 ^ 2", unfolded d] by blast+
  ultimately show ?thesis unfolding 3 using base_256 by metis
qed

lemma inet_aton_ntoa: "inet_aton (inet_ntoa a) = Some a"
proof -
  have "split_at (CHR ''.'') [] (inet_ntoa a)
      = [dec (octet a 3), dec (octet a 2), dec (octet a 1), dec (octet a 0)]"
    by (simp add: inet_ntoa_def split_at_no split_at_end dot_not_in_dec)
  then have "inet_aton (inet_ntoa a) = Some (of_nat (octet a 3 * 256 ^ 3 + octet a 2 * 256 ^ 2
      + octet a 1 * 256 + octet a 0))"
    by (simp add: inet_aton_def stoi_dec)
  then show ?thesis unfolding octets_sum by simp
qed

end
