(* ===== verification/Address.thy ===== *)
theory Address
  imports Decimal Internet_Checksum
begin

text \<open>
  Socket addresses: \<open>src/libsponge/util/address.{hh,cc}\<close>. The wrapped \<open>sockaddr_storage\<close> is its 128
  bytes, laid out as on Linux: the family in host byte order (little-endian), then for an IPv4
  address the port and the number in network byte order. The C library functions \<open>getaddrinfo\<close> and
  \<open>getnameinfo\<close> are parameters; what the sources rely on is their documented behaviour for numeric
  hosts and services, \<open>numeric_resolver\<close>.
\<close>

record addrinfo_hints =
  ai_flags :: int
  ai_family :: int

text \<open>\<open>getaddrinfo\<close> gives an error code or the list of resolved addresses; \<open>getnameinfo\<close> an error code
  or the host and the service.\<close>

type_synonym getaddrinfo = "string \<Rightarrow> string \<Rightarrow> addrinfo_hints \<Rightarrow> int + bytes list"
type_synonym getnameinfo = "bytes \<Rightarrow> u32 \<Rightarrow> int + string \<times> string"

definition AF_INET :: int where "AF_INET = 2"
definition AI_NUMERICHOST :: int where "AI_NUMERICHOST = 4"
definition AI_ALL :: int where "AI_ALL = 16"
definition AI_NUMERICSERV :: int where "AI_NUMERICSERV = 1024"

definition sizeof_sockaddr_storage :: nat where "sizeof_sockaddr_storage = 128"
definition sizeof_sockaddr_in :: u32 where "sizeof_sockaddr_in = 16"

record Address =
  addr_size :: u32
  addr_storage :: bytes

definition Address_of_sockaddr :: "bytes \<Rightarrow> Address result" where
  "Address_of_sockaddr addr =
     (if length addr > sizeof_sockaddr_storage then Inl (Runtime_error ''invalid sockaddr size'')
      else Inr \<lparr>addr_size = of_nat (length addr),
        addr_storage = addr @ replicate (sizeof_sockaddr_storage - length addr) 0\<rparr>)"

definition Address_resolve :: "getaddrinfo \<Rightarrow> string \<Rightarrow> string \<Rightarrow> addrinfo_hints \<Rightarrow> Address result" where
  "Address_resolve gai node service hints =
     (case gai node service hints of
        Inl gai_ret \<Rightarrow>
          Inl (System_error (''getaddrinfo('' @ node @ '', '' @ service @ '')'') gai_ret)
      | Inr [] \<Rightarrow> Inl (Runtime_error ''getaddrinfo returned successfully but with no results'')
      | Inr (addr # _) \<Rightarrow> Address_of_sockaddr addr)"

definition make_hints :: "int \<Rightarrow> int \<Rightarrow> addrinfo_hints" where
  "make_hints flags family = \<lparr>ai_flags = flags, ai_family = family\<rparr>"

definition Address_of_host :: "getaddrinfo \<Rightarrow> string \<Rightarrow> string \<Rightarrow> Address result" where
  "Address_of_host gai hostname service =
     Address_resolve gai hostname service (make_hints AI_ALL AF_INET)"

definition Address_of_ip :: "getaddrinfo \<Rightarrow> string \<Rightarrow> u16 \<Rightarrow> Address result" where
  "Address_of_ip gai ip port =
     Address_resolve gai ip (dec (unat port)) (make_hints (AI_NUMERICHOST + AI_NUMERICSERV) AF_INET)"

definition Address_ip_port :: "getnameinfo \<Rightarrow> Address \<Rightarrow> (string \<times> u16) result" where
  "Address_ip_port gni a =
     (case gni (addr_storage a) (addr_size a) of
        Inl gni_ret \<Rightarrow> Inl (System_error ''getnameinfo'' gni_ret)
      | Inr (ip, port) \<Rightarrow>
          (case stoi port of Inl e \<Rightarrow> Inl e | Inr n \<Rightarrow> Inr (ip, of_nat n)))"

definition Address_ip :: "getnameinfo \<Rightarrow> Address \<Rightarrow> string result" where
  "Address_ip gni a = map_sum id fst (Address_ip_port gni a)"

definition Address_port :: "getnameinfo \<Rightarrow> Address \<Rightarrow> u16 result" where
  "Address_port gni a = map_sum id snd (Address_ip_port gni a)"

definition Address_to_string :: "getnameinfo \<Rightarrow> Address \<Rightarrow> string result" where
  "Address_to_string gni a =
     map_sum id (\<lambda>(ip, port). ip @ '':'' @ dec (unat port)) (Address_ip_port gni a)"

text \<open>\<open>be32toh\<close> of the address field, and a \<open>sockaddr_in\<close> with the given port and number.\<close>

definition sin_addr :: "bytes \<Rightarrow> u32" where
  "sin_addr storage = foldl (\<lambda>a b. push_bit 8 a + ucast b) 0 (take 4 (drop 4 storage))"

definition sockaddr_in :: "u16 \<Rightarrow> u32 \<Rightarrow> bytes" where
  "sockaddr_in port ip = [2, 0] @ be_bytes 2 port @ be_bytes 4 ip @ replicate 8 0"

definition Address_ipv4_numeric :: "Address \<Rightarrow> u32 result" where
  "Address_ipv4_numeric a =
     (if take 2 (addr_storage a) \<noteq> [2, 0] \<or> addr_size a \<noteq> sizeof_sockaddr_in
      then Inl (Runtime_error ''ipv4_numeric called on non-IPV4 address'')
      else Inr (sin_addr (addr_storage a)))"

definition Address_from_ipv4_numeric :: "u32 \<Rightarrow> Address" where
  "Address_from_ipv4_numeric ip_address =
     ok_or \<lparr>addr_size = 0, addr_storage = []\<rparr> (Address_of_sockaddr (sockaddr_in 0 ip_address))"

definition Address_eq :: "Address \<Rightarrow> Address \<Rightarrow> bool" where
  "Address_eq a other \<longleftrightarrow> addr_size a = addr_size other \<and>
     take (unat (addr_size a)) (addr_storage a) = take (unat (addr_size a)) (addr_storage other)"

subsection \<open>IPv4 addresses\<close>

text \<open>The address with the given port and number, which is what all constructors make.\<close>

definition ipv4_address :: "u16 \<Rightarrow> u32 \<Rightarrow> Address" where
  "ipv4_address port ip =
     \<lparr>addr_size = sizeof_sockaddr_in, addr_storage = sockaddr_in port ip @ replicate 112 0\<rparr>"

definition numeric_resolver :: "getaddrinfo \<Rightarrow> getnameinfo \<Rightarrow> bool" where
  "numeric_resolver gai gni \<longleftrightarrow>
     (\<forall>ip port. gai (inet_ntoa ip) (dec (unat (port :: u16)))
        (make_hints (AI_NUMERICHOST + AI_NUMERICSERV) AF_INET) = Inr [sockaddr_in port ip]) \<and>
     (\<forall>ip port. gni (addr_storage (ipv4_address port ip)) sizeof_sockaddr_in
        = Inr (inet_ntoa ip, dec (unat port)))"

lemma length_sockaddr_in [simp]: "length (sockaddr_in port ip) = 16"
  by (simp add: sockaddr_in_def)

lemma of_sockaddr_in [simp]: "Address_of_sockaddr (sockaddr_in port ip) = Inr (ipv4_address port ip)"
  by (simp add: Address_of_sockaddr_def ipv4_address_def sizeof_sockaddr_storage_def
      sizeof_sockaddr_in_def)

lemma from_ipv4_numeric [simp]: "Address_from_ipv4_numeric ip = ipv4_address 0 ip"
  by (simp add: Address_from_ipv4_numeric_def)

lemma foldl_be_bytes_4: "foldl (\<lambda>a b. push_bit 8 a + ucast b) 0 (be_bytes 4 (v :: u32)) = v"
proof -
  have "foldl (\<lambda>a b. push_bit 8 a + ucast b) 0 (be_bytes 4 v)
      = foldl (\<lambda>a i. push_bit 8 a + ucast (be_byte v (4 - i - 1))) 0 [0..<4]"
    by (simp add: be_bytes_def foldl_map)
  also have "\<dots> = v" using foldl_be_bytes [of 4 4 v] by simp
  finally show ?thesis .
qed

lemma ipv4_numeric [simp]: "Address_ipv4_numeric (ipv4_address port ip) = Inr ip"
  by (simp add: Address_ipv4_numeric_def ipv4_address_def sockaddr_in_def sin_addr_def foldl_be_bytes_4)

lemma ipv4_ip_port:
  "numeric_resolver gai gni \<Longrightarrow> Address_ip_port gni (ipv4_address port ip) = Inr (inet_ntoa ip, port)"
  by (simp add: numeric_resolver_def Address_ip_port_def stoi_dec)
    (simp add: ipv4_address_def stoi_dec)

lemma ipv4_port [simp]:
  "numeric_resolver gai gni \<Longrightarrow> Address_port gni (ipv4_address port ip) = Inr port"
  by (simp add: Address_port_def ipv4_ip_port)

lemma of_ip [simp]:
  "numeric_resolver gai gni \<Longrightarrow> Address_of_ip gai (inet_ntoa ip) port = Inr (ipv4_address port ip)"
  by (simp add: Address_of_ip_def Address_resolve_def numeric_resolver_def)

lemma ipv4_eq [simp]:
  "Address_eq (ipv4_address port ip) (ipv4_address port' ip') \<longleftrightarrow> port = port' \<and> ip = ip'"
  using codec16.enc_inj [of port port'] codec32.enc_inj [of ip ip']
  by (auto simp: Address_eq_def ipv4_address_def sizeof_sockaddr_in_def sockaddr_in_def)

subsection \<open>A numeric resolver\<close>

text \<open>What the C library does for numeric hosts and services, as a function; it shows that
  \<open>numeric_resolver\<close> can be met.\<close>

definition numeric_gai :: getaddrinfo where
  "numeric_gai node service hints =
     (case (inet_aton node, stoi service) of
        (Some ip, Inr port) \<Rightarrow> Inr [sockaddr_in (of_nat port) ip]
      | _ \<Rightarrow> Inl (- 2))"

definition numeric_gni :: getnameinfo where
  "numeric_gni storage len =
     Inr (inet_ntoa (sin_addr storage),
       dec (256 * unat (storage ! 2) + unat (storage ! 3)))"

lemma numeric_gai_gni: "numeric_resolver numeric_gai numeric_gni"
proof -
  have "numeric_gni (addr_storage (ipv4_address port ip)) sizeof_sockaddr_in
      = Inr (inet_ntoa ip, dec (unat port))" for port ip
  proof -
    let ?s = "addr_storage (ipv4_address port ip)"
    have "?s ! 2 = be_byte port 1" "?s ! 3 = be_byte port 0"
      by (simp_all add: ipv4_address_def sockaddr_in_def be_bytes_def numeral_2_eq_2 nth_append)
    moreover have "256 * unat (be_byte port 1) + unat (be_byte port 0) = unat port"
    proof -
      have "unat port < 256 * 256" using unsigned_less [of port] by simp
      then have "unat port div 256 < 256" by (simp add: div_less_iff_less_mult)
      then show ?thesis by (simp add: unat_be_byte)
    qed
    moreover have "sin_addr ?s = ip"
      by (simp add: ipv4_address_def sockaddr_in_def sin_addr_def foldl_be_bytes_4)
    ultimately show ?thesis by (simp add: numeric_gni_def)
  qed
  then show ?thesis by (simp add: numeric_resolver_def numeric_gai_def inet_aton_ntoa stoi_dec)
qed

end
