(* ===== verification/TCP_Over_IP.thy ===== *)
theory TCP_Over_IP
  imports IPv4 Address
begin

text \<open>
  The adapter between a connection and the network: \<open>FdAdapterBase\<close> of
  \<open>src/libsponge/tcp_helpers/fd_adapter.hh\<close>, its configuration in \<open>tcp_config.hh\<close>, and
  \<open>TCPOverIPv4Adapter\<close> of \<open>tcp_over_ip.{hh,cc}\<close>, which puts segments into IP datagrams and takes them
  out again. A method that throws leaves the adapter in a state nobody looks at, so only the
  exception is returned.
\<close>

subsection \<open>FdAdapterBase\<close>

record FdAdapterConfig =
  fac_source :: Address
  fac_destination :: Address
  fac_loss_rate_dn :: u16
  fac_loss_rate_up :: u16

definition FdAdapterConfig_default :: "getaddrinfo \<Rightarrow> FdAdapterConfig result" where
  "FdAdapterConfig_default gai =
     (case Address_of_ip gai ''0'' 0 of
        Inl e \<Rightarrow> Inl e
      | Inr a \<Rightarrow> Inr \<lparr>fac_source = a, fac_destination = a, fac_loss_rate_dn = 0, fac_loss_rate_up = 0\<rparr>)"

record FdAdapterBase =
  fa_cfg :: FdAdapterConfig
  fa_listen :: bool

definition FdAdapterBase_set_listening :: "FdAdapterBase \<Rightarrow> bool \<Rightarrow> FdAdapterBase" where
  "FdAdapterBase_set_listening fa l = fa\<lparr>fa_listen := l\<rparr>"

definition FdAdapterBase_listening :: "FdAdapterBase \<Rightarrow> bool" where
  "FdAdapterBase_listening fa = fa_listen fa"

definition FdAdapterBase_config :: "FdAdapterBase \<Rightarrow> FdAdapterConfig" where
  "FdAdapterBase_config fa = fa_cfg fa"

definition FdAdapterBase_tick :: "FdAdapterBase \<Rightarrow> u64 \<Rightarrow> FdAdapterBase" where
  "FdAdapterBase_tick fa ms = fa"

subsection \<open>TCPOverIPv4Adapter\<close>

text \<open>The check whether a datagram that is not for a listener has the addresses of the connection.\<close>

definition addresses_match :: "FdAdapterBase \<Rightarrow> IPv4Datagram \<Rightarrow> bool result" where
  "addresses_match fa ip_dgram =
     (if FdAdapterBase_listening fa then Inr True
      else case Address_ipv4_numeric (fac_source (FdAdapterBase_config fa)) of
        Inl e \<Rightarrow> Inl e
      | Inr src \<Rightarrow>
          if ip_dst (dg_header ip_dgram) \<noteq> src then Inr False
          else (case Address_ipv4_numeric (fac_destination (FdAdapterBase_config fa)) of
                  Inl e \<Rightarrow> Inl e
                | Inr dst \<Rightarrow> Inr (ip_src (dg_header ip_dgram) = dst)))"

text \<open>What a listener does with the first SYN: it takes over the addresses.\<close>

definition adopt_peer ::
  "getaddrinfo \<Rightarrow> FdAdapterBase \<Rightarrow> IPv4Datagram \<Rightarrow> TCPSegment \<Rightarrow> u16 \<Rightarrow> FdAdapterBase result" where
  "adopt_peer gai fa ip_dgram tcp_seg port =
     (case Address_of_ip gai (inet_ntoa (ip_dst (dg_header ip_dgram))) port of
        Inl e \<Rightarrow> Inl e
      | Inr source \<Rightarrow>
          (case Address_of_ip gai (inet_ntoa (ip_src (dg_header ip_dgram))) (th_sport (seg_header tcp_seg)) of
             Inl e \<Rightarrow> Inl e
           | Inr destination \<Rightarrow>
               Inr (FdAdapterBase_set_listening
                 (fa\<lparr>fa_cfg := (fa_cfg fa)\<lparr>fac_source := source, fac_destination := destination\<rparr>\<rparr>)
                 False)))"

definition TCPOverIPv4Adapter_unwrap_tcp_in_ip ::
  "getaddrinfo \<Rightarrow> getnameinfo \<Rightarrow> FdAdapterBase \<Rightarrow> IPv4Datagram
     \<Rightarrow> (FdAdapterBase \<times> TCPSegment option) result" where
  "TCPOverIPv4Adapter_unwrap_tcp_in_ip gai gni fa ip_dgram =
     (case addresses_match fa ip_dgram of
        Inl e \<Rightarrow> Inl e
      | Inr False \<Rightarrow> Inr (fa, None)
      | Inr True \<Rightarrow>
          if ip_proto (dg_header ip_dgram) \<noteq> IPv4Header_PROTO_TCP then Inr (fa, None)
          else case BufferList_to_Buffer (dg_payload ip_dgram) of
            Inl e \<Rightarrow> Inl e
          | Inr payload \<Rightarrow>
              (case TCPSegment_parse TCPSegment_default payload
                      (IPv4Header_pseudo_cksum (dg_header ip_dgram)) of
                 (res, tcp_seg) \<Rightarrow>
                   if res \<noteq> NoError then Inr (fa, None)
                   else case Address_port gni (fac_source (FdAdapterBase_config fa)) of
                     Inl e \<Rightarrow> Inl e
                   | Inr port \<Rightarrow>
                       if th_dport (seg_header tcp_seg) \<noteq> port then Inr (fa, None)
                       else case
                         (if FdAdapterBase_listening fa then
                            if th_syn (seg_header tcp_seg) \<and> \<not> th_rst (seg_header tcp_seg)
                            then map_sum id Some (adopt_peer gai fa ip_dgram tcp_seg port)
                            else Inr None
                          else Inr (Some fa)) of
                         Inl e \<Rightarrow> Inl e
                       | Inr None \<Rightarrow> Inr (fa, None)
                       | Inr (Some fa) \<Rightarrow>
                           (case Address_port gni (fac_destination (FdAdapterBase_config fa)) of
                              Inl e \<Rightarrow> Inl e
                            | Inr dport \<Rightarrow>
                                if th_sport (seg_header tcp_seg) \<noteq> dport then Inr (fa, None)
                                else Inr (fa, Some tcp_seg))))"

definition TCPOverIPv4Adapter_wrap_tcp_in_ip ::
  "getnameinfo \<Rightarrow> FdAdapterBase \<Rightarrow> TCPSegment \<Rightarrow> (TCPSegment \<times> IPv4Datagram) result" where
  "TCPOverIPv4Adapter_wrap_tcp_in_ip gni fa seg =
     (let cfg = FdAdapterBase_config fa in
      case (Address_port gni (fac_source cfg), Address_port gni (fac_destination cfg),
            Address_ipv4_numeric (fac_source cfg), Address_ipv4_numeric (fac_destination cfg)) of
        (Inr sport, Inr dport, Inr src, Inr dst) \<Rightarrow>
          let seg = seg\<lparr>seg_header := (seg_header seg)\<lparr>th_sport := sport, th_dport := dport\<rparr>\<rparr>;
              ip_dgram = IPv4Datagram_default;
              h = (dg_header ip_dgram)\<lparr>ip_src := src, ip_dst := dst\<rparr>;
              h = h\<lparr>ip_len := ucast (ucast (ip_hlen h) * 4 + ucast (th_doff (seg_header seg)) * 4
                    + Buffer_size (seg_payload seg))\<rparr>
          in (case TCPSegment_serialize seg (IPv4Header_pseudo_cksum h) of
                Inl e \<Rightarrow> Inl e
              | Inr payload \<Rightarrow> Inr (seg, ip_dgram\<lparr>dg_header := h, dg_payload := payload\<rparr>))
      | (Inl e, _) \<Rightarrow> Inl e
      | (_, Inl e, _) \<Rightarrow> Inl e
      | (_, _, Inl e, _) \<Rightarrow> Inl e
      | (_, _, _, Inl e) \<Rightarrow> Inl e)"

subsection \<open>Sending and receiving\<close>

text \<open>An adapter of a connection between two IPv4 addresses.\<close>

definition adapter_between :: "u32 \<times> u16 \<Rightarrow> u32 \<times> u16 \<Rightarrow> FdAdapterBase \<Rightarrow> bool" where
  "adapter_between here there fa \<longleftrightarrow>
     fac_source (fa_cfg fa) = ipv4_address (snd here) (fst here) \<and>
     fac_destination (fa_cfg fa) = ipv4_address (snd there) (fst there)"

text \<open>The segments that fit a datagram of at most 65535 bytes.\<close>

definition segment_sendable :: "TCPSegment \<Rightarrow> bool" where
  "segment_sendable seg \<longleftrightarrow>
     5 \<le> th_doff (seg_header seg) \<and> th_doff (seg_header seg) \<le> 15 \<and>
     20 + 4 * unat (th_doff (seg_header seg)) + length (Buffer_str (seg_payload seg)) \<le> 65535"

lemma half_word_le: "unat (drop_bit 16 (a :: u32) + and a 0xffff) \<le> 131070"
proof -
  have "unat a < 65536 * 65536" using unsigned_less [of a] by simp
  then have "unat a div 65536 < 65536" by (simp add: div_less_iff_less_mult)
  moreover have "unat a mod 65536 < 65536" by simp
  moreover have "unat (drop_bit 16 a + and a 0xffff) = unat a div 65536 + unat a mod 65536"
    using unat_half_sum [of a] by simp
  ultimately show ?thesis by linarith
qed

lemma ucast_of_nat_64_16: "(ucast (of_nat n :: u64) :: u16) = of_nat n"
  by (simp add: word_unat_eq_iff unsigned_ucast_eq unat_of_nat take_bit_eq_mod mod_mod_cancel)

lemma unat_of_nat_u16: "n < 65536 \<Longrightarrow> unat (of_nat n :: u16) = n"
  by (simp add: unat_of_nat)

lemma unat_add_le: "unat (a + b :: u32) \<le> unat a + unat b"
  by (simp add: unat_word_ariths)

lemma pseudo_cksum_le: "unat (IPv4Header_pseudo_cksum h) \<le> 327930"
proof -
  have p: "unat (ucast (ip_proto h) :: u32) \<le> 255"
    using unat_u8_le [of "ip_proto h"] by (simp add: unsigned_ucast_eq take_bit_nat_eq_self)
  have l: "unat (ucast (IPv4Header_payload_length h) :: u32) \<le> 65535"
    using unat_u16_bound [of "IPv4Header_payload_length h"]
    by (simp add: unsigned_ucast_eq take_bit_nat_eq_self)
  let ?s = "drop_bit 16 (ip_src h) + and (ip_src h) 0xffff"
  let ?d = "drop_bit 16 (ip_dst h) + and (ip_dst h) 0xffff"
  have "unat (?s + ?d + ucast (ip_proto h) + ucast (IPv4Header_payload_length h))
      \<le> unat ?s + unat ?d + unat (ucast (ip_proto h) :: u32)
        + unat (ucast (IPv4Header_payload_length h) :: u32)"
    by (rule order_trans [OF unat_add_le]) (intro add_mono order_refl order_trans [OF unat_add_le])
  also have "\<dots> \<le> 327930"
    using half_word_le [of "ip_src h"] half_word_le [of "ip_dst h"] p l by linarith
  finally show ?thesis by (simp add: IPv4Header_pseudo_cksum_def Let_def)
qed

lemma sendable_fits:
  assumes "segment_sendable seg"
  shows "segment_fits seg (IPv4Header_pseudo_cksum h)"
proof -
  have "5 \<le> unat (th_doff (seg_header seg))" using assms by (simp add: segment_sendable_def word_le_nat_alt)
  then show ?thesis
    using assms pseudo_cksum_le [of h] by (simp add: segment_sendable_def segment_fits_def)
qed

abbreviation stamped :: "u16 \<Rightarrow> u16 \<Rightarrow> TCPSegment \<Rightarrow> TCPSegment" where
  "stamped sport dport seg \<equiv>
     seg\<lparr>seg_header := (seg_header seg)\<lparr>th_sport := sport, th_dport := dport\<rparr>\<rparr>"

definition wrapped_header :: "u32 \<Rightarrow> u32 \<Rightarrow> TCPSegment \<Rightarrow> IPv4Header" where
  "wrapped_header src dst seg = IPv4Header_default\<lparr>ip_src := src, ip_dst := dst,
     ip_len := of_nat (20 + 4 * unat (th_doff (seg_header seg)) + length (Buffer_str (seg_payload seg)))\<rparr>"

lemma wrap_spec:
  assumes net: "numeric_resolver gai gni" and fa: "adapter_between here there fa"
    and seg: "segment_sendable seg"
  defines "seg1 \<equiv> stamped (snd here) (snd there) seg"
    and "h \<equiv> wrapped_header (fst here) (fst there) seg"
  shows "\<exists>payload. TCPOverIPv4Adapter_wrap_tcp_in_ip gni fa seg
      = Inr (seg1, \<lparr>dg_header = h, dg_payload = payload\<rparr>) \<and>
    TCPSegment_serialize seg1 (IPv4Header_pseudo_cksum h) = Inr payload \<and>
    datagram_fits \<lparr>dg_header = h, dg_payload = payload\<rparr>"
proof -
  let ?n = "20 + 4 * unat (th_doff (seg_header seg)) + length (Buffer_str (seg_payload seg))"
  have le: "?n \<le> 65535" and doff: "5 \<le> th_doff (seg_header seg)" "th_doff (seg_header seg) \<le> 15"
    using seg by (simp_all add: segment_sendable_def)
  have "(ucast (5 :: u8) * 4 + ucast (th_doff (seg_header seg)) * 4 + Buffer_size (seg_payload seg) :: u64)
      = of_nat ?n"
    by (simp add: Buffer_size_def mult.commute)
  then have "ucast (ucast (5 :: u8) * 4 + ucast (th_doff (seg_header seg)) * 4
      + Buffer_size (seg_payload seg) :: u64) = (of_nat ?n :: u16)"
    by (simp only: ucast_of_nat_64_16)
  moreover have "ip_hlen IPv4Header_default = 5"
    by (simp add: IPv4Header_default_def IPv4Header_LENGTH_def)
  ultimately have hdr: "(IPv4Header_default\<lparr>ip_src := fst here, ip_dst := fst there\<rparr>)
      \<lparr>ip_len := ucast (ucast (ip_hlen (IPv4Header_default\<lparr>ip_src := fst here, ip_dst := fst there\<rparr>)) * 4
        + ucast (th_doff (seg_header seg1)) * 4 + Buffer_size (seg_payload seg1) :: u64)\<rparr> = h"
    by (simp add: h_def wrapped_header_def seg1_def)
  have "5 \<le> th_doff (seg_header seg1)" using doff by (simp add: seg1_def)
  from serialize_segment [OF this] obtain payload and c :: u16 where ser: "TCPSegment_serialize seg1 (IPv4Header_pseudo_cksum h) = Inr payload"
    and out: "BufferList_concatenate payload = header_front (seg_header seg1) @ be_bytes 2 c
      @ header_back (seg_header seg1) @ Buffer_str (seg_payload seg1)"
    by blast
  have d5: "5 \<le> unat (th_doff (seg_header seg))" using doff(1) by (simp add: word_le_nat_alt)
  then have "length (BufferList_concatenate payload) = ?n - 20"
    by (simp add: out header_back_def seg1_def)
  moreover have "unat (ip_len h) = ?n"
    using unat_of_nat_u16 [of ?n] le
    by (simp add: h_def wrapped_header_def del: of_nat_add of_nat_mult)
  moreover have "ip_legal h" "unat (ip_hlen h) = 5"
    by (simp_all add: ip_legal_def h_def wrapped_header_def IPv4Header_default_def IPv4Header_LENGTH_def)
  ultimately have "datagram_fits \<lparr>dg_header = h, dg_payload = payload\<rparr>"
    by (simp add: datagram_fits_def)
  then show ?thesis
    using net fa ser hdr
    by (simp add: TCPOverIPv4Adapter_wrap_tcp_in_ip_def adapter_between_def FdAdapterBase_config_def
        IPv4Datagram_default_def Let_def flip: seg1_def)
qed

text \<open>What the receiving side makes of the datagram.\<close>

lemma pseudo_cksum_cksum [simp]:
  "IPv4Header_pseudo_cksum (h\<lparr>ip_cksum := c\<rparr>) = IPv4Header_pseudo_cksum h"
  by (simp add: IPv4Header_pseudo_cksum_def IPv4Header_payload_length_def)

text \<open>The journey of a segment: wrapped by one adapter, serialised, parsed on the other side.\<close>

lemma journey:
  assumes net: "numeric_resolver gai gni" and fa: "adapter_between here there fa"
    and seg: "segment_sendable seg"
  defines "seg1 \<equiv> stamped (snd here) (snd there) seg"
  shows "\<exists>d out d' b seg'. TCPOverIPv4Adapter_wrap_tcp_in_ip gni fa seg = Inr (seg1, d) \<and>
    IPv4Datagram_serialize d = Inr out \<and>
    IPv4Datagram_parse d0 (Buffer_of_string (BufferList_concatenate out)) = (NoError, d') \<and>
    ip_src (dg_header d') = fst here \<and> ip_dst (dg_header d') = fst there \<and>
    ip_proto (dg_header d') = IPv4Header_PROTO_TCP \<and> dg_payload d' = [b] \<and>
    TCPSegment_parse TCPSegment_default b (IPv4Header_pseudo_cksum (dg_header d')) = (NoError, seg') \<and>
    seg_header seg' = (seg_header seg1)\<lparr>th_cksum := th_cksum (seg_header seg')\<rparr> \<and>
    Buffer_str (seg_payload seg') = Buffer_str (seg_payload seg)"
proof -
  let ?h = "wrapped_header (fst here) (fst there) seg"
  obtain payload where w: "TCPOverIPv4Adapter_wrap_tcp_in_ip gni fa seg
      = Inr (seg1, \<lparr>dg_header = ?h, dg_payload = payload\<rparr>)"
    and ser: "TCPSegment_serialize seg1 (IPv4Header_pseudo_cksum ?h) = Inr payload"
    and fits: "datagram_fits \<lparr>dg_header = ?h, dg_payload = payload\<rparr>"
    using wrap_spec [OF net fa seg] unfolding seg1_def by blast
  let ?d = "\<lparr>dg_header = ?h, dg_payload = payload\<rparr>"
  obtain out and c :: u16 where out: "IPv4Datagram_serialize ?d = Inr out"
    "BufferList_concatenate out = ip_front ?h @ be_bytes 2 c @ ip_back ?h @ BufferList_concatenate payload"
    "ip_checksum (ip_front ?h @ be_bytes 2 c @ ip_back ?h) = 0"
    using serialize_datagram [OF fits] by auto
  let ?b = "Buffer_of_string (BufferList_concatenate out)"
  have "length (BufferList_concatenate out) = unat (ip_len ?h)"
    using fits ip_legal_hlen(1) [of ?h] by (simp add: out(2) datagram_fits_def length_ip_back)
  then have "Buffer_inv ?b" using unat_u16_bound [of "ip_len ?h"] by simp
  from parse_datagram [OF fits this, of c d0] out(2,3)
  obtain d' b where d': "IPv4Datagram_parse d0 ?b = (NoError, d')" "dg_header d' = ?h\<lparr>ip_cksum := c\<rparr>"
    "Buffer_str b = BufferList_concatenate payload" "dg_payload d' = [b]" "Buffer_inv b" by auto
  have s1: "segment_fits seg1 (IPv4Header_pseudo_cksum ?h)"
    using sendable_fits seg by (simp add: seg1_def segment_sendable_def segment_fits_def)
  obtain seg' where "TCPSegment_parse TCPSegment_default b (IPv4Header_pseudo_cksum ?h) = (NoError, seg')"
    "seg_header seg' = (seg_header seg1)\<lparr>th_cksum := th_cksum (seg_header seg')\<rparr>"
    "Buffer_str (seg_payload seg') = Buffer_str (seg_payload seg1)"
    using parse_serialized [OF s1 ser d'(5,3)] by blast
  moreover have "ip_src (dg_header d') = fst here" "ip_dst (dg_header d') = fst there"
    "ip_proto (dg_header d') = IPv4Header_PROTO_TCP"
    by (simp_all add: d'(2) wrapped_header_def IPv4Header_default_def)
  ultimately show ?thesis using w out(1) d' by (auto simp: seg1_def)
qed

lemma unwrap_accepts:
  assumes "numeric_resolver gai gni"
    and "if fa_listen fb
      then th_syn (seg_header seg') \<and> \<not> th_rst (seg_header seg') \<and>
        (\<exists>any. fac_source (fa_cfg fb) = ipv4_address (snd there) any)
      else adapter_between there here fb"
    and "ip_src (dg_header d') = fst here" and "ip_dst (dg_header d') = fst there"
    and "ip_proto (dg_header d') = IPv4Header_PROTO_TCP" and "dg_payload d' = [b]"
    and "TCPSegment_parse TCPSegment_default b (IPv4Header_pseudo_cksum (dg_header d')) = (NoError, seg')"
    and "th_sport (seg_header seg') = snd here" and "th_dport (seg_header seg') = snd there"
  shows "\<exists>fb'. TCPOverIPv4Adapter_unwrap_tcp_in_ip gai gni fb d' = Inr (fb', Some seg') \<and>
    adapter_between there here fb' \<and> \<not> fa_listen fb'"
  using assms
  by (cases "fa_listen fb")
    (auto simp: TCPOverIPv4Adapter_unwrap_tcp_in_ip_def addresses_match_def adopt_peer_def
      adapter_between_def FdAdapterBase_listening_def FdAdapterBase_config_def
      FdAdapterBase_set_listening_def BufferList_to_Buffer_def)

text \<open>C36: segments through IP. Two adapters are configured for the two ends of a connection; the
  second is either past its handshake or still listening on the port of its source address. A
  segment with a legal data offset that fits a datagram is wrapped by the first, serialised and
  parsed as an IPv4 datagram. The second adapter hands out the segment with the ports filled in and
  all its other fields (but the checksum) and its payload unchanged; a listener does so for a SYN
  without RST, and from then on it is configured for this connection.\<close>
theorem tcp_over_ip_roundtrip:
  assumes "numeric_resolver gai gni" and "adapter_between here there fa" and "segment_sendable seg"
    and "if fa_listen fb
      then th_syn (seg_header seg) \<and> \<not> th_rst (seg_header seg) \<and>
        (\<exists>any. fac_source (fa_cfg fb) = ipv4_address (snd there) any)
      else adapter_between there here fb"
  shows "\<exists>seg1 d out d' fb' seg'. TCPOverIPv4Adapter_wrap_tcp_in_ip gni fa seg = Inr (seg1, d) \<and>
    IPv4Datagram_serialize d = Inr out \<and>
    IPv4Datagram_parse d0 (Buffer_of_string (BufferList_concatenate out)) = (NoError, d') \<and>
    TCPOverIPv4Adapter_unwrap_tcp_in_ip gai gni fb d' = Inr (fb', Some seg') \<and>
    adapter_between there here fb' \<and> \<not> fa_listen fb' \<and>
    seg_header seg' = (seg_header seg)\<lparr>th_sport := snd here, th_dport := snd there,
      th_cksum := th_cksum (seg_header seg')\<rparr> \<and>
    Buffer_str (seg_payload seg') = Buffer_str (seg_payload seg)"
proof -
  let ?seg1 = "stamped (snd here) (snd there) seg"
  obtain d out d' b seg' where j: "TCPOverIPv4Adapter_wrap_tcp_in_ip gni fa seg = Inr (?seg1, d)"
    "IPv4Datagram_serialize d = Inr out"
    "IPv4Datagram_parse d0 (Buffer_of_string (BufferList_concatenate out)) = (NoError, d')"
    "ip_src (dg_header d') = fst here" "ip_dst (dg_header d') = fst there"
    "ip_proto (dg_header d') = IPv4Header_PROTO_TCP" "dg_payload d' = [b]"
    "TCPSegment_parse TCPSegment_default b (IPv4Header_pseudo_cksum (dg_header d')) = (NoError, seg')"
    "seg_header seg' = (seg_header ?seg1)\<lparr>th_cksum := th_cksum (seg_header seg')\<rparr>"
    "Buffer_str (seg_payload seg') = Buffer_str (seg_payload seg)"
    using journey [OF assms(1-3), of d0] by blast
  have flags: "th_sport (seg_header seg') = snd here" "th_dport (seg_header seg') = snd there"
    "th_syn (seg_header seg') = th_syn (seg_header seg)" "th_rst (seg_header seg') = th_rst (seg_header seg)"
    by (subst j(9), simp)+
  have "\<exists>fb'. TCPOverIPv4Adapter_unwrap_tcp_in_ip gai gni fb d' = Inr (fb', Some seg') \<and>
      adapter_between there here fb' \<and> \<not> fa_listen fb'"
    using unwrap_accepts [OF assms(1) _ j(4-8) flags(1,2)] assms(4) flags(3,4) by simp
  then show ?thesis using j(1-3,9,10) by auto
qed

theorem tcp_over_ip_roundtrip_witness:
  "let seg = TCPSegment_default\<lparr>seg_header := TCPHeader_default\<lparr>th_syn := True, th_win := 5\<rparr>,
               seg_payload := Buffer_of_string [1, 2, 3]\<rparr>;
       client = \<lparr>fa_cfg = \<lparr>fac_source = ipv4_address 1000 0x0a000001,
         fac_destination = ipv4_address 80 0x0a000002, fac_loss_rate_dn = 0, fac_loss_rate_up = 0\<rparr>,
         fa_listen = False\<rparr>;
       server = \<lparr>fa_cfg = \<lparr>fac_source = ipv4_address 80 0,
         fac_destination = ipv4_address 0 0, fac_loss_rate_dn = 0, fac_loss_rate_up = 0\<rparr>,
         fa_listen = True\<rparr>
   in \<exists>seg1 d out d' server' seg'.
        TCPOverIPv4Adapter_wrap_tcp_in_ip numeric_gni client seg = Inr (seg1, d) \<and>
        IPv4Datagram_serialize d = Inr out \<and>
        IPv4Datagram_parse IPv4Datagram_default (Buffer_of_string (BufferList_concatenate out)) = (NoError, d') \<and>
        TCPOverIPv4Adapter_unwrap_tcp_in_ip numeric_gai numeric_gni server d' = Inr (server', Some seg') \<and>
        adapter_between (0x0a000002, 80) (0x0a000001, 1000) server' \<and>
        Buffer_str (seg_payload seg') = [1, 2, 3]"
  unfolding Let_def
  using tcp_over_ip_roundtrip [OF numeric_gai_gni, of "(0x0a000001, 1000)" "(0x0a000002, 80)"
      "\<lparr>fa_cfg = \<lparr>fac_source = ipv4_address 1000 0x0a000001,
         fac_destination = ipv4_address 80 0x0a000002, fac_loss_rate_dn = 0, fac_loss_rate_up = 0\<rparr>,
         fa_listen = False\<rparr>"
      "TCPSegment_default\<lparr>seg_header := TCPHeader_default\<lparr>th_syn := True, th_win := 5\<rparr>,
         seg_payload := Buffer_of_string [1, 2, 3]\<rparr>"
      "\<lparr>fa_cfg = \<lparr>fac_source = ipv4_address 80 0,
         fac_destination = ipv4_address 0 0, fac_loss_rate_dn = 0, fac_loss_rate_up = 0\<rparr>,
         fa_listen = True\<rparr>" IPv4Datagram_default]
  by (simp add: adapter_between_def segment_sendable_def TCPSegment_default_def TCPHeader_default_def
      TCPHeader_LENGTH_def) blast

text \<open>C37: segments of other connections are kept out. When an adapter with IPv4 addresses hands out a
  segment, the datagram carried TCP, its checksum held, and its addresses and the segment's ports are
  those the adapter is configured for afterwards. An adapter that was not listening is unchanged; one
  that was has received a SYN without RST on its port and does not listen any more. When no segment is
  handed out the adapter is unchanged, so that it also keeps listening; and it throws only for a
  datagram whose payload is split over several buffers.\<close>
theorem unwrap_only_own_segments:
  assumes net: "numeric_resolver gai gni" and src: "fac_source (fa_cfg fa) = ipv4_address port ip"
    and dst: "fac_destination (fa_cfg fa) = ipv4_address port' ip'"
  shows "case TCPOverIPv4Adapter_unwrap_tcp_in_ip gai gni fa d of
      Inl e \<Rightarrow> BufferList_to_Buffer (dg_payload d) = Inl e
    | Inr (fa', None) \<Rightarrow> fa' = fa
    | Inr (fa', Some seg) \<Rightarrow>
        ip_proto (dg_header d) = IPv4Header_PROTO_TCP \<and>
        (\<exists>b. BufferList_to_Buffer (dg_payload d) = Inr b \<and>
          TCPSegment_parse TCPSegment_default b (IPv4Header_pseudo_cksum (dg_header d)) = (NoError, seg)) \<and>
        adapter_between (ip_dst (dg_header d), port) (ip_src (dg_header d), th_sport (seg_header seg)) fa' \<and>
        th_dport (seg_header seg) = port \<and> \<not> fa_listen fa' \<and>
        (if fa_listen fa then th_syn (seg_header seg) \<and> \<not> th_rst (seg_header seg) else fa' = fa)"
  using net src dst
  by (cases "fa_listen fa")
    (auto simp: TCPOverIPv4Adapter_unwrap_tcp_in_ip_def addresses_match_def adopt_peer_def
        adapter_between_def FdAdapterBase_listening_def FdAdapterBase_config_def
        FdAdapterBase_set_listening_def
      split: if_splits sum.splits prod.splits option.splits bool.splits)

theorem unwrap_only_own_segments_witness:
  "let seg = TCPSegment_default\<lparr>seg_header := TCPHeader_default\<lparr>th_sport := 1000, th_dport := 80\<rparr>\<rparr>;
       h = IPv4Header_default\<lparr>ip_len := 40, ip_src := 0x0a000001, ip_dst := 0x0a000002\<rparr>;
       fa = \<lparr>fa_cfg = \<lparr>fac_source = ipv4_address 80 0x0a000002,
         fac_destination = ipv4_address 1000 0x0a000001, fac_loss_rate_dn = 0, fac_loss_rate_up = 0\<rparr>,
         fa_listen = False\<rparr>
   in case TCPSegment_serialize seg (IPv4Header_pseudo_cksum h) of
        Inl e \<Rightarrow> False
      | Inr out \<Rightarrow> \<exists>seg'. TCPOverIPv4Adapter_unwrap_tcp_in_ip numeric_gai numeric_gni fa
             \<lparr>dg_header = h, dg_payload = BufferList_of_string (BufferList_concatenate out)\<rparr>
           = Inr (fa, Some seg') \<and> th_dport (seg_header seg') = 80"
proof -
  let ?seg = "TCPSegment_default\<lparr>seg_header := TCPHeader_default\<lparr>th_sport := 1000, th_dport := 80\<rparr>\<rparr>"
  let ?h = "IPv4Header_default\<lparr>ip_len := 40, ip_src := 0x0a000001, ip_dst := 0x0a000002\<rparr>"
  let ?fa = "\<lparr>fa_cfg = \<lparr>fac_source = ipv4_address 80 0x0a000002,
         fac_destination = ipv4_address 1000 0x0a000001, fac_loss_rate_dn = 0, fac_loss_rate_up = 0\<rparr>,
         fa_listen = False\<rparr>"
  have fits: "segment_fits ?seg (IPv4Header_pseudo_cksum ?h)"
    using sendable_fits [of ?seg ?h] by (simp add: segment_sendable_def TCPHeader_default_def
        TCPHeader_LENGTH_def TCPSegment_default_def)
  from serialize_defined [OF this] obtain out
    where out: "TCPSegment_serialize ?seg (IPv4Header_pseudo_cksum ?h) = Inr out" by blast
  let ?d = "\<lparr>dg_header = ?h, dg_payload = BufferList_of_string (BufferList_concatenate out)\<rparr>"
  have "Buffer_inv (Buffer_of_string (BufferList_concatenate out))"
    using checksum_fits_length [OF serialize_verifies(1) [OF fits out]] by simp
  from parse_serialized [OF fits out this] obtain seg'
    where p: "TCPSegment_parse TCPSegment_default (Buffer_of_string (BufferList_concatenate out))
        (IPv4Header_pseudo_cksum ?h) = (NoError, seg')"
      "seg_header seg' = (seg_header ?seg)\<lparr>th_cksum := th_cksum (seg_header seg')\<rparr>"
    by auto
  have ports: "th_sport (seg_header seg') = 1000" "th_dport (seg_header seg') = 80"
    by (subst p(2), simp)+
  have r: "TCPOverIPv4Adapter_unwrap_tcp_in_ip numeric_gai numeric_gni ?fa ?d = Inr (?fa, Some seg')"
    using p(1) ports numeric_gai_gni
    by (simp add: TCPOverIPv4Adapter_unwrap_tcp_in_ip_def addresses_match_def
        FdAdapterBase_listening_def FdAdapterBase_config_def BufferList_of_string_def BufferList_of_Buffer_def
        BufferList_append_def BufferList_to_Buffer_def IPv4Header_default_def)
  show ?thesis
    using unwrap_only_own_segments [OF numeric_gai_gni, of ?fa 80 "0x0a000002" 1000 "0x0a000001" ?d] r
    by (simp add: out Let_def)
qed

end
