(* ===== verification/Ethernet.thy ===== *)
theory Ethernet
  imports IPv4 Decimal
begin

text \<open>
  The link layer on the wire: \<open>src/libsponge/tcp_helpers/ethernet_header.{hh,cc}\<close>,
  \<open>ethernet_frame.{hh,cc}\<close> and \<open>arp_message.{hh,cc}\<close>. The six bytes of an Ethernet address are
  parsed and written as one value, which is one more instance of the contract \<open>int_codec\<close>. Parsing
  inverts serialisation for frames and for ARP messages.
\<close>

subsection \<open>EthernetAddress\<close>

datatype EthernetAddress = EthernetAddress u8 u8 u8 u8 u8 u8

fun eth_bytes :: "EthernetAddress \<Rightarrow> bytes" where
  "eth_bytes (EthernetAddress a b c d e f) = [a, b, c, d, e, f]"

definition ETHERNET_BROADCAST :: EthernetAddress where
  "ETHERNET_BROADCAST = EthernetAddress 0xff 0xff 0xff 0xff 0xff 0xff"

definition EthernetAddress_zero :: EthernetAddress where
  "EthernetAddress_zero = EthernetAddress 0 0 0 0 0 0"

text \<open>The loops \<open>for (auto &byte : address)\<close> of the parsers and of the serialisers.\<close>

definition EthernetAddress_parse :: "NetParser \<Rightarrow> EthernetAddress \<times> NetParser" where
  "EthernetAddress_parse p =
     (let (a, p) = NetParser_u8 p;
          (b, p) = NetParser_u8 p;
          (c, p) = NetParser_u8 p;
          (d, p) = NetParser_u8 p;
          (e, p) = NetParser_u8 p;
          (f, p) = NetParser_u8 p
      in (EthernetAddress a b c d e f, p))"

definition EthernetAddress_unparse :: "bytes \<Rightarrow> EthernetAddress \<Rightarrow> bytes" where
  "EthernetAddress_unparse ret address = foldl NetUnparser_u8 ret (eth_bytes address)"

text \<open>\<open>::to_string\<close>: two hexadecimal digits for each byte, separated by colons.\<close>

fun hex_bytes :: "bytes \<Rightarrow> string" where
  "hex_bytes [] = []"
| "hex_bytes [b] = zero_pad 2 (hex (unat b))"
| "hex_bytes (b # bs) = zero_pad 2 (hex (unat b)) @ '':'' @ hex_bytes bs"

definition EthernetAddress_to_string :: "EthernetAddress \<Rightarrow> string" where
  "EthernetAddress_to_string address = hex_bytes (eth_bytes address)"

subsection \<open>EthernetHeader\<close>

record EthernetHeader =
  eth_dst :: EthernetAddress
  eth_src :: EthernetAddress
  eth_type :: u16

definition EthernetHeader_LENGTH :: u64 where
  "EthernetHeader_LENGTH = 14"

definition EthernetHeader_TYPE_IPv4 :: u16 where
  "EthernetHeader_TYPE_IPv4 = 0x800"

definition EthernetHeader_TYPE_ARP :: u16 where
  "EthernetHeader_TYPE_ARP = 0x806"

text \<open>The value-initialised header of a frame.\<close>

definition EthernetHeader_default :: EthernetHeader where
  "EthernetHeader_default =
     \<lparr>eth_dst = EthernetAddress_zero, eth_src = EthernetAddress_zero, eth_type = 0\<rparr>"

definition EthernetHeader_parse ::
  "EthernetHeader \<Rightarrow> NetParser \<Rightarrow> ParseResult \<times> EthernetHeader \<times> NetParser" where
  "EthernetHeader_parse h p =
     (if Buffer_size (np_buffer p) < EthernetHeader_LENGTH then (PacketTooShort, h, p)
      else let (dst, p) = EthernetAddress_parse p;
               (src, p) = EthernetAddress_parse p;
               (type, p) = NetParser_u16 p
           in (np_error p, \<lparr>eth_dst = dst, eth_src = src, eth_type = type\<rparr>, p))"

definition EthernetHeader_serialize :: "EthernetHeader \<Rightarrow> bytes" where
  "EthernetHeader_serialize h =
     (let ret = [];
          ret = EthernetAddress_unparse ret (eth_dst h);
          ret = EthernetAddress_unparse ret (eth_src h);
          ret = NetUnparser_u16 ret (eth_type h)
      in ret)"

definition EthernetHeader_to_string :: "EthernetHeader \<Rightarrow> string" where
  "EthernetHeader_to_string h =
     ''dst='' @ EthernetAddress_to_string (eth_dst h) @
     '', src='' @ EthernetAddress_to_string (eth_src h) @
     '', type='' @
     (if eth_type h = EthernetHeader_TYPE_IPv4 then ''IPv4''
      else if eth_type h = EthernetHeader_TYPE_ARP then ''ARP''
      else ''[unknown type '' @ hex (unat (eth_type h)) @ ''!]'')"

subsection \<open>EthernetFrame\<close>

record EthernetFrame =
  fr_header :: EthernetHeader
  fr_payload :: BufferList

definition EthernetFrame_default :: EthernetFrame where
  "EthernetFrame_default = \<lparr>fr_header = EthernetHeader_default, fr_payload = []\<rparr>"

definition EthernetFrame_parse :: "EthernetFrame \<Rightarrow> Buffer \<Rightarrow> ParseResult \<times> EthernetFrame" where
  "EthernetFrame_parse frame buffer =
     (let p = NetParser_init buffer;
          (_, h, p) = EthernetHeader_parse (fr_header frame) p
      in (np_error p, frame\<lparr>fr_header := h, fr_payload := BufferList_of_Buffer (np_buffer p)\<rparr>))"

definition EthernetFrame_serialize :: "EthernetFrame \<Rightarrow> BufferList" where
  "EthernetFrame_serialize frame =
     (let ret = [];
          ret = BufferList_append ret (BufferList_of_string (EthernetHeader_serialize (fr_header frame)));
          ret = BufferList_append ret (fr_payload frame)
      in ret)"

subsection \<open>ARPMessage\<close>

record ARPMessage =
  arp_hardware_type :: u16
  arp_protocol_type :: u16
  arp_hardware_address_size :: u8
  arp_protocol_address_size :: u8
  arp_opcode :: u16
  arp_sender_ethernet_address :: EthernetAddress
  arp_sender_ip_address :: u32
  arp_target_ethernet_address :: EthernetAddress
  arp_target_ip_address :: u32

definition ARPMessage_LENGTH :: u64 where
  "ARPMessage_LENGTH = 28"

definition ARPMessage_TYPE_ETHERNET :: u16 where
  "ARPMessage_TYPE_ETHERNET = 1"

definition ARPMessage_OPCODE_REQUEST :: u16 where
  "ARPMessage_OPCODE_REQUEST = 1"

definition ARPMessage_OPCODE_REPLY :: u16 where
  "ARPMessage_OPCODE_REPLY = 2"

definition ARPMessage_default :: ARPMessage where
  "ARPMessage_default =
     \<lparr>arp_hardware_type = ARPMessage_TYPE_ETHERNET, arp_protocol_type = EthernetHeader_TYPE_IPv4,
      arp_hardware_address_size = 6, arp_protocol_address_size = 4, arp_opcode = 0,
      arp_sender_ethernet_address = EthernetAddress_zero, arp_sender_ip_address = 0,
      arp_target_ethernet_address = EthernetAddress_zero, arp_target_ip_address = 0\<rparr>"

definition ARPMessage_supported :: "ARPMessage \<Rightarrow> bool" where
  "ARPMessage_supported m \<longleftrightarrow>
     arp_hardware_type m = ARPMessage_TYPE_ETHERNET \<and> arp_protocol_type m = EthernetHeader_TYPE_IPv4 \<and>
     arp_hardware_address_size m = 6 \<and> arp_protocol_address_size m = 4 \<and>
     (arp_opcode m = ARPMessage_OPCODE_REQUEST \<or> arp_opcode m = ARPMessage_OPCODE_REPLY)"

definition ARPMessage_parse :: "ARPMessage \<Rightarrow> Buffer \<Rightarrow> ParseResult \<times> ARPMessage" where
  "ARPMessage_parse m buffer =
     (let p = NetParser_init buffer
      in if Buffer_size (np_buffer p) < ARPMessage_LENGTH then (PacketTooShort, m)
         else
           let (hardware_type, p) = NetParser_u16 p;
               (protocol_type, p) = NetParser_u16 p;
               (hardware_address_size, p) = NetParser_u8 p;
               (protocol_address_size, p) = NetParser_u8 p;
               (opcode, p) = NetParser_u16 p;
               m = m\<lparr>arp_hardware_type := hardware_type, arp_protocol_type := protocol_type,
                     arp_hardware_address_size := hardware_address_size,
                     arp_protocol_address_size := protocol_address_size, arp_opcode := opcode\<rparr>
           in if \<not> ARPMessage_supported m then (Unsupported, m)
              else
                let (sender_ethernet_address, p) = EthernetAddress_parse p;
                    (sender_ip_address, p) = NetParser_u32 p;
                    (target_ethernet_address, p) = EthernetAddress_parse p;
                    (target_ip_address, p) = NetParser_u32 p
                in (np_error p,
                    m\<lparr>arp_sender_ethernet_address := sender_ethernet_address,
                      arp_sender_ip_address := sender_ip_address,
                      arp_target_ethernet_address := target_ethernet_address,
                      arp_target_ip_address := target_ip_address\<rparr>))"

definition ARPMessage_serialize :: "ARPMessage \<Rightarrow> bytes result" where
  "ARPMessage_serialize m =
     (if \<not> ARPMessage_supported m
      then Inl (Runtime_error ''ARPMessage::serialize(): unsupported field combination (must be Ethernet/IP, and request or reply)'')
      else
        let ret = [];
            ret = NetUnparser_u16 ret (arp_hardware_type m);
            ret = NetUnparser_u16 ret (arp_protocol_type m);
            ret = NetUnparser_u8 ret (arp_hardware_address_size m);
            ret = NetUnparser_u8 ret (arp_protocol_address_size m);
            ret = NetUnparser_u16 ret (arp_opcode m);
            ret = EthernetAddress_unparse ret (arp_sender_ethernet_address m);
            ret = NetUnparser_u32 ret (arp_sender_ip_address m);
            ret = EthernetAddress_unparse ret (arp_target_ethernet_address m);
            ret = NetUnparser_u32 ret (arp_target_ip_address m)
        in Inr ret)"

definition ARPMessage_to_string :: "ARPMessage \<Rightarrow> string" where
  "ARPMessage_to_string m =
     (let opcode_str = ''(unknown type)'';
          opcode_str = (if arp_opcode m = ARPMessage_OPCODE_REQUEST then ''REQUEST'' else opcode_str);
          opcode_str = (if arp_opcode m = ARPMessage_OPCODE_REPLY then ''REPLY'' else opcode_str)
      in ''opcode='' @ opcode_str @
         '', sender='' @ EthernetAddress_to_string (arp_sender_ethernet_address m) @ ''/'' @
         inet_ntoa (arp_sender_ip_address m) @
         '', target='' @ EthernetAddress_to_string (arp_target_ethernet_address m) @ ''/'' @
         inet_ntoa (arp_target_ip_address m))"

lemma parses_size: "parses p bs \<Longrightarrow> unat (Buffer_size (np_buffer p)) = length bs"
  using parses_length [of p bs] by (simp add: Buffer_size_def parses_def unat_sz)

subsection \<open>Addresses as one more encoded value\<close>

lemma length_eth_bytes [simp]: "length (eth_bytes a) = 6"
  by (cases a) simp

lemma unparse_eth: "EthernetAddress_unparse s a = s @ eth_bytes a"
  by (cases a) (simp add: EthernetAddress_unparse_def unparse_enc)

lemma parse_eth:
  assumes "parses p (eth_bytes a @ rest)"
  shows "fst (EthernetAddress_parse p) = a" and "parses (snd (EthernetAddress_parse p)) rest"
proof -
  obtain b1 b2 b3 b4 b5 b6 where a: "a = EthernetAddress b1 b2 b3 b4 b5 b6" by (cases a)
  have p0: "parses p (be_bytes 1 b1 @ be_bytes 1 b2 @ be_bytes 1 b3 @ be_bytes 1 b4 @ be_bytes 1 b5 @
      be_bytes 1 b6 @ rest)" using assms by (simp add: a)
  note p1 = codec8.rest_enc [OF p0] note v1 = codec8.parse_enc [OF p0]
  note p2 = codec8.rest_enc [OF p1] note v2 = codec8.parse_enc [OF p1]
  note p3 = codec8.rest_enc [OF p2] note v3 = codec8.parse_enc [OF p2]
  note p4 = codec8.rest_enc [OF p3] note v4 = codec8.parse_enc [OF p3]
  note p5 = codec8.rest_enc [OF p4] note v5 = codec8.parse_enc [OF p4]
  note p6 = codec8.rest_enc [OF p5] note v6 = codec8.parse_enc [OF p5]
  show "fst (EthernetAddress_parse p) = a" "parses (snd (EthernetAddress_parse p)) rest"
    using p6 by (simp_all add: EthernetAddress_parse_def split_beta Let_def a v1 v2 v3 v4 v5 v6)
qed

text \<open>Reading from too short a buffer: the first read that finds nothing sets the error, which the
  following ones keep.\<close>

definition reads :: "NetParser \<Rightarrow> nat \<Rightarrow> bool" where
  "reads p n \<longleftrightarrow> (\<exists>bs. parses p bs \<and> length bs = n) \<or> (n = 0 \<and> np_error p = PacketTooShort)"

lemma u8_reads:
  assumes "reads p n"
  shows "reads (snd (NetParser_u8 p)) (n - 1)"
    and "n = 0 \<Longrightarrow> np_error (snd (NetParser_u8 p)) = PacketTooShort"
proof -
  have sticky: "np_error (snd (NetParser_u8 q)) = PacketTooShort" if "np_error q = PacketTooShort" for q
    using that by (simp add: NetParser_u8_def NetParser_parse_int_def NetParser_check_size_def
        NetParser_error_def NetParser_set_error_def Let_def)
  show "n = 0 \<Longrightarrow> np_error (snd (NetParser_u8 p)) = PacketTooShort"
    using assms sticky codec8.parse_short [of p "[]"] by (auto simp: reads_def)
  moreover have "reads (snd (NetParser_u8 p)) (n - 1)" if pos: "n > 0"
  proof -
    obtain cs where cs: "parses p cs" "length cs = n" using assms pos by (auto simp: reads_def)
    then obtain b bs where "cs = b # bs" using pos by (cases cs) auto
    then have "parses p (be_bytes 1 b @ bs)" and l: "length bs = n - 1" using cs by auto
    from codec8.rest_enc [OF this(1)] show ?thesis
      unfolding reads_def using l by metis
  qed
  ultimately show "reads (snd (NetParser_u8 p)) (n - 1)"
    by (cases "n = 0") (simp_all add: reads_def)
qed

lemma eth_parse_short:
  assumes "parses p bs" and "length bs < 6"
  shows "np_error (snd (EthernetAddress_parse p)) = PacketTooShort"
proof -
  have r0: "reads p (length bs)" using assms(1) by (auto simp: reads_def)
  note r1 = u8_reads(1) [OF r0]
  note r2 = u8_reads(1) [OF r1]
  note r3 = u8_reads(1) [OF r2]
  note r4 = u8_reads(1) [OF r3]
  note r5 = u8_reads(1) [OF r4]
  have "length bs - 1 - 1 - 1 - 1 - 1 = 0" using assms(2) by simp
  from u8_reads(2) [OF r5 this] show ?thesis
    by (simp add: EthernetAddress_parse_def split_beta Let_def)
qed

interpretation codec_eth: int_codec EthernetAddress_parse EthernetAddress_unparse eth_bytes 6
proof unfold_locales
  show "EthernetAddress_unparse s v = s @ eth_bytes v" for s v by (rule unparse_eth)
qed (auto intro: parse_eth eth_parse_short)

subsection \<open>Frames\<close>

definition eth_header_bytes :: "EthernetHeader \<Rightarrow> bytes" where
  "eth_header_bytes h = eth_bytes (eth_dst h) @ eth_bytes (eth_src h) @ be_bytes 2 (eth_type h)"

lemma serialize_frame:
  "BufferList_concatenate (EthernetFrame_serialize frame)
     = eth_header_bytes (fr_header frame) @ BufferList_concatenate (fr_payload frame)"
  by (simp add: EthernetFrame_serialize_def EthernetHeader_serialize_def eth_header_bytes_def unparse_eth
      unparse_enc BufferList_append_def BufferList_of_string_def BufferList_of_Buffer_def Let_def)

lemma parse_eth_header:
  assumes "parses p (eth_header_bytes h @ rest)"
  shows "\<exists>p'. EthernetHeader_parse h0 p = (NoError, h, p') \<and> parses p' rest"
proof -
  note p0 = assms [unfolded eth_header_bytes_def append_assoc]
  note p1 = codec_eth.rest_enc [OF p0] note v1 = codec_eth.parse_enc [OF p0]
  note p2 = codec_eth.rest_enc [OF p1] note v2 = codec_eth.parse_enc [OF p1]
  note p3 = codec16.rest_enc [OF p2] note v3 = codec16.parse_enc [OF p2]
  have "\<not> Buffer_size (np_buffer p) < EthernetHeader_LENGTH"
    using parses_size [OF p0] by (simp add: EthernetHeader_LENGTH_def word_less_nat_alt)
  then show ?thesis
    using p3 parses_no_error [OF p3] by (simp add: EthernetHeader_parse_def split_beta Let_def v1 v2 v3)
qed

lemma parse_frame:
  assumes "Buffer_inv b" and "Buffer_str b = eth_header_bytes h @ rest"
  shows "\<exists>c. EthernetFrame_parse frame0 b = (NoError, \<lparr>fr_header = h, fr_payload = [c]\<rparr>) \<and>
    Buffer_str c = rest \<and> Buffer_inv c"
proof -
  have "parses (NetParser_init b) (eth_header_bytes h @ rest)"
    using parses_init [OF assms(1)] assms(2) by simp
  from parse_eth_header [OF this, of "fr_header frame0"] obtain p'
    where p': "EthernetHeader_parse (fr_header frame0) (NetParser_init b) = (NoError, h, p')"
      "parses p' rest" by blast
  show ?thesis
    by (rule exI [of _ "np_buffer p'"])
      (use p' in \<open>simp add: EthernetFrame_parse_def parses_def BufferList_of_Buffer_def\<close>)
qed

text \<open>Parsing a serialised Ethernet frame gives its header and its payload back, whatever the
  frame object held before; the 14 bytes of the header are in network order.\<close>
theorem ethernet_frame_roundtrip:
  assumes "length (BufferList_concatenate (EthernetFrame_serialize frame)) < 2 ^ 64"
  shows "\<exists>frame'. EthernetFrame_parse frame0
      (Buffer_of_string (BufferList_concatenate (EthernetFrame_serialize frame))) = (NoError, frame') \<and>
    fr_header frame' = fr_header frame \<and>
    BufferList_concatenate (fr_payload frame') = BufferList_concatenate (fr_payload frame)"
  using parse_frame [of "Buffer_of_string (BufferList_concatenate (EthernetFrame_serialize frame))"
      "fr_header frame" "BufferList_concatenate (fr_payload frame)" frame0] assms
  by (auto simp: serialize_frame)

theorem ethernet_frame_roundtrip_witness:
  "let frame = \<lparr>fr_header = \<lparr>eth_dst = ETHERNET_BROADCAST, eth_src = EthernetAddress 2 0 0 0 0 1,
                  eth_type = EthernetHeader_TYPE_IPv4\<rparr>,
                fr_payload = [Buffer_of_string [1, 2], Buffer_of_string [3]]\<rparr>
   in \<exists>frame'. EthernetFrame_parse EthernetFrame_default
        (Buffer_of_string (BufferList_concatenate (EthernetFrame_serialize frame))) = (NoError, frame') \<and>
      fr_header frame' = fr_header frame \<and> BufferList_concatenate (fr_payload frame') = [1, 2, 3]"
  using ethernet_frame_roundtrip [of "\<lparr>fr_header = \<lparr>eth_dst = ETHERNET_BROADCAST,
      eth_src = EthernetAddress 2 0 0 0 0 1, eth_type = EthernetHeader_TYPE_IPv4\<rparr>,
      fr_payload = [Buffer_of_string [1, 2], Buffer_of_string [3]]\<rparr>" EthernetFrame_default]
  by (simp add: serialize_frame eth_header_bytes_def)

text \<open>A frame that is shorter than its header is accepted: the result of the header parser, which
  says \<open>PacketTooShort\<close>, is not looked at.\<close>

lemma short_frame_accepted:
  assumes "Buffer_inv b" and "length (Buffer_str b) < 14"
  shows "EthernetFrame_parse frame0 b = (NoError, frame0\<lparr>fr_payload := [b]\<rparr>)"
proof -
  have "Buffer_size b < EthernetHeader_LENGTH"
    using assms by (simp add: Buffer_size_def EthernetHeader_LENGTH_def word_less_nat_alt unat_sz)
  then show ?thesis
    by (simp add: EthernetFrame_parse_def EthernetHeader_parse_def NetParser_init_def BufferList_of_Buffer_def)
qed

subsection \<open>ARP messages\<close>

definition arp_bytes :: "ARPMessage \<Rightarrow> bytes" where
  "arp_bytes m =
     be_bytes 2 (arp_hardware_type m) @ be_bytes 2 (arp_protocol_type m) @
     be_bytes 1 (arp_hardware_address_size m) @ be_bytes 1 (arp_protocol_address_size m) @
     be_bytes 2 (arp_opcode m) @
     eth_bytes (arp_sender_ethernet_address m) @ be_bytes 4 (arp_sender_ip_address m) @
     eth_bytes (arp_target_ethernet_address m) @ be_bytes 4 (arp_target_ip_address m)"

lemma length_arp_bytes [simp]: "length (arp_bytes m) = 28"
  by (simp add: arp_bytes_def)

lemma serialize_arp: "ARPMessage_supported m \<Longrightarrow> ARPMessage_serialize m = Inr (arp_bytes m)"
  by (simp add: ARPMessage_serialize_def arp_bytes_def unparse_enc unparse_eth Let_def)

lemma parse_arp:
  assumes "Buffer_inv b" and "Buffer_str b = arp_bytes m @ rest" and "ARPMessage_supported m"
  shows "ARPMessage_parse m0 b = (NoError, m)"
proof -
  have p: "parses (NetParser_init b) (arp_bytes m @ rest)"
    using parses_init [OF assms(1)] assms(2) by simp
  note p0 = p [unfolded arp_bytes_def append_assoc]
  note p1 = codec16.rest_enc [OF p0] note v1 = codec16.parse_enc [OF p0]
  note p2 = codec16.rest_enc [OF p1] note v2 = codec16.parse_enc [OF p1]
  note p3 = codec8.rest_enc [OF p2] note v3 = codec8.parse_enc [OF p2]
  note p4 = codec8.rest_enc [OF p3] note v4 = codec8.parse_enc [OF p3]
  note p5 = codec16.rest_enc [OF p4] note v5 = codec16.parse_enc [OF p4]
  note p6 = codec_eth.rest_enc [OF p5] note v6 = codec_eth.parse_enc [OF p5]
  note p7 = codec32.rest_enc [OF p6] note v7 = codec32.parse_enc [OF p6]
  note p8 = codec_eth.rest_enc [OF p7] note v8 = codec_eth.parse_enc [OF p7]
  note p9 = codec32.rest_enc [OF p8] note v9 = codec32.parse_enc [OF p8]
  have "\<not> Buffer_size (np_buffer (NetParser_init b)) < ARPMessage_LENGTH"
    using parses_size [OF p] by (simp add: ARPMessage_LENGTH_def word_less_nat_alt)
  moreover have "ARPMessage_supported (m0\<lparr>arp_hardware_type := arp_hardware_type m,
      arp_protocol_type := arp_protocol_type m, arp_hardware_address_size := arp_hardware_address_size m,
      arp_protocol_address_size := arp_protocol_address_size m, arp_opcode := arp_opcode m\<rparr>)"
    using assms(3) by (simp add: ARPMessage_supported_def)
  ultimately show ?thesis
    using parses_no_error [OF p9]
    by (simp add: ARPMessage_parse_def split_beta Let_def v1 v2 v3 v4 v5 v6 v7 v8 v9)
qed

text \<open>C39: the serialiser writes an ARP message exactly if it is supported, in 28 bytes that the
  parser, whatever message object it fills, reads back as the same message, also when padding
  follows them in the frame.\<close>
theorem arp_message_roundtrip:
  assumes "length pad < 2 ^ 63"
  shows "case ARPMessage_serialize m of
      Inl e \<Rightarrow> \<not> ARPMessage_supported m
    | Inr out \<Rightarrow> ARPMessage_supported m \<and> length out = 28 \<and>
        ARPMessage_parse m0 (Buffer_of_string (out @ pad)) = (NoError, m)"
  using parse_arp [of "Buffer_of_string (arp_bytes m @ pad)" m pad m0] serialize_arp [of m] assms
  by (cases "ARPMessage_supported m") (simp_all add: ARPMessage_serialize_def)

theorem arp_message_roundtrip_witness:
  "let m = ARPMessage_default\<lparr>arp_opcode := ARPMessage_OPCODE_REPLY, arp_sender_ip_address := 0x0a000001\<rparr>
   in \<exists>out. ARPMessage_serialize m = Inr out \<and>
        ARPMessage_parse ARPMessage_default (Buffer_of_string (out @ replicate 18 0)) = (NoError, m)"
proof -
  let ?m = "ARPMessage_default\<lparr>arp_opcode := ARPMessage_OPCODE_REPLY, arp_sender_ip_address := 0x0a000001\<rparr>"
  have "ARPMessage_supported ?m" by (simp add: ARPMessage_supported_def ARPMessage_default_def)
  then show ?thesis
    using arp_message_roundtrip [of "replicate 18 0" ?m ARPMessage_default]
    by (simp split: sum.splits)
qed

end
