(* ===== verification/Network_Interface.thy ===== *)
theory Network_Interface
  imports Ethernet Address
begin

text \<open>
  The network interface: \<open>src/libsponge/network_interface.{hh,cc}\<close>. The two \<open>std::unordered_map\<close>s
  are maps; the order in which \<open>tick\<close> visits their entries is not specified by the language and is
  an argument of the operation. The operations change the interface before they may throw, so they
  return the new interface together with the result or the exception. The timers are of type
  \<open>int\<close>.
\<close>

subsection \<open>The class\<close>

record NetworkInterface =
  ni_ethernet_address :: EthernetAddress
  ni_ip_address :: Address
  ni_frames_out :: "EthernetFrame list"
  ni_arp_forward_table :: "u32 \<rightharpoonup> u32 \<times> EthernetAddress"
  ni_arp_request_cache :: "u32 \<rightharpoonup> u32 \<times> IPv4Datagram"

abbreviation Board_Mac_Adress :: EthernetAddress where
  "Board_Mac_Adress \<equiv> ETHERNET_BROADCAST"

text \<open>The constructor writes the address to the debug output and so may throw.\<close>

definition NetworkInterface_init ::
  "getnameinfo \<Rightarrow> EthernetAddress \<Rightarrow> Address \<Rightarrow> NetworkInterface result" where
  "NetworkInterface_init gni ethernet_address ip_address =
     (case Address_ip gni ip_address of
        Inl e \<Rightarrow> Inl e
      | Inr _ \<Rightarrow>
          Inr \<lparr>ni_ethernet_address = ethernet_address, ni_ip_address = ip_address, ni_frames_out = [],
               ni_arp_forward_table = Map.empty, ni_arp_request_cache = Map.empty\<rparr>)"

text \<open>\<open>CreateARPMessage\<close> is \<open>noexcept\<close>: the exception of \<open>ipv4_numeric\<close> would end the program.\<close>

definition NetworkInterface_CreateARPMessage ::
  "NetworkInterface \<Rightarrow> u16 \<Rightarrow> u32 \<Rightarrow> EthernetAddress \<Rightarrow> ARPMessage result" where
  "NetworkInterface_CreateARPMessage ni type target_ip target_mac =
     (case Address_ipv4_numeric (ni_ip_address ni) of
        Inl e \<Rightarrow> Inl (Terminate ''NetworkInterface::CreateARPMessage'')
      | Inr ip \<Rightarrow>
          Inr (ARPMessage_default\<lparr>arp_opcode := type,
            arp_sender_ethernet_address := ni_ethernet_address ni, arp_sender_ip_address := ip,
            arp_target_ethernet_address := target_mac, arp_target_ip_address := target_ip\<rparr>))"

definition push_frame :: "NetworkInterface \<Rightarrow> EthernetFrame \<Rightarrow> NetworkInterface" where
  "push_frame ni frame = ni\<lparr>ni_frames_out := ni_frames_out ni @ [frame]\<rparr>"

text \<open>The three places that wrap an ARP message into a frame: create, serialise, push.\<close>

definition send_arp ::
  "NetworkInterface \<Rightarrow> u16 \<Rightarrow> u32 \<Rightarrow> EthernetAddress \<Rightarrow> EthernetAddress \<Rightarrow> NetworkInterface \<times> unit result" where
  "send_arp ni type target_ip target_mac dst =
     (case NetworkInterface_CreateARPMessage ni type target_ip target_mac of
        Inl e \<Rightarrow> (ni, Inl e)
      | Inr arp_message \<Rightarrow>
          (case ARPMessage_serialize arp_message of
             Inl e \<Rightarrow> (ni, Inl e)
           | Inr out \<Rightarrow>
               (push_frame ni
                  \<lparr>fr_header = \<lparr>eth_dst = dst, eth_src = ni_ethernet_address ni,
                               eth_type = EthernetHeader_TYPE_ARP\<rparr>,
                   fr_payload = BufferList_of_string out\<rparr>, Inr ())))"

definition send_ipv4 ::
  "NetworkInterface \<Rightarrow> IPv4Datagram \<Rightarrow> EthernetAddress \<Rightarrow> NetworkInterface \<times> unit result" where
  "send_ipv4 ni dgram dst =
     (case IPv4Datagram_serialize dgram of
        Inl e \<Rightarrow> (ni, Inl e)
      | Inr out \<Rightarrow>
          (push_frame ni
             \<lparr>fr_header = \<lparr>eth_dst = dst, eth_src = ni_ethernet_address ni,
                          eth_type = EthernetHeader_TYPE_IPv4\<rparr>,
              fr_payload = out\<rparr>, Inr ()))"

definition NetworkInterface_send_datagram ::
  "NetworkInterface \<Rightarrow> IPv4Datagram \<Rightarrow> Address \<Rightarrow> NetworkInterface \<times> unit result" where
  "NetworkInterface_send_datagram ni dgram next_hop =
     (case Address_ipv4_numeric next_hop of
        Inl e \<Rightarrow> (ni, Inl e)
      | Inr next_hop_ip \<Rightarrow>
          (case ni_arp_forward_table ni next_hop_ip of
             Some (_, mac) \<Rightarrow> send_ipv4 ni dgram mac
           | None \<Rightarrow>
               if (case ni_arp_request_cache ni next_hop_ip of
                     Some (ms, _) \<Rightarrow> sint ms < 5000
                   | None \<Rightarrow> False)
               then (ni, Inr ())
               else
                 let ni = ni\<lparr>ni_arp_request_cache :=
                            (ni_arp_request_cache ni)(next_hop_ip \<mapsto> (0, dgram))\<rparr>
                 in send_arp ni ARPMessage_OPCODE_REQUEST next_hop_ip EthernetAddress_zero
                      Board_Mac_Adress))"

text \<open>The part of \<open>recv_frame\<close> for an ARP message that was parsed. \<open>operator[]\<close> inserts a default
  entry when the request cache has none.\<close>

definition recv_arp ::
  "NetworkInterface \<Rightarrow> ARPMessage \<Rightarrow> NetworkInterface \<times> IPv4Datagram option result" where
  "recv_arp ni received_arp_message =
     (let target_ip = arp_target_ip_address received_arp_message;
          target_mac = arp_target_ethernet_address received_arp_message
      in case Address_ipv4_numeric (ni_ip_address ni) of
           Inl e \<Rightarrow> (ni, Inl e)
         | Inr ip \<Rightarrow>
             if target_ip \<noteq> ip then (ni, Inr None)
             else
               let source_ip = arp_sender_ip_address received_arp_message;
                   source_mac = arp_sender_ethernet_address received_arp_message;
                   ni = ni\<lparr>ni_arp_forward_table :=
                          (ni_arp_forward_table ni)(source_ip \<mapsto> (0, source_mac))\<rparr>
               in if arp_opcode received_arp_message = ARPMessage_OPCODE_REPLY \<and>
                     target_mac = ni_ethernet_address ni
                  then
                    let cache = ni_arp_request_cache ni;
                        ni = (if cache source_ip = None
                              then ni\<lparr>ni_arp_request_cache := cache(source_ip \<mapsto> (0, IPv4Datagram_default))\<rparr>
                              else ni);
                        datagram = (case ni_arp_request_cache ni source_ip of
                                      Some (_, dgram) \<Rightarrow> dgram | None \<Rightarrow> IPv4Datagram_default)
                    in case send_ipv4 ni datagram source_mac of
                         (ni, Inl e) \<Rightarrow> (ni, Inl e)
                       | (ni, Inr _) \<Rightarrow>
                           (ni\<lparr>ni_arp_request_cache := (ni_arp_request_cache ni)(source_ip := None)\<rparr>, Inr None)
                  else if arp_opcode received_arp_message = ARPMessage_OPCODE_REQUEST \<and>
                          (ni_arp_forward_table ni target_ip \<noteq> None \<or> ip = target_ip)
                  then case send_arp ni ARPMessage_OPCODE_REPLY source_ip source_mac source_mac of
                         (ni, Inl e) \<Rightarrow> (ni, Inl e)
                       | (ni, Inr _) \<Rightarrow> (ni, Inr None)
                  else (ni, Inr None))"

definition NetworkInterface_recv_frame ::
  "NetworkInterface \<Rightarrow> EthernetFrame \<Rightarrow> NetworkInterface \<times> IPv4Datagram option result" where
  "NetworkInterface_recv_frame ni frame =
     (if eth_dst (fr_header frame) \<noteq> ni_ethernet_address ni \<and> eth_dst (fr_header frame) \<noteq> Board_Mac_Adress
      then (ni, Inr None)
      else if eth_type (fr_header frame) = EthernetHeader_TYPE_IPv4 then
        (case BufferList_to_Buffer (fr_payload frame) of
           Inl e \<Rightarrow> (ni, Inl e)
         | Inr payload \<Rightarrow>
             (case IPv4Datagram_parse IPv4Datagram_default payload of
                (res, datagram) \<Rightarrow> if res \<noteq> NoError then (ni, Inr None) else (ni, Inr (Some datagram))))
      else if eth_type (fr_header frame) = EthernetHeader_TYPE_ARP then
        (case BufferList_to_Buffer (fr_payload frame) of
           Inl e \<Rightarrow> (ni, Inl e)
         | Inr payload \<Rightarrow>
             (case ARPMessage_parse ARPMessage_default payload of
                (res, received_arp_message) \<Rightarrow>
                  if res \<noteq> NoError then (ni, Inr None) else recv_arp ni received_arp_message))
      else (ni, Inr None))"

text \<open>The two loops of \<open>tick\<close>, over the entries in the order \<open>ips\<close>.\<close>

fun tick_forward_table ::
  "u32 list \<Rightarrow> u64 \<Rightarrow> (u32 \<rightharpoonup> u32 \<times> EthernetAddress) \<Rightarrow> (u32 \<rightharpoonup> u32 \<times> EthernetAddress)" where
  "tick_forward_table [] ms table = table"
| "tick_forward_table (ip # ips) ms table =
     (case table ip of
        None \<Rightarrow> tick_forward_table ips ms table
      | Some (ttl, mac) \<Rightarrow>
          let ttl = int_add_size ttl ms
          in if sint ttl > 30000 then tick_forward_table ips ms (table(ip := None))
             else tick_forward_table ips ms (table(ip \<mapsto> (ttl, mac))))"

fun tick_request_cache :: "u32 list \<Rightarrow> u64 \<Rightarrow> NetworkInterface \<Rightarrow> NetworkInterface \<times> unit result" where
  "tick_request_cache [] ms ni = (ni, Inr ())"
| "tick_request_cache (ip # ips) ms ni =
     (case ni_arp_request_cache ni ip of
        None \<Rightarrow> tick_request_cache ips ms ni
      | Some (age, dgram) \<Rightarrow>
          let age = int_add_size age ms;
              ni = ni\<lparr>ni_arp_request_cache := (ni_arp_request_cache ni)(ip \<mapsto> (age, dgram))\<rparr>
          in if sint age > 5000
             then case send_arp ni ARPMessage_OPCODE_REQUEST ip EthernetAddress_zero Board_Mac_Adress of
                    (ni, Inl e) \<Rightarrow> (ni, Inl e)
                  | (ni, Inr _) \<Rightarrow>
                      tick_request_cache ips ms
                        (ni\<lparr>ni_arp_request_cache := (ni_arp_request_cache ni)(ip \<mapsto> (0, dgram))\<rparr>)
             else tick_request_cache ips ms ni)"

definition NetworkInterface_tick ::
  "u32 list \<Rightarrow> u32 list \<Rightarrow> NetworkInterface \<Rightarrow> u64 \<Rightarrow> NetworkInterface \<times> unit result" where
  "NetworkInterface_tick table_order cache_order ni ms =
     (let ni = ni\<lparr>ni_arp_forward_table := tick_forward_table table_order ms (ni_arp_forward_table ni)\<rparr>
      in tick_request_cache cache_order ms ni)"

end
