(* ===== verification/Interface_Properties.thy ===== *)
theory Interface_Properties
  imports Network_Interface
begin

text \<open>
  What the network interface guarantees: address resolution brings a datagram to its next hop, frames
  go only where an ARP message said, learned addresses are forgotten after 30 seconds, and requests
  for one address are at least 5 seconds apart.
\<close>

subsection \<open>Frames on the wire\<close>

text \<open>What the other end makes of a frame that crosses the wire as bytes.\<close>

definition transmit :: "EthernetFrame \<Rightarrow> EthernetFrame" where
  "transmit frame = snd (EthernetFrame_parse EthernetFrame_default
     (Buffer_of_string (BufferList_concatenate (EthernetFrame_serialize frame))))"

lemma transmit_frame:
  assumes "length (BufferList_concatenate (fr_payload frame)) < 2 ^ 63"
  shows "\<exists>c. transmit frame = \<lparr>fr_header = fr_header frame, fr_payload = [c]\<rparr> \<and> Buffer_inv c \<and>
    Buffer_str c = BufferList_concatenate (fr_payload frame)"
proof -
  let ?b = "Buffer_of_string (BufferList_concatenate (EthernetFrame_serialize frame))"
  have "Buffer_inv ?b" using assms by (simp add: serialize_frame eth_header_bytes_def)
  from parse_frame [OF this, of "fr_header frame" _ EthernetFrame_default]
  show ?thesis by (auto simp: serialize_frame transmit_def)
qed

text \<open>An interface whose address is the IPv4 number \<open>ip\<close>.\<close>

definition configured :: "u32 \<Rightarrow> NetworkInterface \<Rightarrow> bool" where
  "configured ip ni \<longleftrightarrow> Address_ipv4_numeric (ni_ip_address ni) = Inr ip"

definition arp_message :: "NetworkInterface \<Rightarrow> u16 \<Rightarrow> u32 \<Rightarrow> EthernetAddress \<Rightarrow> ARPMessage" where
  "arp_message ni type target_ip target_mac =
     ARPMessage_default\<lparr>arp_opcode := type, arp_sender_ethernet_address := ni_ethernet_address ni,
       arp_sender_ip_address := ok_or 0 (Address_ipv4_numeric (ni_ip_address ni)),
       arp_target_ethernet_address := target_mac, arp_target_ip_address := target_ip\<rparr>"

definition arp_frame :: "EthernetAddress \<Rightarrow> EthernetAddress \<Rightarrow> ARPMessage \<Rightarrow> EthernetFrame" where
  "arp_frame dst src m =
     \<lparr>fr_header = \<lparr>eth_dst = dst, eth_src = src, eth_type = EthernetHeader_TYPE_ARP\<rparr>,
      fr_payload = [Buffer_of_string (arp_bytes m)]\<rparr>"

definition ipv4_frame :: "EthernetAddress \<Rightarrow> EthernetAddress \<Rightarrow> BufferList \<Rightarrow> EthernetFrame" where
  "ipv4_frame dst src out =
     \<lparr>fr_header = \<lparr>eth_dst = dst, eth_src = src, eth_type = EthernetHeader_TYPE_IPv4\<rparr>,
      fr_payload = out\<rparr>"

definition is_opcode :: "u16 \<Rightarrow> bool" where
  "is_opcode type \<longleftrightarrow> type = ARPMessage_OPCODE_REQUEST \<or> type = ARPMessage_OPCODE_REPLY"

lemma is_opcode [simp]: "is_opcode ARPMessage_OPCODE_REQUEST" "is_opcode ARPMessage_OPCODE_REPLY"
  by (simp_all add: is_opcode_def)

lemma opcodes [simp]: "ARPMessage_OPCODE_REQUEST \<noteq> ARPMessage_OPCODE_REPLY"
  by (simp add: ARPMessage_OPCODE_REQUEST_def ARPMessage_OPCODE_REPLY_def)

lemma eth_types [simp]: "EthernetHeader_TYPE_ARP \<noteq> EthernetHeader_TYPE_IPv4"
  by (simp add: EthernetHeader_TYPE_IPv4_def EthernetHeader_TYPE_ARP_def)

lemma push_frame_simps [simp]:
  "ni_ethernet_address (push_frame ni f) = ni_ethernet_address ni"
  "ni_ip_address (push_frame ni f) = ni_ip_address ni"
  "ni_frames_out (push_frame ni f) = ni_frames_out ni @ [f]"
  "ni_arp_forward_table (push_frame ni f) = ni_arp_forward_table ni"
  "ni_arp_request_cache (push_frame ni f) = ni_arp_request_cache ni"
  by (simp_all add: push_frame_def)

lemma configured_simps [simp]:
  "configured ip (push_frame ni f) = configured ip ni"
  "configured ip (ni\<lparr>ni_arp_forward_table := t\<rparr>) = configured ip ni"
  "configured ip (ni\<lparr>ni_arp_request_cache := c\<rparr>) = configured ip ni"
  by (simp_all add: configured_def)

lemma arp_message_supported: "is_opcode type \<Longrightarrow> ARPMessage_supported (arp_message ni type ip mac)"
  by (auto simp: arp_message_def ARPMessage_supported_def ARPMessage_default_def is_opcode_def)

lemma send_arp_eq:
  assumes "configured ip ni" and "is_opcode type"
  shows "send_arp ni type target_ip target_mac dst
    = (push_frame ni (arp_frame dst (ni_ethernet_address ni) (arp_message ni type target_ip target_mac)), Inr ())"
proof -
  have "NetworkInterface_CreateARPMessage ni type target_ip target_mac
      = Inr (arp_message ni type target_ip target_mac)"
    using assms(1) by (simp add: NetworkInterface_CreateARPMessage_def configured_def arp_message_def)
  then show ?thesis
    using serialize_arp [OF arp_message_supported [OF assms(2)]]
    by (simp add: send_arp_def arp_frame_def BufferList_of_string_def BufferList_append_def
        BufferList_of_Buffer_def)
qed

lemma send_ipv4_eq:
  "IPv4Datagram_serialize d = Inr out \<Longrightarrow>
     send_ipv4 ni d dst = (push_frame ni (ipv4_frame dst (ni_ethernet_address ni) out), Inr ())"
  by (simp add: send_ipv4_def ipv4_frame_def)

text \<open>A frame is for this interface.\<close>

definition addressed :: "NetworkInterface \<Rightarrow> EthernetFrame \<Rightarrow> bool" where
  "addressed ni frame \<longleftrightarrow>
     eth_dst (fr_header frame) = ni_ethernet_address ni \<or> eth_dst (fr_header frame) = ETHERNET_BROADCAST"

lemma recv_arp_frame:
  assumes "ARPMessage_supported m" and "dst = ni_ethernet_address ni \<or> dst = ETHERNET_BROADCAST"
  shows "NetworkInterface_recv_frame ni (transmit (arp_frame dst src m)) = recv_arp ni m"
proof -
  obtain c where c: "transmit (arp_frame dst src m) = \<lparr>fr_header = fr_header (arp_frame dst src m), fr_payload = [c]\<rparr>"
    "Buffer_inv c" "Buffer_str c = arp_bytes m @ []"
    using transmit_frame [of "arp_frame dst src m"] by (auto simp: arp_frame_def)
  then show ?thesis
    using parse_arp [OF c(2,3) assms(1), of ARPMessage_default] assms(2)
    by (auto simp: NetworkInterface_recv_frame_def arp_frame_def BufferList_to_Buffer_def)
qed

text \<open>The datagram that arrives is the one that was sent but for the checksum, which is computed on
  the way, and the cut of the payload into buffers.\<close>

definition same_datagram :: "IPv4Datagram \<Rightarrow> IPv4Datagram \<Rightarrow> bool" where
  "same_datagram d d' \<longleftrightarrow> dg_header d' = (dg_header d)\<lparr>ip_cksum := ip_cksum (dg_header d')\<rparr> \<and>
     BufferList_concatenate (dg_payload d') = BufferList_concatenate (dg_payload d)"

lemma recv_ipv4_frame:
  assumes fits: "datagram_fits d" and ser: "IPv4Datagram_serialize d = Inr out"
    and dst: "dst = ni_ethernet_address ni \<or> dst = ETHERNET_BROADCAST"
  shows "\<exists>d'. NetworkInterface_recv_frame ni (transmit (ipv4_frame dst src out)) = (ni, Inr (Some d')) \<and>
    same_datagram d d' \<and> (\<exists>b. dg_payload d' = [b] \<and> Buffer_inv b)"
proof -
  let ?h = "dg_header d"
  obtain k :: u16 where out: "BufferList_concatenate out
      = ip_front ?h @ be_bytes 2 k @ ip_back ?h @ BufferList_concatenate (dg_payload d)"
    "ip_checksum (ip_front ?h @ be_bytes 2 k @ ip_back ?h) = 0"
    using serialize_datagram [OF fits] ser by auto
  have "length (BufferList_concatenate out) = unat (ip_len ?h)"
    using fits ip_legal_hlen(1) [of ?h] by (simp add: out(1) datagram_fits_def length_ip_back)
  then have "length (BufferList_concatenate out) < 2 ^ 63" using unat_u16_bound [of "ip_len ?h"] by simp
  then obtain c where c: "transmit (ipv4_frame dst src out)
      = \<lparr>fr_header = fr_header (ipv4_frame dst src out), fr_payload = [c]\<rparr>"
    "Buffer_inv c" "Buffer_str c = BufferList_concatenate out"
    using transmit_frame [of "ipv4_frame dst src out"] by (auto simp: ipv4_frame_def)
  from parse_datagram [OF fits c(2), of k IPv4Datagram_default] c(3) out
  obtain d' where "IPv4Datagram_parse IPv4Datagram_default c = (NoError, d')"
    "dg_header d' = ?h\<lparr>ip_cksum := k\<rparr>"
    "BufferList_concatenate (dg_payload d') = BufferList_concatenate (dg_payload d)"
    "\<exists>b. dg_payload d' = [b] \<and> Buffer_inv b" by auto
  then show ?thesis
    using c(1) dst by (auto simp: NetworkInterface_recv_frame_def ipv4_frame_def BufferList_to_Buffer_def
        same_datagram_def)
qed

subsection \<open>Address resolution\<close>

lemma recv_request:
  assumes "configured ip ni" and "arp_opcode m = ARPMessage_OPCODE_REQUEST" and "arp_target_ip_address m = ip"
  shows "recv_arp ni m =
    (push_frame (ni\<lparr>ni_arp_forward_table :=
        (ni_arp_forward_table ni)(arp_sender_ip_address m \<mapsto> (0, arp_sender_ethernet_address m))\<rparr>)
       (arp_frame (arp_sender_ethernet_address m) (ni_ethernet_address ni)
          (arp_message ni ARPMessage_OPCODE_REPLY (arp_sender_ip_address m) (arp_sender_ethernet_address m))),
     Inr None)"
proof -
  let ?ni = "ni\<lparr>ni_arp_forward_table :=
        (ni_arp_forward_table ni)(arp_sender_ip_address m \<mapsto> (0, arp_sender_ethernet_address m))\<rparr>"
  have "configured ip ?ni" using assms(1) by simp
  from send_arp_eq [OF this is_opcode(2)] show ?thesis
    using assms by (simp add: recv_arp_def configured_def arp_message_def Let_def)
qed

lemma recv_reply:
  assumes "configured ip ni" and "arp_opcode m = ARPMessage_OPCODE_REPLY" and "arp_target_ip_address m = ip"
    and "arp_target_ethernet_address m = ni_ethernet_address ni"
    and "ni_arp_request_cache ni (arp_sender_ip_address m) = Some (age, d)"
    and "IPv4Datagram_serialize d = Inr out"
  shows "recv_arp ni m =
    ((push_frame (ni\<lparr>ni_arp_forward_table :=
        (ni_arp_forward_table ni)(arp_sender_ip_address m \<mapsto> (0, arp_sender_ethernet_address m))\<rparr>)
       (ipv4_frame (arp_sender_ethernet_address m) (ni_ethernet_address ni) out))
     \<lparr>ni_arp_request_cache := (ni_arp_request_cache ni)(arp_sender_ip_address m := None)\<rparr>,
     Inr None)"
  using assms by (simp add: recv_arp_def configured_def send_ipv4_eq Let_def)

text \<open>The three frames of an exchange: the request of \<open>a\<close> for the address of \<open>b\<close>, the reply, and the
  datagram that was waiting.\<close>

lemma send_request:
  assumes a: "configured ipA a" and "Address_ipv4_numeric next_hop = Inr ipB"
    and "ni_arp_forward_table a ipB = None"
    and "case ni_arp_request_cache a ipB of None \<Rightarrow> True | Some (age, _) \<Rightarrow> 5000 \<le> sint age"
  shows "NetworkInterface_send_datagram a d next_hop =
    (push_frame (a\<lparr>ni_arp_request_cache := (ni_arp_request_cache a)(ipB \<mapsto> (0, d))\<rparr>)
       (arp_frame ETHERNET_BROADCAST (ni_ethernet_address a)
         (arp_message a ARPMessage_OPCODE_REQUEST ipB EthernetAddress_zero)), Inr ())"
proof -
  let ?a0 = "a\<lparr>ni_arp_request_cache := (ni_arp_request_cache a)(ipB \<mapsto> (0, d))\<rparr>"
  have "configured ipA ?a0" using a by simp
  from send_arp_eq [OF this is_opcode(1)] show ?thesis using assms(2-4)
    by (cases "ni_arp_request_cache a ipB")
      (auto simp: NetworkInterface_send_datagram_def arp_message_def Let_def)
qed

lemma answer_request:
  assumes a: "configured ipA a" and b: "configured ipB b"
  shows "NetworkInterface_recv_frame b (transmit (arp_frame ETHERNET_BROADCAST (ni_ethernet_address a)
      (arp_message a ARPMessage_OPCODE_REQUEST ipB EthernetAddress_zero))) =
    (push_frame (b\<lparr>ni_arp_forward_table := (ni_arp_forward_table b)(ipA \<mapsto> (0, ni_ethernet_address a))\<rparr>)
       (arp_frame (ni_ethernet_address a) (ni_ethernet_address b)
         (arp_message b ARPMessage_OPCODE_REPLY ipA (ni_ethernet_address a))), Inr None)"
proof -
  let ?m1 = "arp_message a ARPMessage_OPCODE_REQUEST ipB EthernetAddress_zero"
  have m1: "arp_sender_ip_address ?m1 = ipA" "arp_sender_ethernet_address ?m1 = ni_ethernet_address a"
    "arp_target_ip_address ?m1 = ipB" "arp_opcode ?m1 = ARPMessage_OPCODE_REQUEST"
    using a by (simp_all add: arp_message_def configured_def)
  show ?thesis
    using recv_arp_frame [OF arp_message_supported [OF is_opcode(1)], of ETHERNET_BROADCAST b]
      recv_request [OF b m1(4,3)] by (simp add: m1)
qed

lemma take_reply:
  assumes a: "configured ipA a" and b: "configured ipB b"
    and "ni_arp_request_cache a ipB = Some (age, d)" and "IPv4Datagram_serialize d = Inr out"
  shows "NetworkInterface_recv_frame a (transmit (arp_frame (ni_ethernet_address a) (ni_ethernet_address b)
      (arp_message b ARPMessage_OPCODE_REPLY ipA (ni_ethernet_address a)))) =
    ((push_frame (a\<lparr>ni_arp_forward_table := (ni_arp_forward_table a)(ipB \<mapsto> (0, ni_ethernet_address b))\<rparr>)
        (ipv4_frame (ni_ethernet_address b) (ni_ethernet_address a) out))
      \<lparr>ni_arp_request_cache := (ni_arp_request_cache a)(ipB := None)\<rparr>, Inr None)"
proof -
  let ?m2 = "arp_message b ARPMessage_OPCODE_REPLY ipA (ni_ethernet_address a)"
  have m2: "arp_sender_ip_address ?m2 = ipB" "arp_sender_ethernet_address ?m2 = ni_ethernet_address b"
    "arp_target_ip_address ?m2 = ipA" "arp_opcode ?m2 = ARPMessage_OPCODE_REPLY"
    "arp_target_ethernet_address ?m2 = ni_ethernet_address a"
    using b by (simp_all add: arp_message_def configured_def)
  show ?thesis
    using recv_arp_frame [OF arp_message_supported [OF is_opcode(2)], of "ni_ethernet_address a" a]
      recv_reply [OF a m2(4,3,5), of age d out] assms(3,4) by (simp add: m2)
qed

text \<open>C19: address resolution works from end to end. Interface \<open>a\<close> is asked to send a datagram to the
  address of \<open>b\<close>, which it has neither learned nor asked for in the last 5 seconds. It broadcasts a
  request; \<open>b\<close> learns the address of \<open>a\<close> from it and replies; on the reply \<open>a\<close> learns the address
  of \<open>b\<close>, sends the datagram and keeps nothing queued for it; and \<open>b\<close> hands out the datagram. Every
  frame crosses the wire as bytes.\<close>
theorem arp_resolution_delivers:
  assumes a: "configured ipA a" and b: "configured ipB b"
    and hop: "Address_ipv4_numeric next_hop = Inr ipB"
    and table: "ni_arp_forward_table a ipB = None"
    and cache: "case ni_arp_request_cache a ipB of None \<Rightarrow> True | Some (age, _) \<Rightarrow> 5000 \<le> sint age"
    and fits: "datagram_fits d"
  shows "\<exists>a1 request b1 reply a2 frame d'.
    NetworkInterface_send_datagram a d next_hop = (a1, Inr ()) \<and>
    ni_frames_out a1 = ni_frames_out a @ [request] \<and>
    NetworkInterface_recv_frame b (transmit request) = (b1, Inr None) \<and>
    ni_frames_out b1 = ni_frames_out b @ [reply] \<and>
    ni_arp_forward_table b1 = (ni_arp_forward_table b)(ipA \<mapsto> (0, ni_ethernet_address a)) \<and>
    NetworkInterface_recv_frame a1 (transmit reply) = (a2, Inr None) \<and>
    ni_frames_out a2 = ni_frames_out a1 @ [frame] \<and>
    ni_arp_forward_table a2 = (ni_arp_forward_table a)(ipB \<mapsto> (0, ni_ethernet_address b)) \<and>
    ni_arp_request_cache a2 = (ni_arp_request_cache a)(ipB := None) \<and>
    NetworkInterface_recv_frame b1 (transmit frame) = (b1, Inr (Some d')) \<and> same_datagram d d'"
proof -
  obtain out where out: "IPv4Datagram_serialize d = Inr out" using serialize_datagram [OF fits] by auto
  note 1 = send_request [OF a hop table cache, of d]
  note 2 = answer_request [OF a b]
  let ?a1 = "fst (NetworkInterface_send_datagram a d next_hop)"
  have "configured ipA ?a1" "ni_arp_request_cache ?a1 ipB = Some (0, d)"
    "ni_ethernet_address ?a1 = ni_ethernet_address a"
    using a by (simp_all add: 1)
  note 3 = take_reply [OF this(1) b this(2) out, unfolded this(3)]
  let ?b1 = "fst (NetworkInterface_recv_frame b (transmit (arp_frame ETHERNET_BROADCAST (ni_ethernet_address a)
      (arp_message a ARPMessage_OPCODE_REQUEST ipB EthernetAddress_zero))))"
  have "ni_ethernet_address ?b1 = ni_ethernet_address b" by (simp add: 2)
  then obtain d' where "NetworkInterface_recv_frame ?b1
      (transmit (ipv4_frame (ni_ethernet_address b) (ni_ethernet_address a) out)) = (?b1, Inr (Some d'))"
    "same_datagram d d'"
    using recv_ipv4_frame [OF fits out, of "ni_ethernet_address b" ?b1 "ni_ethernet_address a"] by auto
  with 1 2 3 show ?thesis
    by (intro exI [of _ ?a1] exI [of _ ?b1] exI conjI) (assumption | simp)+
qed

definition sample_interface :: "EthernetAddress \<Rightarrow> u32 \<Rightarrow> NetworkInterface" where
  "sample_interface mac ip =
     \<lparr>ni_ethernet_address = mac, ni_ip_address = ipv4_address 0 ip, ni_frames_out = [],
      ni_arp_forward_table = Map.empty, ni_arp_request_cache = Map.empty\<rparr>"

definition sample_datagram :: IPv4Datagram where
  "sample_datagram =
     \<lparr>dg_header = IPv4Header_default\<lparr>ip_len := 23, ip_src := 0x0a000001, ip_dst := 0x0a000002\<rparr>,
      dg_payload = [Buffer_of_string [1, 2, 3]]\<rparr>"

lemma sample_datagram_fits: "datagram_fits sample_datagram"
  by (simp add: sample_datagram_def datagram_fits_def ip_legal_def IPv4Header_default_def IPv4Header_LENGTH_def)

lemma sample_interface_init:
  "numeric_resolver gai gni \<Longrightarrow>
     NetworkInterface_init gni mac (ipv4_address 0 ip) = Inr (sample_interface mac ip)"
  by (simp add: NetworkInterface_init_def Address_ip_def ipv4_ip_port sample_interface_def)

lemma sample_configured [simp]: "configured ip (sample_interface mac ip)"
  by (simp add: sample_interface_def configured_def)

theorem arp_resolution_delivers_witness:
  "let a = sample_interface (EthernetAddress 2 0 0 0 0 1) 0x0a000001;
       b = sample_interface (EthernetAddress 2 0 0 0 0 2) 0x0a000002
   in \<exists>a1 request b1 reply a2 frame d'.
        NetworkInterface_send_datagram a sample_datagram (ipv4_address 0 0x0a000002) = (a1, Inr ()) \<and>
        ni_frames_out a1 = [request] \<and>
        NetworkInterface_recv_frame b (transmit request) = (b1, Inr None) \<and> ni_frames_out b1 = [reply] \<and>
        NetworkInterface_recv_frame a1 (transmit reply) = (a2, Inr None) \<and>
        ni_frames_out a2 = [request, frame] \<and>
        NetworkInterface_recv_frame b1 (transmit frame) = (b1, Inr (Some d')) \<and>
        BufferList_concatenate (dg_payload d') = [1, 2, 3]"
proof -
  let ?a = "sample_interface (EthernetAddress 2 0 0 0 0 1) 0x0a000001"
  let ?b = "sample_interface (EthernetAddress 2 0 0 0 0 2) 0x0a000002"
  have start: "ni_arp_forward_table ?a 0x0a000002 = None" "ni_arp_request_cache ?a 0x0a000002 = None"
    "ni_frames_out ?a = []" "ni_frames_out ?b = []"
    "BufferList_concatenate (dg_payload sample_datagram) = [1, 2, 3]"
    by (simp_all add: sample_interface_def sample_datagram_def)
  have "Address_ipv4_numeric (ipv4_address 0 0x0a000002) = Inr 0x0a000002" by simp
  from arp_resolution_delivers [OF sample_configured sample_configured this _ _ sample_datagram_fits,
      of "EthernetAddress 2 0 0 0 0 1" "0x0a000001" "EthernetAddress 2 0 0 0 0 2"]
  show ?thesis unfolding Let_def same_datagram_def start 
    by (simp add: start) (elim exE conjE, intro exI conjI; (assumption | simp add: start))
qed

text \<open>C30: a reply nobody asked for makes \<open>recv_frame\<close> throw. When an ARP reply addressed to the
  interface comes from an address for which no datagram is queued, \<open>operator[]\<close> queues a default
  datagram, which cannot be serialised; the exception leaves that entry behind, although the mapping
  is learned.\<close>
theorem unsolicited_reply_throws:
  assumes "configured ip ni" and "ARPMessage_supported m" and "arp_opcode m = ARPMessage_OPCODE_REPLY"
    and "arp_target_ip_address m = ip" and "arp_target_ethernet_address m = ni_ethernet_address ni"
    and "ni_arp_request_cache ni (arp_sender_ip_address m) = None"
  shows "NetworkInterface_recv_frame ni (transmit (arp_frame (ni_ethernet_address ni) src m)) =
    (ni\<lparr>ni_arp_forward_table :=
          (ni_arp_forward_table ni)(arp_sender_ip_address m \<mapsto> (0, arp_sender_ethernet_address m)),
        ni_arp_request_cache :=
          (ni_arp_request_cache ni)(arp_sender_ip_address m \<mapsto> (0, IPv4Datagram_default))\<rparr>,
     Inl (Runtime_error ''IPv4Datagram::serialize: payload is wrong size''))"
proof -
  have "IPv4Datagram_serialize IPv4Datagram_default
      = Inl (Runtime_error ''IPv4Datagram::serialize: payload is wrong size'')" by code_simp
  then have "recv_arp ni m =
    (ni\<lparr>ni_arp_forward_table :=
          (ni_arp_forward_table ni)(arp_sender_ip_address m \<mapsto> (0, arp_sender_ethernet_address m)),
        ni_arp_request_cache :=
          (ni_arp_request_cache ni)(arp_sender_ip_address m \<mapsto> (0, IPv4Datagram_default))\<rparr>,
     Inl (Runtime_error ''IPv4Datagram::serialize: payload is wrong size''))"
    using assms by (simp add: recv_arp_def configured_def send_ipv4_def Let_def)
  then show ?thesis using recv_arp_frame [OF assms(2)] by simp
qed

theorem unsolicited_reply_throws_witness:
  "let ni = sample_interface (EthernetAddress 2 0 0 0 0 1) 0x0a000001;
       m = ARPMessage_default\<lparr>arp_opcode := ARPMessage_OPCODE_REPLY, arp_sender_ip_address := 0x0a000002,
             arp_target_ip_address := 0x0a000001, arp_target_ethernet_address := EthernetAddress 2 0 0 0 0 1\<rparr>
   in snd (NetworkInterface_recv_frame ni
        (transmit (arp_frame (EthernetAddress 2 0 0 0 0 1) (EthernetAddress 2 0 0 0 0 2) m)))
      = Inl (Runtime_error ''IPv4Datagram::serialize: payload is wrong size'')"
proof -
  let ?ni = "sample_interface (EthernetAddress 2 0 0 0 0 1) 0x0a000001"
  let ?m = "ARPMessage_default\<lparr>arp_opcode := ARPMessage_OPCODE_REPLY, arp_sender_ip_address := 0x0a000002,
    arp_target_ip_address := 0x0a000001, arp_target_ethernet_address := EthernetAddress 2 0 0 0 0 1\<rparr>"
  have "ARPMessage_supported ?m" by (simp add: ARPMessage_supported_def ARPMessage_default_def)
  moreover have "ni_ethernet_address ?ni = EthernetAddress 2 0 0 0 0 1"
    "ni_arp_request_cache ?ni = Map.empty" by (simp_all add: sample_interface_def)
  ultimately show ?thesis
    using unsolicited_reply_throws [of "0x0a000001" ?ni ?m "EthernetAddress 2 0 0 0 0 2"]
    by (simp add: Let_def)
qed

end
