(* ===== verification/Interface_Trace.thy ===== *)
theory Interface_Trace
  imports Interface_Properties
begin

text \<open>
  The life of a network interface: any sequence of datagrams to send, frames received and ticks. The
  state is extended by a history: the clock, the requests sent, what ARP messages have announced and
  what the owner has asked for. Three results: frames go only to announced addresses and carry only
  datagrams the owner has asked to send; requests for one address are at least 5 seconds apart; and a
  learned address is used for exactly 30 seconds.
\<close>

subsection \<open>Ticks\<close>

definition aged :: "u64 \<Rightarrow> u32 \<times> EthernetAddress \<Rightarrow> (u32 \<times> EthernetAddress) option" where
  "aged ms e = (if sint (int_add_size (fst e) ms) > 30000 then None else Some (int_add_size (fst e) ms, snd e))"

lemma tick_forward_table_eq:
  "distinct ips \<Longrightarrow>
     tick_forward_table ips ms table ip
       = (if ip \<in> set ips then Option.bind (table ip) (aged ms) else table ip)"
  by (induction ips ms table rule: tick_forward_table.induct) (auto simp: aged_def Let_def split: option.splits)

definition due :: "u64 \<Rightarrow> (u32 \<rightharpoonup> u32 \<times> IPv4Datagram) \<Rightarrow> u32 \<Rightarrow> bool" where
  "due ms cache ip \<longleftrightarrow> (case cache ip of None \<Rightarrow> False | Some (age, _) \<Rightarrow> sint (int_add_size age ms) > 5000)"

definition waited :: "u64 \<Rightarrow> u32 \<times> IPv4Datagram \<Rightarrow> u32 \<times> IPv4Datagram" where
  "waited ms e =
     (if sint (int_add_size (fst e) ms) > 5000 then (0, snd e) else (int_add_size (fst e) ms, snd e))"

abbreviation request_frame :: "NetworkInterface \<Rightarrow> u32 \<Rightarrow> EthernetFrame" where
  "request_frame ni ip \<equiv> arp_frame ETHERNET_BROADCAST (ni_ethernet_address ni)
     (arp_message ni ARPMessage_OPCODE_REQUEST ip EthernetAddress_zero)"

lemma arp_message_simps [simp]:
  "arp_message (push_frame ni f) = arp_message ni"
  "arp_message (ni\<lparr>ni_frames_out := fs\<rparr>) = arp_message ni"
  "arp_message (ni\<lparr>ni_arp_forward_table := t\<rparr>) = arp_message ni"
  "arp_message (ni\<lparr>ni_arp_request_cache := c\<rparr>) = arp_message ni"
  by (simp_all add: arp_message_def fun_eq_iff)

lemma tick_request_cache_eq:
  assumes "configured own ni" and "distinct ips"
  shows "tick_request_cache ips ms ni =
    (ni\<lparr>ni_frames_out := ni_frames_out ni @
            map (request_frame ni) (filter (due ms (ni_arp_request_cache ni)) ips),
        ni_arp_request_cache := (\<lambda>ip. if ip \<in> set ips then map_option (waited ms) (ni_arp_request_cache ni ip)
            else ni_arp_request_cache ni ip)\<rparr>, Inr ())"
  using assms
proof (induction ips arbitrary: ni)
  case (Cons ip ips)
  show ?case
  proof (cases "ni_arp_request_cache ni ip")
    case None
    have "(\<lambda>i. if i \<in> set (ip # ips) then map_option (waited ms) (ni_arp_request_cache ni i)
        else ni_arp_request_cache ni i)
      = (\<lambda>i. if i \<in> set ips then map_option (waited ms) (ni_arp_request_cache ni i)
        else ni_arp_request_cache ni i)" using None by auto
    then show ?thesis using Cons None by (simp add: due_def)
  next
    case (Some e)
    obtain age d where e: "e = (age, d)" by (cases e)
    let ?age = "int_add_size age ms"
    let ?ni = "ni\<lparr>ni_arp_request_cache := (ni_arp_request_cache ni)(ip \<mapsto> (?age, d))\<rparr>"
    have conf: "configured own ?ni" and ips: "distinct ips" "ip \<notin> set ips" using Cons.prems by simp_all
    have filter: "filter (due ms (c(ip := x))) ips = filter (due ms c) ips" for c x
      using ips(2) by (intro filter_cong) (auto simp: due_def)
    show ?thesis
    proof (cases "sint ?age > 5000")
      case True
      let ?ni2 = "(push_frame ?ni (request_frame ?ni ip))
        \<lparr>ni_arp_request_cache := (ni_arp_request_cache ?ni)(ip \<mapsto> (0, d))\<rparr>"
      have c2: "configured own ?ni2" using conf by simp
      have rec: "tick_request_cache (ip # ips) ms ni = tick_request_cache ips ms ?ni2"
        using Some e True send_arp_eq [OF conf is_opcode(1)] by (simp add: Let_def)
      have "due ms (ni_arp_request_cache ni) ip" using Some e True by (simp add: due_def)
      then show ?thesis
        unfolding rec Cons.IH [OF c2 ips(1)] using Some e True ips(2)
        by (simp add: filter waited_def push_frame_def fun_eq_iff)
    next
      case False
      have rec: "tick_request_cache (ip # ips) ms ni = tick_request_cache ips ms ?ni"
        using Some e False by (simp add: Let_def)
      have "\<not> due ms (ni_arp_request_cache ni) ip" using Some e False by (simp add: due_def)
      then show ?thesis
        unfolding rec Cons.IH [OF conf ips(1)] using Some e False ips(2)
        by (simp add: filter waited_def fun_eq_iff)
    qed
  qed
qed simp

lemma tick_timer:
  assumes "unat (t :: u32) \<le> 30000" and "unat (ms :: u64) < 2 ^ 30"
  shows "unat (int_add_size t ms) = unat t + unat ms"
    and "30000 < sint (int_add_size t ms) \<longleftrightarrow> 30000 < unat t + unat ms"
    and "5000 < sint (int_add_size t ms) \<longleftrightarrow> 5000 < unat t + unat ms"
proof -
  have le: "unat t + unat ms < 2 ^ 31" using assms by simp
  then show u: "unat (int_add_size t ms) = unat t + unat ms"
    unfolding int_add_size_eq by (rule unat_elapsed)
  have "sint (int_add_size t ms) = int (unat t + unat ms)"
    unfolding u [symmetric] by (rule sint_small) (simp only: u le)
  then show "30000 < sint (int_add_size t ms) \<longleftrightarrow> 30000 < unat t + unat ms"
    and "5000 < sint (int_add_size t ms) \<longleftrightarrow> 5000 < unat t + unat ms" by linarith+
qed

subsection \<open>Histories\<close>

datatype ni_event =
    Send IPv4Datagram Address
  | Receive EthernetFrame
  | Tick "u32 list" "u32 list" u64

record ni_trace =
  tr_ni :: NetworkInterface
  tr_now :: nat
  tr_requests :: "(nat \<times> u32) list"
  tr_heard :: "(u32 \<times> EthernetAddress) list"
  tr_asked :: "(IPv4Datagram \<times> u32) list"

text \<open>The address a frame asks for, if it is an ARP request.\<close>

definition request_of :: "EthernetFrame \<Rightarrow> u32 option" where
  "request_of frame =
     (if eth_type (fr_header frame) \<noteq> EthernetHeader_TYPE_ARP then None
      else case BufferList_to_Buffer (fr_payload frame) of
        Inl e \<Rightarrow> None
      | Inr b \<Rightarrow>
          (case ARPMessage_parse ARPMessage_default b of
             (res, m) \<Rightarrow>
               if res = NoError \<and> arp_opcode m = ARPMessage_OPCODE_REQUEST then Some (arp_target_ip_address m)
               else None))"

text \<open>What a received frame announces to the interface: the sender of an ARP message for its address.\<close>

definition announced :: "NetworkInterface \<Rightarrow> EthernetFrame \<Rightarrow> (u32 \<times> EthernetAddress) list" where
  "announced ni frame =
     (if \<not> addressed ni frame \<or> eth_type (fr_header frame) \<noteq> EthernetHeader_TYPE_ARP then []
      else case BufferList_to_Buffer (fr_payload frame) of
        Inl e \<Rightarrow> []
      | Inr b \<Rightarrow>
          (case ARPMessage_parse ARPMessage_default b of
             (res, m) \<Rightarrow>
               if res = NoError \<and> Address_ipv4_numeric (ni_ip_address ni) = Inr (arp_target_ip_address m)
               then [(arp_sender_ip_address m, arp_sender_ethernet_address m)] else []))"

definition asked_for :: "IPv4Datagram \<Rightarrow> Address \<Rightarrow> (IPv4Datagram \<times> u32) list" where
  "asked_for d next_hop = (case Address_ipv4_numeric next_hop of Inl e \<Rightarrow> [] | Inr ip \<Rightarrow> [(d, ip)])"

fun ni_call :: "NetworkInterface \<Rightarrow> ni_event \<Rightarrow> NetworkInterface" where
  "ni_call ni (Send d next_hop) = fst (NetworkInterface_send_datagram ni d next_hop)"
| "ni_call ni (Receive frame) = fst (NetworkInterface_recv_frame ni frame)"
| "ni_call ni (Tick table_order cache_order ms) = fst (NetworkInterface_tick table_order cache_order ni ms)"

fun elapsed :: "ni_event \<Rightarrow> nat" where
  "elapsed (Tick table_order cache_order ms) = unat ms"
| "elapsed _ = 0"

definition new_frames :: "NetworkInterface \<Rightarrow> NetworkInterface \<Rightarrow> EthernetFrame list" where
  "new_frames ni ni' = drop (length (ni_frames_out ni)) (ni_frames_out ni')"

definition ni_step :: "ni_trace \<Rightarrow> ni_event \<Rightarrow> ni_trace" where
  "ni_step s e =
     (let ni = ni_call (tr_ni s) e;
          now = tr_now s + elapsed e
      in \<lparr>tr_ni = ni, tr_now = now,
          tr_requests = tr_requests s @ map (Pair now) (List.map_filter request_of (new_frames (tr_ni s) ni)),
          tr_heard = tr_heard s @ (case e of Receive frame \<Rightarrow> announced (tr_ni s) frame | _ \<Rightarrow> []),
          tr_asked = tr_asked s @ (case e of Send d next_hop \<Rightarrow> asked_for d next_hop | _ \<Rightarrow> [])\<rparr>)"

text \<open>The order in which a loop visits a map has every key once. A tick is shorter than 12 days, so
  that no timer wraps around.\<close>

fun ni_event_ok :: "ni_trace \<Rightarrow> ni_event \<Rightarrow> bool" where
  "ni_event_ok s (Tick table_order cache_order ms) \<longleftrightarrow>
     distinct table_order \<and> set table_order = dom (ni_arp_forward_table (tr_ni s)) \<and>
     distinct cache_order \<and> set cache_order = dom (ni_arp_request_cache (tr_ni s)) \<and> unat ms < 2 ^ 30"
| "ni_event_ok s _ \<longleftrightarrow> True"

definition ni_start :: "NetworkInterface \<Rightarrow> ni_trace" where
  "ni_start ni = \<lparr>tr_ni = ni, tr_now = 0, tr_requests = [], tr_heard = [], tr_asked = []\<rparr>"

subsection \<open>The invariant\<close>

text \<open>The frames an interface may send: a datagram it was asked to send, to an announced address of its
  next hop; a broadcast request for an address it was asked to send to or heard of; a reply to an
  announced address. All carry its own addresses as source.\<close>

inductive frame_ok ::
  "(u32 \<times> EthernetAddress) list \<Rightarrow> (IPv4Datagram \<times> u32) list \<Rightarrow> NetworkInterface \<Rightarrow> EthernetFrame \<Rightarrow> bool"
  for heard asked ni where
  datagram: "(d, ip) \<in> set asked \<Longrightarrow> (ip, mac) \<in> set heard \<Longrightarrow> IPv4Datagram_serialize d = Inr out \<Longrightarrow>
    frame_ok heard asked ni (ipv4_frame mac (ni_ethernet_address ni) out)"
| request: "ip \<in> snd ` set asked \<or> ip \<in> fst ` set heard \<Longrightarrow> frame_ok heard asked ni (request_frame ni ip)"
| reply: "(ip, mac) \<in> set heard \<Longrightarrow> frame_ok heard asked ni
    (arp_frame mac (ni_ethernet_address ni) (arp_message ni ARPMessage_OPCODE_REPLY ip mac))"

definition spaced :: "(nat \<times> u32) list \<Rightarrow> bool" where
  "spaced = sorted_wrt (\<lambda>(t, ip) (t', ip'). ip = ip' \<longrightarrow> t + 5000 \<le> t')"

text \<open>A request for \<open>ip\<close> that was sent at time \<open>t\<close>: the timer that holds back the next one has not run
  longer than the time since.\<close>

definition held_back :: "NetworkInterface \<Rightarrow> nat \<Rightarrow> nat \<times> u32 \<Rightarrow> bool" where
  "held_back ni now r \<longleftrightarrow> fst r \<le> now \<and>
     (case ni_arp_request_cache ni (snd r) of
        Some (age, _) \<Rightarrow> fst r + unat age \<le> now
      | None \<Rightarrow> (case ni_arp_forward_table ni (snd r) of
          Some (ttl, _) \<Rightarrow> fst r + unat ttl \<le> now
        | None \<Rightarrow> fst r + 30000 \<le> now))"

definition ni_inv :: "u32 \<Rightarrow> ni_trace \<Rightarrow> bool" where
  "ni_inv own s \<longleftrightarrow> configured own (tr_ni s) \<and>
     (\<forall>ip t mac. ni_arp_forward_table (tr_ni s) ip = Some (t, mac) \<longrightarrow>
        (ip, mac) \<in> set (tr_heard s) \<and> unat t \<le> 30000) \<and>
     (\<forall>ip t d. ni_arp_request_cache (tr_ni s) ip = Some (t, d) \<longrightarrow> unat t \<le> 5000 \<and>
        ((d, ip) \<in> set (tr_asked s) \<or> d = IPv4Datagram_default \<and> ip \<in> fst ` set (tr_heard s))) \<and>
     (\<forall>frame \<in> set (ni_frames_out (tr_ni s)). frame_ok (tr_heard s) (tr_asked s) (tr_ni s) frame) \<and>
     (\<forall>r \<in> set (tr_requests s). held_back (tr_ni s) (tr_now s) r) \<and> spaced (tr_requests s)"

lemma request_of_frames [simp]:
  "request_of (request_frame ni ip) = Some ip"
  "request_of (arp_frame dst src (arp_message ni ARPMessage_OPCODE_REPLY ip mac)) = None"
  "request_of (ipv4_frame dst src out) = None"
proof -
  have p: "ARPMessage_parse ARPMessage_default (Buffer_of_string (arp_bytes (arp_message ni type ip mac)))
      = (NoError, arp_message ni type ip mac)" if "is_opcode type" for type ip mac
    using parse_arp [of _ _ "[]", OF _ _ arp_message_supported [OF that]] by simp
  show "request_of (request_frame ni ip) = Some ip"
    using p [of ARPMessage_OPCODE_REQUEST ip EthernetAddress_zero]
    by (simp add: request_of_def arp_frame_def BufferList_to_Buffer_def) (simp add: arp_message_def)
  show "request_of (arp_frame dst src (arp_message ni ARPMessage_OPCODE_REPLY ip mac)) = None"
    using p [of ARPMessage_OPCODE_REPLY ip mac]
    by (simp add: request_of_def arp_frame_def BufferList_to_Buffer_def)
      (simp add: arp_message_def opcodes [symmetric])
  show "request_of (ipv4_frame dst src out) = None"
    by (simp add: request_of_def ipv4_frame_def eth_types [symmetric])
qed

lemma frame_ok_mono:
  assumes "frame_ok heard asked ni f" and "set heard \<subseteq> set heard'" and "set asked \<subseteq> set asked'"
    and "arp_message ni' = arp_message ni" and "ni_ethernet_address ni' = ni_ethernet_address ni"
  shows "frame_ok heard' asked' ni' f"
  using assms(1)
proof cases
  case (datagram d ip mac out)
  then show ?thesis using frame_ok.datagram [of d ip asked' mac heard' out ni'] assms(2,3,5) by auto
next
  case (request ip)
  then have "ip \<in> snd ` set asked' \<or> ip \<in> fst ` set heard'" using assms(2,3) by auto
  from frame_ok.request [OF this, of ni'] show ?thesis using request(1) assms(4,5) by simp
next
  case (reply ip mac)
  then show ?thesis using frame_ok.reply [of ip mac heard' asked' ni'] assms(2,4,5) by auto
qed

text \<open>What a call has to establish for the invariant to hold after it. \<open>fs\<close> are the frames it sends.\<close>

lemma ni_inv_stepI:
  assumes inv: "ni_inv own s"
    and ni: "ni_ethernet_address ni' = ni_ethernet_address (tr_ni s)" "ni_ip_address ni' = ni_ip_address (tr_ni s)"
      "ni_frames_out ni' = ni_frames_out (tr_ni s) @ fs"
    and call: "ni_call (tr_ni s) e = ni'"
    and hist: "tr_heard (ni_step s e) = h'" "tr_asked (ni_step s e) = a'"
    and table: "\<And>ip t mac. ni_arp_forward_table ni' ip = Some (t, mac) \<Longrightarrow> (ip, mac) \<in> set h' \<and> unat t \<le> 30000"
    and cache: "\<And>ip t d. ni_arp_request_cache ni' ip = Some (t, d) \<Longrightarrow> unat t \<le> 5000 \<and>
        ((d, ip) \<in> set a' \<or> d = IPv4Datagram_default \<and> ip \<in> fst ` set h')"
    and frames: "\<And>f. f \<in> set fs \<Longrightarrow> frame_ok h' a' ni' f"
    and old: "\<And>r. r \<in> set (tr_requests s) \<Longrightarrow> held_back (tr_ni s) (tr_now s) r \<Longrightarrow>
        held_back ni' (tr_now s + elapsed e) r"
    and new: "distinct (List.map_filter request_of fs)"
      "\<And>ip. ip \<in> set (List.map_filter request_of fs) \<Longrightarrow>
        held_back ni' (tr_now s + elapsed e) (tr_now s + elapsed e, ip) \<and>
        (\<forall>t. (t, ip) \<in> set (tr_requests s) \<longrightarrow> held_back (tr_ni s) (tr_now s) (t, ip) \<longrightarrow>
           t + 5000 \<le> tr_now s + elapsed e)"
  shows "ni_inv own (ni_step s e)"
proof -
  let ?now = "tr_now s + elapsed e" and ?ips = "List.map_filter request_of fs"
  have msg: "arp_message ni' = arp_message (tr_ni s)" using ni by (simp add: arp_message_def fun_eq_iff)
  have step: "tr_ni (ni_step s e) = ni'" "tr_now (ni_step s e) = ?now"
    "tr_requests (ni_step s e) = tr_requests s @ map (Pair ?now) ?ips"
    using call ni(3) by (simp_all add: ni_step_def Let_def new_frames_def)
  have mono: "set (tr_heard s) \<subseteq> set h'" "set (tr_asked s) \<subseteq> set a'"
    unfolding hist [symmetric] by (simp_all add: ni_step_def Let_def)
  have "\<forall>f \<in> set (ni_frames_out ni'). frame_ok h' a' ni' f"
    using inv frames frame_ok_mono [OF _ mono msg ni(1)] by (auto simp: ni(3) ni_inv_def)
  moreover have "\<forall>r \<in> set (tr_requests (ni_step s e)). held_back ni' ?now r"
    using inv old new(2) by (auto simp: step(3) ni_inv_def)
  moreover have "spaced (tr_requests (ni_step s e))"
  proof -
    have "spaced (map (Pair ?now) ?ips)"
      using new(1) by (simp add: spaced_def sorted_wrt_map distinct_conv_nth sorted_wrt_iff_nth_less)
    then show ?thesis
      using inv new(2) unfolding step(3) by (auto simp: spaced_def sorted_wrt_append ni_inv_def)
  qed
  moreover have "configured own ni'" using inv ni(2) by (simp add: ni_inv_def configured_def)
  ultimately show ?thesis unfolding ni_inv_def step hist using table cache by blast
qed

lemma map_filter_single [simp]: "List.map_filter f [x] = (case f x of None \<Rightarrow> [] | Some y \<Rightarrow> [y])"
  by (simp add: List.map_filter_def split: option.split)

lemma map_filter_Nil [simp]: "List.map_filter f [] = []"
  by (simp add: List.map_filter_def)

lemma default_not_serializable:
  "IPv4Datagram_serialize IPv4Datagram_default
     = Inl (Runtime_error ''IPv4Datagram::serialize: payload is wrong size'')"
  by code_simp

lemma held_back_push [simp]: "held_back (push_frame ni f) now r = held_back ni now r"
  by (simp add: held_back_def split: option.split)

lemma held_back_queue [simp]:
  "held_back (ni\<lparr>ni_arp_request_cache := c(ip \<mapsto> (0, d))\<rparr>) now r
     \<longleftrightarrow> (if snd r = ip then fst r \<le> now else held_back (ni\<lparr>ni_arp_request_cache := c\<rparr>) now r)"
  by (simp add: held_back_def split: option.split)

lemma held_back_learn:
  "held_back ni now r \<Longrightarrow>
     held_back (ni\<lparr>ni_arp_forward_table := (ni_arp_forward_table ni)(ip \<mapsto> (0, mac))\<rparr>) now r"
  by (auto simp: held_back_def split: option.splits if_splits)

lemma held_back_erase:
  "held_back ni now r \<Longrightarrow> ni_arp_forward_table ni ip = Some (0, mac) \<Longrightarrow>
     held_back (ni\<lparr>ni_arp_request_cache := (ni_arp_request_cache ni)(ip := None)\<rparr>) now r"
  by (auto simp: held_back_def split: option.splits if_splits)

lemma held_back_le: "held_back ni now r \<Longrightarrow> fst r \<le> now"
  by (simp add: held_back_def)

lemma ni_inv_tableD:
  "ni_inv own s \<Longrightarrow> ni_arp_forward_table (tr_ni s) ip = Some (t, mac) \<Longrightarrow>
     (ip, mac) \<in> set (tr_heard s) \<and> unat t \<le> 30000"
  by (simp add: ni_inv_def)

lemma ni_inv_cacheD:
  "ni_inv own s \<Longrightarrow> ni_arp_request_cache (tr_ni s) ip = Some (t, d) \<Longrightarrow>
     unat t \<le> 5000 \<and> ((d, ip) \<in> set (tr_asked s) \<or> d = IPv4Datagram_default \<and> ip \<in> fst ` set (tr_heard s))"
  by (simp add: ni_inv_def)

lemma history_grows:
  "set (tr_heard s) \<subseteq> set (tr_heard (ni_step s e))" "set (tr_asked s) \<subseteq> set (tr_asked (ni_step s e))"
  by (simp_all add: ni_step_def Let_def)

text \<open>A call that leaves the interface alone.\<close>

lemma ni_inv_idle:
  assumes "ni_inv own s" and "ni_call (tr_ni s) e = tr_ni s" and "elapsed e = 0"
  shows "ni_inv own (ni_step s e)"
proof (rule ni_inv_stepI [where fs = "[]", OF assms(1) refl refl _ assms(2) refl refl])
  show "(ip, mac) \<in> set (tr_heard (ni_step s e)) \<and> unat t \<le> 30000"
    if "ni_arp_forward_table (tr_ni s) ip = Some (t, mac)" for ip t mac
    using ni_inv_tableD [OF assms(1) that] history_grows(1) by blast
  show "unat t \<le> 5000 \<and> ((d, ip) \<in> set (tr_asked (ni_step s e)) \<or>
      d = IPv4Datagram_default \<and> ip \<in> fst ` set (tr_heard (ni_step s e)))"
    if "ni_arp_request_cache (tr_ni s) ip = Some (t, d)" for ip t d
    using ni_inv_cacheD [OF assms(1) that] history_grows [of s e] by (meson image_mono subsetD)
qed (use assms(3) in simp_all)

lemma send_inv:
  assumes inv: "ni_inv own s"
  shows "ni_inv own (ni_step s (Send d next_hop))"
proof (cases "Address_ipv4_numeric next_hop")
  case (Inl err)
  then show ?thesis
    by (intro ni_inv_idle [OF inv]) (simp_all add: NetworkInterface_send_datagram_def)
next
  case (Inr ip)
  let ?ni = "tr_ni s" and ?e = "Send d next_hop"
  have asked: "tr_asked (ni_step s ?e) = tr_asked s @ [(d, ip)]" "tr_heard (ni_step s ?e) = tr_heard s"
    using Inr by (simp_all add: ni_step_def Let_def asked_for_def)
  have conf: "configured own ?ni" using inv by (simp add: ni_inv_def)
  show ?thesis
  proof (cases "ni_arp_forward_table ?ni ip")
    case (Some entry)
    then obtain t mac where entry: "ni_arp_forward_table ?ni ip = Some (t, mac)" by (cases entry) auto
    show ?thesis
    proof (cases "IPv4Datagram_serialize d")
      case (Inl err)
      then show ?thesis
        using \<open>Address_ipv4_numeric next_hop = Inr ip\<close> entry
        by (intro ni_inv_idle [OF inv]) (simp_all add: NetworkInterface_send_datagram_def send_ipv4_def)
    next
      case (Inr out)
      let ?f = "ipv4_frame mac (ni_ethernet_address ?ni) out"
      have "(ip, mac) \<in> set (tr_heard s)" using inv entry by (simp add: ni_inv_def)
      then have ok: "frame_ok (tr_heard s) (tr_asked s @ [(d, ip)]) (push_frame ?ni ?f) ?f"
        using frame_ok.datagram [of d ip "tr_asked s @ [(d, ip)]" mac "tr_heard s" out "push_frame ?ni ?f"] Inr
        by simp
      have call: "ni_call ?ni ?e = push_frame ?ni ?f"
        using \<open>Address_ipv4_numeric next_hop = Inr ip\<close> entry send_ipv4_eq [OF Inr]
        by (simp add: NetworkInterface_send_datagram_def)
      show ?thesis
        by (rule ni_inv_stepI [where fs = "[?f]", OF inv _ _ _ call asked(2,1)])
          (use ok in \<open>auto dest: ni_inv_tableD [OF inv] ni_inv_cacheD [OF inv]\<close>)
    qed
  next
    case None
    note table = this
    show ?thesis
    proof (cases "case ni_arp_request_cache ?ni ip of Some (ms, _) \<Rightarrow> sint ms < 5000 | None \<Rightarrow> False")
      case True
      then show ?thesis
        using Inr None by (intro ni_inv_idle [OF inv]) (simp_all add: NetworkInterface_send_datagram_def)
    next
      case False
      let ?ni1 = "?ni\<lparr>ni_arp_request_cache := (ni_arp_request_cache ?ni)(ip \<mapsto> (0, d))\<rparr>"
      let ?ni2 = "push_frame ?ni1 (request_frame ?ni ip)"
      have "configured own ?ni1" using conf by simp
      from send_arp_eq [OF this is_opcode(1)] have call: "ni_call ?ni ?e = ?ni2"
        using Inr None False by (simp add: NetworkInterface_send_datagram_def Let_def)
      have ok: "frame_ok (tr_heard s) (tr_asked s @ [(d, ip)]) ?ni2 (request_frame ?ni ip)"
        using frame_ok.request [of ip "tr_asked s @ [(d, ip)]" "tr_heard s" ?ni2] by simp
      have wait: "t + 5000 \<le> tr_now s" if "held_back ?ni (tr_now s) (t, ip)" for t
      proof (cases "ni_arp_request_cache ?ni ip")
        case None
        then show ?thesis using that table by (simp add: held_back_def)
      next
        case (Some c)
        obtain age d' where c: "c = (age, d')" by (cases c)
        then have "unat age \<le> 5000" using inv Some by (simp add: ni_inv_def)
        then have "sint age = int (unat age)" by (intro sint_small) simp
        moreover have "\<not> sint age < 5000" using False Some c by simp
        ultimately have "5000 \<le> unat age" by linarith
        then show ?thesis using that Some c by (simp add: held_back_def)
      qed
      show ?thesis
        by (rule ni_inv_stepI [where fs = "[request_frame ?ni ip]", OF inv _ _ _ call asked(2,1)])
          (use ok wait in \<open>auto dest: ni_inv_tableD [OF inv] ni_inv_cacheD [OF inv] held_back_le
            split: if_splits\<close>)
    qed
  qed
qed

text \<open>An ARP message for this interface arrives: it learns the sender, and then replies or sends what
  it has queued.\<close>

lemma recv_arp_cases:
  assumes conf: "configured own ni" and own: "arp_target_ip_address m = own"
    and ip: "ip = arp_sender_ip_address m" and mac: "mac = arp_sender_ethernet_address m"
    and ni1: "ni1 = ni\<lparr>ni_arp_forward_table := (ni_arp_forward_table ni)(ip \<mapsto> (0, mac))\<rparr>"
  obtains
    (queued) age d out where "ni_arp_request_cache ni ip = Some (age, d)" "IPv4Datagram_serialize d = Inr out"
      "fst (recv_arp ni m) = (push_frame ni1 (ipv4_frame mac (ni_ethernet_address ni) out))
         \<lparr>ni_arp_request_cache := (ni_arp_request_cache ni)(ip := None)\<rparr>"
  | (unasked) "fst (recv_arp ni m)
      = ni1\<lparr>ni_arp_request_cache := (ni_arp_request_cache ni)(ip \<mapsto> (0, IPv4Datagram_default))\<rparr>"
  | (request) "fst (recv_arp ni m) = push_frame ni1
      (arp_frame mac (ni_ethernet_address ni) (arp_message ni ARPMessage_OPCODE_REPLY ip mac))"
  | (learned) "fst (recv_arp ni m) = ni1"
proof -
  have num: "Address_ipv4_numeric (ni_ip_address ni) = Inr own" using conf by (simp add: configured_def)
  show thesis
  proof (cases "arp_opcode m = ARPMessage_OPCODE_REPLY \<and> arp_target_ethernet_address m = ni_ethernet_address ni")
    case True
    show thesis
    proof (cases "ni_arp_request_cache ni ip")
      case None
      then show thesis
        using True own num ip mac
        by (intro unasked) (simp add: recv_arp_def Let_def send_ipv4_def default_not_serializable ni1)
    next
      case (Some c)
      then obtain age d where c: "ni_arp_request_cache ni ip = Some (age, d)" by (cases c) auto
      show thesis
      proof (cases "IPv4Datagram_serialize d")
        case (Inl err)
        then show thesis
          using True own num ip mac c by (intro learned) (simp add: recv_arp_def Let_def send_ipv4_def ni1)
      next
        case (Inr out)
        then show thesis
          using recv_reply [OF conf _ own, of age d out] True c ip mac by (intro queued [OF c Inr]) (simp add: ni1)
      qed
    qed
  next
    case False
    show thesis
    proof (cases "arp_opcode m = ARPMessage_OPCODE_REQUEST")
      case True
      then show thesis using recv_request [OF conf True own] ip mac by (intro request) (simp add: ni1)
    next
      case other: False
      then show thesis using False own num ip mac by (intro learned) (auto simp: recv_arp_def Let_def ni1)
    qed
  qed
qed

lemma recv_arp_inv:
  assumes inv: "ni_inv own s" and call: "ni_call (tr_ni s) e = fst (recv_arp (tr_ni s) m)"
    and own: "arp_target_ip_address m = own"
    and hist: "tr_heard (ni_step s e) = tr_heard s @ [(arp_sender_ip_address m, arp_sender_ethernet_address m)]"
      "tr_asked (ni_step s e) = tr_asked s"
    and time: "elapsed e = 0"
  shows "ni_inv own (ni_step s e)"
proof -
  let ?ni = "tr_ni s" and ?ip = "arp_sender_ip_address m" and ?mac = "arp_sender_ethernet_address m"
  let ?h = "tr_heard s @ [(?ip, ?mac)]"
  let ?ni1 = "?ni\<lparr>ni_arp_forward_table := (ni_arp_forward_table ?ni)(?ip \<mapsto> (0, ?mac))\<rparr>"
  have conf: "configured own ?ni" using inv by (simp add: ni_inv_def)
  have table: "(ip, mac) \<in> set ?h \<and> unat t \<le> 30000"
    if "ni_arp_forward_table ?ni1 ip = Some (t, mac)" for ip t mac
    using that ni_inv_tableD [OF inv, of ip t mac] by (auto split: if_splits)
  from conf own refl refl refl show ?thesis
  proof (cases rule: recv_arp_cases)
    case (queued age d out)
    let ?f = "ipv4_frame ?mac (ni_ethernet_address ?ni) out"
    let ?ni2 = "(push_frame ?ni1 ?f)\<lparr>ni_arp_request_cache := (ni_arp_request_cache ?ni)(?ip := None)\<rparr>"
    have "d \<noteq> IPv4Datagram_default" using queued(2) default_not_serializable by auto
    then have "(d, ?ip) \<in> set (tr_asked s)" using ni_inv_cacheD [OF inv queued(1)] by simp
    then have ok: "frame_ok ?h (tr_asked s) ?ni2 ?f"
      using frame_ok.datagram [of d ?ip "tr_asked s" ?mac ?h out ?ni2] queued(2) by simp
    show ?thesis
      by (rule ni_inv_stepI [where fs = "[?f]", OF inv _ _ _ call [unfolded queued(3)] hist])
        (use ok time table in \<open>auto simp: held_back_learn held_back_erase [of "push_frame ?ni1 ?f", simplified]
          dest: ni_inv_cacheD [OF inv] split: if_splits\<close>)
  next
    case unasked
    show ?thesis
      by (rule ni_inv_stepI [where fs = "[]", OF inv _ _ _ call [unfolded unasked] hist])
        (use time table in \<open>auto simp: held_back_learn dest: held_back_le ni_inv_cacheD [OF inv] split: if_splits\<close>)
  next
    case request
    let ?f = "arp_frame ?mac (ni_ethernet_address ?ni) (arp_message ?ni ARPMessage_OPCODE_REPLY ?ip ?mac)"
    have ok: "frame_ok ?h (tr_asked s) (push_frame ?ni1 ?f) ?f"
      using frame_ok.reply [of ?ip ?mac ?h "tr_asked s" "push_frame ?ni1 ?f"] by simp
    show ?thesis
      by (rule ni_inv_stepI [where fs = "[?f]", OF inv _ _ _ call [unfolded request] hist])
        (use ok time table in \<open>auto simp: held_back_learn dest: ni_inv_cacheD [OF inv] split: if_splits\<close>)
  next
    case learned
    show ?thesis
      by (rule ni_inv_stepI [where fs = "[]", OF inv _ _ _ call [unfolded learned] hist])
        (use time table in \<open>auto simp: held_back_learn dest: ni_inv_cacheD [OF inv] split: if_splits\<close>)
  qed
qed

lemma receive_inv:
  assumes inv: "ni_inv own s"
  shows "ni_inv own (ni_step s (Receive frame))"
proof -
  let ?ni = "tr_ni s" and ?e = "Receive frame"
  have num: "Address_ipv4_numeric (ni_ip_address ?ni) = Inr own" using inv by (simp add: ni_inv_def configured_def)
  show ?thesis
  proof (cases "announced ?ni frame")
    case Nil
    then have "ni_call ?ni ?e = ?ni"
      using num
      by (auto simp: announced_def addressed_def NetworkInterface_recv_frame_def recv_arp_def Let_def
          split: if_splits sum.splits prod.splits)
    then show ?thesis by (intro ni_inv_idle [OF inv]) simp_all
  next
    case (Cons a as)
    then obtain b m where m: "BufferList_to_Buffer (fr_payload frame) = Inr b"
      "ARPMessage_parse ARPMessage_default b = (NoError, m)" "arp_target_ip_address m = own"
      "addressed ?ni frame" "eth_type (fr_header frame) = EthernetHeader_TYPE_ARP"
      "announced ?ni frame = [(arp_sender_ip_address m, arp_sender_ethernet_address m)]"
      using num by (auto simp: announced_def split: if_splits sum.splits prod.splits)
    have "ni_call ?ni ?e = fst (recv_arp ?ni m)"
      using m by (auto simp: NetworkInterface_recv_frame_def addressed_def)
    then show ?thesis
      by (rule recv_arp_inv [OF inv _ m(3)]) (simp_all add: ni_step_def Let_def m(6))
  qed
qed

text \<open>Time passes: entries that have not run out grow older, and the requests that are due are sent.\<close>

definition ticked :: "u32 list \<Rightarrow> u64 \<Rightarrow> NetworkInterface \<Rightarrow> NetworkInterface" where
  "ticked cache_order ms ni = ni\<lparr>
     ni_arp_forward_table := (\<lambda>ip. Option.bind (ni_arp_forward_table ni ip) (aged ms)),
     ni_frames_out := ni_frames_out ni @
       map (request_frame ni) (filter (due ms (ni_arp_request_cache ni)) cache_order),
     ni_arp_request_cache := (\<lambda>ip. map_option (waited ms) (ni_arp_request_cache ni ip))\<rparr>"

lemma tick_call:
  assumes "configured own (tr_ni s)" and "ni_event_ok s (Tick table_order cache_order ms)"
  shows "ni_call (tr_ni s) (Tick table_order cache_order ms) = ticked cache_order ms (tr_ni s)"
proof -
  let ?ni = "tr_ni s" and ?C = "ni_arp_request_cache (tr_ni s)" and ?T = "ni_arp_forward_table (tr_ni s)"
  have d: "distinct table_order" "distinct cache_order"
    and doms: "set table_order = dom ?T" "set cache_order = dom ?C" using assms(2) by auto
  have "tick_forward_table table_order ms ?T ip = Option.bind (?T ip) (aged ms)" for ip
    using tick_forward_table_eq [OF d(1)] by (cases "?T ip") (auto simp: doms)
  then have "tick_forward_table table_order ms ?T = (\<lambda>ip. Option.bind (?T ip) (aged ms))" by (rule ext)
  moreover have "(if ip \<in> set cache_order then map_option (waited ms) (?C ip) else ?C ip)
      = map_option (waited ms) (?C ip)" for ip by (cases "?C ip") (simp_all add: doms(2) domIff)
  ultimately show ?thesis
    using assms(1) d(2)
    by (simp add: NetworkInterface_tick_def Let_def tick_request_cache_eq ticked_def cong: if_cong)
qed

lemma table_timer:
  assumes "ni_inv own s" and "unat ms < 2 ^ 30" and "ni_arp_forward_table (tr_ni s) ip = Some (t, mac)"
  shows "aged ms (t, mac) = (if 30000 < unat t + unat ms then None else Some (int_add_size t ms, mac))"
    and "unat (int_add_size t ms) = unat t + unat ms"
  using tick_timer [of t ms] ni_inv_tableD [OF assms(1,3)] assms(2) by (auto simp: aged_def)

lemma cache_timer:
  assumes "ni_inv own s" and "unat ms < 2 ^ 30" and "ni_arp_request_cache (tr_ni s) ip = Some (t, x)"
  shows "waited ms (t, x) = (if 5000 < unat t + unat ms then (0, x) else (int_add_size t ms, x))"
    and "unat (int_add_size t ms) = unat t + unat ms"
    and "due ms (ni_arp_request_cache (tr_ni s)) ip \<longleftrightarrow> 5000 < unat t + unat ms"
  using tick_timer [of t ms] ni_inv_cacheD [OF assms(1,3)] assms(2,3) by (auto simp: waited_def due_def)

lemma tick_held_back:
  assumes inv: "ni_inv own s" and ms: "unat ms < 2 ^ 30" and old: "held_back (tr_ni s) (tr_now s) r"
  shows "held_back (ticked cache_order ms (tr_ni s)) (tr_now s + unat ms) r"
proof (cases "ni_arp_request_cache (tr_ni s) (snd r)")
  case (Some c)
  then obtain t x where "ni_arp_request_cache (tr_ni s) (snd r) = Some (t, x)" by (cases c) auto
  then show ?thesis
    using old cache_timer [OF inv ms, of "snd r" t x]
    by (auto simp: held_back_def ticked_def split: if_splits)
next
  case None
  then show ?thesis
    using old table_timer [OF inv ms, of "snd r"]
    by (cases "ni_arp_forward_table (tr_ni s) (snd r)")
      (auto simp: held_back_def ticked_def split: option.splits if_splits)
qed

lemma interface_tick_inv:
  assumes inv: "ni_inv own s" and ok: "ni_event_ok s (Tick table_order cache_order ms)"
  shows "ni_inv own (ni_step s (Tick table_order cache_order ms))"
proof -
  let ?ni = "tr_ni s" and ?e = "Tick table_order cache_order ms"
  let ?T = "ni_arp_forward_table ?ni" and ?C = "ni_arp_request_cache ?ni"
  let ?fs = "map (request_frame ?ni) (filter (due ms ?C) cache_order)"
  let ?ni' = "ticked cache_order ms ?ni"
  have ms: "unat ms < 2 ^ 30" and d: "distinct cache_order" using ok by auto
  have "configured own ?ni" using inv by (simp add: ni_inv_def)
  note call = tick_call [OF this ok] and aged = table_timer [OF inv ms] and waited = cache_timer [OF inv ms]
  have reqs: "List.map_filter request_of ?fs = filter (due ms ?C) cache_order"
    by (simp add: List.map_filter_def comp_def)
  have hist: "tr_heard (ni_step s ?e) = tr_heard s" "tr_asked (ni_step s ?e) = tr_asked s"
    by (simp_all add: ni_step_def Let_def)
  show ?thesis
  proof (rule ni_inv_stepI [where fs = ?fs, OF inv _ _ _ call hist])
    fix ip t mac assume "ni_arp_forward_table ?ni' ip = Some (t, mac)"
    then obtain t0 mac0 where "?T ip = Some (t0, mac0)" "aged ms (t0, mac0) = Some (t, mac)"
      by (auto simp: ticked_def bind_eq_Some_conv)
    then show "(ip, mac) \<in> set (tr_heard s) \<and> unat t \<le> 30000"
      using aged [of ip t0 mac0] ni_inv_tableD [OF inv, of ip t0 mac0] by (auto split: if_splits)
  next
    fix ip t x assume "ni_arp_request_cache ?ni' ip = Some (t, x)"
    then obtain t0 x0 where "?C ip = Some (t0, x0)" "waited ms (t0, x0) = (t, x)"
      by (auto simp: ticked_def)
    then show "unat t \<le> 5000 \<and> ((x, ip) \<in> set (tr_asked s) \<or> x = IPv4Datagram_default \<and> ip \<in> fst ` set (tr_heard s))"
      using waited [of ip t0 x0] ni_inv_cacheD [OF inv, of ip t0 x0] by (auto split: if_splits)
  next
    fix f assume "f \<in> set ?fs"
    then obtain ip where f: "f = request_frame ?ni ip" "due ms ?C ip" by auto
    from f(2) obtain t x where "?C ip = Some (t, x)" by (auto simp: due_def split: option.splits)
    then have "ip \<in> snd ` set (tr_asked s) \<or> ip \<in> fst ` set (tr_heard s)"
      using ni_inv_cacheD [OF inv, of ip t x] by force
    from frame_ok.request [OF this, of ?ni'] show "frame_ok (tr_heard s) (tr_asked s) ?ni' f"
      by (simp add: f(1) ticked_def)
  next
    fix r assume "held_back ?ni (tr_now s) r"
    then show "held_back ?ni' (tr_now s + elapsed ?e) r" using tick_held_back [OF inv ms] by simp
  next
    fix ip assume "ip \<in> set (List.map_filter request_of ?fs)"
    then have "due ms ?C ip" unfolding reqs by simp
    then obtain t x where c: "?C ip = Some (t, x)" by (auto simp: due_def split: option.splits)
    then have late: "5000 < unat t + unat ms" "waited ms (t, x) = (0, x)"
      using waited [OF c] \<open>due ms ?C ip\<close> by simp_all
    then show "held_back ?ni' (tr_now s + elapsed ?e) (tr_now s + elapsed ?e, ip) \<and>
        (\<forall>u. (u, ip) \<in> set (tr_requests s) \<longrightarrow> held_back ?ni (tr_now s) (u, ip) \<longrightarrow>
           u + 5000 \<le> tr_now s + elapsed ?e)"
      using c by (auto simp: held_back_def ticked_def)
  qed (use d in \<open>simp_all add: reqs ticked_def\<close>)
qed

interpretation interface: step_system ni_step ni_event_ok "ni_inv own"
proof unfold_locales
  show "ni_inv own (ni_step s e)" if "ni_inv own s" "ni_event_ok s e" for s e
    using that by (cases e) (simp_all add: send_inv receive_inv interface_tick_inv)
qed

lemma start_inv:
  assumes "NetworkInterface_init gni mac address = Inr ni" and "Address_ipv4_numeric address = Inr own"
  shows "ni_inv own (ni_start ni)"
  using assms
  by (auto simp: NetworkInterface_init_def ni_start_def ni_inv_def configured_def spaced_def split: sum.splits)

subsection \<open>The results\<close>

text \<open>C16: frames go only where ARP has said. Over any sequence of datagrams to send, frames of any
  content received, and ticks, every frame the interface has put on its queue is (a) a datagram it was
  asked to send, in a frame to a hardware address which an ARP message to this interface has announced
  for the datagram's next hop, (b) a broadcast ARP request for an address it was asked to send to or
  was told about, or (c) an ARP reply to a sender that announced itself.\<close>
theorem frames_only_as_learned:
  assumes "NetworkInterface_init gni mac address = Inr ni" and "Address_ipv4_numeric address = Inr own"
    and "run_ok ni_step ni_event_ok (ni_start ni) es"
    and "frame \<in> set (ni_frames_out (tr_ni (run_steps ni_step (ni_start ni) es)))"
  shows "frame_ok (tr_heard (run_steps ni_step (ni_start ni) es)) (tr_asked (run_steps ni_step (ni_start ni) es))
    (tr_ni (run_steps ni_step (ni_start ni) es)) frame"
  using interface.run_inv [OF start_inv [OF assms(1,2)] assms(3)] assms(4) by (simp add: ni_inv_def)

definition sample_run :: "ni_event list \<Rightarrow> ni_trace" where
  "sample_run = run_steps ni_step (ni_start (sample_interface (EthernetAddress 2 0 0 0 0 1) 0x0a000001))"

lemma sample_start:
  "NetworkInterface_init numeric_gni mac (ipv4_address 0 ip) = Inr (sample_interface mac ip)"
  by (rule sample_interface_init [OF numeric_gai_gni])

theorem frames_only_as_learned_witness:
  "let s = sample_run [Send sample_datagram (ipv4_address 0 0x0a000002)]
   in ni_frames_out (tr_ni s) \<noteq> [] \<and>
      (case ni_frames_out (tr_ni s) of [] \<Rightarrow> False
       | frame # _ \<Rightarrow> frame_ok (tr_heard s) (tr_asked s) (tr_ni s) frame)"
proof -
  let ?es = "[Send sample_datagram (ipv4_address 0 0x0a000002)]"
  have "length (ni_frames_out (tr_ni (sample_run ?es))) = 1" by code_simp
  then obtain frame where f: "ni_frames_out (tr_ni (sample_run ?es)) = [frame]" by (auto simp: length_Suc_conv)
  have "frame_ok (tr_heard (sample_run ?es)) (tr_asked (sample_run ?es)) (tr_ni (sample_run ?es)) frame"
    unfolding sample_run_def
    by (rule frames_only_as_learned [OF sample_start, of "0x0a000001"])
      (use f in \<open>simp_all add: sample_run_def\<close>)
  then show ?thesis by (simp add: f)
qed

text \<open>C20: requests are spaced. Over any sequence of calls as above, two ARP requests for the same address
  are never sent less than 5 seconds apart, however often the owner asks and however the replies are
  lost, repeated or forged.\<close>
theorem arp_requests_spaced:
  assumes "NetworkInterface_init gni mac address = Inr ni" and "Address_ipv4_numeric address = Inr own"
    and "run_ok ni_step ni_event_ok (ni_start ni) es"
    and "tr_requests (run_steps ni_step (ni_start ni) es) = rs" and "i < j" and "j < length rs"
    and "snd (rs ! i) = snd (rs ! j)"
  shows "fst (rs ! i) + 5000 \<le> fst (rs ! j)"
proof -
  have "spaced rs"
    using interface.run_inv [OF start_inv [OF assms(1,2)] assms(3)] assms(4) by (simp add: ni_inv_def)
  from sorted_wrt_nth_less [OF this [unfolded spaced_def] assms(5,6)] show ?thesis
    using assms(7) by (simp add: split_beta)
qed

lemma sample_queued:
  "ni_arp_request_cache (tr_ni (sample_run [Send sample_datagram (ipv4_address 0 0x0a000002)]))
     = [0x0a000002 \<mapsto> (0, sample_datagram)]"
  "ni_arp_forward_table (tr_ni (sample_run [Send sample_datagram (ipv4_address 0 0x0a000002)])) = Map.empty"
  by (simp_all add: sample_run_def ni_step_def ni_start_def Let_def NetworkInterface_send_datagram_def
      sample_interface_def configured_def send_arp_eq [where ip = "0x0a000001"])

theorem arp_requests_spaced_witness:
  "let rs = tr_requests (sample_run
       [Send sample_datagram (ipv4_address 0 0x0a000002), Tick [] [0x0a000002] 5001])
   in rs = [(0, 0x0a000002), (5001, 0x0a000002)] \<and> fst (rs ! 0) + 5000 \<le> fst (rs ! 1)"
proof -
  let ?es = "[Send sample_datagram (ipv4_address 0 0x0a000002), Tick [] [0x0a000002] 5001]"
  have rs: "tr_requests (sample_run ?es) = [(0, 0x0a000002), (5001, 0x0a000002)]" by code_simp
  have ok: "run_ok ni_step ni_event_ok
      (ni_start (sample_interface (EthernetAddress 2 0 0 0 0 1) 0x0a000001)) ?es"
    using sample_queued by (simp add: sample_run_def)
  have "Address_ipv4_numeric (ipv4_address 0 0x0a000001) = Inr 0x0a000001" by simp
  from arp_requests_spaced [OF sample_start this ok rs [unfolded sample_run_def], of 0 1]
  show ?thesis unfolding Let_def rs by simp
qed

subsection \<open>How long an address is used\<close>

abbreviation tick_events :: "(u32 list \<times> u32 list \<times> u64) list \<Rightarrow> ni_event list" where
  "tick_events ticks \<equiv> map (\<lambda>(table_order, cache_order, ms). Tick table_order cache_order ms) ticks"

definition duration :: "(u32 list \<times> u32 list \<times> u64) list \<Rightarrow> nat" where
  "duration ticks = sum_list (map (\<lambda>(table_order, cache_order, ms). unat ms) ticks)"

lemma tick_request_cache_table:
  "ni_arp_forward_table (fst (tick_request_cache ips ms ni)) = ni_arp_forward_table ni"
proof (induction ips ms ni rule: tick_request_cache.induct)
  case (2 ip ips ms ni)
  then show ?case
    by (auto simp: Let_def send_arp_def push_frame_def split: option.splits prod.splits sum.splits if_splits)
qed simp

lemma tick_entry:
  assumes "ni_event_ok s (Tick table_order cache_order ms)"
  shows "ni_arp_forward_table (tr_ni (ni_step s (Tick table_order cache_order ms))) ip
    = Option.bind (ni_arp_forward_table (tr_ni s) ip) (aged ms)"
  using assms
  by (cases "ni_arp_forward_table (tr_ni s) ip")
    (auto simp: ni_step_def Let_def NetworkInterface_tick_def tick_request_cache_table tick_forward_table_eq)

lemma ticks_no_entry:
  assumes "ni_arp_forward_table (tr_ni s) ip = None" and "run_ok ni_step ni_event_ok s (tick_events ticks)"
  shows "ni_arp_forward_table (tr_ni (run_steps ni_step s (tick_events ticks))) ip = None"
  using assms
proof (induction ticks arbitrary: s)
  case (Cons tick ticks)
  then show ?case by (cases tick) (simp add: tick_entry del: ni_event_ok.simps)
qed simp

lemma ticks_entry:
  assumes "ni_arp_forward_table (tr_ni s) ip = Some (t, mac)" and "unat t \<le> 30000"
    and "run_ok ni_step ni_event_ok s (tick_events ticks)"
  shows "ni_arp_forward_table (tr_ni (run_steps ni_step s (tick_events ticks))) ip
    = (if unat t + duration ticks \<le> 30000 then Some (t + of_nat (duration ticks), mac) else None)"
  using assms
proof (induction ticks arbitrary: s t)
  case Nil
  then show ?case by (simp add: duration_def)
next
  case (Cons tick ticks)
  obtain to co ms where tick: "tick = (to, co, ms)" by (cases tick)
  let ?s = "ni_step s (Tick to co ms)"
  have ok: "ni_event_ok s (Tick to co ms)" and run: "run_ok ni_step ni_event_ok ?s (tick_events ticks)"
    using Cons.prems(3) by (simp_all add: tick)
  have "unat ms < 2 ^ 30" using ok by simp
  note timer = tick_timer [OF Cons.prems(2) this]
  have dur: "duration ((to, co, ms) # ticks) = unat ms + duration ticks" by (simp add: duration_def)
  show ?case
  proof (cases "unat t + unat ms \<le> 30000")
    case True
    then have entry: "ni_arp_forward_table (tr_ni ?s) ip = Some (int_add_size t ms, mac)"
      using tick_entry [OF ok, of ip] Cons.prems(1) timer(2) by (simp add: aged_def)
    have "unat (int_add_size t ms) \<le> 30000" using True timer(1) by simp
    note IH = Cons.IH [OF entry this run]
    have "int_add_size t ms + of_nat (duration ticks) = t + of_nat (unat ms + duration ticks)"
      by (simp add: int_add_size_eq)
    then show ?thesis
      unfolding tick list.map prod.case run_steps.simps IH dur timer(1) by (simp only: add.assoc)
  next
    case False
    then have "ni_arp_forward_table (tr_ni ?s) ip = None"
      using tick_entry [OF ok, of ip] Cons.prems(1) timer(2) by (simp add: aged_def)
    then show ?thesis using ticks_no_entry [OF _ run] False by (simp add: tick dur)
  qed
qed

text \<open>C21: a learned address lives for 30 seconds. As long as no further ARP message arrives from it, the
  entry of an address grows older with every tick; the interface uses it while at most 30000 ms have
  passed since it was learned, in however many ticks, and has forgotten it afterwards.\<close>
theorem arp_entry_lifetime:
  assumes "ni_arp_forward_table (tr_ni s) ip = Some (0, mac)"
    and "run_ok ni_step ni_event_ok s (tick_events ticks)"
  shows "ni_arp_forward_table (tr_ni (run_steps ni_step s (tick_events ticks))) ip
    = (if duration ticks \<le> 30000 then Some (of_nat (duration ticks), mac) else None)"
  using ticks_entry [OF assms(1) _ assms(2)] by simp

theorem arp_entry_lifetime_witness:
  "let s = ni_start ((sample_interface (EthernetAddress 2 0 0 0 0 1) 0x0a000001)
         \<lparr>ni_arp_forward_table := [0x0a000002 \<mapsto> (0, EthernetAddress 2 0 0 0 0 2)]\<rparr>)
   in ni_arp_forward_table (tr_ni (run_steps ni_step s (tick_events [([0x0a000002], [], 30000)]))) 0x0a000002
        = Some (30000, EthernetAddress 2 0 0 0 0 2) \<and>
      ni_arp_forward_table (tr_ni (run_steps ni_step s (tick_events [([0x0a000002], [], 30001)]))) 0x0a000002
        = None"
proof -
  let ?s = "ni_start ((sample_interface (EthernetAddress 2 0 0 0 0 1) 0x0a000001)
         \<lparr>ni_arp_forward_table := [0x0a000002 \<mapsto> (0, EthernetAddress 2 0 0 0 0 2)]\<rparr>)"
  have "ni_arp_forward_table (tr_ni ?s) 0x0a000002 = Some (0, EthernetAddress 2 0 0 0 0 2)"
    by (simp add: ni_start_def)
  note w = arp_entry_lifetime [OF this]
  have "run_ok ni_step ni_event_ok ?s (tick_events [([0x0a000002], [], ms)])" if "unat ms < 2 ^ 30" for ms
    using that by (simp add: ni_start_def sample_interface_def)
  from w [OF this [of 30000]] w [OF this [of 30001]] show ?thesis
    by (simp add: duration_def Let_def)
qed

end
