(* ===== verification/Router.thy ===== *)
theory Router
  imports Interface_Properties
begin

text \<open>
  The router: \<open>src/libsponge/router.{hh,cc}\<close>. The loop of \<open>route_one_datagram\<close> indexes the tables with
  a name \<open>i\<close> that is not declared; it is read as the loop variable \<open>interface_num\<close>. \<open>get_mask\<close> shifts a
  32-bit number by 32 when the prefix is empty, which the language leaves undefined: its value
  there is the parameter \<open>shift32\<close>, and the results assume of it only that it maps the empty prefixes that
  were added to 0. Results: the chosen route is the one of longest-prefix-match routing, a datagram is
  forwarded with its time to live decremented, and \<open>route\<close> ends with all queues drained or at the first
  datagram that throws.
\<close>

subsection \<open>AsyncNetworkInterface\<close>

record AsyncNetworkInterface =
  an_interface :: NetworkInterface
  an_datagrams_out :: "IPv4Datagram list"

definition AsyncNetworkInterface_of :: "NetworkInterface \<Rightarrow> AsyncNetworkInterface" where
  "AsyncNetworkInterface_of ni = \<lparr>an_interface = ni, an_datagrams_out = []\<rparr>"

definition AsyncNetworkInterface_recv_frame ::
  "AsyncNetworkInterface \<Rightarrow> EthernetFrame \<Rightarrow> AsyncNetworkInterface \<times> unit result" where
  "AsyncNetworkInterface_recv_frame an frame =
     (case NetworkInterface_recv_frame (an_interface an) frame of
        (ni, Inl e) \<Rightarrow> (an\<lparr>an_interface := ni\<rparr>, Inl e)
      | (ni, Inr None) \<Rightarrow> (an\<lparr>an_interface := ni\<rparr>, Inr ())
      | (ni, Inr (Some dgram)) \<Rightarrow>
          (an\<lparr>an_interface := ni, an_datagrams_out := an_datagrams_out an @ [dgram]\<rparr>, Inr ()))"

subsection \<open>The class\<close>

type_synonym Interface = "u64 \<times> Address option"

record Router =
  rt_interfaces :: "AsyncNetworkInterface list"
  rt_forward_table :: "nat \<Rightarrow> (u32 \<rightharpoonup> Interface)"

definition Router_default :: Router where
  "Router_default = \<lparr>rt_interfaces = [], rt_forward_table = (\<lambda>_. Map.empty)\<rparr>"

definition Router_add_interface :: "Router \<Rightarrow> AsyncNetworkInterface \<Rightarrow> Router \<times> u64" where
  "Router_add_interface rt an =
     (let rt = rt\<lparr>rt_interfaces := rt_interfaces rt @ [an]\<rparr> in (rt, sz (rt_interfaces rt) - 1))"

definition Router_interface :: "Router \<Rightarrow> u64 \<Rightarrow> AsyncNetworkInterface result" where
  "Router_interface rt N =
     (if N < sz (rt_interfaces rt) then Inr (rt_interfaces rt ! unat N)
      else Inl (Out_of_range ''vector::at''))"

definition Router_get_mask :: "(u32 \<Rightarrow> u32) \<Rightarrow> u32 \<Rightarrow> u8 \<Rightarrow> u32" where
  "Router_get_mask shift32 ip_address prefix_length =
     (if prefix_length = 0 then shift32 ip_address else drop_bit (32 - unat prefix_length) ip_address)"

text \<open>The message to the debug output asks for the texts of the addresses and so may throw; a prefix
  longer than 32 indexes behind the array of tables.\<close>

definition Router_add_route ::
  "(u32 \<Rightarrow> u32) \<Rightarrow> getnameinfo \<Rightarrow> Router \<Rightarrow> u32 \<Rightarrow> u8 \<Rightarrow> Address option \<Rightarrow> u64 \<Rightarrow> Router result" where
  "Router_add_route shift32 gni rt route_prefix prefix_length next_hop interface_num =
     (case Address_ip gni (Address_from_ipv4_numeric route_prefix) of
        Inl e \<Rightarrow> Inl e
      | Inr _ \<Rightarrow>
          (case (case next_hop of Some a \<Rightarrow> Address_ip gni a | None \<Rightarrow> Inr ''(direct)'') of
             Inl e \<Rightarrow> Inl e
           | Inr _ \<Rightarrow>
               if unat prefix_length > 32
               then Inl (Undefined_behaviour ''_forward_table[prefix_length] out of range'')
               else
                 let n = unat prefix_length
                 in Inr (rt\<lparr>rt_forward_table := (rt_forward_table rt)(n :=
                      (rt_forward_table rt n)
                        (Router_get_mask shift32 route_prefix prefix_length \<mapsto> (interface_num, next_hop)))\<rparr>)))"

text \<open>The loop of \<open>route_one_datagram\<close>, from the longest prefix down.\<close>

fun forward_loop :: "(nat \<Rightarrow> (u32 \<rightharpoonup> Interface)) \<Rightarrow> nat \<Rightarrow> u32 \<Rightarrow> Interface option" where
  "forward_loop table 0 ip_address = table 0 ip_address"
| "forward_loop table (Suc n) ip_address =
     (case table (Suc n) ip_address of
        Some interface \<Rightarrow> Some interface
      | None \<Rightarrow> forward_loop table n (drop_bit 1 ip_address))"

text \<open>The datagram is passed by reference and comes back with its time to live decremented.\<close>

definition Router_route_one_datagram ::
  "Router \<Rightarrow> IPv4Datagram \<Rightarrow> Router \<times> IPv4Datagram \<times> unit result" where
  "Router_route_one_datagram rt dgram =
     (let ttl = ip_ttl (dg_header dgram);
          dgram = dgram\<lparr>dg_header := (dg_header dgram)\<lparr>ip_ttl := ttl - 1\<rparr>\<rparr>
      in if ttl < 2 then (rt, dgram, Inr ())
         else
           let ip_address = ip_dst (dg_header dgram);
               interface = (0xffffffff, None);
               interface = (case forward_loop (rt_forward_table rt) 32 ip_address of
                              Some i \<Rightarrow> i | None \<Rightarrow> interface)
           in if fst interface = 0xffffffff then (rt, dgram, Inr ())
              else
                let next_hop = Address_from_ipv4_numeric (ip_dst (dg_header dgram));
                    next_hop = (case snd interface of Some a \<Rightarrow> a | None \<Rightarrow> next_hop);
                    n = unat (fst interface)
                in if n < length (rt_interfaces rt)
                   then
                     let an = rt_interfaces rt ! n;
                         (ni, res) = NetworkInterface_send_datagram (an_interface an) dgram next_hop
                     in (rt\<lparr>rt_interfaces := (rt_interfaces rt)[n := an\<lparr>an_interface := ni\<rparr>]\<rparr>, dgram, res)
                   else (rt, dgram, Inl (Undefined_behaviour ''_interfaces[interface.first] out of range'')))"

subsection \<open>Draining the queues\<close>

definition datagrams_out :: "Router \<Rightarrow> nat \<Rightarrow> IPv4Datagram list" where
  "datagrams_out rt k = an_datagrams_out (rt_interfaces rt ! k)"

definition set_datagrams_out :: "Router \<Rightarrow> nat \<Rightarrow> IPv4Datagram list \<Rightarrow> Router" where
  "set_datagrams_out rt k q =
     rt\<lparr>rt_interfaces := (rt_interfaces rt)[k := (rt_interfaces rt ! k)\<lparr>an_datagrams_out := q\<rparr>]\<rparr>"

text \<open>Routing a datagram touches no queue of received datagrams.\<close>

lemma route_one_queues:
  "map an_datagrams_out (rt_interfaces (fst (Router_route_one_datagram rt d)))
     = map an_datagrams_out (rt_interfaces rt)"
  by (auto simp: Router_route_one_datagram_def Let_def map_update list_update_same_conv split: prod.splits option.splits)

lemma route_one_length [simp]:
  "length (rt_interfaces (fst (Router_route_one_datagram rt d))) = length (rt_interfaces rt)"
  using arg_cong [OF route_one_queues, of length] by simp

lemma route_one_datagrams_out:
  "k < length (rt_interfaces rt) \<Longrightarrow> datagrams_out (fst (Router_route_one_datagram rt d)) k = datagrams_out rt k"
  using arg_cong [OF route_one_queues, of "\<lambda>qs. qs ! k" rt d] by (simp add: datagrams_out_def)

lemma set_datagrams_out_simps [simp]:
  "length (rt_interfaces (set_datagrams_out rt k q)) = length (rt_interfaces rt)"
  "k < length (rt_interfaces rt) \<Longrightarrow> datagrams_out (set_datagrams_out rt k q) j
     = (if j = k then q else datagrams_out rt j)"
  by (simp_all add: set_datagrams_out_def datagrams_out_def)

text \<open>The inner loop of \<open>route\<close> over the queue of interface \<open>k\<close>. When a datagram throws it stays at the
  front, with the time to live it has by then.\<close>

function route_queue :: "nat \<Rightarrow> Router \<Rightarrow> Router \<times> unit result" where
  "route_queue k rt =
     (if k < length (rt_interfaces rt)
      then case datagrams_out rt k of
             [] \<Rightarrow> (rt, Inr ())
           | d # ds \<Rightarrow>
               (case Router_route_one_datagram rt d of
                  (rt', d', Inl e) \<Rightarrow> (set_datagrams_out rt' k (d' # ds), Inl e)
                | (rt', d', Inr _) \<Rightarrow> route_queue k (set_datagrams_out rt' k (tl (datagrams_out rt' k))))
      else (rt, Inr ()))"
  by auto
termination
proof (relation "measure (\<lambda>(k, rt). length (datagrams_out rt k))", goal_cases)
  case (2 k rt d ds rt')
  then have "rt' = fst (Router_route_one_datagram rt d)" by (metis fst_conv)
  then show ?case using 2(1,2) route_one_datagrams_out [of k rt d] by simp
qed simp

declare route_queue.simps [simp del]

fun route_all :: "nat list \<Rightarrow> Router \<Rightarrow> Router \<times> unit result" where
  "route_all [] rt = (rt, Inr ())"
| "route_all (k # ks) rt =
     (case route_queue k rt of
        (rt, Inl e) \<Rightarrow> (rt, Inl e)
      | (rt, Inr _) \<Rightarrow> route_all ks rt)"

definition Router_route :: "Router \<Rightarrow> Router \<times> unit result" where
  "Router_route rt = route_all [0..<length (rt_interfaces rt)] rt"

subsection \<open>Longest-prefix-match routing\<close>

text \<open>The specification: a route is a prefix, its length, the next hop and the interface. Of the routes
  whose prefix agrees with the destination, one with the longest prefix is chosen, and of several
  with the same prefix the one that was added last.\<close>

record route =
  r_prefix :: u32
  r_length :: u8
  r_next_hop :: "Address option"
  r_interface :: u64

definition prefix_matches :: "u32 \<Rightarrow> route \<Rightarrow> bool" where
  "prefix_matches dst r \<longleftrightarrow>
     (\<forall>i < 32. 32 - unat (r_length r) \<le> i \<longrightarrow> bit (r_prefix r) i = bit dst i)"

definition longest_match :: "route list \<Rightarrow> u32 \<Rightarrow> route option" where
  "longest_match rs dst =
     (let ms = filter (prefix_matches dst) rs
      in if ms = [] then None
         else Some (last (filter (\<lambda>r. r_length r = Max (r_length ` set ms)) ms)))"

fun add_routes :: "(u32 \<Rightarrow> u32) \<Rightarrow> getnameinfo \<Rightarrow> Router \<Rightarrow> route list \<Rightarrow> Router result" where
  "add_routes shift32 gni rt [] = Inr rt"
| "add_routes shift32 gni rt (r # rs) =
     (case Router_add_route shift32 gni rt (r_prefix r) (r_length r) (r_next_hop r) (r_interface r) of
        Inl e \<Rightarrow> Inl e
      | Inr rt \<Rightarrow> add_routes shift32 gni rt rs)"

text \<open>For an empty prefix the mask is the result of the undefined shift; it has to be 0, the key the lookup uses.\<close>

definition legal_route :: "(u32 \<Rightarrow> u32) \<Rightarrow> route \<Rightarrow> bool" where
  "legal_route shift32 r \<longleftrightarrow> (r_length r = 0 \<longrightarrow> shift32 (r_prefix r) = 0)"

definition route_mask :: "u32 \<Rightarrow> nat \<Rightarrow> u32" where
  "route_mask ip n = drop_bit (32 - n) ip"

lemma route_mask_32 [simp]: "route_mask ip 32 = ip"
  by (simp add: route_mask_def)

lemma route_mask_step: "n \<le> 31 \<Longrightarrow> drop_bit (Suc 0) (route_mask ip (Suc n)) = route_mask ip n"
proof -
  assume "n \<le> 31"
  then have "Suc (31 - n) = 32 - n" by simp
  then show ?thesis by (simp add: route_mask_def del: diff_Suc_Suc)
qed

lemma prefix_matches_mask:
  assumes "unat (r_length r) \<le> 32"
  shows "prefix_matches dst r \<longleftrightarrow> route_mask (r_prefix r) (unat (r_length r)) = route_mask dst (unat (r_length r))"
proof
  assume m: "prefix_matches dst r"
  have "bit (r_prefix r) j = bit dst j" if "32 - unat (r_length r) \<le> j" for j
    using that m by (cases "j < 32") (auto simp: prefix_matches_def dest: bit_imp_le_length)
  then show "route_mask (r_prefix r) (unat (r_length r)) = route_mask dst (unat (r_length r))"
    by (intro bit_eqI) (simp add: route_mask_def bit_simps)
next
  assume e: "route_mask (r_prefix r) (unat (r_length r)) = route_mask dst (unat (r_length r))"
  show "prefix_matches dst r"
    unfolding prefix_matches_def
  proof (intro allI impI)
    fix i assume "i < 32" "32 - unat (r_length r) \<le> i"
    then have "i = 32 - unat (r_length r) + (i - (32 - unat (r_length r)))" by simp
    then show "bit (r_prefix r) i = bit dst i"
      using arg_cong [OF e, of "\<lambda>w. bit w (i - (32 - unat (r_length r)))"]
      by (simp add: route_mask_def bit_simps)
  qed
qed

lemma longest_match_in: "longest_match rs dst = Some r \<Longrightarrow> r \<in> set rs"
proof -
  assume r: "longest_match rs dst = Some r"
  let ?ms = "filter (prefix_matches dst) rs"
  have ne: "?ms \<noteq> []" and l: "last (filter (\<lambda>r. r_length r = Max (r_length ` set ?ms)) ?ms) = r"
    using r by (auto simp: longest_match_def Let_def split: if_splits)
  have "Max (r_length ` set ?ms) \<in> r_length ` set ?ms" 
    using ne by (intro Max_in) (simp_all only: finite_imageI finite_set image_is_empty set_empty not_False_eq_True)
  then have "filter (\<lambda>r. r_length r = Max (r_length ` set ?ms)) ?ms \<noteq> []" by (auto simp: filter_empty_conv)
  from last_in_set [OF this, unfolded l] show "r \<in> set rs" by simp
qed

text \<open>What the tables hold after a sequence of routes.\<close>

definition route_table :: "route list \<Rightarrow> nat \<Rightarrow> (u32 \<rightharpoonup> Interface)" where
  "route_table rs n k =
     (let ms = filter (\<lambda>r. unat (r_length r) = n \<and> route_mask (r_prefix r) n = k) rs
      in if ms = [] then None else Some (r_interface (last ms), r_next_hop (last ms)))"

lemma get_mask_eq:
  "legal_route shift32 r \<Longrightarrow>
     Router_get_mask shift32 (r_prefix r) (r_length r) = route_mask (r_prefix r) (unat (r_length r))"
  by (auto simp: Router_get_mask_def legal_route_def route_mask_def drop_bit_eq_zero_iff_not_bit_last)

lemma route_table_snoc:
  "route_table (rs @ [r]) = (route_table rs)(unat (r_length r) :=
     (route_table rs (unat (r_length r)))
       (route_mask (r_prefix r) (unat (r_length r)) \<mapsto> (r_interface r, r_next_hop r)))"
  by (auto simp: fun_eq_iff route_table_def Let_def)

lemma add_route_ok:
  assumes "Router_add_route shift32 gni rt route_prefix prefix_length next_hop interface_num = Inr rt'"
  shows "unat prefix_length \<le> 32"
    and "rt' = rt\<lparr>rt_forward_table := (rt_forward_table rt)(unat prefix_length :=
           (rt_forward_table rt (unat prefix_length))
             (Router_get_mask shift32 route_prefix prefix_length \<mapsto> (interface_num, next_hop)))\<rparr>"
  using assms by (auto simp: Router_add_route_def Let_def split: sum.splits if_splits)

lemma add_routes_table:
  assumes "list_all (legal_route shift32) rs"
    and "add_routes shift32 gni rt rs = Inr rt'" and "rt_forward_table rt = route_table rs0"
  shows "rt_forward_table rt' = route_table (rs0 @ rs) \<and> rt_interfaces rt' = rt_interfaces rt \<and>
    (\<forall>r \<in> set rs. unat (r_length r) \<le> 32)"
  using assms
proof (induction rs arbitrary: rt rs0)
  case (Cons r rs)
  then obtain rt1 where rt1: "Router_add_route shift32 gni rt (r_prefix r) (r_length r) (r_next_hop r) (r_interface r)
      = Inr rt1" "add_routes shift32 gni rt1 rs = Inr rt'" by (auto split: sum.splits)
  have "rt_forward_table rt1 = route_table (rs0 @ [r])"
    using add_route_ok(2) [OF rt1(1)] Cons.prems by (simp add: route_table_snoc get_mask_eq)
  from Cons.IH [OF _ rt1(2) this] show ?case
    using add_route_ok [OF rt1(1)] Cons.prems(1) by simp
qed simp

text \<open>The loop finds the longest length whose table has the prefix of the destination.\<close>

lemma forward_loop_none:
  "n \<le> 32 \<Longrightarrow> (\<forall>l \<le> n. table l (route_mask dst l) = None) \<Longrightarrow> forward_loop table n (route_mask dst n) = None"
  by (induction n) (simp_all add: route_mask_step)

lemma forward_loop_some:
  "n \<le> 32 \<Longrightarrow> l \<le> n \<Longrightarrow> table l (route_mask dst l) = Some i \<Longrightarrow>
     (\<forall>l'. l < l' \<and> l' \<le> n \<longrightarrow> table l' (route_mask dst l') = None) \<Longrightarrow>
     forward_loop table n (route_mask dst n) = Some i"
proof (induction n)
  case (Suc n)
  then show ?case by (cases "l = Suc n") (simp_all add: route_mask_step)
qed simp

lemma route_table_none:
  assumes "n \<le> 32"
  shows "route_table rs n (route_mask dst n) = None \<longleftrightarrow>
    (\<forall>r \<in> set rs. prefix_matches dst r \<longrightarrow> unat (r_length r) \<noteq> n)"
  using assms prefix_matches_mask [of _ dst] by (auto simp: route_table_def Let_def filter_empty_conv)

lemma forward_loop_longest_match:
  assumes "\<forall>r \<in> set rs. unat (r_length r) \<le> 32"
  shows "forward_loop (route_table rs) 32 dst
    = map_option (\<lambda>r. (r_interface r, r_next_hop r)) (longest_match rs dst)"
proof (cases "filter (prefix_matches dst) rs = []")
  case True
  then have "forward_loop (route_table rs) 32 (route_mask dst 32) = None"
    by (intro forward_loop_none) (auto simp: route_table_none filter_empty_conv)
  then show ?thesis using True by (simp add: longest_match_def)
next
  case False
  let ?ms = "filter (prefix_matches dst) rs"
  let ?L = "Max (r_length ` set ?ms)"
  have fin: "finite (r_length ` set ?ms)" "r_length ` set ?ms \<noteq> {}"
    using False by (simp_all only: finite_imageI finite_set image_is_empty set_empty not_False_eq_True)
  have L: "?L \<in> r_length ` set ?ms" using Max_in [OF fin] .
  have le: "unat ?L \<le> 32" using L assms by auto
  have "filter (\<lambda>r. unat (r_length r) = unat ?L \<and> route_mask (r_prefix r) (unat ?L) = route_mask dst (unat ?L)) rs
      = filter (\<lambda>r. r_length r = ?L) ?ms"
    using prefix_matches_mask [of _ dst] le by (auto simp: word_unat_eq_iff [symmetric] intro!: filter_cong)
  moreover have "filter (\<lambda>r. r_length r = ?L) ?ms \<noteq> []" using L by (auto simp: filter_empty_conv)
  ultimately have "route_table rs (unat ?L) (route_mask dst (unat ?L))
      = map_option (\<lambda>r. (r_interface r, r_next_hop r)) (longest_match rs dst)"
    using False by (simp add: route_table_def longest_match_def Let_def)
  moreover have "route_table rs l' (route_mask dst l') = None" if "unat ?L < l'" "l' \<le> 32" for l'
  proof -
    have "unat (r_length r) \<le> unat ?L" if "r \<in> set rs" "prefix_matches dst r" for r
      using Max_ge [OF fin(1), of "r_length r"] that by (simp add: word_le_nat_alt [symmetric])
    then show ?thesis using that by (metis leD route_table_none)
  qed
  moreover have "longest_match rs dst \<noteq> None" using False by (simp add: longest_match_def Let_def)
  ultimately have "forward_loop (route_table rs) 32 (route_mask dst 32)
      = map_option (\<lambda>r. (r_interface r, r_next_hop r)) (longest_match rs dst)"
    using forward_loop_some [of 32 "unat ?L" "route_table rs" dst] le by auto
  then show ?thesis by simp
qed

definition sent_on :: "Router \<Rightarrow> nat \<Rightarrow> IPv4Datagram \<Rightarrow> Address \<Rightarrow> Router" where
  "sent_on rt n dgram next_hop =
     rt\<lparr>rt_interfaces := (rt_interfaces rt)[n := (rt_interfaces rt ! n)\<lparr>an_interface :=
       fst (NetworkInterface_send_datagram (an_interface (rt_interfaces rt ! n)) dgram next_hop)\<rparr>]\<rparr>"

definition hop :: "IPv4Datagram \<Rightarrow> IPv4Datagram" where
  "hop d = d\<lparr>dg_header := (dg_header d)\<lparr>ip_ttl := ip_ttl (dg_header d) - 1\<rparr>\<rparr>"

text \<open>C15: the router refines longest-prefix-match routing. Take a router without routes to which routes have been
  added one after the other by \<open>add_route\<close>, all for interfaces it has, and whose empty prefixes, if any,
  \<open>get_mask\<close> maps to 0 (the shift by 32 it uses is undefined; no other prefix is concerned). Then
  \<open>route_one_datagram\<close>, its undeclared \<open>i\<close> read as the loop variable, decrements the time to live. It drops a
  datagram that has no hop left or matches no route, without touching the router; any other datagram is
  sent on the interface of the longest matching route (the last added of equal ones), to that route's next
  hop or, for a directly attached network, to the destination. No other interface is touched, and what
  sending throws is passed on.\<close>
theorem router_longest_prefix_match:
  assumes "list_all (legal_route shift32) rs"
    and "add_routes shift32 gni rt0 rs = Inr rt" and "rt_forward_table rt0 = rt_forward_table Router_default"
    and "\<forall>r \<in> set rs. unat (r_interface r) < length (rt_interfaces rt0) \<and> r_interface r \<noteq> 0xffffffff"
  shows "Router_route_one_datagram rt d =
    (case longest_match rs (ip_dst (dg_header d)) of
       None \<Rightarrow> (rt, hop d, Inr ())
     | Some r \<Rightarrow>
         if ip_ttl (dg_header d) < 2 then (rt, hop d, Inr ())
         else
           let next_hop = (case r_next_hop r of Some a \<Rightarrow> a | None \<Rightarrow> ipv4_address 0 (ip_dst (dg_header d)));
               n = unat (r_interface r)
           in (sent_on rt n (hop d) next_hop, hop d,
               snd (NetworkInterface_send_datagram (an_interface (rt_interfaces rt ! n)) (hop d) next_hop)))"
proof -
  let ?dst = "ip_dst (dg_header d)"
  have "route_table [] = rt_forward_table rt0"
    using assms(3) by (simp add: Router_default_def route_table_def fun_eq_iff)
  from add_routes_table [OF assms(1,2) this [symmetric]]
  have table: "rt_forward_table rt = route_table rs" and ifs: "rt_interfaces rt = rt_interfaces rt0"
    and len: "\<forall>r \<in> set rs. unat (r_length r) \<le> 32" by simp_all
  note loop = forward_loop_longest_match [OF len, of ?dst]
  show ?thesis
  proof (cases "longest_match rs ?dst")
    case None
    then show ?thesis using loop by (simp add: Router_route_one_datagram_def Let_def table hop_def)
  next
    case (Some r)
    then have "r \<in> set rs" by (rule longest_match_in)
    then have "unat (r_interface r) < length (rt_interfaces rt)" "r_interface r \<noteq> 0xffffffff"
      using assms(4) by (simp_all add: ifs)
    then show ?thesis
      using Some loop
      by (simp add: Router_route_one_datagram_def Let_def table sent_on_def hop_def split: prod.split option.split)
  qed
qed

definition sample_router :: Router where
  "sample_router = Router_default\<lparr>rt_interfaces :=
     [AsyncNetworkInterface_of (sample_interface (EthernetAddress 2 0 0 0 0 3) 0x0b000001),
      AsyncNetworkInterface_of (sample_interface (EthernetAddress 2 0 0 0 0 4) 0x0a000003)]\<rparr>"

definition sample_routes :: "route list" where
  "sample_routes =
     [\<lparr>r_prefix = 0x0a000000, r_length = 8, r_next_hop = None, r_interface = 1\<rparr>,
      \<lparr>r_prefix = 0, r_length = 0, r_next_hop = Some (ipv4_address 0 0x0b000002), r_interface = 0\<rparr>]"

theorem router_longest_prefix_match_witness:
  "case add_routes id numeric_gni sample_router sample_routes of
     Inl e \<Rightarrow> False
   | Inr rt \<Rightarrow> fst (Router_route_one_datagram rt sample_datagram)
       = sent_on rt 1 (sample_datagram\<lparr>dg_header := (dg_header sample_datagram)\<lparr>ip_ttl := 127\<rparr>\<rparr>)
           (ipv4_address 0 0x0a000002)"
proof -
  have addr: "Address_ip numeric_gni (ipv4_address 0 ip) = Inr (inet_ntoa ip)" for ip
    by (simp add: Address_ip_def ipv4_ip_port [OF numeric_gai_gni])
  obtain rt where rt: "add_routes id numeric_gni sample_router sample_routes = Inr rt"
    by (simp add: sample_routes_def Router_add_route_def addr)
  have m: "longest_match sample_routes 0x0a000002
      = Some \<lparr>r_prefix = 0x0a000000, r_length = 8, r_next_hop = None, r_interface = 1\<rparr>"
    by (simp add: longest_match_def sample_routes_def prefix_matches_mask route_mask_def)
  have "dg_header sample_datagram
      = IPv4Header_default\<lparr>ip_len := 23, ip_src := 0x0a000001, ip_dst := 0x0a000002\<rparr>"
    by (simp add: sample_datagram_def)
  then have h: "ip_dst (dg_header sample_datagram) = 0x0a000002" "ip_ttl (dg_header sample_datagram) = 128"
    by (simp_all add: IPv4Header_default_def IPv4Header_DEFAULT_TTL_def)
  have legal: "list_all (legal_route id) sample_routes"
    "\<forall>r \<in> set sample_routes. unat (r_interface r) < length (rt_interfaces sample_router) \<and>
       r_interface r \<noteq> 0xffffffff"
    "rt_forward_table sample_router = rt_forward_table Router_default"
    by (simp_all add: sample_routes_def legal_route_def sample_router_def)
  show ?thesis
    using router_longest_prefix_match [OF legal(1) rt legal(3,2), of sample_datagram] by (simp add: rt m h hop_def Let_def)
qed

subsection \<open>Routing everything\<close>

text \<open>The reference: route the datagrams of a list one by one, up to the first that throws.\<close>

fun route_each :: "Router \<Rightarrow> IPv4Datagram list \<Rightarrow> Router \<times> unit result" where
  "route_each rt [] = (rt, Inr ())"
| "route_each rt (d # ds) =
     (case Router_route_one_datagram rt d of
        (rt, _, Inl e) \<Rightarrow> (rt, Inl e)
      | (rt, _, Inr _) \<Rightarrow> route_each rt ds)"

definition drained :: "Router \<Rightarrow> Router" where
  "drained rt = rt\<lparr>rt_interfaces := map (\<lambda>an. an\<lparr>an_datagrams_out := []\<rparr>) (rt_interfaces rt)\<rparr>"

lemma route_one_set_datagrams_out:
  assumes "k < length (rt_interfaces rt)"
  shows "Router_route_one_datagram (set_datagrams_out rt k q) d
    = (set_datagrams_out (fst (Router_route_one_datagram rt d)) k q, snd (Router_route_one_datagram rt d))"
proof -
  have swap: "(xs[k := x\<lparr>an_datagrams_out := q\<rparr>])[n := ((xs[k := x\<lparr>an_datagrams_out := q\<rparr>]) ! n)\<lparr>an_interface := ni\<rparr>]
      = (xs[n := (xs ! n)\<lparr>an_interface := ni\<rparr>])[k := ((xs[n := (xs ! n)\<lparr>an_interface := ni\<rparr>]) ! k)\<lparr>an_datagrams_out := q\<rparr>]"
    if "k < length xs" "n < length xs" "x = xs ! k" for n ni x and xs :: "AsyncNetworkInterface list"
    using that by (cases "n = k"; cases "xs ! k") (simp_all add: list_update_swap)
  have same: "an_interface ((xs[k := (xs ! k)\<lparr>an_datagrams_out := q\<rparr>]) ! n) = an_interface (xs ! n)"
    if "k < length xs" "n < length xs" for n and xs :: "AsyncNetworkInterface list"
    using that by (cases "n = k") simp_all
  show ?thesis
    using assms
    by (auto simp: Router_route_one_datagram_def set_datagrams_out_def Let_def same swap split: prod.splits)
qed

lemma route_each_set_datagrams_out:
  assumes "k < length (rt_interfaces rt)"
  shows "route_each (set_datagrams_out rt k q) ds
    = (set_datagrams_out (fst (route_each rt ds)) k q, snd (route_each rt ds))"
  using assms
proof (induction ds arbitrary: rt)
  case (Cons d ds)
  have "k < length (rt_interfaces (fst (Router_route_one_datagram rt d)))" using Cons.prems by simp
  from Cons.IH [OF this] show ?case
    using route_one_set_datagrams_out [OF Cons.prems, of q d] by (auto split: prod.splits sum.splits)
qed simp

lemma set_datagrams_out_twice [simp]:
  "k < length (rt_interfaces rt) \<Longrightarrow> set_datagrams_out (set_datagrams_out rt k p) k q = set_datagrams_out rt k q"
  by (simp add: set_datagrams_out_def)

lemma set_datagrams_out_same: "k < length (rt_interfaces rt) \<Longrightarrow> set_datagrams_out rt k (datagrams_out rt k) = rt"
  by (simp add: set_datagrams_out_def datagrams_out_def)

lemma route_each_length [simp]: "length (rt_interfaces (fst (route_each rt ds))) = length (rt_interfaces rt)"
proof (induction ds arbitrary: rt)
  case (Cons d ds)
  then show ?case
    using route_one_length [of rt d]
    by (cases "Router_route_one_datagram rt d") (auto simp del: route_one_length split: sum.splits)
qed simp

lemma route_queue_each:
  assumes "k < length (rt_interfaces rt)" and "route_each rt (datagrams_out rt k) = (rt', Inr ())"
  shows "route_queue k rt = (set_datagrams_out rt' k [], Inr ())"
  using assms
proof (induction "datagrams_out rt k" arbitrary: rt rt')
  case Nil
  then show ?case
    using set_datagrams_out_same [of k rt] by (subst route_queue.simps) auto
next
  case (Cons d ds)
  obtain rt1 d1 res where one: "Router_route_one_datagram rt d = (rt1, d1, res)" by (cases "Router_route_one_datagram rt d")
  then have rt1: "rt1 = fst (Router_route_one_datagram rt d)" by simp
  have q1: "datagrams_out rt1 k = d # ds" and k1: "k < length (rt_interfaces rt1)"
    using Cons.hyps(2) Cons.prems(1) route_one_datagrams_out [of k rt d] by (simp_all add: rt1)
  let ?rt2 = "set_datagrams_out rt1 k ds"
  have res: "res = Inr ()" and each: "route_each rt1 ds = (rt', Inr ())"
    using Cons.prems(2) Cons.hyps(2) [symmetric] one by (auto split: sum.splits)
  have q2: "ds = datagrams_out ?rt2 k" using k1 by simp
  have "route_each ?rt2 (datagrams_out ?rt2 k) = (set_datagrams_out rt' k ds, Inr ())"
    using route_each_set_datagrams_out [OF k1, of ds ds] each q2 by simp
  from Cons.hyps(1) [OF q2 _ this] k1 have "route_queue k ?rt2 = (set_datagrams_out (set_datagrams_out rt' k ds) k [], Inr ())"
    by simp
  moreover have "route_queue k rt = route_queue k ?rt2"
    using Cons.prems(1) Cons.hyps(2) [symmetric] one res q1 by (subst route_queue.simps) simp
  moreover have "k < length (rt_interfaces rt')" using k1 route_each_length [of rt1 ds] each by simp
  ultimately show ?case by simp
qed

lemma route_each_append:
  "route_each rt (ds @ es) = (case route_each rt ds of (rt, Inl e) \<Rightarrow> (rt, Inl e) | (rt, Inr _) \<Rightarrow> route_each rt es)"
  by (induction ds arbitrary: rt) (auto split: prod.splits sum.splits)

lemma route_each_datagrams_out:
  "k < length (rt_interfaces rt) \<Longrightarrow> datagrams_out (fst (route_each rt ds)) k = datagrams_out rt k"
proof (induction ds arbitrary: rt)
  case (Cons d ds)
  then show ?case
    using route_one_datagrams_out [of k rt d] route_one_length [of rt d]
    by (cases "Router_route_one_datagram rt d") (auto simp del: route_one_length split: sum.splits)
qed simp

lemma route_all_each:
  assumes "distinct ks" and "\<forall>k \<in> set ks. k < length (rt_interfaces rt)"
    and "route_each rt (concat (map (datagrams_out rt) ks)) = (rt', Inr ())"
  shows "route_all ks rt = (foldl (\<lambda>rt k. set_datagrams_out rt k []) rt' ks, Inr ())"
  using assms
proof (induction ks arbitrary: rt rt')
  case (Cons k ks)
  have k: "k < length (rt_interfaces rt)" and ks: "\<forall>j \<in> set ks. j < length (rt_interfaces rt)" using Cons.prems(2) by auto
  obtain rt1 where one: "route_each rt (datagrams_out rt k) = (rt1, Inr ())"
    and rest: "route_each rt1 (concat (map (datagrams_out rt) ks)) = (rt', Inr ())"
    using Cons.prems(3) by (auto simp: route_each_append split: prod.splits sum.splits)
  have len: "length (rt_interfaces rt1) = length (rt_interfaces rt)"
    using route_each_length [of rt "datagrams_out rt k"] one by simp
  let ?rt2 = "set_datagrams_out rt1 k []"
  have "datagrams_out ?rt2 j = datagrams_out rt j" if "j \<in> set ks" for j
    using that ks k len Cons.prems(1) route_each_datagrams_out [of j rt "datagrams_out rt k"] one by auto
  then have "concat (map (datagrams_out ?rt2) ks) = concat (map (datagrams_out rt) ks)"
    by (simp cong: map_cong)
  then have "route_each ?rt2 (concat (map (datagrams_out ?rt2) ks)) = (set_datagrams_out rt' k [], Inr ())"
    using route_each_set_datagrams_out [of k rt1 "[]"] rest k len by simp
  from Cons.IH [OF _ _ this] show ?case
    using Cons.prems(1) ks len route_queue_each [OF k one] by simp
qed simp

lemma foldl_drained:
  "foldl (\<lambda>rt k. set_datagrams_out rt k []) rt [0..<n]
     = rt\<lparr>rt_interfaces := map (\<lambda>an. an\<lparr>an_datagrams_out := []\<rparr>) (take n (rt_interfaces rt)) @ drop n (rt_interfaces rt)\<rparr>"
  if "n \<le> length (rt_interfaces rt)"
  using that
proof (induction n)
  case (Suc n)
  then have "drop n (rt_interfaces rt) = rt_interfaces rt ! n # drop (Suc n) (rt_interfaces rt)"
    by (simp add: Cons_nth_drop_Suc)
  then show ?case
    using Suc by (simp add: set_datagrams_out_def nth_append list_update_append take_Suc_conv_app_nth)
qed simp

text \<open>When a datagram throws, it stays at the front of its queue with its time to live decremented.\<close>

lemma route_one_hop: "fst (snd (Router_route_one_datagram rt d)) = hop d"
  by (simp add: Router_route_one_datagram_def hop_def Let_def split: prod.split)

text \<open>The first datagram of the list that throws is \<open>d\<close>; \<open>rest\<close> comes behind it.\<close>

definition throws_at :: "Router \<Rightarrow> IPv4Datagram list \<Rightarrow> Router \<Rightarrow> cpp_error \<Rightarrow> IPv4Datagram \<Rightarrow> IPv4Datagram list \<Rightarrow> bool" where
  "throws_at rt ds rt' e d rest \<longleftrightarrow>
     (\<exists>before rt0. ds = before @ d # rest \<and> route_each rt before = (rt0, Inr ()) \<and>
        Router_route_one_datagram rt0 d = (rt', hop d, Inl e))"

lemma throws_at_Cons:
  assumes "Router_route_one_datagram rt d0 = (rt1, d1, Inr ())" and "throws_at rt1 ds rt' e d rest"
  shows "throws_at rt (d0 # ds) rt' e d rest"
proof -
  obtain before rt0 where "ds = before @ d # rest" "route_each rt1 before = (rt0, Inr ())"
    "Router_route_one_datagram rt0 d = (rt', hop d, Inl e)" using assms(2) by (auto simp: throws_at_def)
  then show ?thesis unfolding throws_at_def using assms(1) by (intro exI [of _ "d0 # before"] exI [of _ rt0]) simp
qed

lemma route_each_throws: "route_each rt ds = (rt', Inl e) \<Longrightarrow> \<exists>d rest. throws_at rt ds rt' e d rest"
proof (induction ds arbitrary: rt)
  case (Cons d ds)
  obtain rt1 d1 res where one: "Router_route_one_datagram rt d = (rt1, d1, res)" by (cases "Router_route_one_datagram rt d")
  show ?case
  proof (cases res)
    case (Inl e')
    then have "rt1 = rt'" "e' = e" "d1 = hop d" using Cons.prems one route_one_hop [of rt d] by simp_all
    then have "throws_at rt (d # ds) rt' e d ds" using one Inl unfolding throws_at_def by (intro exI [of _ "[]"]) simp
    then show ?thesis by blast
  next
    case (Inr u)
    then show ?thesis using Cons one throws_at_Cons [of rt d rt1 d1] by fastforce
  qed
qed simp

lemma route_queue_throws:
  assumes "k < length (rt_interfaces rt)" and "throws_at rt (datagrams_out rt k) rt' e d rest"
  shows "route_queue k rt = (set_datagrams_out rt' k (hop d # rest), Inl e)"
proof -
  obtain before rt0 where split: "datagrams_out rt k = before @ d # rest" "route_each rt before = (rt0, Inr ())"
    and d: "Router_route_one_datagram rt0 d = (rt', hop d, Inl e)" using assms(2) by (auto simp: throws_at_def)
  from split d assms(1) show ?thesis
  proof (induction before arbitrary: rt rt0 rt')
    case Nil
    then show ?case by (subst route_queue.simps) simp
  next
    case (Cons c before)
    obtain rt1 c1 where one: "Router_route_one_datagram rt c = (rt1, c1, Inr ())" and each: "route_each rt1 before = (rt0, Inr ())"
      using Cons.prems(2) by (auto split: prod.splits sum.splits)
    have rt1: "rt1 = fst (Router_route_one_datagram rt c)" using one by simp
    let ?q = "before @ d # rest"
    let ?rt2 = "set_datagrams_out rt1 k ?q"
    have k1: "k < length (rt_interfaces rt1)" and q1: "datagrams_out rt1 k = c # ?q"
      using Cons.prems(1,4) route_one_datagrams_out [of k rt c] by (simp_all add: rt1)
    have k0: "k < length (rt_interfaces rt0)" using k1 route_each_length [of rt1 before] each by simp
    have "route_each ?rt2 before = (set_datagrams_out rt0 k ?q, Inr ())"
      using route_each_set_datagrams_out [OF k1, of ?q before] each by simp
    moreover have "Router_route_one_datagram (set_datagrams_out rt0 k ?q) d = (set_datagrams_out rt' k ?q, hop d, Inl e)"
      using route_one_set_datagrams_out [OF k0, of ?q d] Cons.prems(3) by simp
    moreover have "route_queue k rt = route_queue k ?rt2"
      using Cons.prems(1,4) one q1 by (subst route_queue.simps) simp
    moreover have "k < length (rt_interfaces rt')" using k0 route_one_length [of rt0 d] Cons.prems(3) by simp
    ultimately show ?case using Cons.IH [of ?rt2 "set_datagrams_out rt0 k ?q" "set_datagrams_out rt' k ?q"] k1 by simp
  qed
qed

lemma throws_at_length: "throws_at rt ds rt' e d rest \<Longrightarrow> length (rt_interfaces rt') = length (rt_interfaces rt)"
  unfolding throws_at_def by (metis fst_conv route_each_length route_one_length)

lemma throws_at_datagrams_out:
  "throws_at rt ds rt' e d rest \<Longrightarrow> j < length (rt_interfaces rt) \<Longrightarrow> datagrams_out rt' j = datagrams_out rt j"
  unfolding throws_at_def by (metis fst_conv route_each_datagrams_out route_each_length route_one_datagrams_out)

lemma throws_at_prefix: "throws_at rt ds rt' e d rest \<Longrightarrow> throws_at rt (ds @ es) rt' e d (rest @ es)"
  unfolding throws_at_def by (metis append.assoc append_Cons)

lemma throws_at_append:
  assumes "route_each rt ds = (rt1, Inr ())" and "throws_at rt1 es rt' e d rest"
  shows "throws_at rt (ds @ es) rt' e d rest"
proof -
  obtain before rt0 where "es = before @ d # rest" "route_each rt1 before = (rt0, Inr ())"
    "Router_route_one_datagram rt0 d = (rt', hop d, Inl e)" using assms(2) by (auto simp: throws_at_def)
  then show ?thesis unfolding throws_at_def using assms(1)
    by (intro exI [of _ "ds @ before"] exI [of _ rt0]) (simp add: route_each_append)
qed

lemma throws_at_each: "throws_at rt ds rt' e d rest \<Longrightarrow> route_each rt ds = (rt', Inl e)"
  by (auto simp: throws_at_def route_each_append)

lemma throws_at_first:
  assumes "before1 @ d1 # rest1 = before2 @ d2 # rest2"
    and "route_each rt before1 = (rt1, Inr ())" and "Router_route_one_datagram rt1 d1 = (rt1', hop d1, Inl e1)"
    and "route_each rt before2 = (rt2, Inr ())" and "Router_route_one_datagram rt2 d2 = (rt2', hop d2, Inl e2)"
  shows "before1 = before2"
  using assms
proof (induction before1 arbitrary: before2 rt)
  case Nil
  then show ?case by (cases before2) auto
next
  case (Cons x xs)
  then show ?case by (cases before2) (auto split: prod.splits sum.splits)
qed

lemma throws_at_unique:
  assumes "throws_at rt ds rt1 e1 d1 rest1" and "throws_at rt ds rt2 e2 d2 rest2"
  shows "rt1 = rt2 \<and> e1 = e2 \<and> d1 = d2 \<and> rest1 = rest2"
proof -
  obtain b1 r1 b2 r2 where b: "ds = b1 @ d1 # rest1" "route_each rt b1 = (r1, Inr ())"
    "Router_route_one_datagram r1 d1 = (rt1, hop d1, Inl e1)" "ds = b2 @ d2 # rest2" "route_each rt b2 = (r2, Inr ())"
    "Router_route_one_datagram r2 d2 = (rt2, hop d2, Inl e2)" using assms unfolding throws_at_def by blast
  then have "b1 = b2" using throws_at_first [OF _ b(2,3,5,6)] by metis
  then show ?thesis using b by simp
qed

lemma throws_at_later:
  assumes each: "route_each rt ds = (rt1, Inr ())" and t: "throws_at rt (ds @ es) rt' e d rest"
  shows "throws_at rt1 es rt' e d rest"
proof -
  have "route_each rt1 es = (rt', Inl e)" using throws_at_each [OF t] each by (simp add: route_each_append)
  then obtain d2 rest2 where t2: "throws_at rt1 es rt' e d2 rest2" using route_each_throws by blast
  then have "d2 = d \<and> rest2 = rest" using throws_at_unique [OF throws_at_append [OF each t2] t] by blast
  then show ?thesis using t2 by blast
qed

lemma throws_at_set_datagrams_out:
  assumes "k < length (rt_interfaces rt)" and "throws_at rt ds rt' e d rest"
  shows "throws_at (set_datagrams_out rt k q) ds (set_datagrams_out rt' k q) e d rest"
proof -
  obtain before rt0 where s: "ds = before @ d # rest" "route_each rt before = (rt0, Inr ())"
    "Router_route_one_datagram rt0 d = (rt', hop d, Inl e)" using assms(2) by (auto simp: throws_at_def)
  have "k < length (rt_interfaces rt0)" using assms(1) route_each_length [of rt before] s(2) by simp
  then show ?thesis unfolding throws_at_def
    using s route_each_set_datagrams_out [OF assms(1), of q before] route_one_set_datagrams_out [of k rt0 q d]
    by (intro exI [of _ before] exI [of _ "set_datagrams_out rt0 k q"]) simp
qed

lemma set_datagrams_out_interfaces [simp]:
  "map an_interface (rt_interfaces (set_datagrams_out rt k q)) = map an_interface (rt_interfaces rt)"
  by (simp add: set_datagrams_out_def map_update list_update_same_conv) (metis list_update_beyond list_update_id map_update not_le_imp_less)

lemma route_all_throws_now:
  assumes k: "k < length (rt_interfaces rt)" and ks: "\<forall>j \<in> set ks. j < length (rt_interfaces rt)" "k \<notin> set ks"
    and t: "throws_at rt (datagrams_out rt k) rt' e d rest"
  shows "\<exists>rt''. route_all (k # ks) rt = (rt'', Inl e) \<and> map an_interface (rt_interfaces rt'') = map an_interface (rt_interfaces rt') \<and>
    concat (map (datagrams_out rt'') (k # ks)) = hop d # rest @ concat (map (datagrams_out rt) ks) \<and>
    (\<forall>j < length (rt_interfaces rt). j \<noteq> k \<longrightarrow> datagrams_out rt'' j = datagrams_out rt j)"
proof -
  let ?rt2 = "set_datagrams_out rt' k (hop d # rest)"
  have q: "datagrams_out ?rt2 j = (if j = k then hop d # rest else datagrams_out rt j)"
    if "j < length (rt_interfaces rt)" for j
    using that k throws_at_datagrams_out [OF t] throws_at_length [OF t] by simp
  have "map (datagrams_out ?rt2) ks = map (datagrams_out rt) ks" using q ks by (intro map_cong) auto
  then have "concat (map (datagrams_out ?rt2) (k # ks)) = hop d # rest @ concat (map (datagrams_out rt) ks)"
    using q [OF k] by (simp del: map_eq_conv)
  moreover have "route_all (k # ks) rt = (?rt2, Inl e)" using route_queue_throws [OF k t] by simp
  ultimately show ?thesis using q by (intro exI [of _ ?rt2]) simp
qed

lemma route_all_throws:
  assumes "distinct ks" and "\<forall>k \<in> set ks. k < length (rt_interfaces rt)"
    and "throws_at rt (concat (map (datagrams_out rt) ks)) rt' e d rest"
  shows "\<exists>rt''. route_all ks rt = (rt'', Inl e) \<and> map an_interface (rt_interfaces rt'') = map an_interface (rt_interfaces rt') \<and>
    concat (map (datagrams_out rt'') ks) = hop d # rest \<and>
    (\<forall>j < length (rt_interfaces rt). j \<notin> set ks \<longrightarrow> datagrams_out rt'' j = datagrams_out rt j)"
  using assms
proof (induction ks arbitrary: rt rt' rest)
  case Nil
  then show ?case by (simp add: throws_at_def)
next
  case (Cons k ks)
  have k: "k < length (rt_interfaces rt)" and ks: "\<forall>j \<in> set ks. j < length (rt_interfaces rt)" "k \<notin> set ks"
    using Cons.prems(1,2) by auto
  let ?later = "concat (map (datagrams_out rt) ks)"
  obtain rt1 res where one: "route_each rt (datagrams_out rt k) = (rt1, res)" by fastforce
  show ?case
  proof (cases res)
    case (Inl e1)
    obtain d1 rest1 where t1: "throws_at rt (datagrams_out rt k) rt1 e1 d1 rest1"
      using route_each_throws one Inl by blast
    from throws_at_prefix [OF this, of ?later] have same: "rt1 = rt'" "e1 = e" "d1 = d" "rest = rest1 @ ?later"
      using throws_at_unique Cons.prems(3) by fastforce+
    then show ?thesis using route_all_throws_now [OF k ks t1] by (auto simp del: route_all.simps)
  next
    case (Inr u)
    then have each: "route_each rt (datagrams_out rt k) = (rt1, Inr ())" using one by simp
    let ?rt2 = "set_datagrams_out rt1 k []"
    have len: "length (rt_interfaces rt1) = length (rt_interfaces rt)"
      using route_each_length [of rt "datagrams_out rt k"] each by simp
    have q: "datagrams_out ?rt2 j = (if j = k then [] else datagrams_out rt j)" if "j < length (rt_interfaces rt)" for j
      using that k len route_each_datagrams_out [of j rt "datagrams_out rt k"] each by simp
    have t2: "throws_at rt1 ?later rt' e d rest" using Cons.prems(3) by (intro throws_at_later [OF each]) simp
    have later: "concat (map (datagrams_out ?rt2) ks) = ?later" using q ks by (metis (mono_tags, lifting) map_cong)
    have "throws_at ?rt2 (concat (map (datagrams_out ?rt2) ks)) (set_datagrams_out rt' k []) e d rest"
      unfolding later by (rule throws_at_set_datagrams_out [OF _ t2]) (use k len in simp)
    from Cons.IH [OF _ _ this] Cons.prems(1) ks(1) len obtain rt'' where all: "route_all ks ?rt2 = (rt'', Inl e)"
      and "map an_interface (rt_interfaces rt'') = map an_interface (rt_interfaces rt')"
      and rest: "concat (map (datagrams_out rt'') ks) = hop d # rest"
      and out: "\<And>j. j < length (rt_interfaces rt) \<Longrightarrow> j \<notin> set ks \<Longrightarrow> datagrams_out rt'' j = datagrams_out ?rt2 j"
      by (simp add: all_conj_distrib) blast
    moreover have "route_all (k # ks) rt = (rt'', Inl e)" using route_queue_each [OF k each] all by simp
    moreover have "datagrams_out rt'' k = []" using out [OF k ks(2)] q [OF k] by simp
    ultimately show ?thesis using out q rest by (intro exI [of _ rt'']) simp
  qed
qed

lemma datagrams_out_all: "map (datagrams_out rt) [0..<length (rt_interfaces rt)] = map an_datagrams_out (rt_interfaces rt)"
  by (rule nth_equalityI) (simp_all add: datagrams_out_def)

text \<open>C24: \<open>route\<close> is routing one by one, in the order of the interfaces and of the arrival of their datagrams, and it
  ends. When none of the received datagrams throws, it returns with the interfaces in the state this leaves behind
  and with every queue of received datagrams empty. Otherwise it throws the error of the first datagram that does,
  with the interfaces in the state the datagrams before it left behind: that datagram is still at the front of its
  queue, its TTL already counted down, and those behind it are untouched.\<close>
theorem route_drains:
  "case route_each rt (concat (map an_datagrams_out (rt_interfaces rt))) of
     (rt', Inr _) \<Rightarrow> Router_route rt = (drained rt', Inr ())
   | (rt', Inl e) \<Rightarrow> \<exists>rt'' d rest. Router_route rt = (rt'', Inl e) \<and>
       throws_at rt (concat (map an_datagrams_out (rt_interfaces rt))) rt' e d rest \<and>
       concat (map an_datagrams_out (rt_interfaces rt'')) = hop d # rest \<and>
       map an_interface (rt_interfaces rt'') = map an_interface (rt_interfaces rt')"
proof -
  let ?ks = "[0..<length (rt_interfaces rt)]" and ?ds = "concat (map an_datagrams_out (rt_interfaces rt))"
  obtain rt' res where each: "route_each rt ?ds = (rt', res)" by fastforce
  have len: "length (rt_interfaces rt') = length (rt_interfaces rt)" using route_each_length each by (metis fst_conv)
  show ?thesis
  proof (cases res)
    case (Inl e)
    then obtain d rest where t: "throws_at rt ?ds rt' e d rest" using each route_each_throws by blast
    then obtain rt'' where "Router_route rt = (rt'', Inl e)"
      and same: "map an_interface (rt_interfaces rt'') = map an_interface (rt_interfaces rt')"
      and "concat (map (datagrams_out rt'') ?ks) = hop d # rest"
      using route_all_throws [of ?ks rt rt' e d rest] by (auto simp: Router_route_def datagrams_out_all)
    moreover from this(2) have "length (rt_interfaces rt'') = length (rt_interfaces rt)" using len by (metis length_map)
    ultimately show ?thesis using each Inl t datagrams_out_all [of rt''] by auto
  next
    case (Inr u)
    then have "Router_route rt = (foldl (\<lambda>rt k. set_datagrams_out rt k []) rt' ?ks, Inr ())"
      unfolding Router_route_def using each by (intro route_all_each) (auto simp: datagrams_out_all)
    then show ?thesis using each Inr len foldl_drained [of "length (rt_interfaces rt)" rt'] by (simp add: drained_def)
  qed
qed

definition busy_router :: Router where
  "busy_router = sample_router\<lparr>
     rt_interfaces := map (\<lambda>an. an\<lparr>an_datagrams_out := [sample_datagram]\<rparr>) (rt_interfaces sample_router),
     rt_forward_table := (rt_forward_table sample_router)(8 := [0x0a \<mapsto> (1, None)])\<rparr>"

theorem route_drains_witness:
  "snd (Router_route busy_router) = Inr () \<and>
   map an_datagrams_out (rt_interfaces (fst (Router_route busy_router))) = [[], []]"
proof -
  let ?ds = "concat (map an_datagrams_out (rt_interfaces busy_router))"
  have "snd (route_each busy_router ?ds) = Inr ()" by code_simp
  then obtain rt' where each: "route_each busy_router ?ds = (rt', Inr ())" by (cases "route_each busy_router ?ds") auto
  have "length (rt_interfaces busy_router) = 2" by (simp add: busy_router_def sample_router_def)
  then have "length (rt_interfaces rt') = 2" using route_each_length each by (metis fst_conv)
  then obtain x y where "rt_interfaces rt' = [x, y]" by (auto simp: numeral_2_eq_2 length_Suc_conv)
  then show ?thesis using route_drains [of busy_router] each by (simp add: drained_def)
qed

end
