(* ===== verification/File_Descriptor.thy ===== *)
theory File_Descriptor
  imports Address Packet_Buffer
begin

text \<open>
  System calls and file descriptors: \<open>SystemCall\<close> of \<open>src/libsponge/util/util.cc\<close> and
  \<open>src/libsponge/util/file_descriptor.{hh,cc}\<close>. The operating system is a parameter: a record \<open>syscalls\<close> of
  functions on an abstract kernel state. A \<open>FileDescriptor\<close> is a shared pointer to an \<open>FDWrapper\<close>, so it is
  modelled as an address into a store of wrappers, and \<open>duplicate\<close> gives the same address: what
  one copy learns about end of file the other copies see. Result: \<open>write\<close> ends, and with \<open>write_all\<close>
  it has written the whole buffer or reports an error.
\<close>

unbundle bit_operations_syntax

subsection \<open>The operating system\<close>

text \<open>A system call gives the new kernel state, its return value and the value of \<open>errno\<close>. Data
  that the kernel stores into a buffer of the caller is a further component: the bytes read, the raw
  address with its length, the value of an option, the events that poll found.\<close>

type_synonym 'k reply = "'k \<times> int \<times> int"

type_synonym iovecs = "(bytes \<times> u64) list"

record 'k syscalls =
  sys_close :: "'k \<Rightarrow> int \<Rightarrow> 'k reply"
  sys_read :: "'k \<Rightarrow> int \<Rightarrow> u64 \<Rightarrow> 'k reply \<times> bytes"
  sys_writev :: "'k \<Rightarrow> int \<Rightarrow> iovecs \<Rightarrow> 'k reply"
  sys_fcntl :: "'k \<Rightarrow> int \<Rightarrow> int \<Rightarrow> int \<Rightarrow> 'k reply"
  sys_poll :: "'k \<Rightarrow> (int \<times> u16) list \<Rightarrow> int \<Rightarrow> 'k reply \<times> u16 list"
  sys_socket :: "'k \<Rightarrow> int \<Rightarrow> int \<Rightarrow> int \<Rightarrow> 'k reply"
  sys_socketpair :: "'k \<Rightarrow> int \<Rightarrow> int \<Rightarrow> int \<Rightarrow> 'k reply \<times> int \<times> int"
  sys_getsockopt :: "'k \<Rightarrow> int \<Rightarrow> int \<Rightarrow> int \<Rightarrow> 'k reply \<times> int \<times> u32"
  sys_setsockopt :: "'k \<Rightarrow> int \<Rightarrow> int \<Rightarrow> int \<Rightarrow> int \<Rightarrow> 'k reply"
  sys_getsockname :: "'k \<Rightarrow> int \<Rightarrow> 'k reply \<times> bytes \<times> u32"
  sys_getpeername :: "'k \<Rightarrow> int \<Rightarrow> 'k reply \<times> bytes \<times> u32"
  sys_bind :: "'k \<Rightarrow> int \<Rightarrow> bytes \<Rightarrow> u32 \<Rightarrow> 'k reply"
  sys_connect :: "'k \<Rightarrow> int \<Rightarrow> bytes \<Rightarrow> u32 \<Rightarrow> 'k reply"
  sys_shutdown :: "'k \<Rightarrow> int \<Rightarrow> int \<Rightarrow> 'k reply"
  sys_recvfrom :: "'k \<Rightarrow> int \<Rightarrow> u64 \<Rightarrow> int \<Rightarrow> 'k reply \<times> bytes \<times> bytes \<times> u32"
  sys_sendmsg :: "'k \<Rightarrow> int \<Rightarrow> bytes \<Rightarrow> u32 \<Rightarrow> iovecs \<Rightarrow> int \<Rightarrow> 'k reply"
  sys_listen :: "'k \<Rightarrow> int \<Rightarrow> int \<Rightarrow> 'k reply"
  sys_accept :: "'k \<Rightarrow> int \<Rightarrow> 'k reply"
  sys_open :: "'k \<Rightarrow> string \<Rightarrow> int \<Rightarrow> 'k reply"
  sys_ioctl :: "'k \<Rightarrow> int \<Rightarrow> string \<Rightarrow> string \<times> u16 \<Rightarrow> 'k reply"

text \<open>The parameter \<open>return_value\<close> is an \<open>int\<close>: the \<open>ssize_t\<close> of read and writev is converted.\<close>

definition to_int :: "int \<Rightarrow> int" where
  "to_int r = sint (word_of_int r :: u32)"

definition SystemCall :: "string \<Rightarrow> int \<Rightarrow> int \<Rightarrow> int \<Rightarrow> int result" where
  "SystemCall attempt return_value errno errno_mask =
     (let return_value = to_int return_value
      in if return_value \<ge> 0 \<or> errno = errno_mask then Inr return_value
         else Inl (System_error attempt errno))"

subsection \<open>FDWrapper\<close>

record FDWrapper =
  fdw_fd :: int
  fdw_eof :: bool
  fdw_closed :: bool
  fdw_read_count :: u32
  fdw_write_count :: u32

definition int_to_string :: "int \<Rightarrow> string" where
  "int_to_string i = (if i < 0 then ''-'' @ dec (nat (- i)) else dec (nat i))"

definition FDWrapper_init :: "int \<Rightarrow> FDWrapper result" where
  "FDWrapper_init fd =
     (if fd < 0 then Inl (Runtime_error (''invalid fd number:'' @ int_to_string fd))
      else Inr \<lparr>fdw_fd = fd, fdw_eof = False, fdw_closed = False, fdw_read_count = 0, fdw_write_count = 0\<rparr>)"

text \<open>The state of a process: the kernel and the store of wrappers, with the next free address. The
  programs extend the record by their own variables, and the operations work on every extension.\<close>

type_synonym FileDescriptor = nat

record 'k os =
  os_kernel :: 'k
  os_wrappers :: "FileDescriptor \<Rightarrow> FDWrapper"
  os_next :: FileDescriptor

definition os_call :: "('k, 'm) os_scheme \<Rightarrow> string \<Rightarrow> 'k reply \<Rightarrow> int \<Rightarrow> ('k, 'm) os_scheme \<times> int result" where
  "os_call os attempt reply errno_mask =
     (case reply of (k, r, errno) \<Rightarrow> (os\<lparr>os_kernel := k\<rparr>, SystemCall attempt r errno errno_mask))"

definition update_wrapper :: "FileDescriptor \<Rightarrow> (FDWrapper \<Rightarrow> FDWrapper) \<Rightarrow> ('k, 'm) os_scheme \<Rightarrow> ('k, 'm) os_scheme" where
  "update_wrapper fd f os = os\<lparr>os_wrappers := (os_wrappers os)(fd := f (os_wrappers os fd))\<rparr>"

definition FDWrapper_close :: "'k syscalls \<Rightarrow> ('k, 'm) os_scheme \<Rightarrow> FileDescriptor \<Rightarrow> ('k, 'm) os_scheme \<times> unit result" where
  "FDWrapper_close sys os fd =
     (case os_call os ''close'' (sys_close sys (os_kernel os) (fdw_fd (os_wrappers os fd))) 0 of
        (os, Inl e) \<Rightarrow> (os, Inl e)
      | (os, Inr _) \<Rightarrow>
          (update_wrapper fd (\<lambda>w. w\<lparr>fdw_closed := True, fdw_eof := True\<rparr>) os, Inr ()))"

text \<open>The destructor, which runs when the last \<open>FileDescriptor\<close> of the wrapper goes: an exception is only
  reported.\<close>

definition FDWrapper_destroy :: "'k syscalls \<Rightarrow> ('k, 'm) os_scheme \<Rightarrow> FileDescriptor \<Rightarrow> ('k, 'm) os_scheme" where
  "FDWrapper_destroy sys os fd =
     (if fdw_closed (os_wrappers os fd) then os else fst (FDWrapper_close sys os fd))"

subsection \<open>FileDescriptor\<close>

definition FileDescriptor_of_fd :: "('k, 'm) os_scheme \<Rightarrow> int \<Rightarrow> ('k, 'm) os_scheme \<times> FileDescriptor result" where
  "FileDescriptor_of_fd os fd =
     (case FDWrapper_init fd of
        Inl e \<Rightarrow> (os, Inl e)
      | Inr w \<Rightarrow> (os\<lparr>os_wrappers := (os_wrappers os)(os_next os := w), os_next := os_next os + 1\<rparr>,
          Inr (os_next os)))"

definition FileDescriptor_duplicate :: "FileDescriptor \<Rightarrow> FileDescriptor" where
  "FileDescriptor_duplicate fd = fd"

definition FileDescriptor_close :: "'k syscalls \<Rightarrow> ('k, 'm) os_scheme \<Rightarrow> FileDescriptor \<Rightarrow> ('k, 'm) os_scheme \<times> unit result" where
  "FileDescriptor_close sys os fd = FDWrapper_close sys os fd"

definition FileDescriptor_fd_num :: "('k, 'm) os_scheme \<Rightarrow> FileDescriptor \<Rightarrow> int" where
  "FileDescriptor_fd_num os fd = fdw_fd (os_wrappers os fd)"

definition FileDescriptor_eof :: "('k, 'm) os_scheme \<Rightarrow> FileDescriptor \<Rightarrow> bool" where
  "FileDescriptor_eof os fd = fdw_eof (os_wrappers os fd)"

definition FileDescriptor_closed :: "('k, 'm) os_scheme \<Rightarrow> FileDescriptor \<Rightarrow> bool" where
  "FileDescriptor_closed os fd = fdw_closed (os_wrappers os fd)"

definition FileDescriptor_read_count :: "('k, 'm) os_scheme \<Rightarrow> FileDescriptor \<Rightarrow> u32" where
  "FileDescriptor_read_count os fd = fdw_read_count (os_wrappers os fd)"

definition FileDescriptor_write_count :: "('k, 'm) os_scheme \<Rightarrow> FileDescriptor \<Rightarrow> u32" where
  "FileDescriptor_write_count os fd = fdw_write_count (os_wrappers os fd)"

definition register_read :: "FileDescriptor \<Rightarrow> ('k, 'm) os_scheme \<Rightarrow> ('k, 'm) os_scheme" where
  "register_read fd = update_wrapper fd (\<lambda>w. w\<lparr>fdw_read_count := fdw_read_count w + 1\<rparr>)"

definition register_write :: "FileDescriptor \<Rightarrow> ('k, 'm) os_scheme \<Rightarrow> ('k, 'm) os_scheme" where
  "register_write fd = update_wrapper fd (\<lambda>w. w\<lparr>fdw_write_count := fdw_write_count w + 1\<rparr>)"

text \<open>The string is resized to the size asked for, filled from the front by the kernel and cut to what
  was read. A negative count, which only a failed call with an \<open>errno\<close> of 0 lets through, is a huge
  size for \<open>resize\<close>.\<close>

definition BUFFER_SIZE :: u64 where "BUFFER_SIZE = 1024 * 1024"

definition FileDescriptor_read ::
  "'k syscalls \<Rightarrow> ('k, 'm) os_scheme \<Rightarrow> FileDescriptor \<Rightarrow> u64 \<Rightarrow> ('k, 'm) os_scheme \<times> bytes result" where
  "FileDescriptor_read sys os fd limit =
     (let size_to_read = min BUFFER_SIZE limit;
          (reply, data) = sys_read sys (os_kernel os) (FileDescriptor_fd_num os fd) size_to_read
      in case os_call os ''read'' reply 0 of
           (os, Inl e) \<Rightarrow> (os, Inl e)
         | (os, Inr bytes_read) \<Rightarrow>
             let os = (if limit > 0 \<and> bytes_read = 0
                       then update_wrapper fd (\<lambda>w. w\<lparr>fdw_eof := True\<rparr>) os else os)
             in if bytes_read > uint size_to_read
                then (os, Inl (Runtime_error ''read() read more than requested''))
                else if bytes_read < 0 then (os, Inl (Length_error ''basic_string::_M_replace_aux''))
                else (register_read fd os,
                      Inr (take (nat bytes_read) (data @ replicate (unat size_to_read) 0))))"

text \<open>The loop of \<open>write\<close>.\<close>

lemma to_int_bounds: "- (2 ^ 31) \<le> to_int r" "to_int r < 2 ^ 31"
  using sint_range_size [of "word_of_int r :: u32"] by (simp_all add: to_int_def word_size)

lemma to_int_id: "- (2 ^ 31) \<le> r \<Longrightarrow> r < 2 ^ 31 \<Longrightarrow> to_int r = r"
  by (simp add: to_int_def signed_of_int signed_take_bit_int_eq_self)

lemma os_call_bounds:
  assumes "os_call os attempt reply errno_mask = (os', Inr n)"
  shows "- (2 ^ 31) \<le> n" "n < 2 ^ 31"
  using assms to_int_bounds by (auto simp: os_call_def SystemCall_def Let_def split: prod.splits if_splits)

lemma remove_prefix_shrinks:
  assumes "BufferViewList_remove_prefix vs n = Inr vs'" and "n \<noteq> 0"
  shows "length (concat vs') + length vs' < length (concat vs) + length vs"
  using assms
proof (induction vs arbitrary: n)
  case (Cons v vs)
  show ?case
  proof (cases "n < sz v")
    case True
    then have "v \<noteq> []" by auto
    with True Cons.prems show ?thesis by (auto simp: word_gt_0 unat_gt_0 split: if_splits)
  next
    case False
    then have rest: "BufferViewList_remove_prefix vs (n - sz v) = Inr vs'"
      using Cons.prems by (simp add: word_gt_0)
    show ?thesis
    proof (cases "n - sz v = 0")
      case True
      then have "vs' = vs" using rest by (cases vs) auto
      then show ?thesis by simp
    next
      case False
      from Cons.IH [OF rest this] show ?thesis by simp
    qed
  qed
qed (simp add: word_gt_0)

text \<open>Unless the loop ends, the views that are left are fewer or shorter.\<close>

lemma write_progress:
  assumes "os_call os attempt reply errno_mask = (os', Inr n)"
    and "n = 0 \<Longrightarrow> BufferViewList_size buffer = 0"
    and "BufferViewList_remove_prefix buffer (word_of_int n) = Inr buffer'"
    and "BufferViewList_size buffer' \<noteq> 0"
  shows "length (concat buffer') + length buffer' < length (concat buffer) + length buffer"
proof (rule remove_prefix_shrinks [OF assms(3)])
  show "word_of_int n \<noteq> (0 :: u64)"
  proof
    assume z: "word_of_int n = (0 :: u64)"
    have "- (2 ^ 31) \<le> n" "n < 2 ^ 31" using os_call_bounds [OF assms(1)] by simp_all
    moreover have "2 ^ 64 dvd n" using z by (simp add: word_of_int_eq_0_iff)
    ultimately have "n = 0" using zdvd_not_zless [of n "2 ^ 64"] zdvd_not_zless [of "- n" "2 ^ 64"] by force
    with assms(2-4) show False by (cases buffer) (auto split: if_splits)
  qed
qed

function write_loop ::
  "'k syscalls \<Rightarrow> ('k, 'm) os_scheme \<Rightarrow> FileDescriptor \<Rightarrow> BufferViewList \<Rightarrow> bool \<Rightarrow> u64 \<Rightarrow> ('k, 'm) os_scheme \<times> u64 result" where
  "write_loop sys os fd buffer write_all total_bytes_written =
     (case os_call os ''writev'' (sys_writev sys (os_kernel os) (FileDescriptor_fd_num os fd)
             (BufferViewList_as_iovecs buffer)) 0 of
        (os, Inl e) \<Rightarrow> (os, Inl e)
      | (os, Inr bytes_written) \<Rightarrow>
          if bytes_written = 0 \<and> BufferViewList_size buffer \<noteq> 0
          then (os, Inl (Runtime_error ''write returned 0 given non-empty input buffer''))
          else if bytes_written > sint (BufferViewList_size buffer)
          then (os, Inl (Runtime_error ''write wrote more than length of input buffer''))
          else
            let os = register_write fd os
            in case BufferViewList_remove_prefix buffer (word_of_int bytes_written) of
                 Inl e \<Rightarrow> (os, Inl e)
               | Inr buffer \<Rightarrow>
                   let total_bytes_written = total_bytes_written + word_of_int bytes_written
                   in if write_all \<and> BufferViewList_size buffer \<noteq> 0
                      then write_loop sys os fd buffer write_all total_bytes_written
                      else (os, Inr total_bytes_written))"
  by pat_completeness auto
termination
proof (relation "measure (\<lambda>(sys, os, fd, buffer, rest). length (concat buffer) + length buffer)", goal_cases)
  case 2
  then show ?case by (auto intro: write_progress [OF sym])
qed simp

declare write_loop.simps [simp del]

definition FileDescriptor_write ::
  "'k syscalls \<Rightarrow> ('k, 'm) os_scheme \<Rightarrow> FileDescriptor \<Rightarrow> BufferViewList \<Rightarrow> bool \<Rightarrow> ('k, 'm) os_scheme \<times> u64 result" where
  "FileDescriptor_write sys os fd buffer write_all = write_loop sys os fd buffer write_all 0"

definition F_GETFL :: int where "F_GETFL = 3"
definition F_SETFL :: int where "F_SETFL = 4"
definition O_NONBLOCK :: int where "O_NONBLOCK = 2048"

definition FileDescriptor_set_blocking ::
  "'k syscalls \<Rightarrow> ('k, 'm) os_scheme \<Rightarrow> FileDescriptor \<Rightarrow> bool \<Rightarrow> ('k, 'm) os_scheme \<times> unit result" where
  "FileDescriptor_set_blocking sys os fd blocking_state =
     (case os_call os ''fcntl'' (sys_fcntl sys (os_kernel os) (FileDescriptor_fd_num os fd) F_GETFL 0) 0 of
        (os, Inl e) \<Rightarrow> (os, Inl e)
      | (os, Inr flags) \<Rightarrow>
          let flags = (if blocking_state then flags XOR (flags AND O_NONBLOCK) else flags OR O_NONBLOCK)
          in case os_call os ''fcntl''
                    (sys_fcntl sys (os_kernel os) (FileDescriptor_fd_num os fd) F_SETFL flags) 0 of
               (os, Inl e) \<Rightarrow> (os, Inl e)
             | (os, Inr _) \<Rightarrow> (os, Inr ()))"

subsection \<open>Writing everything\<close>

text \<open>What \<open>writev\<close> promises: it fails with -1 and an error number, having written nothing, or it
  writes a prefix of the data and returns its length, never more than \<open>0x7ffff000\<close> bytes. \<open>sent\<close> is what
  has been written to each descriptor.\<close>

definition writev_law :: "'k syscalls \<Rightarrow> ('k \<Rightarrow> int \<Rightarrow> bytes) \<Rightarrow> bool" where
  "writev_law sys sent \<longleftrightarrow>
     (\<forall>k fd iov. case sys_writev sys k fd iov of (k', r, errno) \<Rightarrow>
        (r = -1 \<and> errno \<noteq> 0 \<and> sent k' = sent k) \<or>
        (\<exists>n. r = int n \<and> n \<le> length (concat (map fst iov)) \<and> n \<le> 0x7ffff000 \<and>
           sent k' = (sent k)(fd := sent k fd @ take n (concat (map fst iov)))))"

lemma update_wrapper_simps [simp]:
  "os_kernel (update_wrapper fd f os) = os_kernel os"
  "os_wrappers (update_wrapper fd f os) fd = f (os_wrappers os fd)"
  by (simp_all add: update_wrapper_def)

lemma register_simps [simp]:
  "os_kernel (register_write fd os) = os_kernel os" "os_kernel (register_read fd os) = os_kernel os"
  "FileDescriptor_fd_num (register_write fd os) fd = FileDescriptor_fd_num os fd"
  "FileDescriptor_fd_num (register_read fd os) fd = FileDescriptor_fd_num os fd"
  "FileDescriptor_fd_num (os\<lparr>os_kernel := k\<rparr>) fd = FileDescriptor_fd_num os fd"
  by (simp_all add: register_write_def register_read_def FileDescriptor_fd_num_def)

lemma writev_reply:
  assumes law: "writev_law sys sent"
    and call: "os_call os ''writev'' (sys_writev sys (os_kernel os) fd iov) 0 = (os', res)"
  shows "(\<exists>c. res = Inl (System_error ''writev'' c) \<and> sent (os_kernel os') = sent (os_kernel os)) \<or>
    (\<exists>n k. res = Inr (int n) \<and> n \<le> length (concat (map fst iov)) \<and> os' = os\<lparr>os_kernel := k\<rparr> \<and>
       sent k = (sent (os_kernel os))(fd := sent (os_kernel os) fd @ take n (concat (map fst iov))))"
proof (cases "sys_writev sys (os_kernel os) fd iov")
  case (fields k r errno)
  have "to_int (- 1) = - 1" by (simp add: to_int_id)
  moreover have "to_int (int n) = int n" if "n \<le> 0x7ffff000" for n by (rule to_int_id) (use that in auto)
  moreover have "(r = -1 \<and> errno \<noteq> 0 \<and> sent k = sent (os_kernel os)) \<or>
      (\<exists>n. r = int n \<and> n \<le> length (concat (map fst iov)) \<and> n \<le> 0x7ffff000 \<and>
         sent k = (sent (os_kernel os))(fd := sent (os_kernel os) fd @ take n (concat (map fst iov))))"
    using law [unfolded writev_law_def, rule_format, of "os_kernel os" iov fd] fields by simp
  ultimately show ?thesis
    using call fields by (auto simp: os_call_def SystemCall_def)
qed

lemma concat_iovecs [simp]: "concat (map fst (BufferViewList_as_iovecs vs)) = concat vs"
  by (induction vs) (simp_all add: BufferViewList_as_iovecs_def)

lemma write_step:
  assumes law: "writev_law sys sent" and len: "length (concat buffer) < 2 ^ 63"
    and num: "FileDescriptor_fd_num os fd = num"
  shows "(\<exists>os' e. write_loop sys os fd buffer write_all count = (os', Inl e) \<and>
        sent (os_kernel os') = sent (os_kernel os) \<and>
        ((\<exists>c. e = System_error ''writev'' c) \<or>
         e = Runtime_error ''write returned 0 given non-empty input buffer'')) \<or>
    (\<exists>n os' buffer'. n \<le> length (concat buffer) \<and> (n = 0 \<longrightarrow> concat buffer = []) \<and>
        concat buffer' = drop n (concat buffer) \<and> FileDescriptor_fd_num os' fd = num \<and>
        sent (os_kernel os')
          = (sent (os_kernel os))(num := sent (os_kernel os) num @ take n (concat buffer)) \<and>
        write_loop sys os fd buffer write_all count =
          (if write_all \<and> n < length (concat buffer) then write_loop sys os' fd buffer' write_all (count + of_nat n)
           else (os', Inr (count + of_nat n))))"
proof -
  have fits: "BufferViewList_fits buffer" using len by (simp add: BufferViewList_fits_def)
  have size_num: "unat (BufferViewList_size buffer) = length (concat buffer)"
    by (rule views.unat_size [OF fits])
  have "uint (BufferViewList_size buffer) = int (length (concat buffer))" using size_num by (metis uint_nat)
  then have sint_num: "sint (BufferViewList_size buffer) = int (length (concat buffer))"
    using len by (simp add: sint_uint signed_take_bit_int_eq_self)
  obtain os1 res where call: "os_call os ''writev'' (sys_writev sys (os_kernel os) num
      (BufferViewList_as_iovecs buffer)) 0 = (os1, res)" by fastforce
  from writev_reply [OF law call] consider
      (failed) c where "res = Inl (System_error ''writev'' c)" "sent (os_kernel os1) = sent (os_kernel os)"
    | (wrote) n k where "res = Inr (int n)" "n \<le> length (concat buffer)" "os1 = os\<lparr>os_kernel := k\<rparr>"
        "sent k = (sent (os_kernel os))(num := sent (os_kernel os) num @ take n (concat buffer))"
    by auto
  then show ?thesis
  proof cases
    case failed
    then show ?thesis using call by (subst write_loop.simps) (simp add: num)
  next
    case wrote
    show ?thesis
    proof (cases "n = 0 \<and> concat buffer \<noteq> []")
      case True
      then have "BufferViewList_size buffer \<noteq> 0" using size_num by force
      with True wrote call show ?thesis by (subst write_loop.simps) (simp add: num)
    next
      case False
      have "unat (of_nat n :: u64) = n" using wrote(2) len by (intro unat_of_nat_u64) simp
      then obtain buffer' where b': "BufferViewList_remove_prefix buffer (of_nat n) = Inr buffer'"
          "BufferViewList_fits buffer'" "concat buffer' = drop n (concat buffer)"
        using views.drop_ok [OF fits, of "of_nat n"] wrote(2) by auto
      have "BufferViewList_size buffer' \<noteq> 0 \<longleftrightarrow> n < length (concat buffer)"
        using views.unat_size [OF b'(2)] b'(3) by (auto simp: word_unat_eq_iff)
      moreover have "n = 0 \<Longrightarrow> BufferViewList_size buffer = 0"
        using False size_num by (auto simp: word_unat_eq_iff)
      ultimately have "write_loop sys os fd buffer write_all count =
          (if write_all \<and> n < length (concat buffer)
           then write_loop sys (register_write fd os1) fd buffer' write_all (count + of_nat n)
           else (register_write fd os1, Inr (count + of_nat n)))"
        using call wrote(1,2) b'(1) sint_num
        by (subst write_loop.simps) (auto simp: num Let_def)
      then show ?thesis using False wrote b'(3) by (intro disjI2 exI [of _ n] exI) (auto simp: num)
    qed
  qed
qed

lemma write_all_spec:
  assumes law: "writev_law sys sent" and "length (concat buffer) < 2 ^ 63"
    and "FileDescriptor_fd_num os fd = num"
  shows "case write_loop sys os fd buffer True count of
      (os', Inr n) \<Rightarrow> n = count + sz (concat buffer) \<and>
        sent (os_kernel os') = (sent (os_kernel os))(num := sent (os_kernel os) num @ concat buffer)
    | (os', Inl e) \<Rightarrow>
        (\<exists>n. sent (os_kernel os') = (sent (os_kernel os))(num := sent (os_kernel os) num @ take n (concat buffer))) \<and>
        ((\<exists>c. e = System_error ''writev'' c) \<or>
         e = Runtime_error ''write returned 0 given non-empty input buffer'')"
  using assms(2,3)
proof (induction "length (concat buffer)" arbitrary: buffer os count rule: less_induct)
  case less
  from write_step [OF law less.prems, of True count] show ?case
  proof (elim disjE exE conjE, goal_cases)
    case (1 os' e)
    then show ?case by (auto intro: exI [of _ 0])
  next
    case (2 os' e)
    then show ?case by (auto intro: exI [of _ 0])
  next
    case (3 n os' buffer')
    show ?case
    proof (cases "n < length (concat buffer)")
      case True
      then have "0 < n" using 3(2) by (cases n) (simp, simp)
      then have less': "length (concat buffer') < length (concat buffer)" using True 3(3) by simp
      have sz': "of_nat n + sz (concat buffer') = sz (concat buffer)"
        using 3(1,3) by (simp flip: of_nat_add)
      have "(\<exists>m. take n (concat buffer) @ take j (drop n (concat buffer)) = take m (concat buffer))" for j
        using take_add [of n j "concat buffer"] by metis
      then show ?thesis
        using less.hyps [OF less' _ 3(4), of "count + of_nat n"] less.prems(1) less' 3 True sz'
        by (fastforce simp: add.assoc split: prod.splits sum.splits)
    next
      case False
      then show ?thesis using 3 by simp
    qed
  qed
qed

text \<open>C23: \<open>write\<close> writes everything. Whatever pieces the operating system accepts at a time, a call of
  \<open>write\<close> with \<open>write_all\<close> ends; when it returns, it returns the length of the buffer and the whole
  buffer, in order and once, has been written to the descriptor; when it throws, a prefix has been
  written, and the cause is an error of \<open>writev\<close> or its refusal to write any byte.\<close>
theorem write_all_or_error:
  assumes "writev_law sys sent" and "length (concat buffer) < 2 ^ 63"
  shows "case FileDescriptor_write sys os fd buffer True of
      (os', Inr n) \<Rightarrow> n = sz (concat buffer) \<and>
        sent (os_kernel os') = (sent (os_kernel os))
          (FileDescriptor_fd_num os fd := sent (os_kernel os) (FileDescriptor_fd_num os fd) @ concat buffer)
    | (os', Inl e) \<Rightarrow>
        (\<exists>n. sent (os_kernel os') = (sent (os_kernel os))
           (FileDescriptor_fd_num os fd := sent (os_kernel os) (FileDescriptor_fd_num os fd) @ take n (concat buffer))) \<and>
        ((\<exists>c. e = System_error ''writev'' c) \<or>
         e = Runtime_error ''write returned 0 given non-empty input buffer'')"
  using write_all_spec [OF assms refl, of os fd 0] by (simp add: FileDescriptor_write_def split: prod.splits sum.splits)

text \<open>For concrete runs: a kernel in which no call is implemented (\<open>ENOSYS\<close>), and one that accepts at
  most three bytes at a time.\<close>

definition ENOSYS :: int where "ENOSYS = 38"

definition no_syscalls :: "'k syscalls" where
  "no_syscalls =
     \<lparr>sys_close = \<lambda>k _. (k, -1, ENOSYS), sys_read = \<lambda>k _ _. ((k, -1, ENOSYS), []),
      sys_writev = \<lambda>k _ _. (k, -1, ENOSYS), sys_fcntl = \<lambda>k _ _ _. (k, -1, ENOSYS),
      sys_poll = \<lambda>k _ _. ((k, -1, ENOSYS), []), sys_socket = \<lambda>k _ _ _. (k, -1, ENOSYS),
      sys_socketpair = \<lambda>k _ _ _. ((k, -1, ENOSYS), 0, 0), sys_getsockopt = \<lambda>k _ _ _. ((k, -1, ENOSYS), 0, 0),
      sys_setsockopt = \<lambda>k _ _ _ _. (k, -1, ENOSYS), sys_getsockname = \<lambda>k _. ((k, -1, ENOSYS), [], 0),
      sys_getpeername = \<lambda>k _. ((k, -1, ENOSYS), [], 0), sys_bind = \<lambda>k _ _ _. (k, -1, ENOSYS),
      sys_connect = \<lambda>k _ _ _. (k, -1, ENOSYS), sys_shutdown = \<lambda>k _ _. (k, -1, ENOSYS),
      sys_recvfrom = \<lambda>k _ _ _. ((k, -1, ENOSYS), [], [], 0), sys_sendmsg = \<lambda>k _ _ _ _ _. (k, -1, ENOSYS),
      sys_listen = \<lambda>k _ _. (k, -1, ENOSYS), sys_accept = \<lambda>k _. (k, -1, ENOSYS),
      sys_open = \<lambda>k _ _. (k, -1, ENOSYS), sys_ioctl = \<lambda>k _ _ _. (k, -1, ENOSYS)\<rparr>"

definition slow_writev :: "(int \<Rightarrow> bytes) \<Rightarrow> int \<Rightarrow> iovecs \<Rightarrow> (int \<Rightarrow> bytes) reply" where
  "slow_writev k fd iov =
     (let data = take 3 (concat (map fst iov)) in (k(fd := k fd @ data), int (length data), 0))"

definition one_fd :: "int \<Rightarrow> 'k \<Rightarrow> 'k os" where
  "one_fd num k = \<lparr>os_kernel = k,
     os_wrappers = \<lambda>_. \<lparr>fdw_fd = num, fdw_eof = False, fdw_closed = False, fdw_read_count = 0, fdw_write_count = 0\<rparr>,
     os_next = 1\<rparr>"

theorem write_all_or_error_witness:
  "case FileDescriptor_write (no_syscalls\<lparr>sys_writev := slow_writev\<rparr>) (one_fd 5 (\<lambda>_. []))
      0 [[1, 2], [], [3, 4, 5, 6, 7]] True of
     (os', Inr n) \<Rightarrow> n = 7 \<and> os_kernel os' 5 = [1, 2, 3, 4, 5, 6, 7]
   | (os', Inl e) \<Rightarrow> False"
proof -
  let ?sys = "no_syscalls\<lparr>sys_writev := slow_writev\<rparr> :: (int \<Rightarrow> bytes) syscalls"
  let ?os = "one_fd 5 (\<lambda>_. []) :: (int \<Rightarrow> bytes) os"
  have law: "writev_law ?sys (\<lambda>k. k)" by (auto simp: writev_law_def slow_writev_def Let_def)
  have "\<not> isl (snd (FileDescriptor_write ?sys ?os 0 [[1, 2], [], [3, 4, 5, 6, 7]] True))" by code_simp
  moreover have "FileDescriptor_fd_num ?os 0 = 5" by (simp add: one_fd_def FileDescriptor_fd_num_def)
  moreover have "os_kernel ?os = (\<lambda>_. [])" by (simp add: one_fd_def)
  ultimately show ?thesis
    using write_all_or_error [OF law, of "[[1, 2], [], [3, 4, 5, 6, 7]]" ?os 0]
    by (auto split: prod.splits sum.splits)
qed

end
