(* ===== verification/Sockets.thy ===== *)
theory Sockets
  imports File_Descriptor
begin

text \<open>
  Sockets: \<open>src/libsponge/util/socket.{hh,cc}\<close>. A socket is a \<open>FileDescriptor\<close>; the subclasses differ in the
  domain and type their constructors ask for or verify.
\<close>

definition AF_UNIX :: int where "AF_UNIX = 1"
definition SOCK_STREAM :: int where "SOCK_STREAM = 1"
definition SOCK_DGRAM :: int where "SOCK_DGRAM = 2"
definition SOL_SOCKET :: int where "SOL_SOCKET = 1"
definition SO_REUSEADDR :: int where "SO_REUSEADDR = 2"
definition SO_TYPE :: int where "SO_TYPE = 3"
definition SO_DOMAIN :: int where "SO_DOMAIN = 39"
definition SHUT_RD :: int where "SHUT_RD = 0"
definition SHUT_WR :: int where "SHUT_WR = 1"
definition SHUT_RDWR :: int where "SHUT_RDWR = 2"
definition MSG_TRUNC :: int where "MSG_TRUNC = 32"

subsection \<open>Socket\<close>

definition Socket_new :: "'k syscalls \<Rightarrow> ('k, 'm) os_scheme \<Rightarrow> int \<Rightarrow> int \<Rightarrow> ('k, 'm) os_scheme \<times> FileDescriptor result" where
  "Socket_new sys os domain type =
     (case os_call os ''socket'' (sys_socket sys (os_kernel os) domain type 0) 0 of
        (os, Inl e) \<Rightarrow> (os, Inl e)
      | (os, Inr fd) \<Rightarrow> FileDescriptor_of_fd os fd)"

text \<open>Asks for an option that is an \<open>int\<close> and compares it: the two checks of the constructor.\<close>

definition verify_sockopt ::
  "'k syscalls \<Rightarrow> ('k, 'm) os_scheme \<Rightarrow> FileDescriptor \<Rightarrow> int \<Rightarrow> int \<Rightarrow> string \<Rightarrow> ('k, 'm) os_scheme \<times> unit result" where
  "verify_sockopt sys os fd option expected message =
     (let (reply, actual_value, len) =
            sys_getsockopt sys (os_kernel os) (FileDescriptor_fd_num os fd) SOL_SOCKET option
      in case os_call os ''getsockopt'' reply 0 of
           (os, Inl e) \<Rightarrow> (os, Inl e)
         | (os, Inr _) \<Rightarrow>
             if len \<noteq> 4 \<or> actual_value \<noteq> expected then (os, Inl (Runtime_error message)) else (os, Inr ()))"

definition Socket_of_fd ::
  "'k syscalls \<Rightarrow> ('k, 'm) os_scheme \<Rightarrow> FileDescriptor \<Rightarrow> int \<Rightarrow> int \<Rightarrow> ('k, 'm) os_scheme \<times> FileDescriptor result" where
  "Socket_of_fd sys os fd domain type =
     (case verify_sockopt sys os fd SO_DOMAIN domain ''socket domain mismatch'' of
        (os, Inl e) \<Rightarrow> (os, Inl e)
      | (os, Inr _) \<Rightarrow>
          (case verify_sockopt sys os fd SO_TYPE type ''socket type mismatch'' of
             (os, Inl e) \<Rightarrow> (os, Inl e)
           | (os, Inr _) \<Rightarrow> (os, Inr fd)))"

text \<open>\<open>{address, size}\<close>: the address in a raw buffer of 128 bytes with the length the kernel reports.\<close>

definition Address_of_raw :: "bytes \<Rightarrow> u32 \<Rightarrow> Address result" where
  "Address_of_raw raw len =
     (if unat len > sizeof_sockaddr_storage then Inl (Runtime_error ''invalid sockaddr size'')
      else Address_of_sockaddr (take (unat len) raw))"

definition Socket_get_address ::
  "string \<Rightarrow> ('k \<Rightarrow> int \<Rightarrow> 'k reply \<times> bytes \<times> u32) \<Rightarrow> ('k, 'm) os_scheme \<Rightarrow> FileDescriptor
    \<Rightarrow> ('k, 'm) os_scheme \<times> Address result" where
  "Socket_get_address name_of_function func os fd =
     (let (reply, address, size) = func (os_kernel os) (FileDescriptor_fd_num os fd)
      in case os_call os name_of_function reply 0 of
           (os, Inl e) \<Rightarrow> (os, Inl e)
         | (os, Inr _) \<Rightarrow> (os, Address_of_raw address size))"

definition Socket_local_address ::
  "'k syscalls \<Rightarrow> ('k, 'm) os_scheme \<Rightarrow> FileDescriptor \<Rightarrow> ('k, 'm) os_scheme \<times> Address result" where
  "Socket_local_address sys os fd = Socket_get_address ''getsockname'' (sys_getsockname sys) os fd"

definition Socket_peer_address ::
  "'k syscalls \<Rightarrow> ('k, 'm) os_scheme \<Rightarrow> FileDescriptor \<Rightarrow> ('k, 'm) os_scheme \<times> Address result" where
  "Socket_peer_address sys os fd = Socket_get_address ''getpeername'' (sys_getpeername sys) os fd"

definition Socket_bind ::
  "'k syscalls \<Rightarrow> ('k, 'm) os_scheme \<Rightarrow> FileDescriptor \<Rightarrow> Address \<Rightarrow> ('k, 'm) os_scheme \<times> unit result" where
  "Socket_bind sys os fd address =
     (let (os, ret) = os_call os ''bind'' (sys_bind sys (os_kernel os) (FileDescriptor_fd_num os fd)
            (addr_storage address) (addr_size address)) 0
      in (os, map_sum id (\<lambda>_. ()) ret))"

definition Socket_connect ::
  "'k syscalls \<Rightarrow> ('k, 'm) os_scheme \<Rightarrow> FileDescriptor \<Rightarrow> Address \<Rightarrow> ('k, 'm) os_scheme \<times> unit result" where
  "Socket_connect sys os fd address =
     (let (os, ret) = os_call os ''connect'' (sys_connect sys (os_kernel os) (FileDescriptor_fd_num os fd)
            (addr_storage address) (addr_size address)) 0
      in (os, map_sum id (\<lambda>_. ()) ret))"

definition Socket_shutdown ::
  "'k syscalls \<Rightarrow> ('k, 'm) os_scheme \<Rightarrow> FileDescriptor \<Rightarrow> int \<Rightarrow> ('k, 'm) os_scheme \<times> unit result" where
  "Socket_shutdown sys os fd how =
     (case os_call os ''shutdown'' (sys_shutdown sys (os_kernel os) (FileDescriptor_fd_num os fd) how) 0 of
        (os, Inl e) \<Rightarrow> (os, Inl e)
      | (os, Inr _) \<Rightarrow>
          if how = SHUT_RD then (register_read fd os, Inr ())
          else if how = SHUT_WR then (register_write fd os, Inr ())
          else if how = SHUT_RDWR then (register_write fd (register_read fd os), Inr ())
          else (os, Inl (Runtime_error ''Socket::shutdown() called with invalid `how`'')))"

definition Socket_setsockopt ::
  "'k syscalls \<Rightarrow> ('k, 'm) os_scheme \<Rightarrow> FileDescriptor \<Rightarrow> int \<Rightarrow> int \<Rightarrow> int \<Rightarrow> ('k, 'm) os_scheme \<times> unit result" where
  "Socket_setsockopt sys os fd level option option_value =
     (let (os, ret) = os_call os ''setsockopt''
            (sys_setsockopt sys (os_kernel os) (FileDescriptor_fd_num os fd) level option option_value) 0
      in (os, map_sum id (\<lambda>_. ()) ret))"

definition Socket_set_reuseaddr ::
  "'k syscalls \<Rightarrow> ('k, 'm) os_scheme \<Rightarrow> FileDescriptor \<Rightarrow> ('k, 'm) os_scheme \<times> unit result" where
  "Socket_set_reuseaddr sys os fd = Socket_setsockopt sys os fd SOL_SOCKET SO_REUSEADDR 1"

subsection \<open>UDPSocket\<close>

definition UDPSocket_new :: "'k syscalls \<Rightarrow> ('k, 'm) os_scheme \<Rightarrow> ('k, 'm) os_scheme \<times> FileDescriptor result" where
  "UDPSocket_new sys os = Socket_new sys os AF_INET SOCK_DGRAM"

definition UDPSocket_of_fd ::
  "'k syscalls \<Rightarrow> ('k, 'm) os_scheme \<Rightarrow> FileDescriptor \<Rightarrow> ('k, 'm) os_scheme \<times> FileDescriptor result" where
  "UDPSocket_of_fd sys os fd = Socket_of_fd sys os fd AF_INET SOCK_DGRAM"

record received_datagram =
  rd_source_address :: Address
  rd_payload :: bytes

text \<open>The kernel gives the length of the datagram (with \<open>MSG_TRUNC\<close> also when it is cut), the bytes that fit
  into the buffer, and the address of the sender. The read is registered before the address is
  made, which may throw.\<close>

definition UDPSocket_recv ::
  "'k syscalls \<Rightarrow> ('k, 'm) os_scheme \<Rightarrow> FileDescriptor \<Rightarrow> u64 \<Rightarrow> ('k, 'm) os_scheme \<times> received_datagram result" where
  "UDPSocket_recv sys os fd mtu =
     (let (reply, payload, source, fromlen) =
            sys_recvfrom sys (os_kernel os) (FileDescriptor_fd_num os fd) mtu MSG_TRUNC
      in case os_call os ''recvfrom'' reply 0 of
           (os, Inl e) \<Rightarrow> (os, Inl e)
         | (os, Inr recv_len) \<Rightarrow>
             if recv_len > sint mtu then (os, Inl (Runtime_error ''recvfrom (oversized datagram)''))
             else
               let os = register_read fd os
               in case Address_of_raw source fromlen of
                    Inl e \<Rightarrow> (os, Inl e)
                  | Inr source_address \<Rightarrow>
                      if recv_len < 0 then (os, Inl (Length_error ''basic_string::_M_replace_aux''))
                      else (os, Inr \<lparr>rd_source_address = source_address,
                             rd_payload = take (nat recv_len) (payload @ replicate (unat mtu) 0)\<rparr>))"

definition sendmsg_helper ::
  "'k syscalls \<Rightarrow> ('k, 'm) os_scheme \<Rightarrow> int \<Rightarrow> bytes \<Rightarrow> u32 \<Rightarrow> BufferViewList \<Rightarrow> ('k, 'm) os_scheme \<times> unit result" where
  "sendmsg_helper sys os fd_num destination_address destination_address_len payload =
     (case os_call os ''sendmsg'' (sys_sendmsg sys (os_kernel os) fd_num destination_address
             destination_address_len (BufferViewList_as_iovecs payload) 0) 0 of
        (os, Inl e) \<Rightarrow> (os, Inl e)
      | (os, Inr bytes_sent) \<Rightarrow>
          if word_of_int bytes_sent \<noteq> BufferViewList_size payload
          then (os, Inl (Runtime_error ''datagram payload too big for sendmsg()''))
          else (os, Inr ()))"

definition UDPSocket_sendto ::
  "'k syscalls \<Rightarrow> ('k, 'm) os_scheme \<Rightarrow> FileDescriptor \<Rightarrow> Address \<Rightarrow> BufferViewList \<Rightarrow> ('k, 'm) os_scheme \<times> unit result" where
  "UDPSocket_sendto sys os fd destination payload =
     (case sendmsg_helper sys os (FileDescriptor_fd_num os fd) (addr_storage destination) (addr_size destination) payload of
        (os, Inl e) \<Rightarrow> (os, Inl e)
      | (os, Inr _) \<Rightarrow> (register_write fd os, Inr ()))"

definition UDPSocket_send ::
  "'k syscalls \<Rightarrow> ('k, 'm) os_scheme \<Rightarrow> FileDescriptor \<Rightarrow> BufferViewList \<Rightarrow> ('k, 'm) os_scheme \<times> unit result" where
  "UDPSocket_send sys os fd payload =
     (case sendmsg_helper sys os (FileDescriptor_fd_num os fd) [] 0 payload of
        (os, Inl e) \<Rightarrow> (os, Inl e)
      | (os, Inr _) \<Rightarrow> (register_write fd os, Inr ()))"

subsection \<open>TCPSocket and LocalStreamSocket\<close>

definition TCPSocket_new :: "'k syscalls \<Rightarrow> ('k, 'm) os_scheme \<Rightarrow> ('k, 'm) os_scheme \<times> FileDescriptor result" where
  "TCPSocket_new sys os = Socket_new sys os AF_INET SOCK_STREAM"

definition TCPSocket_of_fd ::
  "'k syscalls \<Rightarrow> ('k, 'm) os_scheme \<Rightarrow> FileDescriptor \<Rightarrow> ('k, 'm) os_scheme \<times> FileDescriptor result" where
  "TCPSocket_of_fd sys os fd = Socket_of_fd sys os fd AF_INET SOCK_STREAM"

definition TCPSocket_listen ::
  "'k syscalls \<Rightarrow> ('k, 'm) os_scheme \<Rightarrow> FileDescriptor \<Rightarrow> int \<Rightarrow> ('k, 'm) os_scheme \<times> unit result" where
  "TCPSocket_listen sys os fd backlog =
     (let (os, ret) = os_call os ''listen'' (sys_listen sys (os_kernel os) (FileDescriptor_fd_num os fd) backlog) 0
      in (os, map_sum id (\<lambda>_. ()) ret))"

definition TCPSocket_accept ::
  "'k syscalls \<Rightarrow> ('k, 'm) os_scheme \<Rightarrow> FileDescriptor \<Rightarrow> ('k, 'm) os_scheme \<times> FileDescriptor result" where
  "TCPSocket_accept sys os fd =
     (let os = register_read fd os
      in case os_call os ''accept'' (sys_accept sys (os_kernel os) (FileDescriptor_fd_num os fd)) 0 of
           (os, Inl e) \<Rightarrow> (os, Inl e)
         | (os, Inr n) \<Rightarrow>
             (case FileDescriptor_of_fd os n of
                (os, Inl e) \<Rightarrow> (os, Inl e)
              | (os, Inr new_fd) \<Rightarrow> TCPSocket_of_fd sys os new_fd))"

definition LocalStreamSocket_of_fd ::
  "'k syscalls \<Rightarrow> ('k, 'm) os_scheme \<Rightarrow> FileDescriptor \<Rightarrow> ('k, 'm) os_scheme \<times> FileDescriptor result" where
  "LocalStreamSocket_of_fd sys os fd = Socket_of_fd sys os fd AF_UNIX SOCK_STREAM"

end
