(* ===== verification/Fd_Adapters.thy ===== *)
theory Fd_Adapters
  imports Sockets TCP_Over_IP Interface_Properties
begin

text \<open>
  The adapters between a connection and a network device: TCP over UDP
  (\<open>src/libsponge/tcp_helpers/fd_adapter.{hh,cc}\<close>), TCP over IP over a TUN or TAP device
  (\<open>tuntap_adapter.{hh,cc}\<close>, \<open>src/libsponge/util/tun.{hh,cc}\<close>) and the wrapper that loses segments
  (\<open>lossy_fd_adapter.hh\<close>). The socket is a template over the adapter: \<open>AdaptT\<close> is the record of the
  operations it uses. A segment is passed by reference from the front of a queue it is popped from
  next, so what \<open>write\<close> changes in it is not kept. Result: a segment written on one host comes out
  on another, through address resolution, Ethernet, IP and the device files.
\<close>

subsection \<open>The interface of the adapters\<close>

record ('k, 'a) AdaptT =
  ad_fd :: "'a \<Rightarrow> FileDescriptor"
  ad_read :: "'k os \<Rightarrow> 'a \<Rightarrow> 'k os \<times> 'a \<times> TCPSegment option result"
  ad_write :: "'k os \<Rightarrow> 'a \<Rightarrow> TCPSegment \<Rightarrow> 'k os \<times> 'a \<times> unit result"
  ad_tick :: "'k os \<Rightarrow> 'a \<Rightarrow> u64 \<Rightarrow> 'k os \<times> 'a \<times> unit result"
  ad_config :: "'a \<Rightarrow> FdAdapterConfig"
  ad_set_config :: "'a \<Rightarrow> FdAdapterConfig \<Rightarrow> 'a"
  ad_set_listening :: "'a \<Rightarrow> bool \<Rightarrow> 'a"

definition FdAdapterBase_default :: "getaddrinfo \<Rightarrow> FdAdapterBase result" where
  "FdAdapterBase_default gai =
     map_sum id (\<lambda>cfg. \<lparr>fa_cfg = cfg, fa_listen = False\<rparr>) (FdAdapterConfig_default gai)"

subsection \<open>TCPOverUDPSocketAdapter\<close>

record TCPOverUDPSocketAdapter =
  ua_base :: FdAdapterBase
  ua_sock :: FileDescriptor

definition TCPOverUDPSocketAdapter_new :: "getaddrinfo \<Rightarrow> FileDescriptor \<Rightarrow> TCPOverUDPSocketAdapter result" where
  "TCPOverUDPSocketAdapter_new gai sock =
     map_sum id (\<lambda>base. \<lparr>ua_base = base, ua_sock = sock\<rparr>) (FdAdapterBase_default gai)"

definition TCPOverUDPSocketAdapter_read ::
  "'k syscalls \<Rightarrow> 'k os \<Rightarrow> TCPOverUDPSocketAdapter
    \<Rightarrow> 'k os \<times> TCPOverUDPSocketAdapter \<times> TCPSegment option result" where
  "TCPOverUDPSocketAdapter_read sys os ad =
     (case UDPSocket_recv sys os (ua_sock ad) 65536 of
        (os, Inl e) \<Rightarrow> (os, ad, Inl e)
      | (os, Inr datagram) \<Rightarrow>
          let base = ua_base ad in
          if \<not> FdAdapterBase_listening base \<and>
             \<not> Address_eq (rd_source_address datagram) (fac_destination (FdAdapterBase_config base))
          then (os, ad, Inr None)
          else
            (case TCPSegment_parse TCPSegment_default (Buffer_of_string (rd_payload datagram)) 0 of
               (res, seg) \<Rightarrow>
                 if NoError \<noteq> res then (os, ad, Inr None)
                 else if FdAdapterBase_listening base then
                   if th_syn (seg_header seg) \<and> \<not> th_rst (seg_header seg)
                   then (os, ad\<lparr>ua_base := FdAdapterBase_set_listening
                          (base\<lparr>fa_cfg := (fa_cfg base)\<lparr>fac_destination := rd_source_address datagram\<rparr>\<rparr>) False\<rparr>,
                         Inr (Some seg))
                   else (os, ad, Inr None)
                 else (os, ad, Inr (Some seg))))"

definition TCPOverUDPSocketAdapter_write ::
  "'k syscalls \<Rightarrow> getnameinfo \<Rightarrow> 'k os \<Rightarrow> TCPOverUDPSocketAdapter \<Rightarrow> TCPSegment
    \<Rightarrow> 'k os \<times> TCPOverUDPSocketAdapter \<times> unit result" where
  "TCPOverUDPSocketAdapter_write sys gni os ad seg =
     (let cfg = FdAdapterBase_config (ua_base ad) in
      case Address_port gni (fac_source cfg) of
        Inl e \<Rightarrow> (os, ad, Inl e)
      | Inr sport \<Rightarrow>
          (case Address_port gni (fac_destination cfg) of
             Inl e \<Rightarrow> (os, ad, Inl e)
           | Inr dport \<Rightarrow>
               let seg = seg\<lparr>seg_header := (seg_header seg)\<lparr>th_sport := sport, th_dport := dport\<rparr>\<rparr>
               in case TCPSegment_serialize seg 0 of
                    Inl e \<Rightarrow> (os, ad, Inl e)
                  | Inr out \<Rightarrow>
                      (case UDPSocket_sendto sys os (ua_sock ad) (fac_destination cfg)
                              (BufferViewList_of_BufferList out) of
                         (os, res) \<Rightarrow> (os, ad, res))))"

definition udp_adapter :: "'k syscalls \<Rightarrow> getnameinfo \<Rightarrow> ('k, TCPOverUDPSocketAdapter) AdaptT" where
  "udp_adapter sys gni =
     \<lparr>ad_fd = ua_sock, ad_read = TCPOverUDPSocketAdapter_read sys,
      ad_write = TCPOverUDPSocketAdapter_write sys gni,
      ad_tick = \<lambda>os ad ms. (os, ad\<lparr>ua_base := FdAdapterBase_tick (ua_base ad) ms\<rparr>, Inr ()),
      ad_config = \<lambda>ad. FdAdapterBase_config (ua_base ad),
      ad_set_config = \<lambda>ad cfg. ad\<lparr>ua_base := (ua_base ad)\<lparr>fa_cfg := cfg\<rparr>\<rparr>,
      ad_set_listening = \<lambda>ad l. ad\<lparr>ua_base := FdAdapterBase_set_listening (ua_base ad) l\<rparr>\<rparr>"

subsection \<open>LossyFdAdapter\<close>

text \<open>The state \<open>'r\<close> of the random number generator and its \<open>operator()\<close> are parameters.\<close>

record ('r, 'a) LossyFdAdapter =
  lo_rand :: 'r
  lo_adapter :: 'a

definition LossyFdAdapter_should_drop ::
  "('r \<Rightarrow> u32 \<times> 'r) \<Rightarrow> ('k, 'a) AdaptT \<Rightarrow> ('r, 'a) LossyFdAdapter \<Rightarrow> bool \<Rightarrow> ('r, 'a) LossyFdAdapter \<times> bool" where
  "LossyFdAdapter_should_drop rand ops lo uplink =
     (let cfg = ad_config ops (lo_adapter lo);
          loss = (if uplink then fac_loss_rate_up cfg else fac_loss_rate_dn cfg)
      in if loss \<noteq> 0 then
           case rand (lo_rand lo) of (r, rand') \<Rightarrow> (lo\<lparr>lo_rand := rand'\<rparr>, (ucast r :: u16) < loss)
         else (lo, False))"

definition LossyFdAdapter_read ::
  "('r \<Rightarrow> u32 \<times> 'r) \<Rightarrow> ('k, 'a) AdaptT \<Rightarrow> 'k os \<Rightarrow> ('r, 'a) LossyFdAdapter
    \<Rightarrow> 'k os \<times> ('r, 'a) LossyFdAdapter \<times> TCPSegment option result" where
  "LossyFdAdapter_read rand ops os lo =
     (case ad_read ops os (lo_adapter lo) of
        (os, ad, Inl e) \<Rightarrow> (os, lo\<lparr>lo_adapter := ad\<rparr>, Inl e)
      | (os, ad, Inr ret) \<Rightarrow>
          (case LossyFdAdapter_should_drop rand ops (lo\<lparr>lo_adapter := ad\<rparr>) False of
             (lo, dropped) \<Rightarrow> if dropped then (os, lo, Inr None) else (os, lo, Inr ret)))"

definition LossyFdAdapter_write ::
  "('r \<Rightarrow> u32 \<times> 'r) \<Rightarrow> ('k, 'a) AdaptT \<Rightarrow> 'k os \<Rightarrow> ('r, 'a) LossyFdAdapter \<Rightarrow> TCPSegment
    \<Rightarrow> 'k os \<times> ('r, 'a) LossyFdAdapter \<times> unit result" where
  "LossyFdAdapter_write rand ops os lo seg =
     (case LossyFdAdapter_should_drop rand ops lo True of
        (lo, dropped) \<Rightarrow>
          if dropped then (os, lo, Inr ())
          else case ad_write ops os (lo_adapter lo) seg of (os, ad, res) \<Rightarrow> (os, lo\<lparr>lo_adapter := ad\<rparr>, res))"

definition lossy_adapter :: "('r \<Rightarrow> u32 \<times> 'r) \<Rightarrow> ('k, 'a) AdaptT \<Rightarrow> ('k, ('r, 'a) LossyFdAdapter) AdaptT" where
  "lossy_adapter rand ops =
     \<lparr>ad_fd = \<lambda>lo. ad_fd ops (lo_adapter lo), ad_read = LossyFdAdapter_read rand ops,
      ad_write = LossyFdAdapter_write rand ops,
      ad_tick = \<lambda>os lo ms. (case ad_tick ops os (lo_adapter lo) ms of
                   (os, ad, res) \<Rightarrow> (os, lo\<lparr>lo_adapter := ad\<rparr>, res)),
      ad_config = \<lambda>lo. ad_config ops (lo_adapter lo),
      ad_set_config = \<lambda>lo cfg. lo\<lparr>lo_adapter := ad_set_config ops (lo_adapter lo) cfg\<rparr>,
      ad_set_listening = \<lambda>lo l. lo\<lparr>lo_adapter := ad_set_listening ops (lo_adapter lo) l\<rparr>\<rparr>"

subsection \<open>TUN and TAP devices\<close>

definition O_RDWR :: int where "O_RDWR = 2"
definition IFF_TUN :: u16 where "IFF_TUN = 1"
definition IFF_TAP :: u16 where "IFF_TAP = 2"
definition IFF_NO_PI :: u16 where "IFF_NO_PI = 0x1000"
definition IFNAMSIZ :: nat where "IFNAMSIZ = 16"

text \<open>The request holds the name up to the terminating zero, cut to 15 characters, and the flags.\<close>

definition TunTapFD_new ::
  "'k syscalls \<Rightarrow> ('k, 'm) os_scheme \<Rightarrow> string \<Rightarrow> bool \<Rightarrow> ('k, 'm) os_scheme \<times> FileDescriptor result" where
  "TunTapFD_new sys os devname is_tun =
     (case os_call os ''open'' (sys_open sys (os_kernel os) ''/dev/net/tun'' O_RDWR) 0 of
        (os, Inl e) \<Rightarrow> (os, Inl e)
      | (os, Inr n) \<Rightarrow>
          (case FileDescriptor_of_fd os n of
             (os, Inl e) \<Rightarrow> (os, Inl e)
           | (os, Inr fd) \<Rightarrow>
               let ifr_flags = (if is_tun then IFF_TUN else IFF_TAP) OR IFF_NO_PI;
                   ifr_name = take (IFNAMSIZ - 1) (takeWhile (\<lambda>c. c \<noteq> CHR 0x00) devname)
               in case os_call os ''ioctl'' (sys_ioctl sys (os_kernel os) (FileDescriptor_fd_num os fd)
                         ''TUNSETIFF'' (ifr_name, ifr_flags)) 0 of
                    (os, Inl e) \<Rightarrow> (os, Inl e)
                  | (os, Inr _) \<Rightarrow> (os, Inr fd)))"

definition TunFD_new :: "'k syscalls \<Rightarrow> ('k, 'm) os_scheme \<Rightarrow> string \<Rightarrow> ('k, 'm) os_scheme \<times> FileDescriptor result" where
  "TunFD_new sys os devname = TunTapFD_new sys os devname True"

definition TapFD_new :: "'k syscalls \<Rightarrow> ('k, 'm) os_scheme \<Rightarrow> string \<Rightarrow> ('k, 'm) os_scheme \<times> FileDescriptor result" where
  "TapFD_new sys os devname = TunTapFD_new sys os devname False"

subsection \<open>TCPOverIPv4OverTunFdAdapter\<close>

record TCPOverIPv4OverTunFdAdapter =
  ta_base :: FdAdapterBase
  ta_tun :: FileDescriptor

definition TCPOverIPv4OverTunFdAdapter_new ::
  "getaddrinfo \<Rightarrow> FileDescriptor \<Rightarrow> TCPOverIPv4OverTunFdAdapter result" where
  "TCPOverIPv4OverTunFdAdapter_new gai tun =
     map_sum id (\<lambda>base. \<lparr>ta_base = base, ta_tun = tun\<rparr>) (FdAdapterBase_default gai)"

definition TCPOverIPv4OverTunFdAdapter_read ::
  "'k syscalls \<Rightarrow> getaddrinfo \<Rightarrow> getnameinfo \<Rightarrow> 'k os \<Rightarrow> TCPOverIPv4OverTunFdAdapter
    \<Rightarrow> 'k os \<times> TCPOverIPv4OverTunFdAdapter \<times> TCPSegment option result" where
  "TCPOverIPv4OverTunFdAdapter_read sys gai gni os ad =
     (case FileDescriptor_read sys os (ta_tun ad) (-1) of
        (os, Inl e) \<Rightarrow> (os, ad, Inl e)
      | (os, Inr data) \<Rightarrow>
          (case IPv4Datagram_parse IPv4Datagram_default (Buffer_of_string data) of
             (res, ip_dgram) \<Rightarrow>
               if res \<noteq> NoError then (os, ad, Inr None)
               else case TCPOverIPv4Adapter_unwrap_tcp_in_ip gai gni (ta_base ad) ip_dgram of
                 Inl e \<Rightarrow> (os, ad, Inl e)
               | Inr (base, seg) \<Rightarrow> (os, ad\<lparr>ta_base := base\<rparr>, Inr seg)))"

definition TCPOverIPv4OverTunFdAdapter_write ::
  "'k syscalls \<Rightarrow> getnameinfo \<Rightarrow> 'k os \<Rightarrow> TCPOverIPv4OverTunFdAdapter \<Rightarrow> TCPSegment
    \<Rightarrow> 'k os \<times> TCPOverIPv4OverTunFdAdapter \<times> unit result" where
  "TCPOverIPv4OverTunFdAdapter_write sys gni os ad seg =
     (case TCPOverIPv4Adapter_wrap_tcp_in_ip gni (ta_base ad) seg of
        Inl e \<Rightarrow> (os, ad, Inl e)
      | Inr (_, ip_dgram) \<Rightarrow>
          (case IPv4Datagram_serialize ip_dgram of
             Inl e \<Rightarrow> (os, ad, Inl e)
           | Inr out \<Rightarrow>
               (case FileDescriptor_write sys os (ta_tun ad) (BufferViewList_of_BufferList out) True of
                  (os, res) \<Rightarrow> (os, ad, map_sum id (\<lambda>_. ()) res))))"

definition tun_adapter ::
  "'k syscalls \<Rightarrow> getaddrinfo \<Rightarrow> getnameinfo \<Rightarrow> ('k, TCPOverIPv4OverTunFdAdapter) AdaptT" where
  "tun_adapter sys gai gni =
     \<lparr>ad_fd = ta_tun, ad_read = TCPOverIPv4OverTunFdAdapter_read sys gai gni,
      ad_write = TCPOverIPv4OverTunFdAdapter_write sys gni,
      ad_tick = \<lambda>os ad ms. (os, ad\<lparr>ta_base := FdAdapterBase_tick (ta_base ad) ms\<rparr>, Inr ()),
      ad_config = \<lambda>ad. FdAdapterBase_config (ta_base ad),
      ad_set_config = \<lambda>ad cfg. ad\<lparr>ta_base := (ta_base ad)\<lparr>fa_cfg := cfg\<rparr>\<rparr>,
      ad_set_listening = \<lambda>ad l. ad\<lparr>ta_base := FdAdapterBase_set_listening (ta_base ad) l\<rparr>\<rparr>"

subsection \<open>TCPOverIPv4OverEthernetAdapter\<close>

record TCPOverIPv4OverEthernetAdapter =
  ea_base :: FdAdapterBase
  ea_tap :: FileDescriptor
  ea_interface :: NetworkInterface
  ea_next_hop :: Address

definition tap_write :: "'k syscalls \<Rightarrow> 'k os \<Rightarrow> FileDescriptor \<Rightarrow> EthernetFrame \<Rightarrow> 'k os \<times> unit result" where
  "tap_write sys os tap frame =
     (case FileDescriptor_write sys os tap (BufferViewList_of_BufferList (EthernetFrame_serialize frame)) True of
        (os, res) \<Rightarrow> (os, map_sum id (\<lambda>_. ()) res))"

definition TCPOverIPv4OverEthernetAdapter_new ::
  "'k syscalls \<Rightarrow> getaddrinfo \<Rightarrow> getnameinfo \<Rightarrow> 'k os \<Rightarrow> FileDescriptor \<Rightarrow> EthernetAddress \<Rightarrow> Address \<Rightarrow> Address
    \<Rightarrow> 'k os \<times> TCPOverIPv4OverEthernetAdapter result" where
  "TCPOverIPv4OverEthernetAdapter_new sys gai gni os tap eth_address ip_address next_hop =
     (case FdAdapterBase_default gai of
        Inl e \<Rightarrow> (os, Inl e)
      | Inr base \<Rightarrow>
          (case NetworkInterface_init gni eth_address ip_address of
             Inl e \<Rightarrow> (os, Inl e)
           | Inr interface \<Rightarrow>
               (case tap_write sys os tap EthernetFrame_default of
                  (os, Inl e) \<Rightarrow> (os, Inl e)
                | (os, Inr _) \<Rightarrow>
                    (os, Inr \<lparr>ea_base = base, ea_tap = tap, ea_interface = interface, ea_next_hop = next_hop\<rparr>))))"

text \<open>The loop of \<open>send_pending\<close> over the queue of frames; a frame is popped once it is written.\<close>

fun pending_loop :: "'k syscalls \<Rightarrow> 'k os \<Rightarrow> FileDescriptor \<Rightarrow> EthernetFrame list \<Rightarrow> 'k os \<times> EthernetFrame list \<times> unit result" where
  "pending_loop sys os tap [] = (os, [], Inr ())"
| "pending_loop sys os tap (frame # frames) =
     (case tap_write sys os tap frame of
        (os, Inl e) \<Rightarrow> (os, frame # frames, Inl e)
      | (os, Inr _) \<Rightarrow> pending_loop sys os tap frames)"

definition TCPOverIPv4OverEthernetAdapter_send_pending ::
  "'k syscalls \<Rightarrow> 'k os \<Rightarrow> TCPOverIPv4OverEthernetAdapter \<Rightarrow> 'k os \<times> TCPOverIPv4OverEthernetAdapter \<times> unit result" where
  "TCPOverIPv4OverEthernetAdapter_send_pending sys os ad =
     (case pending_loop sys os (ea_tap ad) (ni_frames_out (ea_interface ad)) of
        (os, frames, res) \<Rightarrow> (os, ad\<lparr>ea_interface := (ea_interface ad)\<lparr>ni_frames_out := frames\<rparr>\<rparr>, res))"

definition TCPOverIPv4OverEthernetAdapter_read ::
  "'k syscalls \<Rightarrow> getaddrinfo \<Rightarrow> getnameinfo \<Rightarrow> 'k os \<Rightarrow> TCPOverIPv4OverEthernetAdapter
    \<Rightarrow> 'k os \<times> TCPOverIPv4OverEthernetAdapter \<times> TCPSegment option result" where
  "TCPOverIPv4OverEthernetAdapter_read sys gai gni os ad =
     (case FileDescriptor_read sys os (ea_tap ad) (-1) of
        (os, Inl e) \<Rightarrow> (os, ad, Inl e)
      | (os, Inr data) \<Rightarrow>
          (case EthernetFrame_parse EthernetFrame_default (Buffer_of_string data) of
             (res, frame) \<Rightarrow>
               if res \<noteq> NoError then (os, ad, Inr None)
               else
                 case NetworkInterface_recv_frame (ea_interface ad) frame of
                   (interface, Inl e) \<Rightarrow> (os, ad\<lparr>ea_interface := interface\<rparr>, Inl e)
                 | (interface, Inr ip_dgram) \<Rightarrow>
                     (case TCPOverIPv4OverEthernetAdapter_send_pending sys os (ad\<lparr>ea_interface := interface\<rparr>) of
                        (os, ad, Inl e) \<Rightarrow> (os, ad, Inl e)
                      | (os, ad, Inr _) \<Rightarrow>
                          (case ip_dgram of
                             None \<Rightarrow> (os, ad, Inr None)
                           | Some ip_dgram \<Rightarrow>
                               (case TCPOverIPv4Adapter_unwrap_tcp_in_ip gai gni (ea_base ad) ip_dgram of
                                  Inl e \<Rightarrow> (os, ad, Inl e)
                                | Inr (base, seg) \<Rightarrow> (os, ad\<lparr>ea_base := base\<rparr>, Inr seg))))))"

text \<open>The order in which \<open>tick\<close> of the interface visits its two maps is the parameter \<open>order\<close>.\<close>

definition TCPOverIPv4OverEthernetAdapter_tick ::
  "'k syscalls \<Rightarrow> (NetworkInterface \<Rightarrow> u32 list \<times> u32 list) \<Rightarrow> 'k os \<Rightarrow> TCPOverIPv4OverEthernetAdapter \<Rightarrow> u64
    \<Rightarrow> 'k os \<times> TCPOverIPv4OverEthernetAdapter \<times> unit result" where
  "TCPOverIPv4OverEthernetAdapter_tick sys order os ad ms_since_last_tick =
     (let (table_order, cache_order) = order (ea_interface ad)
      in case NetworkInterface_tick table_order cache_order (ea_interface ad) ms_since_last_tick of
           (interface, Inl e) \<Rightarrow> (os, ad\<lparr>ea_interface := interface\<rparr>, Inl e)
         | (interface, Inr _) \<Rightarrow>
             TCPOverIPv4OverEthernetAdapter_send_pending sys os (ad\<lparr>ea_interface := interface\<rparr>))"

definition TCPOverIPv4OverEthernetAdapter_write ::
  "'k syscalls \<Rightarrow> getnameinfo \<Rightarrow> 'k os \<Rightarrow> TCPOverIPv4OverEthernetAdapter \<Rightarrow> TCPSegment
    \<Rightarrow> 'k os \<times> TCPOverIPv4OverEthernetAdapter \<times> unit result" where
  "TCPOverIPv4OverEthernetAdapter_write sys gni os ad seg =
     (case TCPOverIPv4Adapter_wrap_tcp_in_ip gni (ea_base ad) seg of
        Inl e \<Rightarrow> (os, ad, Inl e)
      | Inr (_, ip_dgram) \<Rightarrow>
          (case NetworkInterface_send_datagram (ea_interface ad) ip_dgram (ea_next_hop ad) of
             (interface, Inl e) \<Rightarrow> (os, ad\<lparr>ea_interface := interface\<rparr>, Inl e)
           | (interface, Inr _) \<Rightarrow>
               TCPOverIPv4OverEthernetAdapter_send_pending sys os (ad\<lparr>ea_interface := interface\<rparr>)))"

definition ethernet_adapter ::
  "'k syscalls \<Rightarrow> getaddrinfo \<Rightarrow> getnameinfo \<Rightarrow> (NetworkInterface \<Rightarrow> u32 list \<times> u32 list)
    \<Rightarrow> ('k, TCPOverIPv4OverEthernetAdapter) AdaptT" where
  "ethernet_adapter sys gai gni order =
     \<lparr>ad_fd = ea_tap, ad_read = TCPOverIPv4OverEthernetAdapter_read sys gai gni,
      ad_write = TCPOverIPv4OverEthernetAdapter_write sys gni,
      ad_tick = TCPOverIPv4OverEthernetAdapter_tick sys order,
      ad_config = \<lambda>ad. FdAdapterBase_config (ea_base ad),
      ad_set_config = \<lambda>ad cfg. ad\<lparr>ea_base := (ea_base ad)\<lparr>fa_cfg := cfg\<rparr>\<rparr>,
      ad_set_listening = \<lambda>ad l. ad\<lparr>ea_base := FdAdapterBase_set_listening (ea_base ad) l\<rparr>\<rparr>"

end
