(* ===== verification/Full_Stack.thy ===== *)
theory Full_Stack
  imports Fd_Adapters
begin

text \<open>
  The stack below a connection, put together: two hosts with an Ethernet adapter each, connected by
  their TAP devices. A segment that one adapter writes comes out of the other, with address
  resolution on the way.
\<close>

subsection \<open>TAP devices\<close>

text \<open>What a TAP device promises: every write is one frame, every read gives one frame that has
  arrived. \<open>sent\<close> is the list of frames written to a descriptor, \<open>deliver fd f\<close> the arrival of the
  frame \<open>f\<close> at the device \<open>fd\<close>.\<close>

definition tap_law ::
  "'k syscalls \<Rightarrow> ('k \<Rightarrow> int \<Rightarrow> bytes list) \<Rightarrow> (int \<Rightarrow> bytes \<Rightarrow> 'k \<Rightarrow> 'k) \<Rightarrow> bool" where
  "tap_law sys sent deliver \<longleftrightarrow>
     (\<forall>k fd iov. \<exists>k'. length (concat (map fst iov)) < 2 ^ 31 \<longrightarrow>
        sys_writev sys k fd iov = (k', int (length (concat (map fst iov))), 0) \<and>
        sent k' = (sent k)(fd := sent k fd @ [concat (map fst iov)])) \<and>
     (\<forall>k fd f n. \<exists>k'. length f \<le> unat n \<longrightarrow>
        sys_read sys (deliver fd f k) fd n = ((k', int (length f), 0), f) \<and> sent k' = sent k)"

definition frame_bytes :: "EthernetFrame \<Rightarrow> bytes" where
  "frame_bytes frame = BufferList_concatenate (EthernetFrame_serialize frame)"

definition small_frame :: "EthernetFrame \<Rightarrow> bool" where
  "small_frame frame \<longleftrightarrow> length (BufferList_concatenate (fr_payload frame)) \<le> 65535"

lemma length_frame_bytes: "length (frame_bytes frame) = 14 + length (BufferList_concatenate (fr_payload frame))"
  by (simp add: frame_bytes_def serialize_frame eth_header_bytes_def)

lemma parse_frame_bytes:
  assumes "small_frame frame"
  shows "EthernetFrame_parse EthernetFrame_default (Buffer_of_string (frame_bytes frame)) = (NoError, transmit frame)"
proof -
  have "Buffer_inv (Buffer_of_string (frame_bytes frame))"
    using assms by (simp add: small_frame_def length_frame_bytes)
  from parse_frame [OF this, of "fr_header frame" _ EthernetFrame_default]
  show ?thesis by (auto simp: serialize_frame transmit_def frame_bytes_def)
qed

lemma concat_views: "concat (BufferViewList_of_BufferList bs) = BufferList_concatenate bs"
  by (induction bs) (simp_all add: BufferViewList_of_BufferList_def)

lemma tap_write_ok:
  assumes law: "tap_law sys sent deliver" and "small_frame frame" and num: "FileDescriptor_fd_num os tap = num"
  shows "\<exists>os'. tap_write sys os tap frame = (os', Inr ()) \<and> FileDescriptor_fd_num os' tap = num \<and>
    sent (os_kernel os') = (sent (os_kernel os))(num := sent (os_kernel os) num @ [frame_bytes frame])"
proof -
  let ?vs = "BufferViewList_of_BufferList (EthernetFrame_serialize frame)"
  have all: "concat ?vs = frame_bytes frame" by (simp add: concat_views frame_bytes_def)
  have len: "0 < length (concat ?vs)" "length (concat ?vs) < 2 ^ 31"
    using assms(2) by (simp_all add: all length_frame_bytes small_frame_def)
  have fits: "BufferViewList_fits ?vs" using len by (simp add: BufferViewList_fits_def)
  obtain k where w: "sys_writev sys (os_kernel os) num (BufferViewList_as_iovecs ?vs) = (k, int (length (concat ?vs)), 0)"
    "sent k = (sent (os_kernel os))(num := sent (os_kernel os) num @ [concat ?vs])"
    using law len(2) unfolding tap_law_def by (metis concat_iovecs)
  have size_num: "unat (BufferViewList_size ?vs) = length (concat ?vs)" by (rule views.unat_size [OF fits])
  then have "uint (BufferViewList_size ?vs) = int (length (concat ?vs))" by (metis uint_nat)
  then have "sint (BufferViewList_size ?vs) = int (length (concat ?vs))"
    using len by (simp add: sint_uint signed_take_bit_int_eq_self)
  moreover have "unat (sz (concat ?vs)) = length (concat ?vs)" using len by (intro unat_sz) simp
  then obtain vs' where rest: "BufferViewList_remove_prefix ?vs (sz (concat ?vs)) = Inr vs'"
    "BufferViewList_fits vs'" "concat vs' = []"
    using views.drop_ok [OF fits, of "sz (concat ?vs)"] by auto
  moreover have "BufferViewList_size vs' = 0"
    using views.unat_size [OF rest(2)] rest(3) by (simp add: word_unat_eq_iff)
  moreover have "to_int (int (length (concat ?vs))) = int (length (concat ?vs))"
    using len by (intro to_int_id) auto
  ultimately show ?thesis
    using w len num all
    by (simp add: tap_write_def FileDescriptor_write_def write_loop.simps [of sys os] os_call_def SystemCall_def Let_def)
qed

text \<open>The frame \<open>f\<close> has arrived at the device of an adapter.\<close>

definition arrived :: "(int \<Rightarrow> bytes \<Rightarrow> 'k \<Rightarrow> 'k) \<Rightarrow> bytes \<Rightarrow> TCPOverIPv4OverEthernetAdapter \<Rightarrow> 'k os \<Rightarrow> 'k os" where
  "arrived deliver f ad os = os\<lparr>os_kernel := deliver (FileDescriptor_fd_num os (ea_tap ad)) f (os_kernel os)\<rparr>"

lemma tap_read_ok:
  assumes law: "tap_law sys sent deliver" and "length f \<le> 2 ^ 20" and "f \<noteq> []"
    and num: "FileDescriptor_fd_num os (ea_tap ad) = num"
  shows "\<exists>os'. FileDescriptor_read sys (arrived deliver f ad os) (ea_tap ad) (-1) = (os', Inr f) \<and>
    FileDescriptor_fd_num os' (ea_tap ad) = num \<and> sent (os_kernel os') = sent (os_kernel os)"
proof -
  have m: "min BUFFER_SIZE (-1) = (BUFFER_SIZE :: u64)" "unat BUFFER_SIZE = 2 ^ 20"
    by (simp_all add: BUFFER_SIZE_def min_def word_le_nat_alt unat_max_u64)
  obtain k where r: "sys_read sys (deliver num f (os_kernel os)) num BUFFER_SIZE = ((k, int (length f), 0), f)"
    "sent k = sent (os_kernel os)"
    using law assms(2) m(2) unfolding tap_law_def by metis
  have i: "to_int (int (length f)) = int (length f)" using assms(2) by (intro to_int_id) auto
  have "int (length f) \<le> uint (BUFFER_SIZE :: u64)" using assms(2) by (simp add: BUFFER_SIZE_def)
  then show ?thesis using r m i num assms(3)
    by (auto simp: FileDescriptor_read_def arrived_def os_call_def SystemCall_def Let_def)
qed

subsection \<open>The adapter\<close>

lemma pending_ok:
  assumes law: "tap_law sys sent deliver" and "list_all small_frame frames"
    and "FileDescriptor_fd_num os tap = num"
  shows "\<exists>os'. pending_loop sys os tap frames = (os', [], Inr ()) \<and> FileDescriptor_fd_num os' tap = num \<and>
    sent (os_kernel os') num = sent (os_kernel os) num @ map frame_bytes frames"
  using assms(2,3)
proof (induction frames arbitrary: os)
  case (Cons frame frames)
  obtain os1 where os1: "tap_write sys os tap frame = (os1, Inr ())" "FileDescriptor_fd_num os1 tap = num"
    "sent (os_kernel os1) = (sent (os_kernel os))(num := sent (os_kernel os) num @ [frame_bytes frame])"
    using tap_write_ok [OF law _ Cons.prems(2), of frame] Cons.prems(1) by auto
  from Cons.IH [OF _ os1(2)] Cons.prems(1) show ?case by (auto simp: os1)
qed simp

lemma ethernet_write:
  assumes law: "tap_law sys sent deliver" and num: "FileDescriptor_fd_num os (ea_tap ad) = num"
    and wrap: "TCPOverIPv4Adapter_wrap_tcp_in_ip gni (ea_base ad) seg = Inr (seg1, d)"
    and send: "NetworkInterface_send_datagram (ea_interface ad) d (ea_next_hop ad) = (ni, Inr ())"
    and small: "list_all small_frame (ni_frames_out ni)"
  shows "\<exists>os'. TCPOverIPv4OverEthernetAdapter_write sys gni os ad seg
      = (os', ad\<lparr>ea_interface := ni\<lparr>ni_frames_out := []\<rparr>\<rparr>, Inr ()) \<and>
    FileDescriptor_fd_num os' (ea_tap ad) = num \<and>
    sent (os_kernel os') num = sent (os_kernel os) num @ map frame_bytes (ni_frames_out ni)"
  using pending_ok [OF law small num]
  by (auto simp: TCPOverIPv4OverEthernetAdapter_write_def wrap send TCPOverIPv4OverEthernetAdapter_send_pending_def)

lemma ethernet_read:
  assumes law: "tap_law sys sent deliver" and num: "FileDescriptor_fd_num os (ea_tap ad) = num"
    and frame: "small_frame frame"
    and recv: "NetworkInterface_recv_frame (ea_interface ad) (transmit frame) = (ni, Inr dgram)"
    and small: "list_all small_frame (ni_frames_out ni)"
    and unwrap: "case dgram of None \<Rightarrow> r = Inr (ea_base ad, None)
      | Some d \<Rightarrow> r = TCPOverIPv4Adapter_unwrap_tcp_in_ip gai gni (ea_base ad) d" and "r = Inr (base, seg)"
  shows "\<exists>os'. TCPOverIPv4OverEthernetAdapter_read sys gai gni (arrived deliver (frame_bytes frame) ad os) ad
      = (os', ad\<lparr>ea_interface := ni\<lparr>ni_frames_out := []\<rparr>, ea_base := base\<rparr>, Inr seg) \<and>
    FileDescriptor_fd_num os' (ea_tap ad) = num \<and>
    sent (os_kernel os') num = sent (os_kernel os) num @ map frame_bytes (ni_frames_out ni)"
proof -
  have "length (frame_bytes frame) \<le> 2 ^ 20" "frame_bytes frame \<noteq> []"
    using frame length_frame_bytes [of frame] by (auto simp: small_frame_def)
  from tap_read_ok [OF law this num] obtain os1 where
    os1: "FileDescriptor_read sys (arrived deliver (frame_bytes frame) ad os) (ea_tap ad) (-1) = (os1, Inr (frame_bytes frame))"
      "FileDescriptor_fd_num os1 (ea_tap ad) = num" "sent (os_kernel os1) = sent (os_kernel os)" by blast
  from pending_ok [OF law small os1(2)] show ?thesis
    using unwrap assms(7) os1
    by (auto simp: TCPOverIPv4OverEthernetAdapter_read_def parse_frame_bytes [OF frame] recv
        TCPOverIPv4OverEthernetAdapter_send_pending_def split: option.splits)
qed

lemma small_arp_frame [simp]: "small_frame (arp_frame dst src m)"
  by (simp add: small_frame_def arp_frame_def)

lemma small_ipv4_frame:
  assumes fits: "datagram_fits d" and ser: "IPv4Datagram_serialize d = Inr out"
  shows "small_frame (ipv4_frame dst src out)"
proof -
  let ?h = "dg_header d"
  obtain k :: u16 where "BufferList_concatenate out
      = ip_front ?h @ be_bytes 2 k @ ip_back ?h @ BufferList_concatenate (dg_payload d)"
    using serialize_datagram [OF fits] ser by auto
  then have "length (BufferList_concatenate out) = unat (ip_len ?h)"
    using fits ip_legal_hlen(1) [of ?h] by (simp add: datagram_fits_def length_ip_back)
  then show ?thesis using unat_u16_bound [of "ip_len ?h"] by (simp add: small_frame_def ipv4_frame_def)
qed

text \<open>A wrapped segment that arrives as the payload of a datagram is handed out.\<close>

lemma unwrap_same_datagram:
  assumes net: "numeric_resolver gai gni" and fa: "adapter_between here there fa"
    and seg: "segment_sendable seg"
    and wrap: "TCPOverIPv4Adapter_wrap_tcp_in_ip gni fa seg = Inr (seg1, d)"
    and same: "same_datagram d d'" "dg_payload d' = [b]" "Buffer_inv b"
    and fb: "if fa_listen fb
      then th_syn (seg_header seg) \<and> \<not> th_rst (seg_header seg) \<and>
        (\<exists>any. fac_source (fa_cfg fb) = ipv4_address (snd there) any)
      else adapter_between there here fb"
  shows "\<exists>fb' seg'. TCPOverIPv4Adapter_unwrap_tcp_in_ip gai gni fb d' = Inr (fb', Some seg') \<and>
    adapter_between there here fb' \<and> \<not> fa_listen fb' \<and>
    seg_header seg' = (seg_header seg)\<lparr>th_sport := snd here, th_dport := snd there,
      th_cksum := th_cksum (seg_header seg')\<rparr> \<and>
    Buffer_str (seg_payload seg') = Buffer_str (seg_payload seg)"
proof -
  let ?seg1 = "stamped (snd here) (snd there) seg" and ?h = "wrapped_header (fst here) (fst there) seg"
  obtain payload where d: "d = \<lparr>dg_header = ?h, dg_payload = payload\<rparr>"
    and ser: "TCPSegment_serialize ?seg1 (IPv4Header_pseudo_cksum ?h) = Inr payload"
    using wrap_spec [OF net fa seg] wrap by auto
  have hdr: "dg_header d' = ?h\<lparr>ip_cksum := ip_cksum (dg_header d')\<rparr>"
    and str: "Buffer_str b = BufferList_concatenate payload"
    using same by (simp_all add: same_datagram_def d)
  have ck: "IPv4Header_pseudo_cksum (dg_header d') = IPv4Header_pseudo_cksum ?h"
    by (subst hdr) simp
  have fits: "segment_fits ?seg1 (IPv4Header_pseudo_cksum ?h)"
    using sendable_fits seg by (simp add: segment_sendable_def segment_fits_def)
  obtain seg' where seg': "TCPSegment_parse TCPSegment_default b (IPv4Header_pseudo_cksum ?h) = (NoError, seg')"
    "seg_header seg' = (seg_header ?seg1)\<lparr>th_cksum := th_cksum (seg_header seg')\<rparr>"
    "Buffer_str (seg_payload seg') = Buffer_str (seg_payload ?seg1)"
    using parse_serialized [OF fits ser same(3) str] by blast
  have flags: "th_sport (seg_header seg') = snd here" "th_dport (seg_header seg') = snd there"
    "th_syn (seg_header seg') = th_syn (seg_header seg)" "th_rst (seg_header seg') = th_rst (seg_header seg)"
    by (subst seg'(2), simp)+
  have ip: "ip_src (dg_header d') = fst here" "ip_dst (dg_header d') = fst there"
    "ip_proto (dg_header d') = IPv4Header_PROTO_TCP"
    by (subst hdr, simp add: wrapped_header_def IPv4Header_default_def)+
  have "TCPSegment_parse TCPSegment_default b (IPv4Header_pseudo_cksum (dg_header d')) = (NoError, seg')"
    by (simp only: ck seg'(1))
  from unwrap_accepts [OF net _ ip same(2) this flags(1,2), of fb] fb
  obtain fb' where "TCPOverIPv4Adapter_unwrap_tcp_in_ip gai gni fb d' = Inr (fb', Some seg')"
    "adapter_between there here fb'" "\<not> fa_listen fb'"
    unfolding flags(3,4) by blast
  moreover have "seg_header seg' = (seg_header seg)\<lparr>th_sport := snd here, th_dport := snd there,
      th_cksum := th_cksum (seg_header seg')\<rparr>" using seg'(2) by simp
  ultimately show ?thesis using seg'(3) by auto
qed

subsection \<open>From host to host\<close>

text \<open>C4: the full stack delivers. Host \<open>A\<close> writes a segment through its Ethernet adapter while it does
  not know the hardware address of its next hop, host \<open>B\<close>. One ARP request goes out on the device of
  \<open>A\<close>; when \<open>B\<close> reads it, it sends one reply; when \<open>A\<close> reads that, it sends one frame with the
  segment; and when \<open>B\<close> reads that, its adapter hands out the segment, with the ports of the connection
  filled in, all other fields but the checksum and the payload unchanged. A listening adapter adopts
  the connection.\<close>
theorem full_stack_delivery:
  assumes law: "tap_law sys sent deliver" and net: "numeric_resolver gai gni"
    and A: "configured ipA (ea_interface a)" "ni_frames_out (ea_interface a) = []"
    and B: "configured ipB (ea_interface b)" "ni_frames_out (ea_interface b) = []"
    and hop: "Address_ipv4_numeric (ea_next_hop a) = Inr ipB"
    and unknown: "ni_arp_forward_table (ea_interface a) ipB = None"
      "case ni_arp_request_cache (ea_interface a) ipB of None \<Rightarrow> True | Some (age, _) \<Rightarrow> 5000 \<le> sint age"
    and conn: "adapter_between here there (ea_base a)"
      "if fa_listen (ea_base b)
       then th_syn (seg_header seg) \<and> \<not> th_rst (seg_header seg) \<and>
         (\<exists>any. fac_source (fa_cfg (ea_base b)) = ipv4_address (snd there) any)
       else adapter_between there here (ea_base b)"
    and seg: "segment_sendable seg"
    and nums: "FileDescriptor_fd_num osA (ea_tap a) = numA" "FileDescriptor_fd_num osB (ea_tap b) = numB"
  shows "\<exists>request reply frame osA1 a1 osB1 b1 osA2 a2 osB2 b2 seg'.
    TCPOverIPv4OverEthernetAdapter_write sys gni osA a seg = (osA1, a1, Inr ()) \<and>
    sent (os_kernel osA1) numA = sent (os_kernel osA) numA @ [request] \<and>
    TCPOverIPv4OverEthernetAdapter_read sys gai gni (arrived deliver request b osB) b = (osB1, b1, Inr None) \<and>
    sent (os_kernel osB1) numB = sent (os_kernel osB) numB @ [reply] \<and>
    TCPOverIPv4OverEthernetAdapter_read sys gai gni (arrived deliver reply a1 osA1) a1 = (osA2, a2, Inr None) \<and>
    sent (os_kernel osA2) numA = sent (os_kernel osA1) numA @ [frame] \<and>
    TCPOverIPv4OverEthernetAdapter_read sys gai gni (arrived deliver frame b1 osB1) b1 = (osB2, b2, Inr (Some seg')) \<and>
    sent (os_kernel osB2) numB = sent (os_kernel osB1) numB \<and>
    adapter_between there here (ea_base b2) \<and> \<not> fa_listen (ea_base b2) \<and>
    seg_header seg' = (seg_header seg)\<lparr>th_sport := snd here, th_dport := snd there,
      th_cksum := th_cksum (seg_header seg')\<rparr> \<and>
    Buffer_str (seg_payload seg') = Buffer_str (seg_payload seg)"
proof -
  let ?ia = "ea_interface a" and ?ib = "ea_interface b"
  let ?macA = "ni_ethernet_address ?ia" and ?macB = "ni_ethernet_address ?ib"
  obtain seg1 d where wrap: "TCPOverIPv4Adapter_wrap_tcp_in_ip gni (ea_base a) seg = Inr (seg1, d)"
    and fits: "datagram_fits d" using wrap_spec [OF net conn(1) seg] by auto
  obtain out where out: "IPv4Datagram_serialize d = Inr out" using serialize_datagram [OF fits] by auto
  let ?request = "arp_frame ETHERNET_BROADCAST ?macA (arp_message ?ia ARPMessage_OPCODE_REQUEST ipB EthernetAddress_zero)"
  let ?reply = "arp_frame ?macA ?macB (arp_message ?ib ARPMessage_OPCODE_REPLY ipA ?macA)"
  let ?frame = "ipv4_frame ?macB ?macA out"
  let ?a1 = "a\<lparr>ea_interface := ?ia\<lparr>ni_arp_request_cache := (ni_arp_request_cache ?ia)(ipB \<mapsto> (0, d))\<rparr>\<rparr>"
  let ?b1 = "b\<lparr>ea_interface := ?ib\<lparr>ni_arp_forward_table := (ni_arp_forward_table ?ib)(ipA \<mapsto> (0, ?macA))\<rparr>\<rparr>"
  obtain osA1 where 1: "TCPOverIPv4OverEthernetAdapter_write sys gni osA a seg = (osA1, ?a1, Inr ())"
    "FileDescriptor_fd_num osA1 (ea_tap a) = numA"
    "sent (os_kernel osA1) numA = sent (os_kernel osA) numA @ [frame_bytes ?request]"
    using ethernet_write [OF law nums(1) wrap send_request [OF A(1) hop unknown]] A(2)
    by (auto simp: push_frame_def)
  obtain osB1 where 2: "TCPOverIPv4OverEthernetAdapter_read sys gai gni (arrived deliver (frame_bytes ?request) b osB) b
      = (osB1, ?b1, Inr None)" "FileDescriptor_fd_num osB1 (ea_tap b) = numB"
    "sent (os_kernel osB1) numB = sent (os_kernel osB) numB @ [frame_bytes ?reply]"
    using ethernet_read [OF law nums(2) small_arp_frame answer_request [OF A(1) B(1)], of _ gai gni "ea_base b" None] B(2)
    by (auto simp: push_frame_def)
  have "configured ipA (ea_interface ?a1)" using A(1) by simp
  from take_reply [OF this B(1), of 0 d out] obtain ni where
    reply: "NetworkInterface_recv_frame (ea_interface ?a1) (transmit ?reply) = (ni, Inr None)"
      "ni_frames_out ni = [?frame]" using A(2) out by (auto simp: push_frame_def)
  have na1: "FileDescriptor_fd_num osA1 (ea_tap ?a1) = numA" using 1(2) by simp
  obtain osA2 a2 where 3: "TCPOverIPv4OverEthernetAdapter_read sys gai gni (arrived deliver (frame_bytes ?reply) ?a1 osA1) ?a1
      = (osA2, a2, Inr None)" "sent (os_kernel osA2) numA = sent (os_kernel osA1) numA @ [frame_bytes ?frame]"
    using ethernet_read [OF law na1 small_arp_frame reply(1), of _ gai gni "ea_base ?a1" None] reply(2)
      small_ipv4_frame [OF fits out] by auto
  obtain d' e where d': "NetworkInterface_recv_frame (ea_interface ?b1) (transmit ?frame) = (ea_interface ?b1, Inr (Some d'))"
    "same_datagram d d'" "dg_payload d' = [e]" "Buffer_inv e"
    using recv_ipv4_frame [OF fits out, of ?macB "ea_interface ?b1" ?macA] by auto
  have "ea_base ?b1 = ea_base b" by simp
  from unwrap_same_datagram [OF net conn(1) seg wrap d'(2-4) conn(2)] obtain fb' seg' where
    u: "TCPOverIPv4Adapter_unwrap_tcp_in_ip gai gni (ea_base ?b1) d' = Inr (fb', Some seg')"
      "adapter_between there here fb'" "\<not> fa_listen fb'"
      "seg_header seg' = (seg_header seg)\<lparr>th_sport := snd here, th_dport := snd there,
        th_cksum := th_cksum (seg_header seg')\<rparr>"
      "Buffer_str (seg_payload seg') = Buffer_str (seg_payload seg)" by auto
  have nb1: "FileDescriptor_fd_num osB1 (ea_tap ?b1) = numB" using 2(2) by simp
  obtain osB2 b2 where 4: "TCPOverIPv4OverEthernetAdapter_read sys gai gni (arrived deliver (frame_bytes ?frame) ?b1 osB1) ?b1
      = (osB2, b2, Inr (Some seg'))" "ea_base b2 = fb'" "sent (os_kernel osB2) numB = sent (os_kernel osB1) numB"
    using ethernet_read [OF law nb1 small_ipv4_frame [OF fits out] d'(1), of _ gai gni fb' "Some seg'"] B(2) u(1)
    by auto
  show ?thesis using 1(1,3) 2(1,3) 3 4 u(2-5) by blast
qed

text \<open>A concrete device: the kernel state is what was written to each descriptor and the frame that
  can be read from it.\<close>

type_synonym tap_kernel = "(int \<Rightarrow> bytes list) \<times> (int \<Rightarrow> bytes)"

definition tap_syscalls :: "tap_kernel syscalls" where
  "tap_syscalls = no_syscalls
     \<lparr>sys_writev := \<lambda>(s, i) fd iov. let data = concat (map fst iov) in ((s(fd := s fd @ [data]), i), int (length data), 0),
      sys_read := \<lambda>(s, i) fd n. (((s, i), int (length (i fd)), 0), i fd)\<rparr>"

definition tap_deliver :: "int \<Rightarrow> bytes \<Rightarrow> tap_kernel \<Rightarrow> tap_kernel" where
  "tap_deliver fd f k = (fst k, (snd k)(fd := f))"

lemma tap_syscalls_law: "tap_law tap_syscalls fst tap_deliver"
  by (auto simp: tap_law_def tap_syscalls_def tap_deliver_def Let_def)

definition sample_host :: "u8 \<Rightarrow> bool \<Rightarrow> TCPOverIPv4OverEthernetAdapter" where
  "sample_host n listen =
     \<lparr>ea_base = \<lparr>fa_cfg = \<lparr>fac_source = ipv4_address 80 (0x0a000000 + ucast n),
        fac_destination = ipv4_address 80 (0x0a000000 + ucast (3 - n)), fac_loss_rate_dn = 0, fac_loss_rate_up = 0\<rparr>,
        fa_listen = listen\<rparr>,
      ea_tap = 0, ea_interface = sample_interface (EthernetAddress 2 0 0 0 0 n) (0x0a000000 + ucast n),
      ea_next_hop = ipv4_address 0 (0x0a000000 + ucast (3 - n))\<rparr>"

theorem full_stack_delivery_witness:
  "let seg = TCPSegment_default\<lparr>seg_header := TCPHeader_default\<lparr>th_syn := True\<rparr>, seg_payload := Buffer_of_string [1, 2, 3]\<rparr>;
       os = one_fd 5 ((\<lambda>_. []), (\<lambda>_. []))
   in \<exists>request reply frame osA1 a1 osB1 b1 osA2 a2 osB2 b2 seg'.
    TCPOverIPv4OverEthernetAdapter_write tap_syscalls numeric_gni os (sample_host 1 False) seg = (osA1, a1, Inr ()) \<and>
    TCPOverIPv4OverEthernetAdapter_read tap_syscalls numeric_gai numeric_gni
      (arrived tap_deliver request (sample_host 2 True) os) (sample_host 2 True) = (osB1, b1, Inr None) \<and>
    TCPOverIPv4OverEthernetAdapter_read tap_syscalls numeric_gai numeric_gni
      (arrived tap_deliver reply a1 osA1) a1 = (osA2, a2, Inr None) \<and>
    TCPOverIPv4OverEthernetAdapter_read tap_syscalls numeric_gai numeric_gni
      (arrived tap_deliver frame b1 osB1) b1 = (osB2, b2, Inr (Some seg')) \<and>
    fst (os_kernel osA2) 5 = [request, frame] \<and> fst (os_kernel osB2) 5 = [reply] \<and>
    Buffer_str (seg_payload seg') = [1, 2, 3]"
proof -
  let ?seg = "TCPSegment_default\<lparr>seg_header := TCPHeader_default\<lparr>th_syn := True\<rparr>, seg_payload := Buffer_of_string [1, 2, 3]\<rparr>"
  let ?os = "one_fd 5 ((\<lambda>_. []), (\<lambda>_. [])) :: tap_kernel os"
  have host: "configured (0x0a000000 + ucast n) (ea_interface (sample_host n l))"
    "ni_frames_out (ea_interface (sample_host n l)) = []"
    "ni_arp_forward_table (ea_interface (sample_host n l)) ip = None"
    "ni_arp_request_cache (ea_interface (sample_host n l)) ip = None"
    "Address_ipv4_numeric (ea_next_hop (sample_host n l)) = Inr (0x0a000000 + ucast (3 - n))"
    "fa_listen (ea_base (sample_host n l)) = l"
    "adapter_between (0x0a000000 + ucast n, 80) (0x0a000000 + ucast (3 - n), 80) (ea_base (sample_host n l))"
    "fac_source (fa_cfg (ea_base (sample_host n l))) = ipv4_address 80 (0x0a000000 + ucast n)"
    "FileDescriptor_fd_num ?os (ea_tap (sample_host n l)) = 5"
    for n l ip
    by (simp_all add: sample_host_def sample_interface_def configured_def adapter_between_def one_fd_def
        FileDescriptor_fd_num_def)
  have seg: "segment_sendable ?seg" "th_syn (seg_header ?seg)" "\<not> th_rst (seg_header ?seg)"
    "Buffer_str (seg_payload ?seg) = [1, 2, 3]" "fst (os_kernel ?os) 5 = []"
    by (simp_all add: segment_sendable_def TCPSegment_default_def TCPHeader_default_def TCPHeader_LENGTH_def one_fd_def)
  let ?here = "(0x0a000000 + ucast (1 :: u8), 80) :: u32 \<times> u16" and ?there = "(0x0a000000 + ucast (3 - 1 :: u8), 80) :: u32 \<times> u16"
  have b: "configured 0x0a000002 (ea_interface (sample_host 2 True))" using host(1) [of 2] by simp
  have hop: "Address_ipv4_numeric (ea_next_hop (sample_host 1 False)) = Inr 0x0a000002" by (simp add: host)
  have cache: "case ni_arp_request_cache (ea_interface (sample_host 1 False)) 0x0a000002 of
      None \<Rightarrow> True | Some (age, _) \<Rightarrow> 5000 \<le> sint age" by (simp add: host)
  have listen: "if fa_listen (ea_base (sample_host 2 True))
      then th_syn (seg_header ?seg) \<and> \<not> th_rst (seg_header ?seg) \<and>
        (\<exists>any. fac_source (fa_cfg (ea_base (sample_host 2 True))) = ipv4_address (snd ?there) any)
      else adapter_between ?there ?here (ea_base (sample_host 2 True))"
    using host(6) [of 2 True] host(8) [of 2 True] seg(2,3) by auto
  from full_stack_delivery [OF tap_syscalls_law numeric_gai_gni host(1) [of 1 False] host(2) b host(2) hop host(3) cache
      host(7) [of 1 False] listen seg(1) host(9) host(9)]
  show ?thesis unfolding Let_def
    by (elim exE conjE) (intro exI conjI; (assumption | simp add: seg))
qed

end
