(* ===== verification/Event_Loop.thy ===== *)
theory Event_Loop
  imports File_Descriptor
begin

text \<open>
  The event loop: \<open>src/libsponge/util/eventloop.{hh,cc}\<close>. The callbacks of a rule are functions on the state of
  the program, which extends the state of the process; a callback may throw. They do not add rules:
  the list of rules is not part of that state. The locale \<open>rule_loop\<close> is the contract between the
  loop and a program that uses it: what every callback preserves, the loop preserves. A result shows
  that a failure of \<open>poll\<close> goes unnoticed.
\<close>

subsection \<open>Rules\<close>

datatype Direction = In | Out

definition POLLIN :: u16 where "POLLIN = 1"
definition POLLOUT :: u16 where "POLLOUT = 4"
definition POLLERR :: u16 where "POLLERR = 8"
definition POLLHUP :: u16 where "POLLHUP = 16"
definition POLLNVAL :: u16 where "POLLNVAL = 32"

fun Direction_events :: "Direction \<Rightarrow> u16" where
  "Direction_events In = POLLIN"
| "Direction_events Out = POLLOUT"

type_synonym 's CallbackT = "'s \<Rightarrow> 's \<times> unit result"
type_synonym 's InterestT = "'s \<Rightarrow> bool"

record 's Rule =
  rule_fd :: FileDescriptor
  rule_direction :: Direction
  rule_callback :: "'s CallbackT"
  rule_interest :: "'s InterestT"
  rule_cancel :: "'s CallbackT"

definition Rule_service_count :: "('k, 'm) os_scheme \<Rightarrow> 's Rule \<Rightarrow> u32" where
  "Rule_service_count s r =
     (case rule_direction r of
        In \<Rightarrow> FileDescriptor_read_count s (rule_fd r)
      | Out \<Rightarrow> FileDescriptor_write_count s (rule_fd r))"

definition EventLoop_add_rule ::
  "'s Rule list \<Rightarrow> FileDescriptor \<Rightarrow> Direction \<Rightarrow> 's CallbackT \<Rightarrow> 's InterestT \<Rightarrow> 's CallbackT \<Rightarrow> 's Rule list" where
  "EventLoop_add_rule rules fd direction callback interest cancel =
     rules @ [\<lparr>rule_fd = FileDescriptor_duplicate fd, rule_direction = direction, rule_callback = callback,
       rule_interest = interest, rule_cancel = cancel\<rparr>]"

subsection \<open>wait_next_event\<close>

datatype LoopResult = Success | Timeout | Exit

text \<open>The first loop cancels the rules whose descriptor is at its end and collects what to poll for.
  It gives the rules that are left; an exception of a callback leaves its rule in the list.\<close>

fun setup_loop ::
  "('k, 'm) os_scheme Rule list \<Rightarrow> ('k, 'm) os_scheme
    \<Rightarrow> ('k, 'm) os_scheme \<times> ('k, 'm) os_scheme Rule list \<times> (int \<times> u16) list result" where
  "setup_loop [] s = (s, [], Inr [])"
| "setup_loop (this_rule # it) s =
     (if (rule_direction this_rule = In \<and> FileDescriptor_eof s (rule_fd this_rule)) \<or>
         FileDescriptor_closed s (rule_fd this_rule)
      then
        case rule_cancel this_rule s of
          (s, Inl e) \<Rightarrow> (s, this_rule # it, Inl e)
        | (s, Inr _) \<Rightarrow> setup_loop it s
      else
        let this_pollfd =
              (FileDescriptor_fd_num s (rule_fd this_rule),
               if rule_interest this_rule s then Direction_events (rule_direction this_rule) else 0)
        in case setup_loop it s of
             (s, rules, res) \<Rightarrow> (s, this_rule # rules, map_sum id (\<lambda>pollfds. this_pollfd # pollfds) res))"

text \<open>The second loop goes through the results, pairs of the events asked for and those reported.\<close>

fun results_loop ::
  "('k, 'm) os_scheme Rule list \<Rightarrow> (u16 \<times> u16) list \<Rightarrow> ('k, 'm) os_scheme
    \<Rightarrow> ('k, 'm) os_scheme \<times> ('k, 'm) os_scheme Rule list \<times> unit result" where
  "results_loop [] pollfds s = (s, [], Inr ())"
| "results_loop (this_rule # it) [] s =
     (s, this_rule # it, Inl (Undefined_behaviour ''pollfds[idx] out of range''))"
| "results_loop (this_rule # it) ((events, revents) # pollfds) s =
     (if revents AND (POLLERR OR POLLNVAL) \<noteq> 0
      then (s, this_rule # it, Inl (Runtime_error ''EventLoop: error on polled file descriptor''))
      else
        let poll_ready = revents AND events \<noteq> 0;
            poll_hup = revents AND POLLHUP \<noteq> 0
        in if poll_hup \<and> events \<noteq> 0 \<and> \<not> poll_ready
           then
             case rule_cancel this_rule s of
               (s, Inl e) \<Rightarrow> (s, this_rule # it, Inl e)
             | (s, Inr _) \<Rightarrow> results_loop it pollfds s
           else
             case
               (if poll_ready then
                  let count_before = Rule_service_count s this_rule
                  in case rule_callback this_rule s of
                       (s, Inl e) \<Rightarrow> (s, Inl e)
                     | (s, Inr _) \<Rightarrow>
                         if count_before = Rule_service_count s this_rule \<and> rule_interest this_rule s
                         then (s, Inl (Runtime_error ''EventLoop: busy wait detected: callback did not read/write fd and is still interested''))
                         else (s, Inr ())
                else (s, Inr ())) of
               (s, Inl e) \<Rightarrow> (s, this_rule # it, Inl e)
             | (s, Inr _) \<Rightarrow>
                 (case results_loop it pollfds s of (s, rules, res) \<Rightarrow> (s, this_rule # rules, res)))"

definition EINTR :: int where "EINTR = 4"

text \<open>\<open>something_to_poll\<close> is set exactly when some \<open>pollfd\<close> asks for events.\<close>

definition EventLoop_wait_next_event ::
  "'k syscalls \<Rightarrow> ('k, 'm) os_scheme Rule list \<Rightarrow> ('k, 'm) os_scheme \<Rightarrow> int
    \<Rightarrow> ('k, 'm) os_scheme \<times> ('k, 'm) os_scheme Rule list \<times> LoopResult result" where
  "EventLoop_wait_next_event sys rules s timeout_ms =
     (case setup_loop rules s of
        (s, rules, Inl e) \<Rightarrow> (s, rules, Inl e)
      | (s, rules, Inr pollfds) \<Rightarrow>
          if \<not> list_ex (\<lambda>p. snd p \<noteq> 0) pollfds then (s, rules, Inr Exit)
          else
            let (reply, revents) = sys_poll sys (os_kernel s) pollfds timeout_ms;
                (s, ret) = os_call s ''poll'' reply 0;
                results =
                  (case results_loop rules (zip (map snd pollfds) revents) s of
                     (s, rules, res) \<Rightarrow> (s, rules, map_sum id (\<lambda>_. Success) res))
            in case ret of
                 Inr n \<Rightarrow> if n = 0 then (s, rules, Inr Timeout) else results
               | Inl (System_error attempt code) \<Rightarrow> if code = EINTR then (s, rules, Inr Exit) else results
               | Inl e \<Rightarrow> (s, rules, Inl e))"

definition poll_ready :: "u16 \<times> u16 \<Rightarrow> bool" where
  "poll_ready p \<longleftrightarrow> snd p AND fst p \<noteq> 0"

definition hung_up :: "u16 \<times> u16 \<Rightarrow> bool" where
  "hung_up p \<longleftrightarrow> snd p AND POLLHUP \<noteq> 0 \<and> fst p \<noteq> 0 \<and> \<not> poll_ready p"

subsection \<open>The contract\<close>

text \<open>A program gives the loop its rules. Each callback keeps the invariant of the program, also when it
  throws; each cancellation keeps it once the rule is \<open>over\<close>, which is so when its descriptor is at its
  end or closed, or when poll reports that it has only hung up, and stays so. Poll itself keeps the
  invariant. Then the loop keeps it, and adds no rules.\<close>

locale rule_loop =
  fixes sys :: "'k syscalls"
    and rules :: "('k, 'm) os_scheme Rule set"
    and inv :: "('k, 'm) os_scheme \<Rightarrow> bool"
    and over :: "('k, 'm) os_scheme Rule \<Rightarrow> ('k, 'm) os_scheme \<Rightarrow> bool"
  assumes callback_inv: "r \<in> rules \<Longrightarrow> inv s \<Longrightarrow> inv (fst (rule_callback r s))"
    and cancel_inv: "r \<in> rules \<Longrightarrow> inv s \<Longrightarrow> over r s \<Longrightarrow> inv (fst (rule_cancel r s))"
    and over_ended: "r \<in> rules \<Longrightarrow> inv s \<Longrightarrow>
      (rule_direction r = In \<and> FileDescriptor_eof s (rule_fd r)) \<or> FileDescriptor_closed s (rule_fd r) \<Longrightarrow> over r s"
    and over_callback: "r \<in> rules \<Longrightarrow> r' \<in> rules \<Longrightarrow> inv s \<Longrightarrow> over r s \<Longrightarrow> over r (fst (rule_callback r' s))"
    and over_cancel: "r \<in> rules \<Longrightarrow> r' \<in> rules \<Longrightarrow> inv s \<Longrightarrow> over r s \<Longrightarrow> over r (fst (rule_cancel r' s))"
    and poll_inv: "inv s \<Longrightarrow> sys_poll sys (os_kernel s) pollfds t = ((k, ret, errno), revents) \<Longrightarrow>
      inv (s\<lparr>os_kernel := k\<rparr>)"
    and poll_hung_up: "r \<in> rules \<Longrightarrow> inv s \<Longrightarrow> inv s0 \<Longrightarrow>
      sys_poll sys (os_kernel s) pollfds t = ((k, ret, errno), revents) \<Longrightarrow>
      (FileDescriptor_fd_num s0 (rule_fd r), Direction_events (rule_direction r), revent)
        \<in> set (map2 (\<lambda>p e. (fst p, snd p, e)) pollfds revents) \<Longrightarrow>
      hung_up (Direction_events (rule_direction r), revent) \<Longrightarrow> over r (s\<lparr>os_kernel := k\<rparr>)"
begin

text \<open>The entry the first loop makes for a rule.\<close>

definition polled_for :: "('k, 'm) os_scheme Rule \<Rightarrow> int \<times> u16 \<Rightarrow> bool" where
  "polled_for r p \<longleftrightarrow> (\<exists>s0. inv s0 \<and> fst p = FileDescriptor_fd_num s0 (rule_fd r)) \<and>
     (snd p = 0 \<or> snd p = Direction_events (rule_direction r))"

lemma setup_inv:
  assumes "set rs \<subseteq> rules" and "inv s" and "setup_loop rs s = (s', rs', res)"
  shows "inv s' \<and> set rs' \<subseteq> set rs \<and> (\<forall>pollfds. res = Inr pollfds \<longrightarrow> list_all2 polled_for rs' pollfds)"
  using assms
proof (induction rs arbitrary: s s' rs' res)
  case (Cons r rs)
  have sub: "set rs \<subseteq> rules" and r: "r \<in> rules" using Cons.prems(1) by simp_all
  show ?case
  proof (cases "(rule_direction r = In \<and> FileDescriptor_eof s (rule_fd r)) \<or> FileDescriptor_closed s (rule_fd r)")
    case True
    obtain s1 res1 where c: "rule_cancel r s = (s1, res1)" by fastforce
    have i1: "inv s1" using cancel_inv [OF r Cons.prems(2) over_ended [OF r Cons.prems(2) True]] c by simp
    show ?thesis
    proof (cases res1)
      case (Inl e)
      then show ?thesis using Cons.prems(3) True c i1 by auto
    next
      case (Inr u)
      have "setup_loop rs s1 = (s', rs', res)" using Cons.prems(3) True c Inr by simp
      from Cons.IH [OF sub i1 this] show ?thesis by auto
    qed
  next
    case False
    obtain s2 rs2 res2 where l: "setup_loop rs s = (s2, rs2, res2)" by (metis prod_cases3)
    let ?p = "(FileDescriptor_fd_num s (rule_fd r), if rule_interest r s then Direction_events (rule_direction r) else 0)"
    have "polled_for r ?p" using Cons.prems(2) by (auto simp: polled_for_def)
    with Cons.IH [OF sub Cons.prems(2) l] show ?thesis
      using Cons.prems(3) False l by (cases res2) (auto simp: Let_def)
  qed
qed simp

lemma results_inv:
  assumes "set rs \<subseteq> rules" and "inv s" and "results_loop rs ps s = (s', rs', res)"
    and "\<And>r p. (r, p) \<in> set (zip rs ps) \<Longrightarrow> hung_up p \<Longrightarrow> over r s"
  shows "inv s' \<and> set rs' \<subseteq> set rs"
  using assms
proof (induction rs arbitrary: ps s s' rs' res)
  case (Cons r rs)
  show ?case
  proof (cases ps)
    case Nil
    then show ?thesis using Cons.prems by simp
  next
    case ps: (Cons p ps')
    obtain events revents where p: "p = (events, revents)" by fastforce
    obtain s1 res1 where c: "rule_cancel r s = (s1, res1)" by fastforce
    obtain s2 res2 where b: "rule_callback r s = (s2, res2)" by fastforce
    have sub: "set rs \<subseteq> rules" and r: "r \<in> rules" using Cons.prems(1) by simp_all
    have later: "over r' s" if "(r', p') \<in> set (zip rs ps')" "hung_up p'" for r' p'
      using Cons.prems(4) [of r' p'] that by (simp add: ps)
    have i2: "inv s2" using callback_inv [OF r Cons.prems(2)] b by simp
    have later2: "over r' s2" if "(r', p') \<in> set (zip rs ps')" "hung_up p'" for r' p'
      using over_callback [OF _ r Cons.prems(2) later [OF that]] sub set_zip_leftD [OF that(1)] b by auto
    have i1: "inv s1" if "hung_up p"
      using cancel_inv [OF r Cons.prems(2)] Cons.prems(4) [of r p] that c by (simp add: ps)
    have later1: "over r' s1" if "(r', p') \<in> set (zip rs ps')" "hung_up p'" for r' p'
      using over_cancel [OF _ r Cons.prems(2) later [OF that]] sub set_zip_leftD [OF that(1)] c by auto
    obtain s0' rs0' res0' where r0: "results_loop rs ps' s = (s0', rs0', res0')" by (metis prod_cases3)
    obtain s1' rs1' res1' where r1: "results_loop rs ps' s1 = (s1', rs1', res1')" by (metis prod_cases3)
    obtain s2' rs2' res2' where r2: "results_loop rs ps' s2 = (s2', rs2', res2')" by (metis prod_cases3)
    have "inv s0' \<and> set rs0' \<subseteq> set rs" using Cons.IH [OF sub Cons.prems(2) r0] later by blast
    moreover have "inv s2' \<and> set rs2' \<subseteq> set rs" using Cons.IH [OF sub i2 r2] later2 by blast
    moreover have "inv s1' \<and> set rs1' \<subseteq> set rs" if "hung_up p" using Cons.IH [OF sub i1 [OF that] r1] later1 by blast
    ultimately show ?thesis using Cons.prems(2,3) i1 i2
      by (auto simp: ps p c b r0 r1 r2 hung_up_def poll_ready_def Let_def split: if_splits sum.splits)
  qed
qed simp

lemma wait_inv:
  assumes "set rs \<subseteq> rules" and "inv s" and "EventLoop_wait_next_event sys rs s t = (s', rs', res)"
  shows "inv s' \<and> set rs' \<subseteq> set rs"
proof -
  obtain s1 rs1 res1 where u: "setup_loop rs s = (s1, rs1, res1)" by (metis prod_cases3)
  note one = setup_inv [OF assms(1,2) u]
  show ?thesis
  proof (cases res1)
    case (Inl e)
    then show ?thesis using assms(3) u one by (simp add: EventLoop_wait_next_event_def)
  next
    case (Inr pollfds)
    obtain k r errno revents where
      p: "sys_poll sys (os_kernel s1) pollfds t = ((k, r, errno), revents)" by (metis prod_cases3 surj_pair)
    obtain s2 rs2 res2 where
      l: "results_loop rs1 (zip (map snd pollfds) revents) (s1\<lparr>os_kernel := k\<rparr>) = (s2, rs2, res2)"
      by (metis prod_cases3)
    have i: "inv (s1\<lparr>os_kernel := k\<rparr>)" using poll_inv one p by blast
    have sub: "set rs1 \<subseteq> rules" using one assms(1) by blast
    have "over r (s1\<lparr>os_kernel := k\<rparr>)"
      if rp: "(r, p) \<in> set (zip rs1 (zip (map snd pollfds) revents))" and h: "hung_up p" for r p
    proof -
      obtain i where i: "i < length rs1" "i < length pollfds" "i < length revents" "r = rs1 ! i"
        "p = (snd (pollfds ! i), revents ! i)" using rp by (auto simp: in_set_zip)
      have "polled_for r (pollfds ! i)" using one Inr i(1,2,4) by (auto simp: list_all2_conv_all_nth)
      then obtain s0 where s0: "inv s0" "fst (pollfds ! i) = FileDescriptor_fd_num s0 (rule_fd r)"
        and ev: "snd (pollfds ! i) = Direction_events (rule_direction r)"
        using h i(5) by (auto simp: polled_for_def hung_up_def)
      have "(fst (pollfds ! i), snd (pollfds ! i), revents ! i) \<in> set (map2 (\<lambda>p e. (fst p, snd p, e)) pollfds revents)"
        using i(2,3) nth_mem [of i "map2 (\<lambda>p e. (fst p, snd p, e)) pollfds revents"] by simp
      moreover have "r \<in> rules" using sub i(1,4) by auto
      ultimately show ?thesis
        using poll_hung_up [OF _ _ s0(1) p, of r "revents ! i"] one h i(5) s0(2) ev by simp
    qed
    then have "inv s2 \<and> set rs2 \<subseteq> set rs1" using results_inv [OF sub i l] by blast
    then show ?thesis
      using assms(3) one i
      by (auto simp: EventLoop_wait_next_event_def u Inr p l os_call_def SystemCall_def Let_def split: if_splits)
  qed
qed

end

subsection \<open>What the loop serves\<close>

definition serve :: "'s \<Rightarrow> 's Rule \<times> u16 \<times> u16 \<Rightarrow> 's" where
  "serve s rp =
     (if hung_up (snd rp) then fst (rule_cancel (fst rp) s)
      else if poll_ready (snd rp) then fst (rule_callback (fst rp) s) else s)"

text \<open>A well-behaved rule does not throw, and its callback reads or writes the descriptor or ends the
  interest in it.\<close>

definition well_behaved :: "('k, 'm) os_scheme Rule \<Rightarrow> bool" where
  "well_behaved r \<longleftrightarrow>
     (\<forall>s. snd (rule_callback r s) = Inr () \<and> snd (rule_cancel r s) = Inr () \<and>
        (Rule_service_count (fst (rule_callback r s)) r \<noteq> Rule_service_count s r \<or>
         \<not> rule_interest r (fst (rule_callback r s))))"

lemma well_behavedD:
  assumes "well_behaved r" and "rule_callback r s = (s1, res1)" and "rule_cancel r s = (s2, res2)"
  shows "res1 = Inr ()" "res2 = Inr ()"
    "Rule_service_count s r = Rule_service_count s1 r \<Longrightarrow> \<not> rule_interest r s1"
  using assms unfolding well_behaved_def by (metis fst_conv snd_conv)+

lemma results_serve:
  assumes "length ps = length rs" and "list_all well_behaved rs"
    and "list_all (\<lambda>p. snd p AND (POLLERR OR POLLNVAL) = 0) ps"
  shows "results_loop rs ps s
    = (foldl serve s (zip rs ps), map fst (filter (\<lambda>rp. \<not> hung_up (snd rp)) (zip rs ps)), Inr ())"
  using assms
proof (induction rs ps arbitrary: s rule: list_induct2')
  case (4 r rs p ps)
  obtain events revents where p: "p = (events, revents)" by fastforce
  obtain s1 res1 where b: "rule_callback r s = (s1, res1)" by fastforce
  obtain s2 res2 where c: "rule_cancel r s = (s2, res2)" by fastforce
  have "well_behaved r" using 4 by simp
  note ok = well_behavedD [OF this b c]
  show ?case using 4 ok(3)
    by (auto simp: p b c ok(1,2) serve_def hung_up_def poll_ready_def Let_def)
qed simp_all

lemma setup_length: "setup_loop rs s = (s', live, Inr pollfds) \<Longrightarrow> length pollfds = length live"
proof (induction rs arbitrary: s s' live pollfds)
  case (Cons r rs)
  show ?case
  proof (cases "setup_loop rs s")
    case (fields s1 live1 res1)
    then show ?thesis using Cons.prems Cons.IH [of s] Cons.IH
      by (cases res1) (auto simp: Let_def split: if_splits sum.splits prod.splits)
  qed
qed simp

lemma wait_polled:
  assumes "setup_loop rules s = (s1, live, Inr pollfds)" and "list_ex (\<lambda>p. snd p \<noteq> 0) pollfds"
    and "sys_poll sys (os_kernel s1) pollfds timeout_ms = ((k, ret, errno), revents)"
    and "0 < to_int ret \<or> to_int ret < 0 \<and> errno \<noteq> 0 \<and> errno \<noteq> EINTR"
  shows "EventLoop_wait_next_event sys rules s timeout_ms =
    (case results_loop live (zip (map snd pollfds) revents) (s1\<lparr>os_kernel := k\<rparr>) of
       (s, rules, res) \<Rightarrow> (s, rules, map_sum id (\<lambda>_. Success) res))"
  using assms by (auto simp: EventLoop_wait_next_event_def os_call_def SystemCall_def)

text \<open>The reference for the first loop: rules whose descriptor is at its end or closed are cancelled and leave;
  each other one is polled for its events if it is interested, and for none otherwise.\<close>

definition ended :: "('k, 'm) os_scheme \<Rightarrow> ('k, 'm) os_scheme Rule \<Rightarrow> bool" where
  "ended s r \<longleftrightarrow> (rule_direction r = In \<and> FileDescriptor_eof s (rule_fd r)) \<or> FileDescriptor_closed s (rule_fd r)"

definition pollfd_for :: "('k, 'm) os_scheme \<Rightarrow> ('k, 'm) os_scheme Rule \<Rightarrow> int \<times> u16" where
  "pollfd_for s r =
     (FileDescriptor_fd_num s (rule_fd r), if rule_interest r s then Direction_events (rule_direction r) else 0)"

definition poll_set ::
  "('k, 'm) os_scheme Rule list \<Rightarrow> ('k, 'm) os_scheme
    \<Rightarrow> ('k, 'm) os_scheme \<times> (('k, 'm) os_scheme Rule \<times> int \<times> u16) list" where
  "poll_set rules s = foldl (\<lambda>(s, kept) r.
     if ended s r then (fst (rule_cancel r s), kept) else (s, kept @ [(r, pollfd_for s r)])) (s, []) rules"

lemma poll_set_kept:
  "foldl (\<lambda>(s, kept) r. if ended s r then (fst (rule_cancel r s), kept) else (s, kept @ [(r, pollfd_for s r)])) (s, kept) rules
     = (fst (poll_set rules s), kept @ snd (poll_set rules s))"
proof (induction rules arbitrary: s kept)
  case (Cons r rules)
  show ?case
    using Cons [of "fst (rule_cancel r s)" kept] Cons [of s "kept @ [(r, pollfd_for s r)]"] Cons [of s "[(r, pollfd_for s r)]"]
    by (simp add: poll_set_def)
qed (simp add: poll_set_def)

lemma poll_set_simps:
  "poll_set [] s = (s, [])"
  "poll_set (r # rules) s =
     (if ended s r then poll_set rules (fst (rule_cancel r s))
      else (fst (poll_set rules s), (r, pollfd_for s r) # snd (poll_set rules s)))"
  using poll_set_kept [of s "[(r, pollfd_for s r)]" rules] by (simp_all add: poll_set_def)

lemma setup_poll_set:
  "list_all well_behaved rules \<Longrightarrow> setup_loop rules s
     = (fst (poll_set rules s), map fst (snd (poll_set rules s)), Inr (map snd (snd (poll_set rules s))))"
proof (induction rules arbitrary: s)
  case (Cons r rules)
  obtain s1 res1 where c: "rule_cancel r s = (s1, res1)" by fastforce
  obtain s2 res2 where b: "rule_callback r s = (s2, res2)" by fastforce
  have res1: "res1 = Inr ()" using well_behavedD(2) [OF _ b c] Cons.prems by simp
  show ?case
  proof (cases "ended s r")
    case True
    then show ?thesis using Cons c res1 by (simp add: poll_set_simps ended_def)
  next
    case False
    then have live: "(rule_direction r = In \<and> FileDescriptor_eof s (rule_fd r) \<or> FileDescriptor_closed s (rule_fd r)) = False"
      by (simp add: ended_def)
    have "setup_loop (r # rules) s = (case setup_loop rules s of
        (s', rules, res) \<Rightarrow> (s', r # rules, map_sum id (\<lambda>pollfds. pollfd_for s r # pollfds) res))"
      unfolding setup_loop.simps(2) live if_False Let_def pollfd_for_def by (rule refl)
    then show ?thesis using False Cons by (simp add: poll_set_simps)
  qed
qed (simp add: poll_set_simps)

lemma poll_set_well_behaved:
  "list_all well_behaved rules \<Longrightarrow> list_all well_behaved (map fst (snd (poll_set rules s)))"
  by (induction rules arbitrary: s) (auto simp: poll_set_simps)

lemma zip_polled:
  "length revents = length kept \<Longrightarrow> zip (map fst kept) (zip (map snd (map snd kept)) revents)
     = map2 (\<lambda>(r, num, events) revent. (r, events, revent)) kept revents"
  by (induction revents kept rule: list_induct2) auto

text \<open>C22: the loop serves exactly the ready descriptors. One call of \<open>wait_next_event\<close> with well-behaved rules
  first cancels and removes, in order, the rules whose descriptor is at its end or closed. Of the
  others, those that are interested are polled for their events, the rest for none. When \<open>poll\<close>
  reports events and no error, the call then runs, in the order of the rules, the callback of each
  rule whose event was asked for and reported, cancels and removes each rule whose descriptor has
  only hung up, touches no other rule, and returns \<open>Success\<close>.\<close>
theorem event_loop_serves_ready:
  assumes rules: "list_all well_behaved rules" and kept: "poll_set rules s = (s1, kept)"
    and asked: "list_ex (\<lambda>(r, num, events). events \<noteq> 0) kept"
    and poll: "sys_poll sys (os_kernel s1) (map snd kept) timeout_ms = ((k, ret, errno), revents)"
    and ret: "0 < ret" "ret < 2 ^ 31" and len: "length revents = length kept"
    and no_error: "list_all (\<lambda>r. r AND (POLLERR OR POLLNVAL) = 0) revents"
  defines "polled \<equiv> map2 (\<lambda>(r, num, events) revent. (r, events, revent)) kept revents"
  shows "EventLoop_wait_next_event sys rules s timeout_ms =
    (foldl serve (s1\<lparr>os_kernel := k\<rparr>) polled, map fst (filter (\<lambda>rp. \<not> hung_up (snd rp)) polled), Inr Success)"
proof -
  have pass: "setup_loop rules s = (s1, map fst kept, Inr (map snd kept))" using setup_poll_set [OF rules] kept by simp
  have behaved: "list_all well_behaved (map fst kept)" using poll_set_well_behaved [OF rules, of s] kept by simp
  have ask: "list_ex (\<lambda>p. snd p \<noteq> 0) (map snd kept)" using asked by (force simp: list_ex_iff)
  have err: "list_all (\<lambda>p. snd p AND (POLLERR OR POLLNVAL) = 0) (zip (map snd (map snd kept)) revents)"
    using no_error by (auto simp: list_all_iff dest: set_zip_rightD)
  have polled: "zip (map fst kept) (zip (map snd (map snd kept)) revents) = polled"
    unfolding polled_def by (rule zip_polled [OF len])
  have "0 < to_int ret" using ret by (simp add: to_int_id)
  then show ?thesis
    using wait_polled [OF pass ask poll] results_serve [OF _ behaved err] len unfolding polled [symmetric] by simp
qed

text \<open>A failure of \<open>poll\<close> goes unnoticed. If \<open>poll\<close> fails with any error but an interruption and
  reports no events, \<open>wait_next_event\<close> runs no callback and returns \<open>Success\<close>; the documentation
  promises an exception.\<close>
lemma poll_failure_unnoticed:
  assumes "setup_loop rules s = (s1, live, Inr pollfds)" and "list_ex (\<lambda>p. snd p \<noteq> 0) pollfds"
    and "sys_poll sys (os_kernel s1) pollfds timeout_ms = ((k, -1, errno), map (\<lambda>_. 0) pollfds)"
    and "errno \<noteq> 0" and "errno \<noteq> EINTR"
  shows "EventLoop_wait_next_event sys rules s timeout_ms = (s1\<lparr>os_kernel := k\<rparr>, live, Inr Success)"
proof -
  have "results_loop rs (zip (map snd ps) (map (\<lambda>_. 0) ps)) s = (s, rs, Inr ())"
    if "length ps = length rs" for rs and ps :: "(int \<times> u16) list" and s :: "('a, 'b) os_scheme"
    using that by (induction ps rs rule: list_induct2) (auto simp: Let_def)
  moreover have "to_int (-1) < 0" by (simp add: to_int_id)
  ultimately show ?thesis
    using wait_polled [OF assms(1-3)] setup_length [OF assms(1)] assms(4,5) by simp
qed

text \<open>A concrete loop: the first rule counts the bytes of descriptor 0 it has read, the second is not interested and
  would throw everything away; the kernel state is what can be read.\<close>

definition sample_rules :: "(bytes, unit) os_scheme Rule list" where
  "sample_rules =
     (let rules = EventLoop_add_rule [] 0 In (\<lambda>s. (register_read 0 (s\<lparr>os_kernel := tl (os_kernel s)\<rparr>), Inr ()))
        (\<lambda>s. True) (\<lambda>s. (s, Inr ()))
      in EventLoop_add_rule rules 0 Out (\<lambda>s. (s\<lparr>os_kernel := []\<rparr>, Inr ())) (\<lambda>s. False) (\<lambda>s. (s, Inr ())))"

definition sample_poll :: "bytes \<Rightarrow> (int \<times> u16) list \<Rightarrow> int \<Rightarrow> bytes reply \<times> u16 list" where
  "sample_poll k pollfds t = ((k, int (length pollfds), 0), map (\<lambda>_. POLLIN OR POLLOUT) pollfds)"

theorem event_loop_serves_ready_witness:
  "case EventLoop_wait_next_event (no_syscalls\<lparr>sys_poll := sample_poll\<rparr>) sample_rules (one_fd 5 [1, 2]) 10 of
     (s, rules, res) \<Rightarrow> os_kernel s = [2] \<and> rules = sample_rules \<and> res = Inr Success"
proof -
  let ?s = "one_fd 5 [1, 2]"
  have behaved: "list_all well_behaved sample_rules"
    by (simp add: sample_rules_def EventLoop_add_rule_def well_behaved_def Rule_service_count_def
        FileDescriptor_duplicate_def FileDescriptor_read_count_def register_read_def)
  have kept: "poll_set sample_rules ?s = (?s, [(sample_rules ! 0, 5, POLLIN), (sample_rules ! 1, 5, 0)])"
    by (simp add: sample_rules_def EventLoop_add_rule_def one_fd_def FileDescriptor_eof_def FileDescriptor_closed_def
        FileDescriptor_fd_num_def FileDescriptor_duplicate_def poll_set_simps ended_def pollfd_for_def)
  have poll: "sys_poll (no_syscalls\<lparr>sys_poll := sample_poll\<rparr>) (os_kernel ?s)
      (map snd [(sample_rules ! 0, 5, POLLIN), (sample_rules ! 1, 5, 0)]) 10 = (([1, 2], 2, 0), [POLLIN OR POLLOUT, POLLIN OR POLLOUT])"
    by (simp add: sample_poll_def one_fd_def)
  show ?thesis
    using event_loop_serves_ready [OF behaved kept _ poll]
    by (simp add: POLLIN_def POLLOUT_def POLLERR_def POLLNVAL_def sample_rules_def EventLoop_add_rule_def hung_up_def
        poll_ready_def serve_def one_fd_def)
qed

end
