(* ===== verification/Sponge_Socket.thy ===== *)
theory Sponge_Socket
  imports Fd_Adapters Event_Loop TCP_Connection
begin

text \<open>
  The socket: \<open>src/libsponge/tcp_helpers/tcp_sponge_socket.{hh,cc}\<close>, a template over the adapter. The state extends
  the state of the process by the members of the class; the rules of its event loop are kept beside
  it. Time (\<open>timestamp_ms\<close>) is read off the kernel state by a parameter. The second thread is the function
  \<open>_tcp_main\<close>; the owner, in the first thread, only uses its end of the socket pair, so what it does is part
  of the kernel. Messages to the debug output matter where they ask for the text of an address, which may throw.
\<close>

subsection \<open>State\<close>

record ('k, 'a) TCPSpongeSocket = "'k os" +
  ss_data :: FileDescriptor
  ss_thread_data :: FileDescriptor
  ss_datagram_adapter :: 'a
  ss_tcp :: "TCPConnection option"
  ss_abort :: bool
  ss_inbound_shutdown :: bool
  ss_outbound_shutdown :: bool
  ss_fully_acked :: bool
  ss_joinable :: bool

type_synonym ('k, 'a) sponge_rules = "('k, 'a) TCPSpongeSocket Rule list"

text \<open>An operation of the adapter sees the process and the adapter, not the socket.\<close>

definition adapter_call ::
  "('k os \<Rightarrow> 'a \<Rightarrow> 'k os \<times> 'a \<times> 'r) \<Rightarrow> ('k, 'a) TCPSpongeSocket \<Rightarrow> ('k, 'a) TCPSpongeSocket \<times> 'r" where
  "adapter_call f s =
     (case f \<lparr>os_kernel = os_kernel s, os_wrappers = os_wrappers s, os_next = os_next s\<rparr> (ss_datagram_adapter s) of
        (os, ad, res) \<Rightarrow>
          (s\<lparr>os_kernel := os_kernel os, os_wrappers := os_wrappers os, os_next := os_next os,
             ss_datagram_adapter := ad\<rparr>, res))"

definition no_tcp :: cpp_error where "no_tcp = Undefined_behaviour ''_tcp is empty''"

text \<open>A message to the debug output with the address of the peer.\<close>

definition debug_destination ::
  "getnameinfo \<Rightarrow> ('k, 'a) AdaptT \<Rightarrow> ('k, 'a) TCPSpongeSocket \<Rightarrow> ('k, 'a) TCPSpongeSocket \<times> unit result" where
  "debug_destination gni ops s =
     (s, map_sum id (\<lambda>_. ()) (Address_to_string gni (fac_destination (ad_config ops (ss_datagram_adapter s)))))"

subsection \<open>The four rules\<close>

definition rule1_callback ::
  "getnameinfo \<Rightarrow> ('k, 'a) AdaptT \<Rightarrow> ('k, 'a) TCPSpongeSocket CallbackT" where
  "rule1_callback gni ops s =
     (case adapter_call (ad_read ops) s of
        (s, Inl e) \<Rightarrow> (s, Inl e)
      | (s, Inr seg) \<Rightarrow>
          (case ss_tcp s of
             None \<Rightarrow> (s, Inl no_tcp)
           | Some tcp \<Rightarrow>
               let tcp = (case seg of Some seg \<Rightarrow> TCPConnection_segment_received tcp seg | None \<Rightarrow> tcp);
                   s = s\<lparr>ss_tcp := Some tcp\<rparr>
               in if FileDescriptor_eof s (ss_thread_data s) \<and> TCPConnection_bytes_in_flight tcp = 0 \<and>
                     \<not> ss_fully_acked s
                  then case debug_destination gni ops s of
                         (s, Inl e) \<Rightarrow> (s, Inl e)
                       | (s, Inr _) \<Rightarrow> (s\<lparr>ss_fully_acked := True\<rparr>, Inr ())
                  else (s, Inr ())))"

definition rule1_interest :: "('k, 'a) TCPSpongeSocket InterestT" where
  "rule1_interest s = (case ss_tcp s of None \<Rightarrow> False | Some tcp \<Rightarrow> TCPConnection_active tcp)"

definition rule2_callback ::
  "'k syscalls \<Rightarrow> getnameinfo \<Rightarrow> ('k, 'a) AdaptT \<Rightarrow> ('k, 'a) TCPSpongeSocket CallbackT" where
  "rule2_callback sys gni ops s =
     (case ss_tcp s of
        None \<Rightarrow> (s, Inl no_tcp)
      | Some tcp \<Rightarrow>
          (case FileDescriptor_read sys s (ss_thread_data s) (TCPConnection_remaining_outbound_capacity tcp) of
             (s, Inl e) \<Rightarrow> (s, Inl e)
           | (s, Inr data) \<Rightarrow>
               let len = sz data;
                   (tcp, amount_written) = TCPConnection_write tcp data;
                   s = s\<lparr>ss_tcp := Some tcp\<rparr>
               in if amount_written \<noteq> len
                  then (s, Inl (Runtime_error ''TCPConnection::write() accepted less than advertised length''))
                  else if FileDescriptor_eof s (ss_thread_data s)
                  then debug_destination gni ops
                         (s\<lparr>ss_tcp := Some (TCPConnection_end_input_stream tcp), ss_outbound_shutdown := True\<rparr>)
                  else (s, Inr ())))"

definition rule2_interest :: "('k, 'a) TCPSpongeSocket InterestT" where
  "rule2_interest s =
     (case ss_tcp s of
        None \<Rightarrow> False
      | Some tcp \<Rightarrow> TCPConnection_active tcp \<and> \<not> ss_outbound_shutdown s \<and>
          TCPConnection_remaining_outbound_capacity tcp > 0)"

definition rule2_cancel :: "('k, 'a) TCPSpongeSocket CallbackT" where
  "rule2_cancel s =
     (case ss_tcp s of
        None \<Rightarrow> (s, Inl no_tcp)
      | Some tcp \<Rightarrow>
          (s\<lparr>ss_tcp := Some (TCPConnection_end_input_stream tcp), ss_outbound_shutdown := True\<rparr>, Inr ()))"

text \<open>\<open>inbound_stream()\<close> is a reference; this is what an assignment through it does.\<close>

definition set_inbound :: "TCPConnection \<Rightarrow> ByteStream \<Rightarrow> TCPConnection" where
  "set_inbound tcp inbound =
     tcp\<lparr>conn_receiver := (conn_receiver tcp)
       \<lparr>rcv_reassembler := (rcv_reassembler (conn_receiver tcp))\<lparr>sr_output := inbound\<rparr>\<rparr>\<rparr>"

definition rule3_callback ::
  "'k syscalls \<Rightarrow> getnameinfo \<Rightarrow> ('k, 'a) AdaptT \<Rightarrow> ('k, 'a) TCPSpongeSocket CallbackT" where
  "rule3_callback sys gni ops s =
     (case ss_tcp s of
        None \<Rightarrow> (s, Inl no_tcp)
      | Some tcp \<Rightarrow>
          let inbound = TCPConnection_inbound_stream tcp;
              amount_to_write = min 65536 (ByteStream_buffer_size inbound);
              buffer = ByteStream_peek_output inbound amount_to_write
          in case FileDescriptor_write sys s (ss_thread_data s) (BufferViewList_of_view buffer) False of
               (s, Inl e) \<Rightarrow> (s, Inl e)
             | (s, Inr bytes_written) \<Rightarrow>
                 let inbound = ByteStream_pop_output inbound bytes_written;
                     s = s\<lparr>ss_tcp := Some (set_inbound tcp inbound)\<rparr>
                 in if ByteStream_eof inbound \<or> ByteStream_error inbound
                    then case Socket_shutdown sys s (ss_thread_data s) SHUT_WR of
                           (s, Inl e) \<Rightarrow> (s, Inl e)
                         | (s, Inr _) \<Rightarrow> debug_destination gni ops (s\<lparr>ss_inbound_shutdown := True\<rparr>)
                    else (s, Inr ()))"

definition rule3_interest :: "('k, 'a) TCPSpongeSocket InterestT" where
  "rule3_interest s =
     (case ss_tcp s of
        None \<Rightarrow> False
      | Some tcp \<Rightarrow>
          let inbound = TCPConnection_inbound_stream tcp
          in \<not> ByteStream_buffer_empty inbound \<or>
             ((ByteStream_eof inbound \<or> ByteStream_error inbound) \<and> \<not> ss_inbound_shutdown s))"

text \<open>The loop of rule 4: write the front of the queue, then pop it.\<close>

definition set_segments_out :: "TCPSegment list \<Rightarrow> ('k, 'a) TCPSpongeSocket \<Rightarrow> ('k, 'a) TCPSpongeSocket" where
  "set_segments_out q s = s\<lparr>ss_tcp := map_option (\<lambda>tcp. tcp\<lparr>conn_segments_out := q\<rparr>) (ss_tcp s)\<rparr>"

fun write_segments ::
  "('k, 'a) AdaptT \<Rightarrow> TCPSegment list \<Rightarrow> ('k, 'a) TCPSpongeSocket CallbackT" where
  "write_segments ops [] s = (s, Inr ())"
| "write_segments ops (seg # q) s =
     (case adapter_call (\<lambda>os ad. ad_write ops os ad seg) s of
        (s, Inl e) \<Rightarrow> (s, Inl e)
      | (s, Inr _) \<Rightarrow> write_segments ops q (set_segments_out q s))"

definition rule4_callback :: "('k, 'a) AdaptT \<Rightarrow> ('k, 'a) TCPSpongeSocket CallbackT" where
  "rule4_callback ops s =
     (case ss_tcp s of
        None \<Rightarrow> (s, Inl no_tcp)
      | Some tcp \<Rightarrow> write_segments ops (conn_segments_out tcp) s)"

definition rule4_interest :: "('k, 'a) TCPSpongeSocket InterestT" where
  "rule4_interest s = (case ss_tcp s of None \<Rightarrow> False | Some tcp \<Rightarrow> conn_segments_out tcp \<noteq> [])"

text \<open>\<open>_initialize_TCP\<close>; the last two arguments are the random numbers the connection draws.\<close>

definition sponge_rules ::
  "'k syscalls \<Rightarrow> getnameinfo \<Rightarrow> ('k, 'a) AdaptT \<Rightarrow> FileDescriptor \<Rightarrow> FileDescriptor \<Rightarrow> ('k, 'a) sponge_rules
    \<Rightarrow> ('k, 'a) sponge_rules" where
  "sponge_rules sys gni ops datagram_fd thread_data rules =
     (let rules = EventLoop_add_rule rules datagram_fd In (rule1_callback gni ops) rule1_interest (\<lambda>s. (s, Inr ()));
          rules = EventLoop_add_rule rules thread_data In (rule2_callback sys gni ops) rule2_interest rule2_cancel;
          rules = EventLoop_add_rule rules thread_data Out (rule3_callback sys gni ops) rule3_interest (\<lambda>s. (s, Inr ()))
      in EventLoop_add_rule rules datagram_fd Out (rule4_callback ops) rule4_interest (\<lambda>s. (s, Inr ())))"

definition TCPSpongeSocket_initialize_TCP ::
  "'k syscalls \<Rightarrow> getnameinfo \<Rightarrow> ('k, 'a) AdaptT \<Rightarrow> TCPConfig \<Rightarrow> u32 \<Rightarrow> u32
    \<Rightarrow> ('k, 'a) sponge_rules \<times> ('k, 'a) TCPSpongeSocket \<Rightarrow> ('k, 'a) sponge_rules \<times> ('k, 'a) TCPSpongeSocket" where
  "TCPSpongeSocket_initialize_TCP sys gni ops config rrnd srnd rs =
     (case rs of (rules, s) \<Rightarrow>
        (sponge_rules sys gni ops (ad_fd ops (ss_datagram_adapter s)) (ss_thread_data s) rules,
         s\<lparr>ss_tcp := Some (TCPConnection_init config rrnd srnd)\<rparr>))"

subsection \<open>The loop\<close>

definition TCP_TICK_MS :: int where "TCP_TICK_MS = 10"

text \<open>One iteration: the state with which the loop goes on, or how it ends.\<close>

definition tcp_loop_step ::
  "'k syscalls \<Rightarrow> ('k \<Rightarrow> u64) \<Rightarrow> ('k, 'a) AdaptT \<Rightarrow> (('k, 'a) TCPSpongeSocket \<Rightarrow> bool)
    \<Rightarrow> u64 \<times> ('k, 'a) sponge_rules \<times> ('k, 'a) TCPSpongeSocket
    \<Rightarrow> (u64 \<times> ('k, 'a) sponge_rules \<times> ('k, 'a) TCPSpongeSocket)
       + (('k, 'a) sponge_rules \<times> ('k, 'a) TCPSpongeSocket \<times> unit result)" where
  "tcp_loop_step sys timestamp_ms ops condition x =
     (case x of (base_time, rules, s) \<Rightarrow>
        if \<not> condition s then Inr (rules, s, Inr ())
        else
          case EventLoop_wait_next_event sys rules s TCP_TICK_MS of
            (s, rules, Inl e) \<Rightarrow> Inr (rules, s, Inl e)
          | (s, rules, Inr ret) \<Rightarrow>
              if ret = Exit \<or> ss_abort s then Inr (rules, s, Inr ())
              else
                case ss_tcp s of
                  None \<Rightarrow> Inr (rules, s, Inl (Runtime_error ''bad optional access''))
                | Some tcp \<Rightarrow>
                    if TCPConnection_active tcp then
                      let next_time = timestamp_ms (os_kernel s)
                      in case TCPConnection_tick tcp (next_time - base_time) of
                           Inl e \<Rightarrow> Inr (rules, s, Inl e)
                         | Inr tcp \<Rightarrow>
                             (case adapter_call (\<lambda>os ad. ad_tick ops os ad (next_time - base_time))
                                     (s\<lparr>ss_tcp := Some tcp\<rparr>) of
                                (s, Inl e) \<Rightarrow> Inr (rules, s, Inl e)
                              | (s, Inr _) \<Rightarrow> Inl (next_time, rules, s))
                    else Inl (base_time, rules, s))"

partial_function (option) tcp_loop ::
  "'k syscalls \<Rightarrow> ('k \<Rightarrow> u64) \<Rightarrow> ('k, 'a) AdaptT \<Rightarrow> (('k, 'a) TCPSpongeSocket \<Rightarrow> bool)
    \<Rightarrow> u64 \<times> ('k, 'a) sponge_rules \<times> ('k, 'a) TCPSpongeSocket
    \<Rightarrow> (('k, 'a) sponge_rules \<times> ('k, 'a) TCPSpongeSocket \<times> unit result) option" where
  "tcp_loop sys timestamp_ms ops condition x =
     (case tcp_loop_step sys timestamp_ms ops condition x of
        Inl x' \<Rightarrow> tcp_loop sys timestamp_ms ops condition x'
      | Inr r \<Rightarrow> Some r)"

text \<open>\<open>_tcp_loop\<close>: \<open>None\<close> when the loop runs forever.\<close>

definition TCPSpongeSocket_tcp_loop ::
  "'k syscalls \<Rightarrow> ('k \<Rightarrow> u64) \<Rightarrow> ('k, 'a) AdaptT \<Rightarrow> (('k, 'a) TCPSpongeSocket \<Rightarrow> bool)
    \<Rightarrow> ('k, 'a) sponge_rules \<times> ('k, 'a) TCPSpongeSocket
    \<Rightarrow> (('k, 'a) sponge_rules \<times> ('k, 'a) TCPSpongeSocket \<times> unit result) option" where
  "TCPSpongeSocket_tcp_loop sys timestamp_ms ops condition rs =
     tcp_loop sys timestamp_ms ops condition (timestamp_ms (os_kernel (snd rs)), rs)"

subsection \<open>Construction\<close>

definition socket_pair_helper ::
  "'k syscalls \<Rightarrow> ('k, 'm) os_scheme \<Rightarrow> int \<Rightarrow> ('k, 'm) os_scheme \<times> (FileDescriptor \<times> FileDescriptor) result" where
  "socket_pair_helper sys os type =
     (let (reply, fd0, fd1) = sys_socketpair sys (os_kernel os) AF_UNIX type 0
      in case os_call os ''socketpair'' reply 0 of
           (os, Inl e) \<Rightarrow> (os, Inl e)
         | (os, Inr _) \<Rightarrow>
             (case FileDescriptor_of_fd os fd0 of
                (os, Inl e) \<Rightarrow> (os, Inl e)
              | (os, Inr first) \<Rightarrow>
                  (case FileDescriptor_of_fd os fd1 of
                     (os, Inl e) \<Rightarrow> (os, Inl e)
                   | (os, Inr second) \<Rightarrow> (os, Inr (first, second)))))"

definition TCPSpongeSocket_of_pair ::
  "'k syscalls \<Rightarrow> 'k os \<Rightarrow> FileDescriptor \<times> FileDescriptor \<Rightarrow> 'a \<Rightarrow> 'k os \<times> ('k, 'a) TCPSpongeSocket result" where
  "TCPSpongeSocket_of_pair sys os data_socket_pair datagram_interface =
     (case LocalStreamSocket_of_fd sys os (fst data_socket_pair) of
        (os, Inl e) \<Rightarrow> (os, Inl e)
      | (os, Inr data) \<Rightarrow>
          (case LocalStreamSocket_of_fd sys os (snd data_socket_pair) of
             (os, Inl e) \<Rightarrow> (os, Inl e)
           | (os, Inr thread_data) \<Rightarrow>
               (case FileDescriptor_set_blocking sys os thread_data False of
                  (os, Inl e) \<Rightarrow> (os, Inl e)
                | (os, Inr _) \<Rightarrow>
                    (os, Inr \<lparr>os_kernel = os_kernel os, os_wrappers = os_wrappers os, os_next = os_next os,
                       ss_data = data, ss_thread_data = thread_data, ss_datagram_adapter = datagram_interface,
                       ss_tcp = None, ss_abort = False, ss_inbound_shutdown = False,
                       ss_outbound_shutdown = False, ss_fully_acked = False, ss_joinable = False\<rparr>))))"

definition TCPSpongeSocket_new ::
  "'k syscalls \<Rightarrow> 'k os \<Rightarrow> 'a \<Rightarrow> 'k os \<times> ('k, 'a) TCPSpongeSocket result" where
  "TCPSpongeSocket_new sys os datagram_interface =
     (case socket_pair_helper sys os SOCK_STREAM of
        (os, Inl e) \<Rightarrow> (os, Inl e)
      | (os, Inr data_socket_pair) \<Rightarrow> TCPSpongeSocket_of_pair sys os data_socket_pair datagram_interface)"

subsection \<open>The second thread\<close>

text \<open>\<open>_tcp_main\<close> reports an exception and throws it on, out of the thread, which ends the program. The
  destructor of the connection runs in \<open>reset\<close>; what it leaves behind is not seen any more.\<close>

definition TCPSpongeSocket_tcp_main ::
  "'k syscalls \<Rightarrow> ('k \<Rightarrow> u64) \<Rightarrow> ('k, 'a) AdaptT \<Rightarrow> ('k, 'a) sponge_rules \<times> ('k, 'a) TCPSpongeSocket
    \<Rightarrow> (('k, 'a) sponge_rules \<times> ('k, 'a) TCPSpongeSocket \<times> unit result) option" where
  "TCPSpongeSocket_tcp_main sys timestamp_ms ops rs =
     (if ss_tcp (snd rs) = None then Some (fst rs, snd rs, Inl (Terminate ''no TCP''))
      else
        case TCPSpongeSocket_tcp_loop sys timestamp_ms ops (\<lambda>_. True) rs of
          None \<Rightarrow> None
        | Some (rules, s, Inl e) \<Rightarrow> Some (rules, s, Inl (Terminate ''exception in TCPConnection runner thread''))
        | Some (rules, s, Inr _) \<Rightarrow>
            (case Socket_shutdown sys s (ss_data s) SHUT_RDWR of
               (s, Inl e) \<Rightarrow> Some (rules, s, Inl (Terminate ''exception in TCPConnection runner thread''))
             | (s, Inr _) \<Rightarrow> Some (rules, s\<lparr>ss_tcp := None\<rparr>, Inr ())))"

subsection \<open>The owner's calls\<close>

text \<open>The condition of the loop in \<open>connect\<close> and in \<open>listen_and_accept\<close>.\<close>

definition in_states :: "State list \<Rightarrow> ('k, 'a) TCPSpongeSocket \<Rightarrow> bool" where
  "in_states states s =
     (case ss_tcp s of
        None \<Rightarrow> False
      | Some tcp \<Rightarrow> TCPConnection_state tcp \<in> set (map TCPState_of_State states))"

definition TCPSpongeSocket_connect ::
  "'k syscalls \<Rightarrow> getnameinfo \<Rightarrow> ('k \<Rightarrow> u64) \<Rightarrow> ('k, 'a) AdaptT \<Rightarrow> u32 \<Rightarrow> u32 \<Rightarrow> TCPConfig \<Rightarrow> FdAdapterConfig
    \<Rightarrow> ('k, 'a) sponge_rules \<times> ('k, 'a) TCPSpongeSocket
    \<Rightarrow> (('k, 'a) sponge_rules \<times> ('k, 'a) TCPSpongeSocket \<times> unit result) option" where
  "TCPSpongeSocket_connect sys gni timestamp_ms ops rrnd srnd c_tcp c_ad rs =
     (if ss_tcp (snd rs) \<noteq> None
      then Some (fst rs, snd rs, Inl (Runtime_error ''connect() with TCPConnection already initialized''))
      else
        let (rules, s) = TCPSpongeSocket_initialize_TCP sys gni ops c_tcp rrnd srnd rs;
            s = s\<lparr>ss_datagram_adapter := ad_set_config ops (ss_datagram_adapter s) c_ad\<rparr>
        in case Address_to_string gni (fac_destination c_ad) of
             Inl e \<Rightarrow> Some (rules, s, Inl e)
           | Inr _ \<Rightarrow>
               let s = s\<lparr>ss_tcp := map_option TCPConnection_connect (ss_tcp s)\<rparr>
               in if \<not> in_states [SYN_SENT] s
                  then Some (rules, s, Inl (Runtime_error (''After TCPConnection::connect(), state was ''
                         @ (case ss_tcp s of None \<Rightarrow> [] | Some tcp \<Rightarrow> TCPState_name (TCPConnection_state tcp))
                         @ '' but expected '' @ TCPState_name (TCPState_of_State SYN_SENT))))
                  else
                    case TCPSpongeSocket_tcp_loop sys timestamp_ms ops (in_states [SYN_SENT]) (rules, s) of
                      None \<Rightarrow> None
                    | Some (rules, s, Inl e) \<Rightarrow> Some (rules, s, Inl e)
                    | Some (rules, s, Inr _) \<Rightarrow>
                        (case Address_to_string gni (fac_destination c_ad) of
                           Inl e \<Rightarrow> Some (rules, s, Inl e)
                         | Inr _ \<Rightarrow> Some (rules, s\<lparr>ss_joinable := True\<rparr>, Inr ())))"

definition TCPSpongeSocket_listen_and_accept ::
  "'k syscalls \<Rightarrow> getnameinfo \<Rightarrow> ('k \<Rightarrow> u64) \<Rightarrow> ('k, 'a) AdaptT \<Rightarrow> u32 \<Rightarrow> u32 \<Rightarrow> TCPConfig \<Rightarrow> FdAdapterConfig
    \<Rightarrow> ('k, 'a) sponge_rules \<times> ('k, 'a) TCPSpongeSocket
    \<Rightarrow> (('k, 'a) sponge_rules \<times> ('k, 'a) TCPSpongeSocket \<times> unit result) option" where
  "TCPSpongeSocket_listen_and_accept sys gni timestamp_ms ops rrnd srnd c_tcp c_ad rs =
     (if ss_tcp (snd rs) \<noteq> None
      then Some (fst rs, snd rs, Inl (Runtime_error ''listen_and_accept() with TCPConnection already initialized''))
      else
        let (rules, s) = TCPSpongeSocket_initialize_TCP sys gni ops c_tcp rrnd srnd rs;
            s = s\<lparr>ss_datagram_adapter :=
                  ad_set_listening ops (ad_set_config ops (ss_datagram_adapter s) c_ad) True\<rparr>
        in case TCPSpongeSocket_tcp_loop sys timestamp_ms ops (in_states [LISTEN, SYN_RCVD, SYN_SENT]) (rules, s) of
             None \<Rightarrow> None
           | Some (rules, s, Inl e) \<Rightarrow> Some (rules, s, Inl e)
           | Some (rules, s, Inr _) \<Rightarrow>
               (case debug_destination gni ops s of
                  (s, Inl e) \<Rightarrow> Some (rules, s, Inl e)
                | (s, Inr _) \<Rightarrow> Some (rules, s\<lparr>ss_joinable := True\<rparr>, Inr ())))"

text \<open>To join the second thread is to run it to its end: \<open>joined\<close> is the state it leaves.\<close>

definition TCPSpongeSocket_wait_until_closed ::
  "'k syscalls \<Rightarrow> (('k, 'a) TCPSpongeSocket \<Rightarrow> ('k, 'a) TCPSpongeSocket) \<Rightarrow> ('k, 'a) TCPSpongeSocket
    \<Rightarrow> ('k, 'a) TCPSpongeSocket \<times> unit result" where
  "TCPSpongeSocket_wait_until_closed sys joined s =
     (case Socket_shutdown sys s (ss_data s) SHUT_RDWR of
        (s, Inl e) \<Rightarrow> (s, Inl e)
      | (s, Inr _) \<Rightarrow> ((if ss_joinable s then (joined s)\<lparr>ss_joinable := False\<rparr> else s), Inr ()))"

definition TCPSpongeSocket_destroy ::
  "(('k, 'a) TCPSpongeSocket \<Rightarrow> ('k, 'a) TCPSpongeSocket) \<Rightarrow> ('k, 'a) TCPSpongeSocket \<Rightarrow> ('k, 'a) TCPSpongeSocket" where
  "TCPSpongeSocket_destroy joined s =
     (if ss_joinable s then (joined (s\<lparr>ss_abort := True\<rparr>))\<lparr>ss_joinable := False\<rparr> else s)"

subsection \<open>CS144TCPSocket and FullStackSocket\<close>

text \<open>The random numbers are arguments.\<close>

definition CS144TCPSocket_new ::
  "'k syscalls \<Rightarrow> getaddrinfo \<Rightarrow> 'k os \<Rightarrow> 'k os \<times> ('k, TCPOverIPv4OverTunFdAdapter) TCPSpongeSocket result" where
  "CS144TCPSocket_new sys gai os =
     (case TunFD_new sys os ''tun144'' of
        (os, Inl e) \<Rightarrow> (os, Inl e)
      | (os, Inr tun) \<Rightarrow>
          (case TCPOverIPv4OverTunFdAdapter_new gai tun of
             Inl e \<Rightarrow> (os, Inl e)
           | Inr ad \<Rightarrow> TCPSpongeSocket_new sys os ad))"

definition default_connection ::
  "getaddrinfo \<Rightarrow> string \<Rightarrow> u16 \<Rightarrow> Address \<Rightarrow> (TCPConfig \<times> FdAdapterConfig) result" where
  "default_connection gai local_ip port address =
     (let tcp_config = TCPConfig_default\<lparr>cfg_rt_timeout := 100\<rparr>
      in case FdAdapterConfig_default gai of
           Inl e \<Rightarrow> Inl e
         | Inr multiplexer_config \<Rightarrow>
             (case Address_of_host gai local_ip (dec (unat port)) of
                Inl e \<Rightarrow> Inl e
              | Inr source \<Rightarrow>
                  Inr (tcp_config, multiplexer_config\<lparr>fac_source := source, fac_destination := address\<rparr>)))"

definition CS144TCPSocket_connect ::
  "'k syscalls \<Rightarrow> getaddrinfo \<Rightarrow> getnameinfo \<Rightarrow> ('k \<Rightarrow> u64) \<Rightarrow> u32 \<Rightarrow> u32 \<Rightarrow> u16 \<Rightarrow> Address
    \<Rightarrow> ('k, TCPOverIPv4OverTunFdAdapter) sponge_rules \<times> ('k, TCPOverIPv4OverTunFdAdapter) TCPSpongeSocket
    \<Rightarrow> (('k, TCPOverIPv4OverTunFdAdapter) sponge_rules \<times> ('k, TCPOverIPv4OverTunFdAdapter) TCPSpongeSocket \<times> unit result) option" where
  "CS144TCPSocket_connect sys gai gni timestamp_ms rrnd srnd port address rs =
     (case default_connection gai ''169.254.144.9'' port address of
        Inl e \<Rightarrow> Some (fst rs, snd rs, Inl e)
      | Inr (tcp_config, multiplexer_config) \<Rightarrow>
          TCPSpongeSocket_connect sys gni timestamp_ms (tun_adapter sys gai gni) rrnd srnd tcp_config multiplexer_config rs)"

fun random_private_ethernet_address :: "EthernetAddress \<Rightarrow> EthernetAddress" where
  "random_private_ethernet_address (EthernetAddress a b c d e f) = EthernetAddress ((a OR 0x02) AND 0xfe) b c d e f"

definition FullStackSocket_new ::
  "'k syscalls \<Rightarrow> getaddrinfo \<Rightarrow> getnameinfo \<Rightarrow> EthernetAddress \<Rightarrow> 'k os
    \<Rightarrow> 'k os \<times> ('k, TCPOverIPv4OverEthernetAdapter) TCPSpongeSocket result" where
  "FullStackSocket_new sys gai gni random_address os =
     (case TapFD_new sys os ''tap10'' of
        (os, Inl e) \<Rightarrow> (os, Inl e)
      | (os, Inr tap) \<Rightarrow>
          (case Address_of_host gai ''169.254.10.9'' ''0'' of
             Inl e \<Rightarrow> (os, Inl e)
           | Inr ip_address \<Rightarrow>
               (case Address_of_host gai ''169.254.10.1'' ''0'' of
                  Inl e \<Rightarrow> (os, Inl e)
                | Inr next_hop \<Rightarrow>
                    (case TCPOverIPv4OverEthernetAdapter_new sys gai gni os tap
                            (random_private_ethernet_address random_address) ip_address next_hop of
                       (os, Inl e) \<Rightarrow> (os, Inl e)
                     | (os, Inr ad) \<Rightarrow> TCPSpongeSocket_new sys os ad))))"

definition FullStackSocket_connect ::
  "'k syscalls \<Rightarrow> getaddrinfo \<Rightarrow> getnameinfo \<Rightarrow> ('k \<Rightarrow> u64) \<Rightarrow> (NetworkInterface \<Rightarrow> u32 list \<times> u32 list)
    \<Rightarrow> u32 \<Rightarrow> u32 \<Rightarrow> u16 \<Rightarrow> Address
    \<Rightarrow> ('k, TCPOverIPv4OverEthernetAdapter) sponge_rules \<times> ('k, TCPOverIPv4OverEthernetAdapter) TCPSpongeSocket
    \<Rightarrow> (('k, TCPOverIPv4OverEthernetAdapter) sponge_rules \<times> ('k, TCPOverIPv4OverEthernetAdapter) TCPSpongeSocket \<times> unit result) option" where
  "FullStackSocket_connect sys gai gni timestamp_ms order rrnd srnd port address rs =
     (case default_connection gai ''169.254.10.9'' port address of
        Inl e \<Rightarrow> Some (fst rs, snd rs, Inl e)
      | Inr (tcp_config, multiplexer_config) \<Rightarrow>
          TCPSpongeSocket_connect sys gni timestamp_ms (ethernet_adapter sys gai gni order) rrnd srnd tcp_config
            multiplexer_config rs)"

end
