(* ===== verification/Socket_Refinement.thy ===== *)
theory Socket_Refinement
  imports Sponge_Socket Connection_Invariant
begin

text \<open>
  The event loop of the socket drives the connection as its contract asks. Under the documented
  behaviour of the operating system, and whatever the adapter does, every iteration of the loop is a
  sequence of legal calls of the connection: the bytes the owner writes into its end of the socket
  pair are written to the outbound stream, all of them, in order, and ended behind the last one; the
  bytes read from the inbound stream are exactly those the owner is given.
\<close>

subsection \<open>What reaches the outbound stream\<close>

text \<open>How much was written to the stream of a sender and whether it was ended.\<close>

definition fed :: "TCPSender \<Rightarrow> u64 \<times> bool" where
  "fed s = (bs_bytes_written (snd_stream s), bs_end_input (snd_stream s))"

lemma read_fed:
  "ByteStream_read st n = (st', d) \<Longrightarrow> bs_bytes_written st' = bs_bytes_written st \<and> bs_end_input st' = bs_end_input st"
  by (auto simp: ByteStream_read_def ByteStream_pop_output_def Let_def split: if_splits)

lemma fed_updates [simp]:
  "fed (s\<lparr>snd_segments_out := q\<rparr>) = fed s" "fed (s\<lparr>snd_state := st\<rparr>) = fed s"
  "fed (s\<lparr>snd_window_size := w, snd_retransmission_count := n\<rparr>) = fed s"
  "fed (TCPSender_tick s ms) = fed s" "fed (TCPSender_send_empty_segment s) = fed s"
  "fed (ack_loop r q' s) = fed s" "fed (s\<lparr>snd_stream := ByteStream_set_error (snd_stream s)\<rparr>) = fed s"
  by (simp_all add: fed_def tick_frame ack_loop_frame TCPSender_send_empty_segment_def ByteStream_set_error_def Let_def)

lemma fed_fill_loop [simp]: "fed (fill_loop w s) = fed s"
proof (induction w s rule: fill_loop.induct)
  case (1 w s)
  obtain goes t where step: "fill_step w s = (goes, t)" by fastforce
  have "fed t = fed s"
    using step by (auto simp: fill_step_def fed_def Let_def dest!: read_fed split: prod.splits if_splits)
  with 1 [OF _ step [symmetric]] show ?case
    by (subst fill_loop.simps) (auto simp: step split: bool.split)
qed

lemma fed_fill_window [simp]: "fed (TCPSender_fill_window s) = fed s"
  by (simp add: TCPSender_fill_window_def TCPSender_send_syn_segment_def Let_def)
    (simp add: fed_def)

lemma fed_ack_received [simp]: "fed (TCPSender_ack_received s ackno win) = fed s"
  by (simp add: TCPSender_ack_received_def Let_def)

text \<open>The same for a connection.\<close>

abbreviation fed_conn :: "TCPConnection \<Rightarrow> u64 \<times> bool" where
  "fed_conn c \<equiv> fed (conn_sender c)"

lemma fed_conn_parts [simp]:
  "fed_conn (TCPConnection_fetch_segment c) = fed_conn c"
  "fed_conn (TCPConnection_send_segment c) = fed_conn c"
  "fed_conn (TCPConnection_kill_connection c) = fed_conn c"
  "fed_conn (TCPConnection_send_rst_segment c) = fed_conn c"
  "fed_conn (TCPConnection_try_clean_shutdown c) = fed_conn c"
  by (simp_all add: TCPConnection_send_segment_def fetch_segment_eq TCPConnection_kill_connection_def
      TCPConnection_send_rst_segment_def TCPConnection_try_clean_shutdown_def Let_def)

lemma fed_segment_received [simp]: "fed_conn (TCPConnection_segment_received c seg) = fed_conn c"
  by (simp add: segment_received_eq conn_acked_def reply_def Let_def split: option.split)

lemma fed_tick: "TCPConnection_tick c ms = Inr c' \<Longrightarrow> fed_conn c' = fed_conn c"
  by (auto simp: TCPConnection_tick_def Let_def split: if_splits list.splits)

lemma fed_end_input: "fed_conn (TCPConnection_end_input_stream c) = (fst (fed_conn c), True)"
  by (simp add: TCPConnection_end_input_stream_def) (simp add: fed_def ByteStream_end_input_def)

text \<open>No operation closes the output side of the inbound stream.\<close>

abbreviation out_closed :: "TCPConnection \<Rightarrow> bool" where
  "out_closed c \<equiv> bs_end_output (sr_output (rcv_reassembler (conn_receiver c)))"

lemma write_out [simp]: "bs_end_output (fst (ByteStream_write st data)) = bs_end_output st"
  by (simp add: ByteStream_write_def Let_def)

lemma send_loop_out: "send_loop m i u st = (m', i', u', st') \<Longrightarrow> bs_end_output st' = bs_end_output st"
  by (induction m i u st rule: send_loop.induct) (auto simp: Let_def split: if_splits)

lemma insert_out [simp]: "sr_output (StreamReassembler_insert r i data) = sr_output r"
  by (auto simp: StreamReassembler_insert_def StreamReassembler_merge_def Let_def split: prod.split)

lemma push_out [simp]:
  "bs_end_output (sr_output (StreamReassembler_push_substring r data i eof)) = bs_end_output (sr_output r)"
  by (auto simp: StreamReassembler_push_substring_def StreamReassembler_send_to_bytestream_def
      ByteStream_end_input_def Let_def dest: send_loop_out split: prod.splits)

lemma receiver_out [simp]:
  "bs_end_output (sr_output (rcv_reassembler (TCPReceiver_segment_received r seg)))
    = bs_end_output (sr_output (rcv_reassembler r))"
  by (simp add: TCPReceiver_segment_received_def Let_def)

lemma out_conn_parts [simp]:
  "out_closed (TCPConnection_fetch_segment c) = out_closed c"
  "out_closed (TCPConnection_send_segment c) = out_closed c"
  "out_closed (TCPConnection_kill_connection c) = out_closed c"
  "out_closed (TCPConnection_send_rst_segment c) = out_closed c"
  "out_closed (TCPConnection_try_clean_shutdown c) = out_closed c"
  by (simp_all add: TCPConnection_send_segment_def fetch_segment_eq TCPConnection_kill_connection_def
      TCPConnection_send_rst_segment_def TCPConnection_try_clean_shutdown_def ByteStream_set_error_def Let_def)

lemma out_conn [simp]:
  "out_closed (TCPConnection_segment_received c seg) = out_closed c"
  "out_closed (fst (TCPConnection_write c data)) = out_closed c"
  "out_closed (TCPConnection_end_input_stream c) = out_closed c"
  "out_closed (TCPConnection_connect c) = out_closed c"
  by (simp_all add: segment_received_eq conn_acked_def reply_def TCPConnection_write_def
      TCPConnection_end_input_stream_def TCPConnection_connect_def Let_def split: option.split prod.split)

lemma out_tick: "TCPConnection_tick c ms = Inr c' \<Longrightarrow> out_closed c' = out_closed c"
  by (auto simp: TCPConnection_tick_def Let_def split: if_splits list.splits)

text \<open>A write that does not exceed the capacity is accepted as a whole.\<close>

lemma write_accepts:
  assumes len: "length data \<le> unat (TCPConnection_remaining_outbound_capacity c)"
    and ended: "snd (fed_conn c) \<Longrightarrow> data = []"
  shows "snd (TCPConnection_write c data) = sz data"
    and "fed_conn (fst (TCPConnection_write c data)) = (fst (fed_conn c) + sz data, snd (fed_conn c))"
proof -
  let ?st = "snd_stream (conn_sender c)"
  let ?c = "c\<lparr>conn_sender := (conn_sender c)\<lparr>snd_stream := fst (ByteStream_write ?st data)\<rparr>\<rparr>"
  have "length data < 2 ^ 64" using len unat_u64_bound [of "TCPConnection_remaining_outbound_capacity c"] by linarith
  then have "min (sz data) (ByteStream_remaining_capacity ?st) = sz data"
    using len by (simp add: min_def word_le_nat_alt unat_sz TCPConnection_remaining_outbound_capacity_def)
  then have w: "snd (ByteStream_write ?st data) = sz data"
      "fed ((conn_sender c)\<lparr>snd_stream := fst (ByteStream_write ?st data)\<rparr>) = (fst (fed_conn c) + sz data, snd (fed_conn c))"
    using ended by (auto simp: ByteStream_write_def ByteStream_input_ended_def fed_def Let_def)
  have "TCPConnection_write c data = (TCPConnection_send_segment ?c, snd (ByteStream_write ?st data))"
    by (simp add: TCPConnection_write_def split: prod.split)
  then show "snd (TCPConnection_write c data) = sz data"
    and "fed_conn (fst (TCPConnection_write c data)) = (fst (fed_conn c) + sz data, snd (fed_conn c))"
    by (simp_all add: w)
qed

subsection \<open>The socket pair\<close>

text \<open>What the end of the socket pair with the number \<open>num\<close> promises. \<open>got\<close> is what has been read from it,
  \<open>sent\<close> what has been written to it, \<open>S\<close> all the owner ever writes into the other end. If that has been a prefix of \<open>S\<close>, a read gives
  the next bytes of \<open>S\<close>, and none only at its end; a write takes a prefix; a hang-up without data to read
  is reported only at the end of \<open>S\<close>; the other calls leave the streams alone.\<close>

definition pipe_law ::
  "'k syscalls \<Rightarrow> ('k \<Rightarrow> bytes) \<Rightarrow> ('k \<Rightarrow> bytes) \<Rightarrow> int \<Rightarrow> bytes \<Rightarrow> bool" where
  "pipe_law sys got sent num S \<longleftrightarrow>
     (\<forall>k n k' r errno data. sys_read sys k num n = ((k', r, errno), data) \<longrightarrow> (\<exists>rest. S = got k @ rest) \<longrightarrow>
        sent k' = sent k \<and>
        (r = -1 \<and> errno \<noteq> 0 \<and> got k' = got k \<or>
         r = int (length data) \<and> length data \<le> unat n \<and> got k' = got k @ data \<and>
         (\<exists>rest. S = got k' @ rest) \<and> (data = [] \<and> 0 < n \<longrightarrow> got k' = S))) \<and>
     (\<forall>k iov k' r errno. sys_writev sys k num iov = (k', r, errno) \<longrightarrow> got k' = got k \<and>
        (r = -1 \<and> errno \<noteq> 0 \<and> sent k' = sent k \<or>
         (\<exists>n. r = int n \<and> n \<le> length (concat (map fst iov)) \<and> n \<le> 0x7ffff000 \<and>
            sent k' = sent k @ take n (concat (map fst iov))))) \<and>
     (\<forall>k how k' r errno. sys_shutdown sys k num how = (k', r, errno) \<longrightarrow> got k' = got k \<and> sent k' = sent k) \<and>
     (\<forall>k pollfds t k' r errno revents. sys_poll sys k pollfds t = ((k', r, errno), revents) \<longrightarrow>
        got k' = got k \<and> sent k' = sent k \<and>
        (\<forall>e. (num, POLLIN, e) \<in> set (map2 (\<lambda>p e. (fst p, snd p, e)) pollfds revents) \<longrightarrow>
           hung_up (POLLIN, e) \<longrightarrow> got k' = S))"

lemma pipe_lawD:
  assumes "pipe_law sys got sent num S"
  shows "sys_read sys k num n = ((k', r, errno), data) \<Longrightarrow> \<exists>rest. S = got k @ rest \<Longrightarrow> sent k' = sent k \<and>
        (r = -1 \<and> errno \<noteq> 0 \<and> got k' = got k \<or>
         r = int (length data) \<and> length data \<le> unat n \<and> got k' = got k @ data \<and>
         (\<exists>rest. S = got k' @ rest) \<and> (data = [] \<and> 0 < n \<longrightarrow> got k' = S))"
    and "sys_writev sys k num iov = (k', r, errno) \<Longrightarrow> got k' = got k \<and>
        (r = -1 \<and> errno \<noteq> 0 \<and> sent k' = sent k \<or>
         (\<exists>n. r = int n \<and> n \<le> length (concat (map fst iov)) \<and> n \<le> 0x7ffff000 \<and>
            sent k' = sent k @ take n (concat (map fst iov))))"
    and "sys_shutdown sys k num how = (k', r, errno) \<Longrightarrow> got k' = got k \<and> sent k' = sent k"
    and "sys_poll sys k pollfds t = ((k', r, errno), revents) \<Longrightarrow> got k' = got k \<and> sent k' = sent k"
    and "sys_poll sys k pollfds t = ((k', r, errno), revents) \<Longrightarrow>
      (num, POLLIN, e) \<in> set (map2 (\<lambda>p e. (fst p, snd p, e)) pollfds revents) \<Longrightarrow>
      hung_up (POLLIN, e) \<Longrightarrow> got k' = S"
proof -
  note law = assms [unfolded pipe_law_def]
  note parts = law [THEN conjunct1] law [THEN conjunct2, THEN conjunct1]
    law [THEN conjunct2, THEN conjunct2, THEN conjunct1] law [THEN conjunct2, THEN conjunct2, THEN conjunct2]
  show "sys_read sys k num n = ((k', r, errno), data) \<Longrightarrow> \<exists>rest. S = got k @ rest \<Longrightarrow> sent k' = sent k \<and>
        (r = -1 \<and> errno \<noteq> 0 \<and> got k' = got k \<or>
         r = int (length data) \<and> length data \<le> unat n \<and> got k' = got k @ data \<and>
         (\<exists>rest. S = got k' @ rest) \<and> (data = [] \<and> 0 < n \<longrightarrow> got k' = S))"
    using parts(1) by blast
  show "sys_writev sys k num iov = (k', r, errno) \<Longrightarrow> got k' = got k \<and>
        (r = -1 \<and> errno \<noteq> 0 \<and> sent k' = sent k \<or>
         (\<exists>n. r = int n \<and> n \<le> length (concat (map fst iov)) \<and> n \<le> 0x7ffff000 \<and>
            sent k' = sent k @ take n (concat (map fst iov))))"
    using parts(2) by blast
  show "sys_shutdown sys k num how = (k', r, errno) \<Longrightarrow> got k' = got k \<and> sent k' = sent k"
    using parts(3) by blast
  show "sys_poll sys k pollfds t = ((k', r, errno), revents) \<Longrightarrow> got k' = got k \<and> sent k' = sent k"
    using parts(4) by blast
  show "sys_poll sys k pollfds t = ((k', r, errno), revents) \<Longrightarrow>
      (num, POLLIN, e) \<in> set (map2 (\<lambda>p e. (fst p, snd p, e)) pollfds revents) \<Longrightarrow>
      hung_up (POLLIN, e) \<Longrightarrow> got k' = S"
    using parts(4) by blast
qed

lemma pipe_read:
  assumes law: "pipe_law sys got sent num S" and num: "FileDescriptor_fd_num s fd = num"
    and read: "FileDescriptor_read sys s fd n = (s', res)" and prefix: "\<exists>rest. S = got (os_kernel s) @ rest"
  shows "\<exists>k w. s' = s\<lparr>os_kernel := k, os_wrappers := (os_wrappers s)(fd := w)\<rparr> \<and> fdw_fd w = num \<and>
    fdw_closed w = fdw_closed (os_wrappers s fd) \<and> sent k = sent (os_kernel s) \<and>
    ((\<exists>e. res = Inl e) \<and> got k = got (os_kernel s) \<and> fdw_eof w = fdw_eof (os_wrappers s fd) \<or>
     (\<exists>data. res = Inr data \<and> length data \<le> unat n \<and> got k = got (os_kernel s) @ data \<and>
        (\<exists>rest. S = got k @ rest) \<and> (fdw_eof w \<longrightarrow> fdw_eof (os_wrappers s fd) \<or> got k = S)))"
proof -
  let ?n = "min BUFFER_SIZE n"
  obtain k r errno data where sys: "sys_read sys (os_kernel s) num ?n = ((k, r, errno), data)"
    by (metis prod_cases3 surj_pair)
  have l: "sent k = sent (os_kernel s)" "r = -1 \<and> errno \<noteq> 0 \<and> got k = got (os_kernel s) \<or>
      r = int (length data) \<and> length data \<le> unat ?n \<and> got k = got (os_kernel s) @ data \<and>
      (\<exists>rest. S = got k @ rest) \<and> (data = [] \<and> 0 < ?n \<longrightarrow> got k = S)"
    using pipe_lawD(1) [OF law sys prefix] by blast+
  have size_le: "unat ?n \<le> 2 ^ 20" "unat ?n \<le> unat n" "0 < n \<Longrightarrow> 0 < ?n"
    by (auto simp: min_def BUFFER_SIZE_def word_le_nat_alt)
  have same: "s = s\<lparr>os_wrappers := (os_wrappers s)(fd := os_wrappers s fd)\<rparr>" by simp
  show ?thesis
  proof (cases "r = -1")
    case True
    then have "s' = s\<lparr>os_kernel := k, os_wrappers := (os_wrappers s)(fd := os_wrappers s fd)\<rparr>" "\<exists>e. res = Inl e"
      using read num sys l(2) by (auto simp: FileDescriptor_read_def os_call_def SystemCall_def to_int_id Let_def)
    then show ?thesis using True l num 
      by (intro exI [of _ k] exI [of _ "os_wrappers s fd"]) (auto simp: FileDescriptor_fd_num_def)
  next
    case False
    then have r: "r = int (length data)" "length data \<le> unat ?n" using l(2) by simp_all
    have i: "to_int r = r" using r size_le(1) by (intro to_int_id) auto
    have le: "\<not> uint ?n < r" using r uint_nat [of ?n] by linarith
    define w where "w = (os_wrappers s fd)\<lparr>fdw_eof := fdw_eof (os_wrappers s fd) \<or> (0 < n \<and> data = []),
      fdw_read_count := fdw_read_count (os_wrappers s fd) + 1\<rparr>"
    have "s' = s\<lparr>os_kernel := k, os_wrappers := (os_wrappers s)(fd := w)\<rparr>" "res = Inr data"
      using read num sys i le
      by (auto simp: FileDescriptor_read_def os_call_def SystemCall_def register_read_def update_wrapper_def
          w_def r(1) Let_def split: if_splits)
    moreover have "got k = got (os_kernel s) @ data" "\<exists>rest. S = got k @ rest" "data = [] \<and> 0 < n \<longrightarrow> got k = S"
      using False l(2) size_le(3) by auto
    moreover have "length data \<le> unat n" using r(2) size_le(2) by linarith
    ultimately show ?thesis using l(1) num
      by (intro exI [of _ k] exI [of _ w]) (auto simp: w_def FileDescriptor_fd_num_def)
  qed
qed

lemma pipe_write:
  assumes law: "pipe_law sys got sent num S" and num: "FileDescriptor_fd_num s fd = num"
    and wr: "FileDescriptor_write sys s fd [buffer] False = (s', res)" and len: "length buffer < 2 ^ 63"
  shows "\<exists>k w. s' = s\<lparr>os_kernel := k, os_wrappers := (os_wrappers s)(fd := w)\<rparr> \<and> fdw_fd w = num \<and>
    fdw_closed w = fdw_closed (os_wrappers s fd) \<and> fdw_eof w = fdw_eof (os_wrappers s fd) \<and>
    got k = got (os_kernel s) \<and>
    ((\<exists>e. res = Inl e) \<and> sent k = sent (os_kernel s) \<or>
     (\<exists>n. res = Inr (of_nat n) \<and> n \<le> length buffer \<and> sent k = sent (os_kernel s) @ take n buffer))"
proof -
  obtain k r errno where sys: "sys_writev sys (os_kernel s) num [(buffer, sz buffer)] = (k, r, errno)"
    by (metis prod_cases3)
  have l: "got k = got (os_kernel s)" "r = -1 \<and> errno \<noteq> 0 \<and> sent k = sent (os_kernel s) \<or>
      (\<exists>n. r = int n \<and> n \<le> length buffer \<and> n \<le> 0x7ffff000 \<and> sent k = sent (os_kernel s) @ take n buffer)"
    using pipe_lawD(2) [OF law sys] by auto
  have iov: "BufferViewList_as_iovecs [buffer] = [(buffer, sz buffer)]" by (simp add: BufferViewList_as_iovecs_def)
  have keep: "s\<lparr>os_kernel := k\<rparr> = s\<lparr>os_kernel := k, os_wrappers := (os_wrappers s)(fd := os_wrappers s fd)\<rparr>" by simp
  note run = wr [unfolded FileDescriptor_write_def, unfolded write_loop.simps [of sys s], unfolded num iov sys]
  show ?thesis
  proof (cases "r = -1")
    case True
    then have "s' = s\<lparr>os_kernel := k, os_wrappers := (os_wrappers s)(fd := os_wrappers s fd)\<rparr>" "\<exists>e. res = Inl e"
      using run l(2) by (auto simp: os_call_def SystemCall_def to_int_id)
    then show ?thesis using l True num 
      by (intro exI [of _ k] exI [of _ "os_wrappers s fd"]) (auto simp: FileDescriptor_fd_num_def)
  next
    case False
    then obtain n where n: "r = int n" "n \<le> length buffer" "n \<le> 0x7ffff000" "sent k = sent (os_kernel s) @ take n buffer"
      using l(2) by auto
    have i: "to_int r = int n" using n(1,3) by (simp add: to_int_id)
    have "unat (sz buffer) = length buffer" using len by (intro unat_sz) simp
    then have "uint (sz buffer) = int (length buffer)" by (metis uint_nat)
    then have sint: "sint (sz buffer) = int (length buffer)" using len by (simp add: sint_uint signed_take_bit_int_eq_self)
    have "BufferViewList_fits [buffer]" using len by (simp add: BufferViewList_fits_def)
    moreover have "unat (of_nat n :: u64) = n" using n(2) len by (intro unat_of_nat_u64) simp
    ultimately obtain vs where vs: "BufferViewList_remove_prefix [buffer] (of_nat n) = Inr vs"
      using views.drop_ok [of "[buffer]" "of_nat n"] n(2) by (auto simp del: BufferViewList_remove_prefix.simps)
    let ?w = "(os_wrappers s fd)\<lparr>fdw_write_count := fdw_write_count (os_wrappers s fd) + 1\<rparr>"
    show ?thesis
    proof (cases "n = 0 \<and> sz buffer \<noteq> 0")
      case True
      then have "s' = s\<lparr>os_kernel := k, os_wrappers := (os_wrappers s)(fd := os_wrappers s fd)\<rparr>" "\<exists>e. res = Inl e"
        using run by (auto simp: os_call_def SystemCall_def i)
      then show ?thesis using l n True num 
      by (intro exI [of _ k] exI [of _ "os_wrappers s fd"]) (auto simp: FileDescriptor_fd_num_def)
    next
      case False
      then have "s' = s\<lparr>os_kernel := k, os_wrappers := (os_wrappers s)(fd := ?w)\<rparr>" "res = Inr (of_nat n)"
        using run n(2) vs sint
        by (auto simp: os_call_def SystemCall_def i register_write_def update_wrapper_def Let_def
            simp del: BufferViewList_remove_prefix.simps split: if_splits)
      then show ?thesis using l(1) n(2,4) num by (intro exI [of _ k] exI [of _ ?w]) (auto simp: FileDescriptor_fd_num_def)
    qed
  qed
qed

lemma pipe_shutdown:
  assumes law: "pipe_law sys got sent num S" and num: "FileDescriptor_fd_num s fd = num"
    and call: "Socket_shutdown sys s fd how = (s', res)"
  shows "\<exists>k w. s' = s\<lparr>os_kernel := k, os_wrappers := (os_wrappers s)(fd := w)\<rparr> \<and> fdw_fd w = num \<and>
    fdw_closed w = fdw_closed (os_wrappers s fd) \<and> fdw_eof w = fdw_eof (os_wrappers s fd) \<and>
    got k = got (os_kernel s) \<and> sent k = sent (os_kernel s)"
proof -
  obtain k r errno where sys: "sys_shutdown sys (os_kernel s) num how = (k, r, errno)" by (metis prod_cases3)
  let ?w = "os_wrappers s fd"
  have "\<exists>w. s' = s\<lparr>os_kernel := k, os_wrappers := (os_wrappers s)(fd := w)\<rparr> \<and> fdw_fd w = fdw_fd ?w \<and>
      fdw_closed w = fdw_closed ?w \<and> fdw_eof w = fdw_eof ?w"
  proof (cases "\<exists>v. s' = s\<lparr>os_kernel := k, os_wrappers := (os_wrappers s)(fd := v ?w)\<rparr> \<and> (\<forall>w. fdw_fd (v w) = fdw_fd w \<and>
      fdw_closed (v w) = fdw_closed w \<and> fdw_eof (v w) = fdw_eof w)")
    case False
    then show ?thesis
      using call num sys
      by (auto simp: Socket_shutdown_def os_call_def SystemCall_def register_read_def register_write_def update_wrapper_def
          Let_def fun_upd_idem_iff split: if_splits dest: spec [of _ "\<lambda>w. w"] intro!: exI [of _ ?w] )
  qed blast
  then show ?thesis using pipe_lawD(3) [OF law sys] num by (auto simp: FileDescriptor_fd_num_def)
qed

subsection \<open>The invariant\<close>

text \<open>The connection \<open>c\<close> has come from \<open>c0\<close> by legal calls: its user has read what was sent to the owner
  (after \<open>sent0\<close>), and has written what was got from the owner.\<close>

definition driven ::
  "('k \<Rightarrow> bytes) \<Rightarrow> ('k \<Rightarrow> bytes) \<Rightarrow> bytes \<Rightarrow> bytes \<Rightarrow> TCPConnection \<Rightarrow> 'k \<Rightarrow> TCPConnection \<Rightarrow> bool" where
  "driven got sent S sent0 c0 k c \<longleftrightarrow>
     (\<exists>es given. run_ok conn_step (conn_event_ok S) (c0, []) es \<and>
        run_steps conn_step (c0, []) es = (c, given) \<and> sent k = sent0 @ given) \<and>
     unat (fst (fed_conn c)) = length (got k) \<and> (\<exists>rest. S = got k @ rest) \<and> (snd (fed_conn c) \<longrightarrow> got k = S) \<and>
     \<not> out_closed c"

lemma run_ok_snoc: "run_ok step ok s (es @ [e]) \<longleftrightarrow> run_ok step ok s es \<and> ok (run_steps step s es) e"
  by (induction es arbitrary: s) simp_all

lemma driven_step:
  assumes "driven got sent S sent0 c0 k c" and "\<And>given. conn_event_ok S (c, given) e"
    and "\<And>given. conn_step (c, given) e = (c', given @ d)" and "sent k' = sent k @ d"
    and "unat (fst (fed_conn c')) = length (got k')" and "\<exists>rest. S = got k' @ rest"
    and "snd (fed_conn c') \<longrightarrow> got k' = S" and "out_closed c' = out_closed c"
  shows "driven got sent S sent0 c0 k' c'"
proof -
  obtain es given where "run_ok conn_step (conn_event_ok S) (c0, []) es"
    "run_steps conn_step (c0, []) es = (c, given)" "sent k = sent0 @ given"
    using assms(1) by (auto simp: driven_def)
  then have "run_ok conn_step (conn_event_ok S) (c0, []) (es @ [e])"
    "run_steps conn_step (c0, []) (es @ [e]) = (c', given @ d)" "sent k' = sent0 @ given @ d"
    using assms(2-4) by (simp_all add: run_ok_snoc run_steps_append)
  then show ?thesis using assms(1,5-8) unfolding driven_def by blast
qed

text \<open>Events that neither feed the outbound stream nor read the inbound one.\<close>

lemma driven_quiet:
  assumes "driven got sent S sent0 c0 k c" and "\<And>given. conn_event_ok S (c, given) e"
    and "\<And>given. conn_step (c, given) e = (c', given)" and "fed_conn c' = fed_conn c" and "out_closed c' = out_closed c"
    and "got k' = got k" and "sent k' = sent k"
  shows "driven got sent S sent0 c0 k' c'"
  using assms(1,4-7) by (intro driven_step [OF assms(1,2), of c' "[]"]) (auto simp: assms(3) driven_def)

lemma driven_same:
  "driven got sent S sent0 c0 k c \<Longrightarrow> got k' = got k \<Longrightarrow> sent k' = sent k \<Longrightarrow> driven got sent S sent0 c0 k' c"
  by (simp add: driven_def)

text \<open>A descriptor that has nothing to do with the socket pair.\<close>

definition apart :: "FileDescriptor \<Rightarrow> int \<Rightarrow> ('k, 'm) os_scheme \<Rightarrow> FileDescriptor \<Rightarrow> bool" where
  "apart td num s fd \<longleftrightarrow> fd \<noteq> td \<and> fdw_fd (os_wrappers s fd) \<noteq> num"

definition sponge_inv ::
  "('k, 'a) AdaptT \<Rightarrow> ('k \<Rightarrow> bytes) \<Rightarrow> ('k \<Rightarrow> bytes) \<Rightarrow> bytes \<Rightarrow> bytes \<Rightarrow> TCPConnection \<Rightarrow> int \<Rightarrow> FileDescriptor
    \<Rightarrow> ('k, 'a) TCPSpongeSocket \<Rightarrow> bool" where
  "sponge_inv ops got sent S sent0 c0 num td s \<longleftrightarrow>
     ss_thread_data s = td \<and> fdw_fd (os_wrappers s td) = num \<and> \<not> fdw_closed (os_wrappers s td) \<and>
     apart td num s (ad_fd ops (ss_datagram_adapter s)) \<and>
     (fdw_eof (os_wrappers s td) \<longrightarrow> got (os_kernel s) = S) \<and>
     (\<exists>c. ss_tcp s = Some c \<and> driven got sent S sent0 c0 (os_kernel s) c)"

text \<open>A callback keeps the invariant, and what was got from the owner only grows.\<close>

definition advances ::
  "('k, 'a) AdaptT \<Rightarrow> ('k \<Rightarrow> bytes) \<Rightarrow> ('k \<Rightarrow> bytes) \<Rightarrow> bytes \<Rightarrow> bytes \<Rightarrow> TCPConnection \<Rightarrow> int \<Rightarrow> FileDescriptor
    \<Rightarrow> ('k, 'a) TCPSpongeSocket \<Rightarrow> ('k, 'a) TCPSpongeSocket \<Rightarrow> bool" where
  "advances ops got sent S sent0 c0 num td s s' \<longleftrightarrow>
     sponge_inv ops got sent S sent0 c0 num td s' \<and> (\<exists>x. got (os_kernel s') = got (os_kernel s) @ x)"

lemma advances_refl: "sponge_inv ops got sent S sent0 c0 num td s \<Longrightarrow> advances ops got sent S sent0 c0 num td s s"
  by (simp add: advances_def)

lemma advances_trans:
  "advances ops got sent S sent0 c0 num td s s' \<Longrightarrow> advances ops got sent S sent0 c0 num td s' s'' \<Longrightarrow>
     advances ops got sent S sent0 c0 num td s s''"
  by (auto simp: advances_def)

lemma advances_end:
  assumes "advances ops got sent S sent0 c0 num td s s'" and "got (os_kernel s) = S"
  shows "got (os_kernel s') = S"
proof -
  obtain x rest where x: "got (os_kernel s') = got (os_kernel s) @ x" and rest: "S = got (os_kernel s') @ rest"
    using assms(1) unfolding advances_def sponge_inv_def driven_def by blast
  have "length S = length S + length x + length rest"
    using arg_cong [OF x, of length] arg_cong [OF rest, of length] by (simp only: assms(2) length_append)
  then show ?thesis using x assms(2) by simp
qed

text \<open>What the operations of an adapter must do: leave the socket pair alone, as long as their own
  descriptor is another one, and keep that descriptor.\<close>

definition keeps_pipe ::
  "('k, 'a) AdaptT \<Rightarrow> ('k \<Rightarrow> bytes) \<Rightarrow> ('k \<Rightarrow> bytes) \<Rightarrow> FileDescriptor \<Rightarrow> 'k os \<Rightarrow> 'a \<Rightarrow> 'k os \<times> 'a \<times> 'r \<Rightarrow> bool" where
  "keeps_pipe ops got sent td os ad res \<longleftrightarrow>
     (case res of (os', ad', _) \<Rightarrow>
        os_wrappers os' td = os_wrappers os td \<and>
        got (os_kernel os') = got (os_kernel os) \<and> sent (os_kernel os') = sent (os_kernel os) \<and>
        ad_fd ops ad' = ad_fd ops ad \<and>
        fdw_fd (os_wrappers os' (ad_fd ops ad)) = fdw_fd (os_wrappers os (ad_fd ops ad)))"

definition adapter_law ::
  "('k, 'a) AdaptT \<Rightarrow> ('k \<Rightarrow> bytes) \<Rightarrow> ('k \<Rightarrow> bytes) \<Rightarrow> int \<Rightarrow> FileDescriptor \<Rightarrow> bool" where
  "adapter_law ops got sent num td \<longleftrightarrow>
     (\<forall>os ad. apart td num os (ad_fd ops ad) \<longrightarrow>
        keeps_pipe ops got sent td os ad (ad_read ops os ad) \<and>
        (\<forall>seg. keeps_pipe ops got sent td os ad (ad_write ops os ad seg)) \<and>
        (\<forall>ms. keeps_pipe ops got sent td os ad (ad_tick ops os ad ms))) \<and>
     (\<forall>ad cfg. ad_fd ops (ad_set_config ops ad cfg) = ad_fd ops ad) \<and>
     (\<forall>ad l. ad_fd ops (ad_set_listening ops ad l) = ad_fd ops ad)"

lemma adapter_call_keeps:
  assumes call: "adapter_call f s = (s', res)" and inv: "sponge_inv ops got sent S sent0 c0 num td s"
    and f: "\<And>os ad. apart td num os (ad_fd ops ad) \<Longrightarrow> keeps_pipe ops got sent td os ad (f os ad)"
  shows "sponge_inv ops got sent S sent0 c0 num td s'" and "got (os_kernel s') = got (os_kernel s)"
    and "sent (os_kernel s') = sent (os_kernel s)" and "ss_tcp s' = ss_tcp s"
proof -
  let ?os = "\<lparr>os_kernel = os_kernel s, os_wrappers = os_wrappers s, os_next = os_next s\<rparr>"
  obtain os ad r where r: "f ?os (ss_datagram_adapter s) = (os, ad, r)" by (metis prod_cases3)
  have s': "s' = s\<lparr>os_kernel := os_kernel os, os_wrappers := os_wrappers os, os_next := os_next os, ss_datagram_adapter := ad\<rparr>"
    using call r by (simp add: adapter_call_def)
  have "apart td num ?os (ad_fd ops (ss_datagram_adapter s))" using inv by (simp add: sponge_inv_def apart_def)
  note k = f [OF this, unfolded r keeps_pipe_def]
  show "got (os_kernel s') = got (os_kernel s)" "sent (os_kernel s') = sent (os_kernel s)" "ss_tcp s' = ss_tcp s"
    using k by (simp_all add: s')
  obtain c where c: "ss_tcp s = Some c" "driven got sent S sent0 c0 (os_kernel s) c"
    using inv by (auto simp: sponge_inv_def)
  have "driven got sent S sent0 c0 (os_kernel s') c" using k by (intro driven_same [OF c(2)]) (simp_all add: s')
  then show "sponge_inv ops got sent S sent0 c0 num td s'"
    using inv k c(1) by (simp add: sponge_inv_def apart_def s')
qed

subsection \<open>The rules\<close>

lemma inv_tcp:
  assumes "sponge_inv ops got sent S sent0 c0 num td s" and "driven got sent S sent0 c0 (os_kernel s) c"
  shows "sponge_inv ops got sent S sent0 c0 num td (s\<lparr>ss_tcp := Some c\<rparr>)"
  using assms by (simp add: sponge_inv_def apart_def)

lemma inv_flags [simp]:
  "sponge_inv ops got sent S sent0 c0 num td (s\<lparr>ss_fully_acked := b\<rparr>) = sponge_inv ops got sent S sent0 c0 num td s"
  "sponge_inv ops got sent S sent0 c0 num td (s\<lparr>ss_inbound_shutdown := b\<rparr>) = sponge_inv ops got sent S sent0 c0 num td s"
  "sponge_inv ops got sent S sent0 c0 num td (s\<lparr>ss_outbound_shutdown := b\<rparr>) = sponge_inv ops got sent S sent0 c0 num td s"
  "sponge_inv ops got sent S sent0 c0 num td (s\<lparr>ss_abort := b\<rparr>) = sponge_inv ops got sent S sent0 c0 num td s"
  "sponge_inv ops got sent S sent0 c0 num td (s\<lparr>ss_joinable := b\<rparr>) = sponge_inv ops got sent S sent0 c0 num td s"
  by (simp_all add: sponge_inv_def apart_def)

text \<open>A call on the end of the socket pair.\<close>

lemma inv_pipe:
  assumes "sponge_inv ops got sent S sent0 c0 num td s" and "fdw_fd w = num"
    and "fdw_closed w = fdw_closed (os_wrappers s td)" and "fdw_eof w \<longrightarrow> got k = S"
    and "driven got sent S sent0 c0 k c"
  shows "sponge_inv ops got sent S sent0 c0 num td
    (s\<lparr>os_kernel := k, os_wrappers := (os_wrappers s)(td := w), ss_tcp := Some c\<rparr>)"
  using assms by (simp add: sponge_inv_def apart_def)

lemma inv_pipe_same:
  assumes "sponge_inv ops got sent S sent0 c0 num td s" and "fdw_fd w = num"
    and "fdw_closed w = fdw_closed (os_wrappers s td)" and "fdw_eof w = fdw_eof (os_wrappers s td)"
    and "got k = got (os_kernel s)" and "sent k = sent (os_kernel s)"
  shows "sponge_inv ops got sent S sent0 c0 num td (s\<lparr>os_kernel := k, os_wrappers := (os_wrappers s)(td := w)\<rparr>)"
  using assms by (auto simp: sponge_inv_def apart_def intro: driven_same)

lemma rule1_advances:
  assumes law: "adapter_law ops got sent num td" and inv: "sponge_inv ops got sent S sent0 c0 num td s"
  shows "advances ops got sent S sent0 c0 num td s (fst (rule1_callback gni ops s))"
proof -
  obtain s1 res where call: "adapter_call (ad_read ops) s = (s1, res)" by fastforce
  have "apart td num os (ad_fd ops ad) \<Longrightarrow> keeps_pipe ops got sent td os ad (ad_read ops os ad)" for os ad
    using law by (simp add: adapter_law_def)
  note k = adapter_call_keeps [OF call inv this]
  show ?thesis
  proof (cases res)
    case (Inl e)
    then show ?thesis using k by (simp add: rule1_callback_def call advances_def)
  next
    case (Inr r)
    obtain c where c: "ss_tcp s1 = Some c" "driven got sent S sent0 c0 (os_kernel s1) c"
      using k(1) by (auto simp: sponge_inv_def)
    let ?c = "case r of Some seg \<Rightarrow> TCPConnection_segment_received c seg | None \<Rightarrow> c"
    have "driven got sent S sent0 c0 (os_kernel s1) ?c"
    proof (cases r)
      case (Some seg)
      then show ?thesis using driven_quiet [OF c(2), of "Segment seg" ?c] by simp
    qed (use c in simp)
    from inv_tcp [OF k(1) this] show ?thesis
      using k(2) by (auto simp: rule1_callback_def call Inr c(1) debug_destination_def advances_def Let_def split: sum.split)
  qed
qed

lemma driven_end:
  assumes "driven got sent S sent0 c0 k c" and "got k = S"
  shows "driven got sent S sent0 c0 k (TCPConnection_end_input_stream c)"
  using assms by (intro driven_step [OF assms(1), where e = End_input and d = "[]"])
    (auto simp: driven_def fed_end_input fed_def [of "conn_sender c"])

lemma driven_write:
  assumes d: "driven got sent S sent0 c0 k c" and S: "length S < 2 ^ 64"
    and len: "length data \<le> unat (TCPConnection_remaining_outbound_capacity c)"
    and k': "got k' = got k @ data" "sent k' = sent k" "\<exists>rest. S = got k' @ rest"
  shows "driven got sent S sent0 c0 k' (fst (TCPConnection_write c data))"
    and "snd (TCPConnection_write c data) = sz data"
proof -
  obtain rest where rest: "S = got k @ data @ rest" using k' by auto
  have w: "unat (fst (fed_conn c)) = length (got k)" and e: "snd (fed_conn c) \<Longrightarrow> got k = S"
    using d by (simp_all add: driven_def)
  have nil: "data = []" if "snd (fed_conn c)"
    using arg_cong [OF rest, of length] e [OF that] by simp
  note acc = write_accepts [OF len nil]
  show "snd (TCPConnection_write c data) = sz data" by (rule acc(1))
  have "length (got k) + length data < 2 ^ 64" using S arg_cong [OF rest, of length] by simp
  then have "unat (fst (fed_conn c) + sz data) = length (got k) + length data"
    using w by (simp add: unat_word_ariths unat_of_nat)
  then have "unat (fst (fed_conn (fst (TCPConnection_write c data)))) = length (got k')"
    by (simp add: acc(2) k'(1))
  moreover have "next_bytes S (snd_stream (conn_sender c)) data"
    using w rest by (auto simp: next_bytes_def fed_def)
  moreover have "snd (fed_conn (fst (TCPConnection_write c data))) \<longrightarrow> got k' = S"
    using e nil k'(1) by (simp add: acc(2))
  ultimately show "driven got sent S sent0 c0 k' (fst (TCPConnection_write c data))"
    using k'(2,3) by (intro driven_step [OF d, where e = "Write data" and d = "[]"]) simp_all
qed

lemma rule2_advances:
  assumes law: "pipe_law sys got sent num S" and inv: "sponge_inv ops got sent S sent0 c0 num td s"
    and S: "length S < 2 ^ 64"
  shows "advances ops got sent S sent0 c0 num td s (fst (rule2_callback sys gni ops s))"
proof -
  obtain c where c: "ss_tcp s = Some c" and d: "driven got sent S sent0 c0 (os_kernel s) c"
    using inv by (auto simp: sponge_inv_def)
  have td: "ss_thread_data s = td" "FileDescriptor_fd_num s td = num" and
    eof: "fdw_eof (os_wrappers s td) \<Longrightarrow> got (os_kernel s) = S"
    using inv by (simp_all add: sponge_inv_def FileDescriptor_fd_num_def)
  obtain s1 res where read: "FileDescriptor_read sys s td (TCPConnection_remaining_outbound_capacity c) = (s1, res)"
    by fastforce
  have "\<exists>rest. S = got (os_kernel s) @ rest" using d by (simp add: driven_def)
  from pipe_read [OF law td(2) read this] obtain k w where
    s1: "s1 = s\<lparr>os_kernel := k, os_wrappers := (os_wrappers s)(td := w)\<rparr>" and
    w: "fdw_fd w = num" "fdw_closed w = fdw_closed (os_wrappers s td)" and sent: "sent k = sent (os_kernel s)" and
    r: "(\<exists>e. res = Inl e) \<and> got k = got (os_kernel s) \<and> fdw_eof w = fdw_eof (os_wrappers s td) \<or>
     (\<exists>data. res = Inr data \<and> length data \<le> unat (TCPConnection_remaining_outbound_capacity c) \<and>
        got k = got (os_kernel s) @ data \<and> (\<exists>rest. S = got k @ rest) \<and>
        (fdw_eof w \<longrightarrow> fdw_eof (os_wrappers s td) \<or> got k = S))" by blast
  from r show ?thesis
  proof (elim disjE exE conjE)
    fix e
    assume e: "res = Inl e" "got k = got (os_kernel s)" "fdw_eof w = fdw_eof (os_wrappers s td)"
    show ?thesis using e(2) inv_pipe_same [OF inv w e(3,2) sent]
      by (simp add: rule2_callback_def c td read e(1) s1 advances_def)
  next
    fix data rest
    assume data: "res = Inr data" "length data \<le> unat (TCPConnection_remaining_outbound_capacity c)"
      "got k = got (os_kernel s) @ data" "S = got k @ rest" and "fdw_eof w \<longrightarrow> fdw_eof (os_wrappers s td) \<or> got k = S"
    then have ended: "fdw_eof w \<longrightarrow> got k = S" using eof arg_cong [OF data(4), of length] by auto
    obtain c1 n where wr: "TCPConnection_write c data = (c1, n)" by fastforce
    have "driven got sent S sent0 c0 k c1" "n = sz data"
      using driven_write [OF d S data(2,3) sent] data(4) wr by auto
    note c1 = this(2) inv_pipe [OF inv w ended this(1)] inv_pipe [OF inv w ended driven_end [OF this(1)]]
    show ?thesis using c1(2,3) ended data(3) w
      by (auto simp: rule2_callback_def c td read data(1) s1 wr c1(1) advances_def debug_destination_def
          FileDescriptor_eof_def Let_def)
  qed
qed

lemma rule2_cancel_advances:
  assumes inv: "sponge_inv ops got sent S sent0 c0 num td s" and ended: "got (os_kernel s) = S"
  shows "advances ops got sent S sent0 c0 num td s (fst (rule2_cancel s))"
proof -
  obtain c where c: "ss_tcp s = Some c" and d: "driven got sent S sent0 c0 (os_kernel s) c"
    using inv by (auto simp: sponge_inv_def)
  from inv_tcp [OF inv driven_end [OF d ended]] show ?thesis
    by (simp add: rule2_cancel_def c advances_def)
qed

text \<open>What the owner takes is read from the inbound stream.\<close>

lemma driven_read:
  assumes d: "driven got sent S sent0 c0 k c"
    and n: "n \<le> length (ByteStream_peek_output (TCPConnection_inbound_stream c) m)"
    and k': "got k' = got k" "sent k' = sent k @ take n (ByteStream_peek_output (TCPConnection_inbound_stream c) m)"
  shows "driven got sent S sent0 c0 k' (set_inbound c (ByteStream_pop_output (TCPConnection_inbound_stream c) (of_nat n)))"
proof -
  let ?st = "TCPConnection_inbound_stream c"
  let ?buf = "bs_buffer_list ?st"
  have le: "n \<le> unat (sz ?buf)" "n \<le> length ?buf"
    using n by (auto simp: ByteStream_peek_output_def min_def word_le_nat_alt Let_def split: if_splits)
  have un: "unat (of_nat n :: u64) = n" using le(1) unat_u64_bound [of "sz ?buf"] by (intro unat_of_nat_u64) linarith
  then have "min (of_nat n) (sz ?buf) = of_nat n" using le(1) by (simp add: min_def word_le_nat_alt)
  then have "ByteStream_peek_output ?st (of_nat n) = take n ?buf"
    by (simp add: ByteStream_peek_output_def un)
  moreover have "take n (ByteStream_peek_output ?st m) = take n ?buf"
    using n by (simp add: ByteStream_peek_output_def Let_def)
  moreover have "\<not> bs_end_output ?st" using d
    by (simp add: driven_def TCPConnection_inbound_stream_def TCPReceiver_stream_out_def)
  ultimately have "conn_step (c, given) (Read (of_nat n))
      = (set_inbound c (ByteStream_pop_output ?st (of_nat n)), given @ take n (ByteStream_peek_output ?st m))" for given
    by (simp add: StreamReassembler_consume_def ByteStream_read_def set_inbound_def Let_def
        TCPConnection_inbound_stream_def TCPReceiver_stream_out_def)
  then show ?thesis using d k' by (intro driven_step [OF d, where e = "Read (of_nat n)"])
    (auto simp: driven_def set_inbound_def ByteStream_pop_output_def Let_def
        TCPConnection_inbound_stream_def TCPReceiver_stream_out_def)
qed

lemma rule3_advances:
  assumes law: "pipe_law sys got sent num S" and inv: "sponge_inv ops got sent S sent0 c0 num td s"
  shows "advances ops got sent S sent0 c0 num td s (fst (rule3_callback sys gni ops s))"
proof -
  obtain c where c: "ss_tcp s = Some c" and d: "driven got sent S sent0 c0 (os_kernel s) c"
    using inv by (auto simp: sponge_inv_def)
  have td: "ss_thread_data s = td" "FileDescriptor_fd_num s td = num" and
    eof: "fdw_eof (os_wrappers s td) \<longrightarrow> got (os_kernel s) = S"
    using inv by (simp_all add: sponge_inv_def FileDescriptor_fd_num_def)
  let ?st = "TCPConnection_inbound_stream c"
  let ?m = "min 65536 (ByteStream_buffer_size ?st)"
  let ?buf = "ByteStream_peek_output ?st ?m"
  obtain s1 res where wr: "FileDescriptor_write sys s td [?buf] False = (s1, res)" by fastforce
  have "unat (min (min 65536 b) x) \<le> unat (65536 :: u64)" for b x :: u64
    by (subst word_le_nat_alt [symmetric]) (simp add: min.coboundedI1)
  then have "length ?buf \<le> unat (65536 :: u64)"
    by (simp add: ByteStream_peek_output_def Let_def min.coboundedI2)
  then have "length ?buf < 2 ^ 63" by simp
  from pipe_write [OF law td(2) wr this] obtain k w where
    s1: "s1 = s\<lparr>os_kernel := k, os_wrappers := (os_wrappers s)(td := w)\<rparr>" and
    w: "fdw_fd w = num" "fdw_closed w = fdw_closed (os_wrappers s td)" "fdw_eof w = fdw_eof (os_wrappers s td)" and
    got: "got k = got (os_kernel s)" and
    r: "(\<exists>e. res = Inl e) \<and> sent k = sent (os_kernel s) \<or>
     (\<exists>n. res = Inr (of_nat n) \<and> n \<le> length ?buf \<and> sent k = sent (os_kernel s) @ take n ?buf)" by blast
  from r show ?thesis
  proof (elim disjE exE conjE)
    fix e
    assume "res = Inl e" "sent k = sent (os_kernel s)"
    then show ?thesis using inv_pipe_same [OF inv w got] got
      by (simp add: rule3_callback_def c td wr s1 advances_def BufferViewList_of_view_def)
  next
    fix n
    assume n: "res = Inr (of_nat n)" "n \<le> length ?buf" "sent k = sent (os_kernel s) @ take n ?buf"
    let ?c = "set_inbound c (ByteStream_pop_output ?st (of_nat n))"
    let ?s = "s\<lparr>os_kernel := k, os_wrappers := (os_wrappers s)(td := w), ss_tcp := Some ?c\<rparr>"
    have i: "sponge_inv ops got sent S sent0 c0 num td ?s"
      using eof got w(3) by (intro inv_pipe [OF inv w(1,2) _ driven_read [OF d n(2) got n(3)]]) simp
    obtain s2 res2 where sh: "Socket_shutdown sys ?s td SHUT_WR = (s2, res2)" by fastforce
    have "FileDescriptor_fd_num ?s td = num" using w(1) by (simp add: FileDescriptor_fd_num_def)
    from pipe_shutdown [OF law this sh] have i2: "sponge_inv ops got sent S sent0 c0 num td s2" "got (os_kernel s2) = got k"
      using inv_pipe_same [OF i] by auto
    show ?thesis using i i2 got
      by (auto simp: rule3_callback_def c td wr s1 n(1) sh advances_def BufferViewList_of_view_def debug_destination_def
          Let_def split: sum.split)
  qed
qed

lemma driven_take:
  "driven got sent S sent0 c0 k c \<Longrightarrow> conn_segments_out c = seg # q \<Longrightarrow>
     driven got sent S sent0 c0 k (c\<lparr>conn_segments_out := q\<rparr>)"
  by (erule driven_quiet [where e = Take]) simp_all

lemma write_segments_advances:
  assumes law: "adapter_law ops got sent num td" and "sponge_inv ops got sent S sent0 c0 num td s"
    and "map_option conn_segments_out (ss_tcp s) = Some q"
  shows "advances ops got sent S sent0 c0 num td s (fst (write_segments ops q s))"
  using assms(2,3)
proof (induction q arbitrary: s)
  case (Cons seg q)
  obtain s1 res where call: "adapter_call (\<lambda>os ad. ad_write ops os ad seg) s = (s1, res)" by fastforce
  have "apart td num os (ad_fd ops ad) \<Longrightarrow> keeps_pipe ops got sent td os ad (ad_write ops os ad seg)" for os ad
    using law by (simp add: adapter_law_def)
  note k = adapter_call_keeps [OF call Cons.prems(1) this]
  obtain c where c: "ss_tcp s1 = Some c" "conn_segments_out c = seg # q" "driven got sent S sent0 c0 (os_kernel s1) c"
    using k(1,4) Cons.prems(2) by (auto simp: sponge_inv_def)
  note i = inv_tcp [OF k(1) driven_take [OF c(3,2)]]
  have s2: "set_segments_out q s1 = s1\<lparr>ss_tcp := Some (c\<lparr>conn_segments_out := q\<rparr>)\<rparr>"
    by (simp add: set_segments_out_def c(1))
  have "advances ops got sent S sent0 c0 num td s (set_segments_out q s1)" using i k(2) by (simp add: advances_def s2)
  moreover have "advances ops got sent S sent0 c0 num td (set_segments_out q s1) (fst (write_segments ops q (set_segments_out q s1)))"
    by (rule Cons.IH) (simp_all add: s2 i)
  ultimately have "advances ops got sent S sent0 c0 num td s (fst (write_segments ops q (set_segments_out q s1)))"
    by (rule advances_trans)
  then show ?case using k(1,2) by (cases res) (simp_all add: call advances_def)
qed (simp add: advances_refl)

lemma rule4_advances:
  assumes "adapter_law ops got sent num td" and inv: "sponge_inv ops got sent S sent0 c0 num td s"
  shows "advances ops got sent S sent0 c0 num td s (fst (rule4_callback ops s))"
proof -
  obtain c where "ss_tcp s = Some c" using inv by (auto simp: sponge_inv_def)
  then show ?thesis using write_segments_advances [OF assms] by (simp add: rule4_callback_def)
qed

subsection \<open>The loop\<close>

text \<open>The laws and the invariant together are what the event loop keeps; rule 2 is over when everything
  the owner writes has been read.\<close>

definition sponge_ok ::
  "'k syscalls \<Rightarrow> ('k, 'a) AdaptT \<Rightarrow> ('k \<Rightarrow> bytes) \<Rightarrow> ('k \<Rightarrow> bytes) \<Rightarrow> bytes \<Rightarrow> bytes \<Rightarrow> TCPConnection \<Rightarrow> int
    \<Rightarrow> FileDescriptor \<Rightarrow> ('k, 'a) TCPSpongeSocket \<Rightarrow> bool" where
  "sponge_ok sys ops got sent S sent0 c0 num td s \<longleftrightarrow>
     pipe_law sys got sent num S \<and> adapter_law ops got sent num td \<and> length S < 2 ^ 64 \<and>
     sponge_inv ops got sent S sent0 c0 num td s"

definition rule_over ::
  "('k \<Rightarrow> bytes) \<Rightarrow> bytes \<Rightarrow> FileDescriptor \<Rightarrow> ('k, 'a) TCPSpongeSocket Rule \<Rightarrow> ('k, 'a) TCPSpongeSocket \<Rightarrow> bool" where
  "rule_over got S td r s \<longleftrightarrow> (rule_fd r = td \<and> rule_direction r = In \<longrightarrow> got (os_kernel s) = S)"

lemma callback_advances:
  assumes "r \<in> set (sponge_rules sys gni ops dfd td [])" and "sponge_ok sys ops got sent S sent0 c0 num td s"
  shows "advances ops got sent S sent0 c0 num td s (fst (rule_callback r s))"
  using assms rule1_advances [of ops got sent num td S sent0 c0 s gni] rule4_advances [of ops got sent num td S sent0 c0 s]
    rule2_advances [of sys got sent num S ops sent0 c0 td s gni] rule3_advances [of sys got sent num S ops sent0 c0 td s gni]
  by (auto simp: sponge_ok_def sponge_rules_def EventLoop_add_rule_def)

lemma cancel_advances:
  assumes "r \<in> set (sponge_rules sys gni ops dfd td [])" and "sponge_ok sys ops got sent S sent0 c0 num td s"
    and "rule_over got S td r s"
  shows "advances ops got sent S sent0 c0 num td s (fst (rule_cancel r s))"
  using assms rule2_cancel_advances [of ops got sent S sent0 c0 num td s]
    advances_refl [of ops got sent S sent0 c0 num td s]
  by (auto simp: sponge_ok_def sponge_rules_def EventLoop_add_rule_def FileDescriptor_duplicate_def rule_over_def)

lemma cancel_kernel:
  "r \<in> set (sponge_rules sys gni ops dfd td []) \<Longrightarrow> os_kernel (fst (rule_cancel r s)) = os_kernel s"
  by (auto simp: sponge_rules_def EventLoop_add_rule_def rule2_cancel_def split: option.split)

lemma poll_ok:
  assumes "sponge_ok sys ops got sent S sent0 c0 num td s"
    and "sys_poll sys (os_kernel s) pollfds t = ((k, ret, errno), revents)"
  shows "sponge_ok sys ops got sent S sent0 c0 num td (s\<lparr>os_kernel := k\<rparr>)"
proof -
  have "got k = got (os_kernel s)" "sent k = sent (os_kernel s)"
    using assms(1) pipe_lawD(4) [OF _ assms(2)] by (auto simp: sponge_ok_def)
  then show ?thesis using assms(1) by (auto simp: sponge_ok_def sponge_inv_def apart_def intro: driven_same)
qed

interpretation sponge_loop:
  rule_loop sys "set (sponge_rules sys gni ops dfd td [])" "sponge_ok sys ops got sent S sent0 c0 num td" "rule_over got S td"
  for sys gni ops dfd td got sent S sent0 c0 num
proof (unfold_locales, goal_cases)
  case (1 r s)
  then show ?case using callback_advances [OF 1] by (simp add: sponge_ok_def advances_def)
next
  case (2 r s)
  then show ?case using cancel_advances [OF 2] by (simp add: sponge_ok_def advances_def)
next
  case (3 r s)
  then show ?case
    by (auto simp: sponge_ok_def sponge_inv_def rule_over_def FileDescriptor_eof_def FileDescriptor_closed_def)
next
  case (4 r r' s)
  then show ?case using advances_end [OF callback_advances [OF 4(2,3)]] by (auto simp: rule_over_def)
next
  case (5 r r' s)
  then show ?case by (auto simp: rule_over_def cancel_kernel)
next
  case (6 s)
  then show ?case by (rule poll_ok)
next
  case (7 r s s0 pollfds t k)
  have num: "FileDescriptor_fd_num s0 td = num" and law: "pipe_law sys got sent num S"
    using 7(3) by (simp_all add: sponge_ok_def sponge_inv_def FileDescriptor_fd_num_def)
  have "got k = S" if "rule_fd r = td" "rule_direction r = In"
    using 7(5,6) [unfolded that num Direction_events.simps] by (rule pipe_lawD(5) [OF law 7(4)])
  then show ?case by (simp add: rule_over_def)
qed

text \<open>One iteration, whether the loop goes on or ends, and the whole loop if it ends.\<close>

fun after_step :: "'t \<times> 'r \<times> 's + 'r \<times> 's \<times> 'u \<Rightarrow> 'r \<times> 's" where
  "after_step (Inl (t, rules, s)) = (rules, s)"
| "after_step (Inr (rules, s, u)) = (rules, s)"

definition loop_ok where
  "loop_ok sys gni ops dfd got sent S sent0 c0 num td rs \<longleftrightarrow>
     set (fst rs) \<subseteq> set (sponge_rules sys gni ops dfd td []) \<and> sponge_ok sys ops got sent S sent0 c0 num td (snd rs)"

lemma tick_ok:
  assumes ok: "sponge_ok sys ops got sent S sent0 c0 num td s" and c: "ss_tcp s = Some c"
    and tick: "TCPConnection_tick c ms = Inr c'"
  shows "sponge_ok sys ops got sent S sent0 c0 num td (s\<lparr>ss_tcp := Some c'\<rparr>)"
proof -
  have d: "driven got sent S sent0 c0 (os_kernel s) c" using ok c by (simp add: sponge_ok_def sponge_inv_def)
  have "driven got sent S sent0 c0 (os_kernel s) c'"
    by (rule driven_quiet [OF d, where e = "Time ms"])
      (simp_all add: tick fed_tick [OF tick] out_tick [OF tick])
  then show ?thesis using ok inv_tcp by (auto simp: sponge_ok_def)
qed

lemma step_ok:
  assumes "loop_ok sys gni ops dfd got sent S sent0 c0 num td (rules, s)"
  shows "loop_ok sys gni ops dfd got sent S sent0 c0 num td
    (after_step (tcp_loop_step sys timestamp_ms ops condition (t, rules, s)))"
proof (cases "condition s")
  case True
  obtain s1 rules1 ret where wait: "EventLoop_wait_next_event sys rules s TCP_TICK_MS = (s1, rules1, ret)"
    by (metis prod_cases3)
  have rules: "set rules \<subseteq> set (sponge_rules sys gni ops dfd td [])" and ok: "sponge_ok sys ops got sent S sent0 c0 num td s"
    using assms by (simp_all add: loop_ok_def)
  have i: "sponge_ok sys ops got sent S sent0 c0 num td s1" "set rules1 \<subseteq> set (sponge_rules sys gni ops dfd td [])"
    using sponge_loop.wait_inv [OF rules ok wait] rules by auto
  obtain c where c: "ss_tcp s1 = Some c" using i(1) by (auto simp: sponge_ok_def sponge_inv_def)
  let ?ms = "timestamp_ms (os_kernel s1) - t"
  have ticked: "sponge_ok sys ops got sent S sent0 c0 num td s2"
    if tick: "TCPConnection_tick c ?ms = Inr c'"
      and call: "adapter_call (\<lambda>os ad. ad_tick ops os ad ?ms) (s1\<lparr>ss_tcp := Some c'\<rparr>) = (s2, res)" for c' s2 res
  proof -
    note j = tick_ok [OF i(1) c tick]
    then have "sponge_inv ops got sent S sent0 c0 num td (s1\<lparr>ss_tcp := Some c'\<rparr>)" by (simp add: sponge_ok_def)
    moreover have "apart td num os (ad_fd ops ad) \<Longrightarrow> keeps_pipe ops got sent td os ad (ad_tick ops os ad ?ms)" for os ad
      using i(1) by (simp add: sponge_ok_def adapter_law_def)
    ultimately show ?thesis using adapter_call_keeps(1) [OF call] i(1) by (simp add: sponge_ok_def)
  qed
  show ?thesis using True i ticked
    by (auto simp: tcp_loop_step_def wait c loop_ok_def Let_def split: sum.split prod.split)
qed (use assms in \<open>simp add: tcp_loop_step_def\<close>)

end
