(* ===== verification/Socket_Delivery.thy ===== *)
theory Socket_Delivery
  imports Socket_Refinement
begin

text \<open>
  The socket as a whole. All adapters of \<open>src/libsponge/tcp_helpers\<close> leave the socket pair alone, if the
  operating system keeps descriptors apart; so the refinement of the event loop holds for each of
  them. It is stated from the call of \<open>connect\<close> or \<open>listen_and_accept\<close> to any iteration of the loop in
  \<open>_tcp_main\<close>, with the owner setting the abort flag at any time.
\<close>

subsection \<open>The adapters\<close>

text \<open>A call on another descriptor does not touch the socket pair.\<close>

definition others_law :: "'k syscalls \<Rightarrow> ('k \<Rightarrow> bytes) \<Rightarrow> ('k \<Rightarrow> bytes) \<Rightarrow> int \<Rightarrow> bool" where
  "others_law sys got sent num \<longleftrightarrow>
     (\<forall>k fd k'. fd \<noteq> num \<longrightarrow>
        (\<exists>n. k' = fst (fst (sys_read sys k fd n))) \<or> (\<exists>iov. k' = fst (sys_writev sys k fd iov)) \<or>
        (\<exists>n flags. k' = fst (fst (sys_recvfrom sys k fd n flags))) \<or>
        (\<exists>a l iov flags. k' = fst (sys_sendmsg sys k fd a l iov flags)) \<longrightarrow>
        got k' = got k \<and> sent k' = sent k)"

lemma others_lawD:
  assumes "others_law sys got sent num" and "fd \<noteq> num"
  shows "sys_read sys k fd n = ((k', r, e), d) \<Longrightarrow> got k' = got k \<and> sent k' = sent k"
    and "sys_writev sys k fd iov = (k', r, e) \<Longrightarrow> got k' = got k \<and> sent k' = sent k"
    and "sys_recvfrom sys k fd n flags = ((k', r, e), d') \<Longrightarrow> got k' = got k \<and> sent k' = sent k"
    and "sys_sendmsg sys k fd a l iov flags = (k', r, e) \<Longrightarrow> got k' = got k \<and> sent k' = sent k"
  using assms unfolding others_law_def by (metis fst_conv)+

definition spares ::
  "('k \<Rightarrow> bytes) \<Rightarrow> ('k \<Rightarrow> bytes) \<Rightarrow> FileDescriptor \<Rightarrow> FileDescriptor \<Rightarrow> ('k, 'm) os_scheme \<Rightarrow> ('k, 'm) os_scheme \<Rightarrow> bool" where
  "spares got sent td fd os os' \<longleftrightarrow> os_wrappers os' td = os_wrappers os td \<and>
     got (os_kernel os') = got (os_kernel os) \<and> sent (os_kernel os') = sent (os_kernel os) \<and>
     fdw_fd (os_wrappers os' fd) = fdw_fd (os_wrappers os fd)"

lemma spares_refl [simp]: "spares got sent td fd os os"
  by (simp add: spares_def)

lemma spares_trans: "spares got sent td fd os os' \<Longrightarrow> spares got sent td fd os' os'' \<Longrightarrow> spares got sent td fd os os''"
  by (simp add: spares_def)

lemma spares_apart: "spares got sent td fd os os' \<Longrightarrow> apart td num os fd \<Longrightarrow> apart td num os' fd"
  by (simp add: spares_def apart_def)

lemma read_spares:
  assumes law: "others_law sys got sent num" and fd: "apart td num os fd"
    and call: "FileDescriptor_read sys os fd n = (os', res)"
  shows "spares got sent td fd os os'"
proof -
  let ?n = "min BUFFER_SIZE n"
  obtain k r e d where sys: "sys_read sys (os_kernel os) (FileDescriptor_fd_num os fd) ?n = ((k, r, e), d)"
    by (metis prod_cases3 surj_pair)
  have "FileDescriptor_fd_num os fd \<noteq> num" using fd by (simp add: apart_def FileDescriptor_fd_num_def)
  from others_lawD(1) [OF law this sys] show ?thesis using call fd
    by (auto simp: FileDescriptor_read_def sys os_call_def register_read_def update_wrapper_def spares_def apart_def
        Let_def split: sum.splits if_splits)
qed

lemma recv_spares:
  assumes law: "others_law sys got sent num" and fd: "apart td num os fd"
    and call: "UDPSocket_recv sys os fd n = (os', res)"
  shows "spares got sent td fd os os'"
proof -
  obtain k r e d where sys: "sys_recvfrom sys (os_kernel os) (FileDescriptor_fd_num os fd) n MSG_TRUNC = ((k, r, e), d)"
    by (metis prod_cases3 surj_pair)
  have "FileDescriptor_fd_num os fd \<noteq> num" using fd by (simp add: apart_def FileDescriptor_fd_num_def)
  from others_lawD(3) [OF law this sys] show ?thesis using call fd
    by (cases d) (auto simp: UDPSocket_recv_def sys os_call_def register_read_def update_wrapper_def spares_def apart_def
        Let_def split: sum.splits if_splits)
qed

lemma sendto_spares:
  assumes law: "others_law sys got sent num" and fd: "apart td num os fd"
    and call: "UDPSocket_sendto sys os fd dst payload = (os', res)"
  shows "spares got sent td fd os os'"
proof -
  obtain k r e where sys: "sys_sendmsg sys (os_kernel os) (FileDescriptor_fd_num os fd) (addr_storage dst)
      (addr_size dst) (BufferViewList_as_iovecs payload) 0 = (k, r, e)" by (metis prod_cases3)
  have "FileDescriptor_fd_num os fd \<noteq> num" using fd by (simp add: apart_def FileDescriptor_fd_num_def)
  from others_lawD(4) [OF law this sys] show ?thesis using call fd
    by (auto simp: UDPSocket_sendto_def sendmsg_helper_def sys os_call_def register_write_def update_wrapper_def
        spares_def apart_def Let_def split: sum.splits if_splits)
qed

lemma write_loop_spares:
  assumes law: "others_law sys got sent num"
  shows "apart td num os fd \<Longrightarrow> write_loop sys os fd buffer every n = (os', res) \<Longrightarrow> spares got sent td fd os os'"
proof (induction "length (concat buffer) + length buffer" arbitrary: buffer os n rule: less_induct)
  case less
  obtain k r e where sys: "sys_writev sys (os_kernel os) (FileDescriptor_fd_num os fd) (BufferViewList_as_iovecs buffer) = (k, r, e)"
    by (metis prod_cases3)
  have "FileDescriptor_fd_num os fd \<noteq> num" using less.prems(1) by (simp add: apart_def FileDescriptor_fd_num_def)
  note k = others_lawD(2) [OF law this sys]
  let ?os = "register_write fd (os\<lparr>os_kernel := k\<rparr>)"
  have s: "spares got sent td fd os (os\<lparr>os_kernel := k\<rparr>)" "spares got sent td fd os ?os"
    using k less.prems(1) by (simp_all add: spares_def apart_def register_write_def update_wrapper_def)
  have call: "os_call os ''writev'' (k, r, e) 0 = (os\<lparr>os_kernel := k\<rparr>, SystemCall ''writev'' r e 0)"
    by (simp add: os_call_def)
  note run = less.prems(2) [unfolded write_loop.simps [of sys os] sys call]
  have again: "spares got sent td fd os os'"
    if "SystemCall ''writev'' r e 0 = Inr bw" "bw = 0 \<Longrightarrow> BufferViewList_size buffer = 0"
      "BufferViewList_remove_prefix buffer (word_of_int bw) = Inr buffer'" "BufferViewList_size buffer' \<noteq> 0"
      "write_loop sys ?os fd buffer' every m = (os', res)" for bw buffer' m
    using less.hyps [OF write_progress [OF call [unfolded that(1)] that(2-4)] spares_apart [OF s(2) less.prems(1)] that(5)]
    by (rule spares_trans [OF s(2)])
  show ?case
  proof (cases "SystemCall ''writev'' r e 0")
    case (Inl err)
    then show ?thesis using run s(1) by simp
  next
    case (Inr bw)
    then show ?thesis using run s again [OF Inr]
      by (auto simp: Let_def simp del: BufferViewList_remove_prefix.simps split: if_splits sum.splits)
  qed
qed

lemma write_spares:
  "others_law sys got sent num \<Longrightarrow> apart td num os fd \<Longrightarrow> FileDescriptor_write sys os fd buffer every = (os', res) \<Longrightarrow>
     spares got sent td fd os os'"
  unfolding FileDescriptor_write_def by (rule write_loop_spares)

lemma pending_spares:
  "others_law sys got sent num \<Longrightarrow> apart td num os fd \<Longrightarrow> pending_loop sys os fd frames = (os', rest, res) \<Longrightarrow>
     spares got sent td fd os os'"
proof (induction frames arbitrary: os)
  case (Cons frame frames)
  obtain os1 r where w: "FileDescriptor_write sys os fd (BufferViewList_of_BufferList (EthernetFrame_serialize frame)) True = (os1, r)"
    by fastforce
  note s = write_spares [OF Cons.prems(1,2) w]
  have "spares got sent td fd os os'" if "pending_loop sys os1 fd frames = (os', rest, res)"
    using spares_trans [OF s Cons.IH [OF Cons.prems(1) spares_apart [OF s Cons.prems(2)] that]] .
  then show ?case using Cons.prems(3) s by (auto simp: tap_write_def w split: sum.splits)
qed simp

lemma keeps_pipe_iff:
  "keeps_pipe ops got sent td os ad (os', ad', r) \<longleftrightarrow>
     spares got sent td (ad_fd ops ad) os os' \<and> ad_fd ops ad' = ad_fd ops ad"
  by (auto simp: keeps_pipe_def spares_def)

lemma udp_adapter_law:
  assumes law: "others_law sys got sent num"
  shows "adapter_law (udp_adapter sys gni) got sent num td"
proof -
  have "keeps_pipe (udp_adapter sys gni) got sent td os ad (TCPOverUDPSocketAdapter_read sys os ad)"
    if fd: "apart td num os (ua_sock ad)" for os ad
  proof -
    obtain os1 r where c: "UDPSocket_recv sys os (ua_sock ad) 65536 = (os1, r)" by fastforce
    from recv_spares [OF law fd c] show ?thesis
      by (auto simp: TCPOverUDPSocketAdapter_read_def c keeps_pipe_iff udp_adapter_def Let_def split: sum.split prod.split)
  qed
  moreover have "keeps_pipe (udp_adapter sys gni) got sent td os ad (TCPOverUDPSocketAdapter_write sys gni os ad seg)"
    if fd: "apart td num os (ua_sock ad)" for os ad seg
    using sendto_spares [OF law fd]
    by (auto simp: TCPOverUDPSocketAdapter_write_def keeps_pipe_iff udp_adapter_def Let_def split: sum.split prod.split)
  ultimately show ?thesis by (simp add: adapter_law_def) (simp add: udp_adapter_def keeps_pipe_iff)
qed

lemma tun_adapter_law:
  assumes law: "others_law sys got sent num"
  shows "adapter_law (tun_adapter sys gai gni) got sent num td"
proof -
  have "keeps_pipe (tun_adapter sys gai gni) got sent td os ad (TCPOverIPv4OverTunFdAdapter_read sys gai gni os ad)"
    if fd: "apart td num os (ta_tun ad)" for os ad
  proof -
    obtain os1 r where c: "FileDescriptor_read sys os (ta_tun ad) (- 1) = (os1, r)" by fastforce
    from read_spares [OF law fd c] show ?thesis
      by (auto simp: TCPOverIPv4OverTunFdAdapter_read_def c keeps_pipe_iff tun_adapter_def Let_def split: sum.split prod.split)
  qed
  moreover have "keeps_pipe (tun_adapter sys gai gni) got sent td os ad (TCPOverIPv4OverTunFdAdapter_write sys gni os ad seg)"
    if fd: "apart td num os (ta_tun ad)" for os ad seg
    using write_spares [OF law fd]
    by (auto simp: TCPOverIPv4OverTunFdAdapter_write_def keeps_pipe_iff tun_adapter_def Let_def split: sum.split prod.split)
  ultimately show ?thesis by (simp add: adapter_law_def) (simp add: tun_adapter_def keeps_pipe_iff)
qed

lemma send_pending_spares:
  assumes "others_law sys got sent num" and "apart td num os (ea_tap ad)"
    and "TCPOverIPv4OverEthernetAdapter_send_pending sys os ad = (os', ad', res)"
  shows "spares got sent td (ea_tap ad) os os' \<and> ea_tap ad' = ea_tap ad"
  using assms pending_spares by (fastforce simp: TCPOverIPv4OverEthernetAdapter_send_pending_def split: prod.splits)

lemma ethernet_adapter_law:
  assumes law: "others_law sys got sent num"
  shows "adapter_law (ethernet_adapter sys gai gni order) got sent num td"
proof -
  let ?ops = "ethernet_adapter sys gai gni order"
  have pending: "keeps_pipe ?ops got sent td os ad
      (TCPOverIPv4OverEthernetAdapter_send_pending sys os (ad\<lparr>ea_interface := interface\<rparr>))"
    if "apart td num os (ea_tap ad)" for os ad interface
    using send_pending_spares [OF law, of td os "ad\<lparr>ea_interface := interface\<rparr>"] that
    by (cases "TCPOverIPv4OverEthernetAdapter_send_pending sys os (ad\<lparr>ea_interface := interface\<rparr>)")
      (simp add: keeps_pipe_iff ethernet_adapter_def)
  have "keeps_pipe ?ops got sent td os ad (TCPOverIPv4OverEthernetAdapter_read sys gai gni os ad)"
    if fd: "apart td num os (ea_tap ad)" for os ad
  proof -
    obtain os1 r where c: "FileDescriptor_read sys os (ea_tap ad) (- 1) = (os1, r)" by fastforce
    note s = read_spares [OF law fd c]
    have "spares got sent td (ea_tap ad) os os2 \<and> ea_tap ad2 = ea_tap ad"
      if "TCPOverIPv4OverEthernetAdapter_send_pending sys os1 (ad\<lparr>ea_interface := i\<rparr>) = (os2, ad2, r2)" for i os2 ad2 r2
      using send_pending_spares [OF law _ that] spares_apart [OF s fd] spares_trans [OF s] by auto
    with s show ?thesis
      by (auto simp: TCPOverIPv4OverEthernetAdapter_read_def c keeps_pipe_iff ethernet_adapter_def
          split: sum.split prod.split option.split)
  qed
  moreover have "keeps_pipe ?ops got sent td os ad (TCPOverIPv4OverEthernetAdapter_write sys gni os ad seg)"
    if fd: "apart td num os (ea_tap ad)" for os ad seg
    using pending [OF fd]
    by (auto simp: TCPOverIPv4OverEthernetAdapter_write_def keeps_pipe_iff ethernet_adapter_def split: sum.split prod.split)
  moreover have "keeps_pipe ?ops got sent td os ad (TCPOverIPv4OverEthernetAdapter_tick sys order os ad ms)"
    if fd: "apart td num os (ea_tap ad)" for os ad ms
    using pending [OF fd]
    by (auto simp: TCPOverIPv4OverEthernetAdapter_tick_def keeps_pipe_iff ethernet_adapter_def split: sum.split prod.split)
  ultimately show ?thesis by (simp add: adapter_law_def) (simp add: ethernet_adapter_def)
qed

text \<open>The lossy adapter keeps what the adapter below it keeps.\<close>

lemma should_drop_adapter: "LossyFdAdapter_should_drop rand ops lo up = (lo', d) \<Longrightarrow> lo_adapter lo' = lo_adapter lo"
  by (auto simp: LossyFdAdapter_should_drop_def Let_def split: if_splits prod.splits)

lemma adapter_lawD:
  assumes "adapter_law ops got sent num td" and "apart td num os (ad_fd ops ad)"
  shows "ad_read ops os ad = (os', ad', r) \<Longrightarrow> spares got sent td (ad_fd ops ad) os os' \<and> ad_fd ops ad' = ad_fd ops ad"
    and "ad_write ops os ad seg = (os', ad', u) \<Longrightarrow> spares got sent td (ad_fd ops ad) os os' \<and> ad_fd ops ad' = ad_fd ops ad"
    and "ad_tick ops os ad ms = (os', ad', u) \<Longrightarrow> spares got sent td (ad_fd ops ad) os os' \<and> ad_fd ops ad' = ad_fd ops ad"
  using assms unfolding adapter_law_def by (metis keeps_pipe_iff)+

lemma lossy_adapter_law:
  assumes law: "adapter_law ops got sent num td"
  shows "adapter_law (lossy_adapter rand ops) got sent num td"
proof -
  let ?ops = "lossy_adapter rand ops"
  note sel = lossy_adapter_def keeps_pipe_iff
  have "keeps_pipe ?ops got sent td os lo (LossyFdAdapter_read rand ops os lo)"
    if fd: "apart td num os (ad_fd ops (lo_adapter lo))" for os lo
    by (auto simp: LossyFdAdapter_read_def sel dest!: should_drop_adapter adapter_lawD(1) [OF law fd]
        split: sum.split prod.split)
  moreover have "keeps_pipe ?ops got sent td os lo (LossyFdAdapter_write rand ops os lo seg)"
    if fd: "apart td num os (ad_fd ops (lo_adapter lo))" for os lo seg
    by (auto simp: LossyFdAdapter_write_def sel dest!: should_drop_adapter adapter_lawD(2) [OF law fd]
        split: sum.split prod.split)
  moreover have "keeps_pipe ?ops got sent td os lo (ad_tick ?ops os lo ms)"
    if fd: "apart td num os (ad_fd ops (lo_adapter lo))" for os lo ms
    by (auto simp: sel dest!: adapter_lawD(3) [OF law fd] split: prod.split)
  ultimately show ?thesis using law by (simp add: adapter_law_def) (simp add: lossy_adapter_def)
qed

subsection \<open>From the start\<close>

lemma tcp_loop_ok:
  fixes sys :: "'k syscalls" and ops :: "('k, 'a) AdaptT"
  assumes run: "tcp_loop sys timestamp_ms ops condition x = Some y"
    and ok: "loop_ok sys gni ops dfd got sent S sent0 c0 num td (snd x)"
  shows "loop_ok sys gni ops dfd got sent S sent0 c0 num td (fst y, fst (snd y))"
proof -
  define P where "P sys timestamp_ms ops condition x y \<longleftrightarrow>
    (loop_ok sys gni ops dfd got sent S sent0 c0 num td (snd x) \<longrightarrow>
     loop_ok sys gni ops dfd got sent S sent0 c0 num td (fst y, fst (snd y)))"
    for sys :: "'k syscalls" and timestamp_ms :: "'k \<Rightarrow> u64" and ops :: "('k, 'a) AdaptT"
      and condition :: "('k, 'a) TCPSpongeSocket \<Rightarrow> bool" and x :: "u64 \<times> _" and y :: "_ \<times> _ \<times> unit result"
  note induct = tcp_loop.raw_induct [of P "((((sys, timestamp_ms), ops), condition), x)" y, simplified]
  have "P sys timestamp_ms ops condition x y"
  proof (rule induct)
    show "tcp_loop sys timestamp_ms ops condition x = Some y" by (rule run)
    fix loop sys timestamp_ms ops condition x y
    assume IH: "\<And>sys timestamp_ms ops condition x y. loop sys timestamp_ms ops condition x = Some y \<Longrightarrow>
        P sys timestamp_ms ops condition x y"
      and step: "(case tcp_loop_step sys timestamp_ms ops condition x of
        Inl x' \<Rightarrow> loop sys timestamp_ms ops condition x' | Inr r \<Rightarrow> Some r) = Some y"
    show "P sys timestamp_ms ops condition x y"
    proof (cases "tcp_loop_step sys timestamp_ms ops condition x")
      case (Inl x')
      then have "P sys timestamp_ms ops condition x' y" using step IH by simp
      then show ?thesis
        using step_ok [of sys gni ops dfd got sent S sent0 c0 num td "fst (snd x)" "snd (snd x)" timestamp_ms condition "fst x"] Inl
        by (cases x') (auto simp: P_def)
    next
      case (Inr r)
      then show ?thesis
        using step step_ok [of sys gni ops dfd got sent S sent0 c0 num td "fst (snd x)" "snd (snd x)" timestamp_ms condition "fst x"]
        by (cases r) (auto simp: P_def)
    qed
  qed
  then show ?thesis using ok by (simp add: P_def)
qed

text \<open>A socket whose loop has not run yet, with the end \<open>num\<close> of a fresh socket pair.\<close>

definition idle_socket ::
  "('k, 'a) AdaptT \<Rightarrow> ('k \<Rightarrow> bytes) \<Rightarrow> int \<Rightarrow> FileDescriptor \<Rightarrow> ('k, 'a) TCPSpongeSocket \<Rightarrow> bool" where
  "idle_socket ops got num td s \<longleftrightarrow> ss_tcp s = None \<and> ss_thread_data s = td \<and>
     fdw_fd (os_wrappers s td) = num \<and> \<not> fdw_eof (os_wrappers s td) \<and> \<not> fdw_closed (os_wrappers s td) \<and>
     apart td num s (ad_fd ops (ss_datagram_adapter s)) \<and> got (os_kernel s) = []"

lemma initialized_ok:
  assumes law: "pipe_law sys got sent num S" "adapter_law ops got sent num td" "length S < 2 ^ 64"
    and idle: "idle_socket ops got num td s" and ad: "ad_fd ops ad = ad_fd ops (ss_datagram_adapter s)"
    and c: "c = TCPConnection_init cfg rrnd srnd \<or> c = TCPConnection_connect (TCPConnection_init cfg rrnd srnd)"
  shows "loop_ok sys gni ops (ad_fd ops (ss_datagram_adapter s)) got sent S (sent (os_kernel s))
    (TCPConnection_init cfg rrnd srnd) num td
    (sponge_rules sys gni ops (ad_fd ops (ss_datagram_adapter s)) (ss_thread_data s) [],
     s\<lparr>ss_tcp := Some c, ss_datagram_adapter := ad\<rparr>)"
proof -
  let ?c0 = "TCPConnection_init cfg rrnd srnd"
  have init: "driven got sent S (sent (os_kernel s)) ?c0 (os_kernel s) ?c0"
    using idle by (auto simp: driven_def idle_socket_def fed_def TCPConnection_init_def TCPSender_init_def ByteStream_init_def
        TCPReceiver_init_def StreamReassembler_init_def intro!: exI [of _ "[]"])
  moreover have "driven got sent S (sent (os_kernel s)) ?c0 (os_kernel s) (TCPConnection_connect ?c0)"
    by (rule driven_quiet [OF init, where e = Connect]) (simp_all add: TCPConnection_connect_def)
  ultimately have "driven got sent S (sent (os_kernel s)) ?c0 (os_kernel s) c" using c by auto
  then show ?thesis
    using law idle ad by (auto simp: loop_ok_def sponge_ok_def sponge_inv_def idle_socket_def apart_def)
qed

lemma loop_ok_joinable:
  "loop_ok sys gni ops dfd got sent S sent0 c0 num td (rules, s\<lparr>ss_joinable := b\<rparr>)
    = loop_ok sys gni ops dfd got sent S sent0 c0 num td (rules, s)"
  "loop_ok sys gni ops dfd got sent S sent0 c0 num td (rules, s\<lparr>ss_abort := b\<rparr>)
    = loop_ok sys gni ops dfd got sent S sent0 c0 num td (rules, s)"
  by (simp_all add: loop_ok_def sponge_ok_def)

text \<open>The loop of \<open>connect\<close> and \<open>listen_and_accept\<close>, as it stands in both.\<close>

lemma first_loop_ok:
  assumes "loop_ok sys gni ops dfd got sent S sent0 c0 num td (rules, s)"
    and "TCPSpongeSocket_tcp_loop sys timestamp_ms ops condition (rules, s) = Some (rules1, s1, res)"
  shows "loop_ok sys gni ops dfd got sent S sent0 c0 num td (rules1, s1)"
  using tcp_loop_ok [OF assms(2) [unfolded TCPSpongeSocket_tcp_loop_def]] assms(1) by simp

lemma connect_ok:
  assumes law: "pipe_law sys got sent num S" "adapter_law ops got sent num td" "length S < 2 ^ 64"
    and idle: "idle_socket ops got num td s"
    and call: "TCPSpongeSocket_connect sys gni timestamp_ms ops rrnd srnd cfg c_ad ([], s) = Some (rules1, s1, res)"
  shows "loop_ok sys gni ops (ad_fd ops (ss_datagram_adapter s)) got sent S (sent (os_kernel s))
    (TCPConnection_init cfg rrnd srnd) num td (rules1, s1)"
proof -
  let ?ok = "loop_ok sys gni ops (ad_fd ops (ss_datagram_adapter s)) got sent S (sent (os_kernel s))
    (TCPConnection_init cfg rrnd srnd) num td"
  have "ad_fd ops (ad_set_config ops (ss_datagram_adapter s) c_ad) = ad_fd ops (ss_datagram_adapter s)"
    using law(2) by (simp add: adapter_law_def)
  note ok = initialized_ok [OF law idle this, where gni = gni and cfg = cfg and rrnd = rrnd and srnd = srnd]
  have swap: "s\<lparr>ss_tcp := c, ss_datagram_adapter := ad\<rparr> = s\<lparr>ss_datagram_adapter := ad, ss_tcp := c\<rparr>" for c ad by simp
  note ok = ok [OF disjI1 [OF refl]] ok [OF disjI2 [OF refl], unfolded swap]
  show ?thesis using call idle ok first_loop_ok [OF ok(2)]
    by (auto simp: TCPSpongeSocket_connect_def TCPSpongeSocket_initialize_TCP_def idle_socket_def loop_ok_joinable Let_def
        split: sum.splits if_splits option.splits)
qed

lemma listen_ok:
  assumes law: "pipe_law sys got sent num S" "adapter_law ops got sent num td" "length S < 2 ^ 64"
    and idle: "idle_socket ops got num td s"
    and call: "TCPSpongeSocket_listen_and_accept sys gni timestamp_ms ops rrnd srnd cfg c_ad ([], s) = Some (rules1, s1, res)"
  shows "loop_ok sys gni ops (ad_fd ops (ss_datagram_adapter s)) got sent S (sent (os_kernel s))
    (TCPConnection_init cfg rrnd srnd) num td (rules1, s1)"
proof -
  have "ad_fd ops (ad_set_listening ops (ad_set_config ops (ss_datagram_adapter s) c_ad) True)
      = ad_fd ops (ss_datagram_adapter s)"
    using law(2) by (simp add: adapter_law_def)
  note ok = initialized_ok [OF law idle this disjI1 [OF refl], where gni = gni and cfg = cfg and rrnd = rrnd and srnd = srnd]
  show ?thesis using call idle ok first_loop_ok [OF ok]
    by (auto simp: TCPSpongeSocket_listen_and_accept_def TCPSpongeSocket_initialize_TCP_def idle_socket_def loop_ok_joinable
        debug_destination_def Let_def split: sum.splits if_splits option.splits)
qed

text \<open>What the loop of \<open>_tcp_main\<close> reaches, with the flag \<open>_abort\<close> set by the owner between any two
  iterations. A value \<open>Inl\<close> goes on, a value \<open>Inr\<close> has ended.\<close>

inductive loop_reach ::
  "'k syscalls \<Rightarrow> ('k \<Rightarrow> u64) \<Rightarrow> ('k, 'a) AdaptT \<Rightarrow> u64 \<times> ('k, 'a) sponge_rules \<times> ('k, 'a) TCPSpongeSocket
    \<Rightarrow> (u64 \<times> ('k, 'a) sponge_rules \<times> ('k, 'a) TCPSpongeSocket)
       + (('k, 'a) sponge_rules \<times> ('k, 'a) TCPSpongeSocket \<times> unit result) \<Rightarrow> bool"
  for sys timestamp_ms ops x where
  start: "loop_reach sys timestamp_ms ops x (Inl x)"
| iterate: "loop_reach sys timestamp_ms ops x (Inl y) \<Longrightarrow>
    loop_reach sys timestamp_ms ops x (tcp_loop_step sys timestamp_ms ops (\<lambda>_. True) y)"
| abort: "loop_reach sys timestamp_ms ops x (Inl (t, rules, s)) \<Longrightarrow>
    loop_reach sys timestamp_ms ops x (Inl (t, rules, s\<lparr>ss_abort := True\<rparr>))"

lemma loop_reach_ok:
  assumes "loop_reach sys timestamp_ms ops x y" and "loop_ok sys gni ops dfd got sent S sent0 c0 num td (snd x)"
  shows "loop_ok sys gni ops dfd got sent S sent0 c0 num td (after_step y)"
  using assms
proof (induction rule: loop_reach.induct)
  case start
  then show ?case by (cases x) simp
next
  case (iterate y)
  then show ?case using step_ok by (cases y) auto
next
  case (abort t rules s)
  then show ?case by (simp add: loop_ok_joinable)
qed

subsection \<open>The socket drives its connection\<close>

text \<open>C3: the socket refines its connection. Whatever the adapter delivers, however the kernel cuts reads and
  writes and whatever calls fail, at every iteration after \<open>connect\<close> or \<open>listen_and_accept\<close> the
  connection is where some sequence of legal calls takes a new one: the bytes written to it are
  exactly those read from the owner, in order, and its input is ended only behind the last byte the
  owner writes; the owner was sent exactly the bytes read from it. So what holds of a connection under
  all legal calls holds of the one in the socket.\<close>
theorem socket_drives_connection:
  assumes "pipe_law sys got sent num S" and "adapter_law ops got sent num td" and "length S < 2 ^ 64"
    and "idle_socket ops got num td s"
    and start: "TCPSpongeSocket_connect sys gni timestamp_ms ops rrnd srnd cfg c_ad ([], s) = Some (rules1, s1, res) \<or>
      TCPSpongeSocket_listen_and_accept sys gni timestamp_ms ops rrnd srnd cfg c_ad ([], s) = Some (rules1, s1, res)"
    and reach: "loop_reach sys timestamp_ms ops (t, rules1, s1) y" and y: "after_step y = (rules2, s2)"
  shows "\<exists>c es given rest. ss_tcp s2 = Some c \<and>
    run_ok conn_step (conn_event_ok S) (TCPConnection_init cfg rrnd srnd, []) es \<and>
    run_steps conn_step (TCPConnection_init cfg rrnd srnd, []) es = (c, given) \<and>
    sent (os_kernel s2) = sent (os_kernel s) @ given \<and>
    S = got (os_kernel s2) @ rest \<and>
    unat (ByteStream_bytes_written (snd_stream (conn_sender c))) = length (got (os_kernel s2)) \<and>
    (ByteStream_input_ended (snd_stream (conn_sender c)) \<longrightarrow> rest = [])"
proof -
  have "loop_ok sys gni ops (ad_fd ops (ss_datagram_adapter s)) got sent S (sent (os_kernel s))
      (TCPConnection_init cfg rrnd srnd) num td (rules1, s1)"
    using start connect_ok [OF assms(1-4)] listen_ok [OF assms(1-4)] by blast
  from loop_reach_ok [OF reach, of gni "ad_fd ops (ss_datagram_adapter s)" got sent S] this y
  have "sponge_inv ops got sent S (sent (os_kernel s)) (TCPConnection_init cfg rrnd srnd) num td s2"
    by (simp add: loop_ok_def sponge_ok_def)
  then obtain c where c: "ss_tcp s2 = Some c" and
    d: "driven got sent S (sent (os_kernel s)) (TCPConnection_init cfg rrnd srnd) (os_kernel s2) c"
    by (auto simp: sponge_inv_def)
  obtain es given rest where es: "run_ok conn_step (conn_event_ok S) (TCPConnection_init cfg rrnd srnd, []) es"
    "run_steps conn_step (TCPConnection_init cfg rrnd srnd, []) es = (c, given)" "sent (os_kernel s2) = sent (os_kernel s) @ given"
    and rest: "S = got (os_kernel s2) @ rest" using d unfolding driven_def by blast
  moreover have "unat (ByteStream_bytes_written (snd_stream (conn_sender c))) = length (got (os_kernel s2))"
    "ByteStream_input_ended (snd_stream (conn_sender c)) \<Longrightarrow> got (os_kernel s2) = S"
    using d by (simp_all add: driven_def fed_def ByteStream_bytes_written_def ByteStream_input_ended_def)
  ultimately show ?thesis using c append_self_conv by metis
qed

text \<open>A concrete operating system: the kernel state is what was read from the end 7 of the socket pair, what
  was written to it, and the number of calls of poll; the owner writes \<open>S\<close>. The first call of poll
  finds this end readable, the second is interrupted.\<close>

type_synonym pipe_kernel = "bytes \<times> bytes \<times> nat"

definition pipe_syscalls :: "bytes \<Rightarrow> pipe_kernel syscalls" where
  "pipe_syscalls S = no_syscalls
     \<lparr>sys_read := \<lambda>(got, sent, n) fd limit.
        if fd = 7 then let data = take (unat limit) (drop (length got) S)
          in (((got @ data, sent, n), int (length data), 0), data)
        else (((got, sent, n), -1, ENOSYS), []),
      sys_writev := \<lambda>(got, sent, n) fd iov.
        if fd = 7 then let data = take 1000 (concat (map fst iov)) in ((got, sent @ data, n), int (length data), 0)
        else ((got, sent, n), -1, ENOSYS),
      sys_poll := \<lambda>(got, sent, n) pollfds t.
        if n = 0 then (((got, sent, 1), 1, 0), map (\<lambda>(fd, events). if fd = 7 \<and> events = POLLIN then POLLIN else 0) pollfds)
        else (((got, sent, n), -1, EINTR), [])\<rparr>"

lemma pipe_syscalls_law: "pipe_law (pipe_syscalls S) fst (\<lambda>k. fst (snd k)) 7 S"
  unfolding pipe_law_def
proof (intro conjI allI, goal_cases)
  case (1 k n)
  have "data = [] \<Longrightarrow> 0 < n \<Longrightarrow> data = take (unat n) rest \<Longrightarrow> rest = []" for data rest :: bytes
    by (auto simp: unat_eq_zero word_gt_0)
  moreover have "\<exists>xs'. xs = take m xs @ xs'" for m :: nat and xs :: bytes by (metis append_take_drop_id)
  ultimately show ?case by (cases k) (auto simp: pipe_syscalls_def Let_def)
next
  case (2 k iov)
  have "take (min 1000 (length xs)) xs = take 1000 xs" for xs :: bytes by (simp add: min_def)
  then show ?case
    by (cases k) (auto simp: pipe_syscalls_def Let_def intro!: exI [of _ "min 1000 (length (concat (map fst iov)))"])
next
  case (3 k)
  then show ?case by (cases k) (auto simp: pipe_syscalls_def no_syscalls_def)
next
  case (4 k)
  have "\<not> hung_up (POLLIN, 0)" "\<not> hung_up (POLLIN, POLLIN)"
    by (simp_all add: hung_up_def POLLIN_def POLLHUP_def)
  then show ?case by (cases k) (auto simp: pipe_syscalls_def set_zip split: if_splits prod.splits)
qed

lemma pipe_syscalls_others: "others_law (pipe_syscalls S) fst (\<lambda>k. fst (snd k)) 7"
  by (auto simp: others_law_def pipe_syscalls_def no_syscalls_def split: prod.splits)

definition sample_socket :: "(pipe_kernel, TCPOverUDPSocketAdapter) TCPSpongeSocket" where
  "sample_socket =
     (let address = ipv4_address 80 0x0a000001;
          cfg = \<lparr>fac_source = address, fac_destination = address, fac_loss_rate_dn = 0, fac_loss_rate_up = 0\<rparr>
      in \<lparr>os_kernel = ([], [], 0),
          os_wrappers = \<lambda>fd. \<lparr>fdw_fd = (if fd = 1 then 7 else 5), fdw_eof = False, fdw_closed = False,
            fdw_read_count = 0, fdw_write_count = 0\<rparr>,
          os_next = 3, ss_data = 2, ss_thread_data = 1,
          ss_datagram_adapter = \<lparr>ua_base = \<lparr>fa_cfg = cfg, fa_listen = False\<rparr>, ua_sock = 0\<rparr>,
          ss_tcp = None, ss_abort = False, ss_inbound_shutdown = False, ss_outbound_shutdown = False,
          ss_fully_acked = False, ss_joinable = False\<rparr>)"

definition sample_connect ::
  "((pipe_kernel, TCPOverUDPSocketAdapter) sponge_rules \<times> (pipe_kernel, TCPOverUDPSocketAdapter) TCPSpongeSocket
    \<times> unit result) option" where
  "sample_connect =
     (let gni = (\<lambda>_ _. Inr (''10.0.0.1'', ''80''))
      in TCPSpongeSocket_connect (pipe_syscalls [1, 2, 3]) gni (\<lambda>_. 0) (udp_adapter (pipe_syscalls [1, 2, 3]) gni) 0 0
           (TCPConfig_default\<lparr>cfg_send_capacity := 8\<rparr>)
           (fa_cfg (ua_base (ss_datagram_adapter sample_socket))) ([], sample_socket))"

declare tcp_loop.simps [code]

lemma sample_connect_runs: "map_option (\<lambda>(rules, s, res). (os_kernel s, res)) sample_connect = Some (([1, 2, 3], [], 1), Inr ())"
  by code_simp

theorem socket_drives_connection_witness:
  "\<exists>rules s c es. sample_connect = Some (rules, s, Inr ()) \<and> ss_tcp s = Some c \<and>
    run_ok conn_step (conn_event_ok [1, 2, 3]) (TCPConnection_init (TCPConfig_default\<lparr>cfg_send_capacity := 8\<rparr>) 0 0, []) es \<and>
    run_steps conn_step (TCPConnection_init (TCPConfig_default\<lparr>cfg_send_capacity := 8\<rparr>) 0 0, []) es = (c, []) \<and>
    unat (ByteStream_bytes_written (snd_stream (conn_sender c))) = 3"
proof -
  let ?sys = "pipe_syscalls [1, 2, 3]" and ?gni = "\<lambda>_ _. Inr (''10.0.0.1'', ''80'') :: int + string \<times> string"
  obtain rules s where call: "sample_connect = Some (rules, s, Inr ())" and k: "os_kernel s = ([1, 2, 3], [], 1)"
    using sample_connect_runs by auto
  have idle: "idle_socket (udp_adapter ?sys ?gni) fst 7 1 sample_socket"
    by (simp add: idle_socket_def sample_socket_def apart_def udp_adapter_def Let_def)
  have k0: "fst (snd (os_kernel sample_socket)) = []" by (simp add: sample_socket_def Let_def)
  note run = socket_drives_connection [OF pipe_syscalls_law udp_adapter_law [OF pipe_syscalls_others] _ idle
    disjI1 [OF call [unfolded sample_connect_def Let_def]] loop_reach.start, where t = 0]
  then show ?thesis using k k0 by (intro exI [of _ rules] exI [of _ s]) (auto simp: call)
qed

end
