(* ===== verification/Benchmark.thy ===== *)
theory Benchmark
  imports Connection_Pair Socket_Refinement
begin

text \<open>
  The benchmark \<open>src/apps/tcp_benchmark.cc\<close>: two connections exchange their segments directly, in order or with
  each batch reversed, and the program checks that the bytes that arrive are those that were sent. The
  random bytes are an argument; the measured time is not modelled. A \<open>Buffer\<close> is its content here, on
  which \<open>remove_prefix\<close> drops (interpretation \<open>buffer\<close> of \<open>droppable\<close>). The result is that the check never fails
  and that no iteration throws.
\<close>

subsection \<open>The program\<close>

definition move_segments ::
  "TCPConnection \<Rightarrow> TCPConnection \<Rightarrow> TCPSegment list \<Rightarrow> bool \<Rightarrow> TCPConnection \<times> TCPConnection \<times> TCPSegment list" where
  "move_segments x y segments reorder =
     (let segments = segments @ conn_segments_out x;
          x = x\<lparr>conn_segments_out := []\<rparr>;
          y = foldl TCPConnection_segment_received y (if reorder then rev segments else segments)
      in (x, y, []))"

text \<open>The local variables of \<open>main_loop\<close>.\<close>

record bench =
  bm_x :: TCPConnection
  bm_y :: TCPConnection
  bm_bytes_to_send :: bytes
  bm_x_closed :: bool
  bm_string_received :: bytes

text \<open>The loop that writes input into \<open>x\<close>.\<close>

function write_input :: "TCPConnection \<Rightarrow> bytes \<Rightarrow> (TCPConnection \<times> bytes) result" where
  "write_input x bytes_to_send =
     (if sz bytes_to_send \<noteq> 0 \<and> TCPConnection_remaining_outbound_capacity x \<noteq> 0 then
        let want = min (TCPConnection_remaining_outbound_capacity x) (sz bytes_to_send);
            (x, written) = TCPConnection_write x (take (unat want) bytes_to_send)
        in if want \<noteq> written
           then Inl (Runtime_error (''want = '' @ dec (unat want) @ '', written = '' @ dec (unat written)))
           else write_input x (drop (unat written) bytes_to_send)
      else Inr (x, bytes_to_send))"
  by pat_completeness auto
termination
proof (relation "measure (\<lambda>(x, b). length b)", goal_cases)
  case (2 x b want p x' written)
  then have "b \<noteq> []" "written \<noteq> 0" by (auto simp: min_def split: if_splits)
  then have "unat written > 0" "length b > 0" by (auto simp: unat_gt_0)
  then show ?case by simp
qed simp

declare write_input.simps [simp del]

text \<open>The function \<open>loop\<close>.\<close>

definition bench_loop :: "bool \<Rightarrow> bench \<Rightarrow> bench result" where
  "bench_loop reorder b =
     (case write_input (bm_x b) (bm_bytes_to_send b) of
        Inl e \<Rightarrow> Inl e
      | Inr (x, bytes_to_send) \<Rightarrow>
          let (x, x_closed) =
                (if sz bytes_to_send = 0 \<and> \<not> bm_x_closed b then (TCPConnection_end_input_stream x, True)
                 else (x, bm_x_closed b));
              segments = [];
              (x, y, segments) = move_segments x (bm_y b) segments reorder;
              (y, x, segments) = move_segments y x segments False;
              available_output = ByteStream_buffer_size (TCPConnection_inbound_stream y);
              (y, string_received) =
                (if available_output > 0
                 then let (inbound, d) = ByteStream_read (TCPConnection_inbound_stream y) available_output
                      in (set_inbound y inbound, bm_string_received b @ d)
                 else (y, bm_string_received b))
          in case TCPConnection_tick x 1000 of
               Inl e \<Rightarrow> Inl e
             | Inr x \<Rightarrow>
                 (case TCPConnection_tick y 1000 of
                    Inl e \<Rightarrow> Inl e
                  | Inr y \<Rightarrow> Inr \<lparr>bm_x = x, bm_y = y, bm_bytes_to_send = bytes_to_send, bm_x_closed = x_closed,
                               bm_string_received = string_received\<rparr>))"

text \<open>\<open>main_loop\<close>: the start, the loop until the end of the stream, the check, and the loop until both
  connections are done. \<open>None\<close> stands for a loop that does not end.\<close>

definition bench_start :: "TCPConfig \<Rightarrow> u32 \<times> u32 \<Rightarrow> u32 \<times> u32 \<Rightarrow> bytes \<Rightarrow> bench" where
  "bench_start config xrnd yrnd string_to_send =
     \<lparr>bm_x = TCPConnection_connect (TCPConnection_init config (fst xrnd) (snd xrnd)),
      bm_y = TCPConnection_end_input_stream (TCPConnection_init config (fst yrnd) (snd yrnd)),
      bm_bytes_to_send = string_to_send, bm_x_closed = False, bm_string_received = []\<rparr>"

partial_function (option) bench_while :: "(bench \<Rightarrow> bool) \<Rightarrow> bool \<Rightarrow> bench \<Rightarrow> bench result option" where
  "bench_while condition reorder b =
     (if condition b then
        case bench_loop reorder b of
          Inl e \<Rightarrow> Some (Inl e)
        | Inr b \<Rightarrow> bench_while condition reorder b
      else Some (Inr b))"

declare bench_while.simps [code]

definition main_loop :: "TCPConfig \<Rightarrow> u32 \<times> u32 \<Rightarrow> u32 \<times> u32 \<Rightarrow> bytes \<Rightarrow> bool \<Rightarrow> bench result option" where
  "main_loop config xrnd yrnd string_to_send reorder =
     (case bench_while (\<lambda>b. \<not> ByteStream_eof (TCPConnection_inbound_stream (bm_y b))) reorder
             (bench_start config xrnd yrnd string_to_send) of
        None \<Rightarrow> None
      | Some (Inl e) \<Rightarrow> Some (Inl e)
      | Some (Inr b) \<Rightarrow>
          if bm_string_received b \<noteq> string_to_send
          then Some (Inl (Runtime_error ''strings sent vs. received don't match''))
          else bench_while (\<lambda>b. TCPConnection_active (bm_x b) \<or> TCPConnection_active (bm_y b)) reorder b)"

subsection \<open>The two connections as a pair\<close>

text \<open>Some history of the network has led to these two endpoints, and these segments are on the way.\<close>

definition joint ::
  "bytes \<Rightarrow> bytes \<Rightarrow> TCPConnection \<times> bytes \<Rightarrow> TCPConnection \<times> bytes \<Rightarrow> TCPSegment set \<Rightarrow> TCPSegment set \<Rightarrow> bool" where
  "joint S S' a b A B \<longleftrightarrow>
     (\<exists>p i i'. pair_inv S i S' i' p \<and> pr_a p = a \<and> pr_b p = b \<and> A \<subseteq> pr_ab p \<and> B \<subseteq> pr_ba p)"

lemma joint_mirror: "joint S S' a b A B \<Longrightarrow> joint S' S b a B A"
  unfolding joint_def by (metis mirror_simps pair_inv_mirror)

lemma joint_act:
  assumes "joint S S' a b A B" and "conn_event_ok S a e" and "\<And>seg. e = Segment seg \<Longrightarrow> seg \<in> B"
  shows "joint S S' (conn_step a e) b A B"
proof -
  obtain p i i' where p: "pair_inv S i S' i' p" "pr_a p = a" "pr_b p = b" "A \<subseteq> pr_ab p" "B \<subseteq> pr_ba p"
    using assms(1) by (auto simp: joint_def)
  have "left_step S p (p\<lparr>pr_a := conn_step (pr_a p) e\<rparr>)" using assms(2,3) p by (intro left_step.act) auto
  from left_step_inv [OF this p(1)] show ?thesis
    using p unfolding joint_def by (intro exI [of _ "p\<lparr>pr_a := conn_step (pr_a p) e\<rparr>"]) auto
qed

lemma joint_take:
  assumes "joint S S' (x, g) b A B" and "conn_segments_out x = seg # rest"
  shows "joint S S' (x\<lparr>conn_segments_out := rest\<rparr>, g) b (insert seg A) B"
proof -
  obtain p i i' where p: "pair_inv S i S' i' p" "pr_a p = (x, g)" "pr_b p = b" "A \<subseteq> pr_ab p" "B \<subseteq> pr_ba p"
    using assms(1) by (auto simp: joint_def)
  let ?p = "p\<lparr>pr_a := conn_step (pr_a p) Take, pr_ab := insert seg (pr_ab p)\<rparr>"
  have "left_step S p ?p" using assms(2) p(2) by (intro left_step.transmit [where rest = rest]) simp
  from left_step_inv [OF this p(1)] show ?thesis
    using p assms(2) unfolding joint_def by (intro exI [of _ ?p]) auto
qed

lemma joint_take_all:
  "joint S S' (x, g) b A B \<Longrightarrow> joint S S' (x\<lparr>conn_segments_out := []\<rparr>, g) b (set (conn_segments_out x) \<union> A) B"
proof (induction "conn_segments_out x" arbitrary: x A)
  case Nil
  then have "x\<lparr>conn_segments_out := []\<rparr> = x" by (cases x) simp
  then show ?case unfolding Nil.hyps [symmetric] using Nil.prems by (metis Un_empty_left list.set(1))
next
  case (Cons seg rest)
  from Cons.hyps(1) [of "x\<lparr>conn_segments_out := rest\<rparr>", OF _ joint_take [OF Cons.prems Cons.hyps(2) [symmetric]]]
  show ?case using Cons.hyps(2) by (simp flip: Cons.hyps(2))
qed

lemma joint_deliver:
  "joint S S' (y, h) b A B \<Longrightarrow> set segs \<subseteq> B \<Longrightarrow> joint S S' (foldl TCPConnection_segment_received y segs, h) b A B"
proof (induction segs arbitrary: y)
  case (Cons seg segs)
  have "joint S S' (conn_step (y, h) (Segment seg)) b A B" using Cons.prems by (intro joint_act) auto
  then show ?case using Cons by simp
qed simp

lemma joint_move:
  assumes "joint S S' (x, g) (y, h) A B" and "move_segments x y [] reorder = (x', y', segs)"
  shows "joint S S' (x', g) (y', h) {} {}" and "segs = []"
proof -
  let ?segs = "if reorder then rev (conn_segments_out x) else conn_segments_out x"
  have "joint S' S (y, h) (x\<lparr>conn_segments_out := []\<rparr>, g) B (set (conn_segments_out x) \<union> A)"
    by (rule joint_mirror [OF joint_take_all [OF assms(1)]])
  then have "joint S' S (foldl TCPConnection_segment_received y ?segs, h) (x\<lparr>conn_segments_out := []\<rparr>, g) B
      (set (conn_segments_out x) \<union> A)" by (rule joint_deliver) auto
  from joint_mirror [OF this] show "joint S S' (x', g) (y', h) {} {}" and "segs = []"
    using assms(2) by (auto simp: move_segments_def joint_def Let_def)
qed

subsection \<open>The invariant of the benchmark\<close>

text \<open>What is left to send is what was not yet written to the connection.\<close>

definition left_to_send :: "bytes \<Rightarrow> TCPConnection \<Rightarrow> bytes \<Rightarrow> bool" where
  "left_to_send S x rest \<longleftrightarrow> unat (fst (fed_conn x)) + length rest = length S \<and> rest = drop (unat (fst (fed_conn x))) S \<and>
     (snd (fed_conn x) \<longrightarrow> rest = [])"

definition bench_inv :: "bytes \<Rightarrow> bench \<Rightarrow> bool" where
  "bench_inv S b \<longleftrightarrow> joint S [] (bm_x b, []) (bm_y b, bm_string_received b) {} {} \<and>
     left_to_send S (bm_x b) (bm_bytes_to_send b) \<and> (bm_x_closed b \<longleftrightarrow> snd (fed_conn (bm_x b)))"

lemma joint_bound: "joint S S' a b A B \<Longrightarrow> length S < 2 ^ 31 - 2"
  by (auto simp: joint_def pair_inv_def half_inv_def)

lemma write_input_ok:
  assumes "joint S S' (x, g) b A B" and "left_to_send S x rest"
  shows "\<exists>x' rest'. write_input x rest = Inr (x', rest') \<and> joint S S' (x', g) b A B \<and> left_to_send S x' rest' \<and>
    snd (fed_conn x') = snd (fed_conn x)"
  using assms
proof (induction x rest rule: write_input.induct)
  case (1 x rest)
  show ?case
  proof (cases "sz rest \<noteq> 0 \<and> TCPConnection_remaining_outbound_capacity x \<noteq> 0")
    case True
    let ?cap = "TCPConnection_remaining_outbound_capacity x"
    let ?want = "min ?cap (sz rest)"
    let ?data = "take (unat ?want) rest"
    have fed: "unat (fst (fed_conn x)) + length rest = length S" "rest = drop (unat (fst (fed_conn x))) S"
      using "1.prems"(2) by (auto simp: left_to_send_def)
    have open_stream: "\<not> snd (fed_conn x)"
    proof
      assume "snd (fed_conn x)"
      then have "rest = []" using "1.prems"(2) unfolding left_to_send_def by blast
      then show False using True by simp
    qed
    have len: "length S < 2 ^ 31" using joint_bound [OF "1.prems"(1)] by simp
    then have "unat (sz rest) = length rest" using fed(1) by (intro unat_sz) simp
    then have data: "length ?data = unat ?want" "unat ?want \<le> unat ?cap" by (simp_all add: unat_min_u64)
    obtain x1 n where w: "TCPConnection_write x ?data = (x1, n)" by fastforce
    have le: "length ?data \<le> unat ?cap" using data by simp
    have n: "n = ?want" using write_accepts(1) [OF le] open_stream w data(1) by simp
    have x1: "fed_conn x1 = (fst (fed_conn x) + ?want, snd (fed_conn x))"
      using write_accepts(2) [OF le] open_stream w data(1) by simp
    have un: "unat (fst (fed_conn x) + ?want) = unat (fst (fed_conn x)) + unat ?want"
      using fed(1) data(1) len by (intro unat_add_no_wrap) (simp add: min_def split: if_splits)
    have "next_bytes S (snd_stream (conn_sender x)) ?data"
      using fed(2) by (auto simp: next_bytes_def fed_def intro: append_take_drop_id [symmetric])
    then have "joint S S' (x1, g) b A B" using joint_act [OF "1.prems"(1), of "Write ?data"] w by simp
    moreover have "left_to_send S x1 (drop (unat n) rest)"
      unfolding left_to_send_def x1 n fst_conv snd_conv un
    proof (intro conjI impI)
      have "unat ?want \<le> length rest" using data(1) by (metis length_take min.cobounded1)
      then show "unat (fst (fed_conn x)) + unat ?want + length (drop (unat ?want) rest) = length S"
        using fed(1) by simp
      show "drop (unat ?want) rest = drop (unat (fst (fed_conn x)) + unat ?want) S"
        by (rule trans [OF arg_cong [OF fed(2), of "drop (unat ?want)"]]) (simp only: drop_drop add.commute)
    qed (use open_stream in simp)
    moreover have "write_input x rest = write_input x1 (drop (unat n) rest)"
      using True n w by (subst write_input.simps) (simp add: Let_def)
    moreover have "snd (fed_conn x1) = snd (fed_conn x)" by (simp only: x1 snd_conv)
    moreover have "\<not> ?want \<noteq> n" using n by blast
    ultimately show ?thesis using "1.IH" [OF True refl w [symmetric] refl] by presburger
  next
    case False
    then have "write_input x rest = Inr (x, rest)" by (subst write_input.simps) auto
    then show ?thesis using "1.prems" by blast
  qed
qed

lemma joint_tick:
  assumes j: "joint S S' (x, g) b A B"
  shows "\<exists>x'. TCPConnection_tick x ms = Inr x' \<and> joint S S' (x', g) b A B \<and> fed_conn x' = fed_conn x"
proof -
  have "conn_inv S x" using j by (auto simp: joint_def pair_inv_def half_inv_def)
  then obtain x' where x': "TCPConnection_tick x ms = Inr x'" using tick_conn_inv by blast
  with joint_act [OF j, of "Time ms"] fed_tick [OF x'] show ?thesis by simp
qed

lemma read_step:
  "ByteStream_read (TCPConnection_inbound_stream y) n = (st, d) \<Longrightarrow> conn_step (y, h) (Read n) = (set_inbound y st, h @ d)"
  by (simp add: StreamReassembler_consume_def set_inbound_def TCPConnection_inbound_stream_def TCPReceiver_stream_out_def)

lemma fed_deliver [simp]: "fed_conn (foldl TCPConnection_segment_received x segs) = fed_conn x"
  by (induction segs arbitrary: x) simp_all

lemma fed_move:
  "move_segments x y segs r = (x', y', segs') \<Longrightarrow> fed_conn x' = fed_conn x \<and> fed_conn y' = fed_conn y"
  by (auto simp: move_segments_def Let_def)

lemma bench_loop_ok:
  assumes "bench_inv S b"
  shows "\<exists>b'. bench_loop reorder b = Inr b' \<and> bench_inv S b'"
proof -
  have j: "joint S [] (bm_x b, []) (bm_y b, bm_string_received b) {} {}" and l: "left_to_send S (bm_x b) (bm_bytes_to_send b)"
    and cl: "bm_x_closed b \<longleftrightarrow> snd (fed_conn (bm_x b))" using assms by (simp_all add: bench_inv_def)
  obtain x1 rest where w: "write_input (bm_x b) (bm_bytes_to_send b) = Inr (x1, rest)"
    and j1: "joint S [] (x1, []) (bm_y b, bm_string_received b) {} {}" and l1: "left_to_send S x1 rest"
    and e1: "snd (fed_conn x1) = snd (fed_conn (bm_x b))" using write_input_ok [OF j l] by blast
  obtain x2 c2 where xc: "(if sz rest = 0 \<and> \<not> bm_x_closed b then (TCPConnection_end_input_stream x1, True)
    else (x1, bm_x_closed b)) = (x2, c2)" by fastforce
  have "joint S [] (x2, []) (bm_y b, bm_string_received b) {} {} \<and> left_to_send S x2 rest \<and> c2 = snd (fed_conn x2)"
  proof (cases "sz rest = 0 \<and> \<not> bm_x_closed b")
    case True
    have "length rest \<le> length S" using l1 unfolding left_to_send_def by (metis le_add2)
    then have "length rest < 2 ^ 64" using joint_bound [OF j1] by simp
    then have "rest = []" using True unat_sz [of rest] by auto
    then have "conn_event_ok S (x1, []) End_input" using l1 by (auto simp: left_to_send_def fed_def)
    from joint_act [OF j1 this] show ?thesis
      using True xc l1 \<open>rest = []\<close> by (auto simp: left_to_send_def fed_end_input)
  next
    case False
    then have "x2 = x1" "c2 = bm_x_closed b" using xc by (simp_all split: if_splits)
    then show ?thesis using j1 l1 e1 cl by simp
  qed
  then have j2: "joint S [] (x2, []) (bm_y b, bm_string_received b) {} {}" and l2: "left_to_send S x2 rest"
    and c2: "c2 = snd (fed_conn x2)" by blast+
  obtain x3 y3 s3 where m3: "move_segments x2 (bm_y b) [] reorder = (x3, y3, s3)" by (metis prod_cases3)
  note j3 = joint_move [OF j2 m3]
  obtain y4 x4 s4 where m4: "move_segments y3 x3 [] False = (y4, x4, s4)" by (metis prod_cases3)
  note j4 = joint_move(1) [OF joint_mirror [OF j3(1)] m4]
  have fed4: "fed_conn x4 = fed_conn x2" using fed_move [OF m3] fed_move [OF m4] by simp
  let ?n = "ByteStream_buffer_size (TCPConnection_inbound_stream y4)"
  obtain st d where rd: "ByteStream_read (TCPConnection_inbound_stream y4) ?n = (st, d)" by fastforce
  obtain y5 r5 where yr: "(if ?n > 0 then (set_inbound y4 st, bm_string_received b @ d) else (y4, bm_string_received b)) = (y5, r5)"
    by fastforce
  have "joint [] S (y5, r5) (x4, []) {} {}"
    using j4 joint_act [OF j4, of "Read ?n"] read_step [OF rd] yr by (simp split: if_splits)
  then obtain y6 where t6: "TCPConnection_tick y5 1000 = Inr y6" and j6: "joint [] S (y6, r5) (x4, []) {} {}"
    using joint_tick by blast
  then obtain x6 where t: "TCPConnection_tick x4 1000 = Inr x6" and j7: "joint S [] (x6, []) (y6, r5) {} {}"
    and fed6: "fed_conn x6 = fed_conn x4" using joint_tick [OF joint_mirror [OF j6]] by blast
  let ?b = "\<lparr>bm_x = x6, bm_y = y6, bm_bytes_to_send = rest, bm_x_closed = c2, bm_string_received = r5\<rparr>"
  have "bench_loop reorder b = Inr ?b"
    using yr by (simp add: bench_loop_def w xc m3 m4 j3(2) rd t t6 Let_def split: if_splits)
  moreover have "left_to_send S x6 rest" using l2 unfolding left_to_send_def fed6 fed4 .
  then have "bench_inv S ?b" using j7 c2 fed4 fed6 by (simp add: bench_inv_def)
  ultimately show ?thesis by blast
qed

lemma bench_start_inv:
  assumes "length S < 2 ^ 31 - 2"
  shows "bench_inv S (bench_start config xrnd yrnd S)"
proof -
  let ?x = "TCPConnection_init config (fst xrnd) (snd xrnd)" and ?y = "TCPConnection_init config (fst yrnd) (snd yrnd)"
  have fed: "fed_conn ?x = (0, False)" "fed_conn ?y = (0, False)"
    by (simp_all add: fed_def TCPConnection_init_def TCPSender_init_def ByteStream_init_def)
  have "joint S [] (?x, []) (?y, []) {} {}"
    using pair_inv_init [OF assms, of "[]" ?x config "fst xrnd" "snd xrnd" ?y config "fst yrnd" "snd yrnd"] unfolding joint_def
    by (intro exI [of _ "pair_init ?x ?y"]) (auto simp: pair_init_def)
  from joint_act [OF this, of Connect] have "joint [] S (?y, []) (TCPConnection_connect ?x, []) {} {}"
    by (simp add: joint_mirror)
  from joint_act [OF this, of End_input] fed(2) have "joint S [] (TCPConnection_connect ?x, []) (TCPConnection_end_input_stream ?y, []) {} {}"
    by (simp add: joint_mirror fed_def)
  then show ?thesis using fed(1)
    by (simp add: bench_inv_def bench_start_def left_to_send_def TCPConnection_connect_def)
qed

lemma bench_received:
  assumes "bench_inv S b"
  shows "\<exists>rest. S = bm_string_received b @ rest"
    and "ByteStream_eof (TCPConnection_inbound_stream (bm_y b)) \<Longrightarrow> bm_string_received b = S"
proof -
  obtain p i i' where p: "pair_inv S i [] i' p" "pr_b p = (bm_y b, bm_string_received b)"
    using assms by (auto simp: bench_inv_def joint_def)
  then have "delivers S (bm_y b, bm_string_received b)"
    by (auto simp: pair_inv_def half_inv_def intro: endpoint_delivers(1))
  then obtain n where n: "bm_string_received b @ bs_buffer_list (TCPConnection_inbound_stream (bm_y b)) = take n S"
    "ByteStream_input_ended (TCPConnection_inbound_stream (bm_y b)) \<longrightarrow> n = length S"
    by (auto simp: delivers_def)
  show "\<exists>rest. S = bm_string_received b @ rest" using n(1) by (metis append.assoc append_take_drop_id)
  show "bm_string_received b = S" if "ByteStream_eof (TCPConnection_inbound_stream (bm_y b))"
    using n that by (simp add: ByteStream_eof_def ByteStream_input_ended_def ByteStream_buffer_empty_def)
qed

fun bench_iterate :: "bool \<Rightarrow> nat \<Rightarrow> bench \<Rightarrow> bench result" where
  "bench_iterate reorder 0 b = Inr b"
| "bench_iterate reorder (Suc n) b =
     (case bench_loop reorder b of Inl e \<Rightarrow> Inl e | Inr b \<Rightarrow> bench_iterate reorder n b)"

lemma bench_iterate_ok: "bench_inv S b \<Longrightarrow> \<exists>b'. bench_iterate reorder n b = Inr b' \<and> bench_inv S b'"
proof (induction n arbitrary: b)
  case (Suc n)
  obtain b1 where "bench_loop reorder b = Inr b1" "bench_inv S b1" using bench_loop_ok [OF Suc.prems] by blast
  then show ?case using Suc.IH by simp
qed simp

lemma bench_while_ok:
  assumes "bench_while condition reorder b = Some r" and "bench_inv S b"
  shows "\<exists>b'. r = Inr b' \<and> bench_inv S b' \<and> \<not> condition b'"
proof -
  define P where "P condition reorder b r \<longleftrightarrow> (bench_inv S b \<longrightarrow> (\<exists>b'. r = Inr b' \<and> bench_inv S b' \<and> \<not> condition b'))"
    for condition and reorder :: bool and b and r :: "bench result"
  note induct = bench_while.raw_induct [of P condition reorder b r]
  have "P condition reorder b r"
  proof (rule induct)
    show "bench_while condition reorder b = Some r" by (rule assms(1))
    fix loop condition reorder b r
    assume IH: "\<And>condition reorder b r. loop condition reorder b = Some r \<Longrightarrow> P condition reorder b r"
      and step: "(if condition b then case bench_loop reorder b of Inl e \<Rightarrow> Some (Inl e) | Inr b \<Rightarrow> loop condition reorder b
        else Some (Inr b)) = Some r"
    show "P condition reorder b r"
      unfolding P_def
    proof
      assume "bench_inv S b"
      then obtain b1 where "bench_loop reorder b = Inr b1" "bench_inv S b1" using bench_loop_ok by blast
      then show "\<exists>b'. r = Inr b' \<and> bench_inv S b' \<and> \<not> condition b'"
        using step IH [of condition reorder b1 r] \<open>bench_inv S b\<close> by (auto simp: P_def split: if_splits)
    qed
  qed
  then show ?thesis using assms(2) by (simp add: P_def)
qed

text \<open>C17: the benchmark proves nothing wrong. For any bytes (less than \<open>2 ^ 31 - 2\<close>, the program sends 100 MiB),
  any configuration and any initial sequence numbers, with or without reversing the batches of
  segments, no iteration throws: every write is accepted as a whole and no timer pops an empty queue.
  What has been received is always a prefix of what is sent, all of it once the stream has ended, so
  the program never reports an error.\<close>
theorem benchmark_check_passes:
  assumes "length string_to_send < 2 ^ 31 - 2"
  shows "(\<exists>b. bench_iterate reorder n (bench_start config xrnd yrnd string_to_send) = Inr b \<and>
      (\<exists>rest. string_to_send = bm_string_received b @ rest) \<and>
      (ByteStream_eof (TCPConnection_inbound_stream (bm_y b)) \<longrightarrow> bm_string_received b = string_to_send)) \<and>
    main_loop config xrnd yrnd string_to_send reorder \<noteq> Some (Inl e)"
proof
  note inv = bench_start_inv [OF assms, of config xrnd yrnd]
  show "\<exists>b. bench_iterate reorder n (bench_start config xrnd yrnd string_to_send) = Inr b \<and>
      (\<exists>rest. string_to_send = bm_string_received b @ rest) \<and>
      (ByteStream_eof (TCPConnection_inbound_stream (bm_y b)) \<longrightarrow> bm_string_received b = string_to_send)"
    using bench_iterate_ok [OF inv] bench_received by blast
  show "main_loop config xrnd yrnd string_to_send reorder \<noteq> Some (Inl e)"
  proof
    assume run: "main_loop config xrnd yrnd string_to_send reorder = Some (Inl e)"
    obtain r where r: "bench_while (\<lambda>b. \<not> ByteStream_eof (TCPConnection_inbound_stream (bm_y b))) reorder
        (bench_start config xrnd yrnd string_to_send) = Some r"
      using run by (auto simp: main_loop_def split: option.splits)
    obtain b where b: "r = Inr b" "bench_inv string_to_send b" "bm_string_received b = string_to_send"
      using bench_while_ok [OF r inv] bench_received(2) by auto
    have "bench_while (\<lambda>b. TCPConnection_active (bm_x b) \<or> TCPConnection_active (bm_y b)) reorder b = Some (Inl e)"
      using run by (simp add: main_loop_def r b(1,3))
    from bench_while_ok [OF this b(2)] show False by simp
  qed
qed

text \<open>The program runs to its end on a few bytes: both loops end and the check passes.\<close>

lemma main_loop_ends:
  "map_option (map_sum id bm_string_received) (main_loop (TCPConfig_default\<lparr>cfg_rt_timeout := 100\<rparr>) (1, 2) (3, 4) [1, 2, 3] True) = Some (Inr [1, 2, 3])"
  by code_simp

theorem benchmark_check_passes_witness:
  "(\<exists>b. bench_iterate True 5 (bench_start TCPConfig_default (1, 2) (3, 4) [1, 2, 3]) = Inr b \<and>
      (\<exists>rest. [1, 2, 3] = bm_string_received b @ rest)) \<and>
   (\<forall>e. main_loop TCPConfig_default (1, 2) (3, 4) [1, 2, 3] True \<noteq> Some (Inl e))"
proof -
  have "length [1, 2, 3 :: u8] < 2 ^ 31 - 2" by simp
  from benchmark_check_passes [OF this, of True 5 TCPConfig_default "(1, 2)" "(3, 4)"] show ?thesis by blast
qed

end
