(* ===== verification/Stream_Copy.thy ===== *)
theory Stream_Copy
  imports Socket_Refinement
begin

text \<open>
  \<open>src/apps/bidirectional_stream_copy.cc\<close>, the loop of the command-line programs: it copies the standard input to a
  socket and the socket to the standard output, through two byte streams. The state extends the state
  of the process by the local variables. The result is that both directions copy faithfully: what has
  been written is a prefix of what has been read, under any interleaving, short reads and writes,
  failures and hang-ups.
\<close>

subsection \<open>The program\<close>

definition max_copy_length :: u64 where "max_copy_length = 65536"
definition buffer_size :: u64 where "buffer_size = 1048576"

record 'k stream_copy = "'k os" +
  sc_outbound :: ByteStream
  sc_inbound :: ByteStream
  sc_outbound_shutdown :: bool
  sc_inbound_shutdown :: bool

text \<open>Rules 1 and 3 read from a descriptor into a stream.\<close>

definition copy_rule1 :: "'k syscalls \<Rightarrow> FileDescriptor \<Rightarrow> 'k stream_copy CallbackT" where
  "copy_rule1 sys input s =
     (case FileDescriptor_read sys s input (ByteStream_remaining_capacity (sc_outbound s)) of
        (s, Inl e) \<Rightarrow> (s, Inl e)
      | (s, Inr data) \<Rightarrow>
          let outbound = fst (ByteStream_write (sc_outbound s) data);
              outbound = (if FileDescriptor_eof s input then ByteStream_end_input outbound else outbound)
          in (s\<lparr>sc_outbound := outbound\<rparr>, Inr ()))"

definition copy_interest1 :: "'k stream_copy InterestT" where
  "copy_interest1 s \<longleftrightarrow> \<not> ByteStream_error (sc_outbound s) \<and> ByteStream_remaining_capacity (sc_outbound s) > 0 \<and>
     \<not> ByteStream_error (sc_inbound s)"

definition copy_cancel_outbound :: "'k stream_copy CallbackT" where
  "copy_cancel_outbound s = (s\<lparr>sc_outbound := ByteStream_end_input (sc_outbound s)\<rparr>, Inr ())"

definition copy_rule2 :: "'k syscalls \<Rightarrow> FileDescriptor \<Rightarrow> 'k stream_copy CallbackT" where
  "copy_rule2 sys socket s =
     (let bytes_to_write = min max_copy_length (ByteStream_buffer_size (sc_outbound s)) in
      case FileDescriptor_write sys s socket
             (BufferViewList_of_view (ByteStream_peek_output (sc_outbound s) bytes_to_write)) False of
        (s, Inl e) \<Rightarrow> (s, Inl e)
      | (s, Inr bytes_written) \<Rightarrow>
          let s = s\<lparr>sc_outbound := ByteStream_pop_output (sc_outbound s) bytes_written\<rparr>
          in if ByteStream_eof (sc_outbound s)
             then case Socket_shutdown sys s socket SHUT_WR of
                    (s, Inl e) \<Rightarrow> (s, Inl e)
                  | (s, Inr _) \<Rightarrow> (s\<lparr>sc_outbound_shutdown := True\<rparr>, Inr ())
             else (s, Inr ()))"

definition copy_interest2 :: "'k stream_copy InterestT" where
  "copy_interest2 s \<longleftrightarrow> \<not> ByteStream_buffer_empty (sc_outbound s) \<or>
     (ByteStream_eof (sc_outbound s) \<and> \<not> sc_outbound_shutdown s)"

definition copy_rule3 :: "'k syscalls \<Rightarrow> FileDescriptor \<Rightarrow> 'k stream_copy CallbackT" where
  "copy_rule3 sys socket s =
     (case FileDescriptor_read sys s socket (ByteStream_remaining_capacity (sc_inbound s)) of
        (s, Inl e) \<Rightarrow> (s, Inl e)
      | (s, Inr data) \<Rightarrow>
          let inbound = fst (ByteStream_write (sc_inbound s) data);
              inbound = (if FileDescriptor_eof s socket then ByteStream_end_input inbound else inbound)
          in (s\<lparr>sc_inbound := inbound\<rparr>, Inr ()))"

definition copy_interest3 :: "'k stream_copy InterestT" where
  "copy_interest3 s \<longleftrightarrow> \<not> ByteStream_error (sc_inbound s) \<and> ByteStream_remaining_capacity (sc_inbound s) > 0 \<and>
     \<not> ByteStream_error (sc_outbound s)"

definition copy_cancel_inbound :: "'k stream_copy CallbackT" where
  "copy_cancel_inbound s = (s\<lparr>sc_inbound := ByteStream_end_input (sc_inbound s)\<rparr>, Inr ())"

definition copy_rule4 :: "'k syscalls \<Rightarrow> FileDescriptor \<Rightarrow> 'k stream_copy CallbackT" where
  "copy_rule4 sys output s =
     (let bytes_to_write = min max_copy_length (ByteStream_buffer_size (sc_inbound s)) in
      case FileDescriptor_write sys s output
             (BufferViewList_of_view (ByteStream_peek_output (sc_inbound s) bytes_to_write)) False of
        (s, Inl e) \<Rightarrow> (s, Inl e)
      | (s, Inr bytes_written) \<Rightarrow>
          let s = s\<lparr>sc_inbound := ByteStream_pop_output (sc_inbound s) bytes_written\<rparr>
          in if ByteStream_eof (sc_inbound s)
             then case FileDescriptor_close sys s output of
                    (s, Inl e) \<Rightarrow> (s, Inl e)
                  | (s, Inr _) \<Rightarrow> (s\<lparr>sc_inbound_shutdown := True\<rparr>, Inr ())
             else (s, Inr ()))"

definition copy_interest4 :: "'k stream_copy InterestT" where
  "copy_interest4 s \<longleftrightarrow> \<not> ByteStream_buffer_empty (sc_inbound s) \<or>
     (ByteStream_eof (sc_inbound s) \<and> \<not> sc_inbound_shutdown s)"

definition copy_rules ::
  "'k syscalls \<Rightarrow> FileDescriptor \<Rightarrow> FileDescriptor \<Rightarrow> FileDescriptor \<Rightarrow> 'k stream_copy Rule list" where
  "copy_rules sys input output socket =
     (let rules = EventLoop_add_rule [] input In (copy_rule1 sys input) copy_interest1 copy_cancel_outbound;
          rules = EventLoop_add_rule rules socket Out (copy_rule2 sys socket) copy_interest2 copy_cancel_outbound;
          rules = EventLoop_add_rule rules socket In (copy_rule3 sys socket) copy_interest3 copy_cancel_inbound
      in EventLoop_add_rule rules output Out (copy_rule4 sys output) copy_interest4 copy_cancel_inbound)"

text \<open>When the function is left, the local descriptors go: first those that no rule refers to (any more), the
  last declared first, then those of the rules, in order.\<close>

definition copy_destroy ::
  "'k syscalls \<Rightarrow> FileDescriptor \<Rightarrow> FileDescriptor \<Rightarrow> 'k stream_copy Rule list \<Rightarrow> 'k stream_copy \<Rightarrow> 'k stream_copy" where
  "copy_destroy sys input output rules s =
     (let held = filter (\<lambda>fd. fd = input \<or> fd = output) (map rule_fd rules);
          order = filter (\<lambda>fd. fd \<notin> set held) [output, input] @ held
      in foldl (FDWrapper_destroy sys) s order)"

text \<open>What happens before the loop. The result has the descriptors of the standard input and output.\<close>

definition copy_start ::
  "'k syscalls \<Rightarrow> 'k os \<Rightarrow> FileDescriptor \<Rightarrow> 'k stream_copy \<times> (FileDescriptor \<times> FileDescriptor) result" where
  "copy_start sys os socket =
     (let local = (\<lambda>os. \<lparr>os_kernel = os_kernel os, os_wrappers = os_wrappers os, os_next = os_next os,
            sc_outbound = ByteStream_init buffer_size, sc_inbound = ByteStream_init buffer_size,
            sc_outbound_shutdown = False, sc_inbound_shutdown = False\<rparr>)
      in case FileDescriptor_of_fd os 0 of
           (os, Inl e) \<Rightarrow> (local os, Inl e)
         | (os, Inr input) \<Rightarrow>
             (case FileDescriptor_of_fd os 1 of
                (os, Inl e) \<Rightarrow> (local (FDWrapper_destroy sys os input), Inl e)
              | (os, Inr output) \<Rightarrow>
                  (case FileDescriptor_set_blocking sys (local os) socket False of
                     (s, Inl e) \<Rightarrow> (copy_destroy sys input output [] s, Inl e)
                   | (s, Inr _) \<Rightarrow>
                       (case FileDescriptor_set_blocking sys s input False of
                          (s, Inl e) \<Rightarrow> (copy_destroy sys input output [] s, Inl e)
                        | (s, Inr _) \<Rightarrow>
                            (case FileDescriptor_set_blocking sys s output False of
                               (s, Inl e) \<Rightarrow> (copy_destroy sys input output [] s, Inl e)
                             | (s, Inr _) \<Rightarrow> (s, Inr (input, output)))))))"

text \<open>One iteration of the loop: the state to go on with, or how the loop ends.\<close>

definition copy_step ::
  "'k syscalls \<Rightarrow> 'k stream_copy Rule list \<times> 'k stream_copy
    \<Rightarrow> ('k stream_copy Rule list \<times> 'k stream_copy) + ('k stream_copy Rule list \<times> 'k stream_copy \<times> unit result)" where
  "copy_step sys rs =
     (case EventLoop_wait_next_event sys (fst rs) (snd rs) (-1) of
        (s, rules, Inl e) \<Rightarrow> Inr (rules, s, Inl e)
      | (s, rules, Inr ret) \<Rightarrow> if ret = Exit then Inr (rules, s, Inr ()) else Inl (rules, s))"

partial_function (option) copy_loop ::
  "'k syscalls \<Rightarrow> 'k stream_copy Rule list \<times> 'k stream_copy
    \<Rightarrow> ('k stream_copy Rule list \<times> 'k stream_copy \<times> unit result) option" where
  "copy_loop sys rs = (case copy_step sys rs of Inl rs \<Rightarrow> copy_loop sys rs | Inr r \<Rightarrow> Some r)"

text \<open>The whole function; \<open>None\<close> when it does not return.\<close>

definition bidirectional_stream_copy ::
  "'k syscalls \<Rightarrow> 'k os \<Rightarrow> FileDescriptor \<Rightarrow> ('k stream_copy \<times> unit result) option" where
  "bidirectional_stream_copy sys os socket =
     (case copy_start sys os socket of
        (s, Inl e) \<Rightarrow> Some (s, Inl e)
      | (s, Inr (input, output)) \<Rightarrow>
          (case copy_loop sys (copy_rules sys input output socket, s) of
             None \<Rightarrow> None
           | Some (rules, s, res) \<Rightarrow> Some (copy_destroy sys input output rules s, res)))"

subsection \<open>Three descriptors\<close>

text \<open>Each of the descriptors in \<open>nums\<close> is a pair of byte streams, and calls on one leave the others alone.\<close>

definition descriptors_law ::
  "'k syscalls \<Rightarrow> (int \<Rightarrow> 'k \<Rightarrow> bytes) \<Rightarrow> (int \<Rightarrow> 'k \<Rightarrow> bytes) \<Rightarrow> (int \<Rightarrow> bytes) \<Rightarrow> int set \<Rightarrow> bool" where
  "descriptors_law sys got sent S nums \<longleftrightarrow>
     (\<forall>n\<in>nums. pipe_law sys (got n) (sent n) n (S n)) \<and>
     (\<forall>n\<in>nums. \<forall>m k k'. m \<noteq> n \<and>
        ((\<exists>l. k' = fst (fst (sys_read sys k m l))) \<or> (\<exists>iov. k' = fst (sys_writev sys k m iov)) \<or>
         (\<exists>how. k' = fst (sys_shutdown sys k m how))) \<longrightarrow> got n k' = got n k \<and> sent n k' = sent n k) \<and>
     (\<forall>n\<in>nums. \<forall>m k k'. k' = fst (sys_close sys k m) \<or> (\<exists>cmd arg. k' = fst (sys_fcntl sys k m cmd arg)) \<longrightarrow>
        got n k' = got n k \<and> sent n k' = sent n k)"

text \<open>The streams of two kernel states are the same, except perhaps those of descriptor \<open>m\<close>.\<close>

definition same_streams ::
  "(int \<Rightarrow> 'k \<Rightarrow> bytes) \<Rightarrow> (int \<Rightarrow> 'k \<Rightarrow> bytes) \<Rightarrow> int set \<Rightarrow> 'k \<Rightarrow> 'k \<Rightarrow> bool" where
  "same_streams got sent nums k k' \<longleftrightarrow> (\<forall>n\<in>nums. got n k' = got n k \<and> sent n k' = sent n k)"

lemma read_kernel:
  "os_kernel (fst (FileDescriptor_read sys s fd n))
    = fst (fst (sys_read sys (os_kernel s) (FileDescriptor_fd_num s fd) (min BUFFER_SIZE n)))"
  by (auto simp: FileDescriptor_read_def os_call_def register_read_def update_wrapper_def Let_def split: prod.split sum.split)

lemma write_kernel:
  "os_kernel (fst (FileDescriptor_write sys s fd buffer False))
    = fst (sys_writev sys (os_kernel s) (FileDescriptor_fd_num s fd) (BufferViewList_as_iovecs buffer))"
  unfolding FileDescriptor_write_def
  by (subst write_loop.simps) (auto simp: os_call_def register_write_def update_wrapper_def Let_def
      simp del: BufferViewList_remove_prefix.simps split: prod.split sum.split)

lemma shutdown_kernel:
  "os_kernel (fst (Socket_shutdown sys s fd how)) = fst (sys_shutdown sys (os_kernel s) (FileDescriptor_fd_num s fd) how)"
  by (auto simp: Socket_shutdown_def os_call_def register_read_def register_write_def update_wrapper_def
      split: prod.split sum.split)

lemma close_kernel:
  "os_kernel (fst (FileDescriptor_close sys s fd)) = fst (sys_close sys (os_kernel s) (FileDescriptor_fd_num s fd))"
  by (auto simp: FileDescriptor_close_def FDWrapper_close_def FileDescriptor_fd_num_def os_call_def update_wrapper_def
      split: prod.split sum.split)

lemma descriptors_lawD:
  assumes "descriptors_law sys got sent S nums" and "n \<in> nums"
  shows "pipe_law sys (got n) (sent n) n (S n)"
    and "m \<noteq> n \<Longrightarrow> got n (fst (fst (sys_read sys k m l))) = got n k \<and> sent n (fst (fst (sys_read sys k m l))) = sent n k"
    and "m \<noteq> n \<Longrightarrow> got n (fst (sys_writev sys k m iov)) = got n k \<and> sent n (fst (sys_writev sys k m iov)) = sent n k"
    and "m \<noteq> n \<Longrightarrow> got n (fst (sys_shutdown sys k m how)) = got n k \<and> sent n (fst (sys_shutdown sys k m how)) = sent n k"
    and "got n (fst (sys_close sys k m)) = got n k \<and> sent n (fst (sys_close sys k m)) = sent n k"
    and "got n (fst (sys_fcntl sys k m cmd arg)) = got n k \<and> sent n (fst (sys_fcntl sys k m cmd arg)) = sent n k"
proof -
  note law = assms(1) [unfolded descriptors_law_def]
  show "pipe_law sys (got n) (sent n) n (S n)" using law [THEN conjunct1] assms(2) by blast
  note others = law [THEN conjunct2, THEN conjunct1, rule_format, OF assms(2)]
  show "m \<noteq> n \<Longrightarrow> got n (fst (fst (sys_read sys k m l))) = got n k \<and> sent n (fst (fst (sys_read sys k m l))) = sent n k"
    by (rule others) blast
  show "m \<noteq> n \<Longrightarrow> got n (fst (sys_writev sys k m iov)) = got n k \<and> sent n (fst (sys_writev sys k m iov)) = sent n k"
    by (rule others) blast
  show "m \<noteq> n \<Longrightarrow> got n (fst (sys_shutdown sys k m how)) = got n k \<and> sent n (fst (sys_shutdown sys k m how)) = sent n k"
    by (rule others) blast
  note quiet = law [THEN conjunct2, THEN conjunct2, rule_format, OF assms(2)]
  show "got n (fst (sys_close sys k m)) = got n k \<and> sent n (fst (sys_close sys k m)) = sent n k"
    by (rule quiet) blast
  show "got n (fst (sys_fcntl sys k m cmd arg)) = got n k \<and> sent n (fst (sys_fcntl sys k m cmd arg)) = sent n k"
    by (rule quiet) blast
qed

lemma descriptors_apart:
  assumes law: "descriptors_law sys got sent S nums" and m: "FileDescriptor_fd_num s fd = m"
  shows "same_streams got sent (nums - {m}) (os_kernel s) (os_kernel (fst (FileDescriptor_read sys s fd n)))"
    and "same_streams got sent (nums - {m}) (os_kernel s) (os_kernel (fst (FileDescriptor_write sys s fd buffer False)))"
    and "same_streams got sent (nums - {m}) (os_kernel s) (os_kernel (fst (Socket_shutdown sys s fd how)))"
    and "same_streams got sent nums (os_kernel s) (os_kernel (fst (FileDescriptor_close sys s fd)))"
  unfolding same_streams_def read_kernel write_kernel shutdown_kernel close_kernel m
  using descriptors_lawD [OF law] by auto

subsection \<open>The invariant\<close>

text \<open>Of the stream \<open>S\<close>, \<open>g\<close> has been read and \<open>t\<close> written; the rest is in the byte stream, unless that was
  ended before all was read.\<close>

definition copied :: "bytes \<Rightarrow> bytes \<Rightarrow> bytes \<Rightarrow> ByteStream \<Rightarrow> bool" where
  "copied S g t st \<longleftrightarrow>
     (\<exists>lost. g = t @ bs_buffer_list st @ lost \<and> (\<not> bs_end_input st \<longrightarrow> lost = [])) \<and> (\<exists>rest. S = g @ rest) \<and>
     bs_capacity st = buffer_size \<and> length (bs_buffer_list st) \<le> unat buffer_size"

lemma copied_write:
  assumes "copied S g t st" and len: "length data \<le> unat (ByteStream_remaining_capacity st)"
    and S: "\<exists>rest. S = (g @ data) @ rest"
  shows "copied S (g @ data) t (fst (ByteStream_write st data))"
proof -
  obtain lost where lost: "g = t @ bs_buffer_list st @ lost" "\<not> bs_end_input st \<longrightarrow> lost = []"
    and cap: "bs_capacity st = buffer_size" "length (bs_buffer_list st) \<le> unat buffer_size"
    using assms(1) by (auto simp: copied_def)
  have b: "unat buffer_size = 1048576" by (simp add: buffer_size_def)
  have s: "unat (sz (bs_buffer_list st)) = length (bs_buffer_list st)" using cap(2) b by (intro unat_sz) simp
  then have "unat (ByteStream_remaining_capacity st) = unat buffer_size - length (bs_buffer_list st)"
    using cap by (simp add: ByteStream_remaining_capacity_def unat_sub word_le_nat_alt)
  moreover from this have sd: "unat (sz data) = length data" using len b by (intro unat_sz) simp
  ultimately have fits: "length (bs_buffer_list st @ data) \<le> unat buffer_size"
    "min (sz data) (ByteStream_remaining_capacity st) = sz data"
    using len cap(2) by (simp_all add: min_def word_le_nat_alt)
  show ?thesis
  proof (cases "bs_end_input st")
    case True
    then have "fst (ByteStream_write st data) = st" by (simp add: ByteStream_write_def ByteStream_input_ended_def)
    then show ?thesis using True lost cap S by (auto simp: copied_def)
  next
    case False
    then have "fst (ByteStream_write st data) = st\<lparr>bs_buffer_list := bs_buffer_list st @ data,
        bs_bytes_written := bs_bytes_written st + sz data\<rparr>"
      using fits(2) sd by (simp add: ByteStream_write_def ByteStream_input_ended_def Let_def)
    then show ?thesis using False lost cap S fits(1) by (auto simp: copied_def)
  qed
qed

lemma copied_end: "copied S g t st \<Longrightarrow> copied S g t (ByteStream_end_input st)"
  by (auto simp: copied_def ByteStream_end_input_def)

lemma copied_pop:
  assumes "copied S g t st" and n: "n \<le> length (ByteStream_peek_output st m)"
  shows "copied S g (t @ take n (ByteStream_peek_output st m)) (ByteStream_pop_output st (of_nat n))"
proof -
  let ?buf = "bs_buffer_list st"
  obtain lost where lost: "g = t @ ?buf @ lost" "\<not> bs_end_input st \<longrightarrow> lost = []"
    and cap: "bs_capacity st = buffer_size" "length ?buf \<le> unat buffer_size" and S: "\<exists>rest. S = g @ rest"
    using assms(1) by (auto simp: copied_def)
  have s: "unat (sz ?buf) = length ?buf" using cap(2) by (intro unat_sz) (simp add: buffer_size_def)
  have "n \<le> length ?buf" using n by (auto simp: ByteStream_peek_output_def Let_def)
  moreover have "unat (of_nat n :: u64) = n" using calculation s unat_u64_bound [of "sz ?buf"] by (intro unat_of_nat_u64) linarith
  ultimately have pop: "bs_buffer_list (ByteStream_pop_output st (of_nat n)) = drop n ?buf"
    using s by (simp add: ByteStream_pop_output_def ByteStream_buffer_size_def min_def word_le_nat_alt Let_def)
  have pk: "take n (ByteStream_peek_output st m) = take n ?buf"
    using n by (simp add: ByteStream_peek_output_def Let_def)
  have flags: "bs_end_input (ByteStream_pop_output st (of_nat n)) = bs_end_input st"
    "bs_capacity (ByteStream_pop_output st (of_nat n)) = bs_capacity st"
    by (simp_all add: ByteStream_pop_output_def Let_def)
  have "\<exists>lost. g = (t @ take n ?buf) @ drop n ?buf @ lost \<and> (\<not> bs_end_input st \<longrightarrow> lost = [])"
    using lost by (intro exI [of _ lost]) simp
  moreover have "length (drop n ?buf) \<le> unat buffer_size" using cap(2) by simp
  ultimately show ?thesis using cap(1) S unfolding copied_def pk pop flags by blast
qed

lemma copy_read_call:
  assumes law: "descriptors_law sys got sent S nums" and m: "m \<in> nums" "FileDescriptor_fd_num s fd = m"
    and call: "FileDescriptor_read sys s fd (ByteStream_remaining_capacity st) = (s1, res)"
    and c: "copied (S m) (got m (os_kernel s)) t st"
  shows "\<exists>k w. s1 = s\<lparr>os_kernel := k, os_wrappers := (os_wrappers s)(fd := w)\<rparr> \<and> fdw_fd w = m \<and>
    same_streams got sent (nums - {m}) (os_kernel s) k \<and> sent m k = sent m (os_kernel s) \<and>
    (case res of Inl e \<Rightarrow> got m k = got m (os_kernel s)
     | Inr data \<Rightarrow> copied (S m) (got m k) t (fst (ByteStream_write st data)))"
proof -
  have "\<exists>rest. S m = got m (os_kernel s) @ rest" using c by (simp add: copied_def)
  from pipe_read [OF descriptors_lawD(1) [OF law m(1)] m(2) call this] obtain k w where
    s1: "s1 = s\<lparr>os_kernel := k, os_wrappers := (os_wrappers s)(fd := w)\<rparr>" and w: "fdw_fd w = m"
    and sent: "sent m k = sent m (os_kernel s)"
    and r: "(\<exists>e. res = Inl e) \<and> got m k = got m (os_kernel s) \<or>
     (\<exists>data. res = Inr data \<and> length data \<le> unat (ByteStream_remaining_capacity st) \<and>
        got m k = got m (os_kernel s) @ data \<and> (\<exists>rest. S m = got m k @ rest))" by blast
  have apart: "same_streams got sent (nums - {m}) (os_kernel s) k"
    using descriptors_apart(1) [OF law m(2), of "ByteStream_remaining_capacity st"] by (simp add: call s1)
  from r have "case res of Inl e \<Rightarrow> got m k = got m (os_kernel s)
     | Inr data \<Rightarrow> copied (S m) (got m k) t (fst (ByteStream_write st data))"
    using copied_write [OF c] by auto
  then show ?thesis using s1 w sent apart by blast
qed

lemma copy_write_call:
  assumes law: "descriptors_law sys got sent S nums" and m: "m \<in> nums" "FileDescriptor_fd_num s fd = m"
    and call: "FileDescriptor_write sys s fd
      (BufferViewList_of_view (ByteStream_peek_output st (min max_copy_length (ByteStream_buffer_size st)))) False = (s1, res)"
    and c: "copied S' g (sent m (os_kernel s)) st"
  shows "\<exists>k w. s1 = s\<lparr>os_kernel := k, os_wrappers := (os_wrappers s)(fd := w)\<rparr> \<and> fdw_fd w = m \<and>
    same_streams got sent (nums - {m}) (os_kernel s) k \<and> got m k = got m (os_kernel s) \<and>
    (case res of Inl e \<Rightarrow> sent m k = sent m (os_kernel s)
     | Inr n \<Rightarrow> copied S' g (sent m k) (ByteStream_pop_output st n))"
proof -
  let ?buf = "ByteStream_peek_output st (min max_copy_length (ByteStream_buffer_size st))"
  have "length ?buf \<le> length (bs_buffer_list st)" by (simp add: ByteStream_peek_output_def Let_def)
  moreover have "length (bs_buffer_list st) \<le> 1048576" using c by (simp add: copied_def buffer_size_def)
  ultimately have "length ?buf < 2 ^ 63" by simp
  from pipe_write [OF descriptors_lawD(1) [OF law m(1)] m(2) call [unfolded BufferViewList_of_view_def] this] obtain k w where
    s1: "s1 = s\<lparr>os_kernel := k, os_wrappers := (os_wrappers s)(fd := w)\<rparr>" and w: "fdw_fd w = m"
    and got: "got m k = got m (os_kernel s)"
    and r: "(\<exists>e. res = Inl e) \<and> sent m k = sent m (os_kernel s) \<or>
     (\<exists>n. res = Inr (of_nat n) \<and> n \<le> length ?buf \<and> sent m k = sent m (os_kernel s) @ take n ?buf)" by blast
  have apart: "same_streams got sent (nums - {m}) (os_kernel s) k"
    using descriptors_apart(2) [OF law m(2), of "BufferViewList_of_view ?buf"] by (simp add: call s1)
  from r have "case res of Inl e \<Rightarrow> sent m k = sent m (os_kernel s)
     | Inr n \<Rightarrow> copied S' g (sent m k) (ByteStream_pop_output st n)"
    using copied_pop [OF c] by auto
  then show ?thesis using s1 w got apart by blast
qed

definition copy_inv ::
  "'k syscalls \<Rightarrow> (int \<Rightarrow> 'k \<Rightarrow> bytes) \<Rightarrow> (int \<Rightarrow> 'k \<Rightarrow> bytes) \<Rightarrow> (int \<Rightarrow> bytes) \<Rightarrow> int
    \<Rightarrow> FileDescriptor \<Rightarrow> FileDescriptor \<Rightarrow> FileDescriptor \<Rightarrow> 'k stream_copy \<Rightarrow> bool" where
  "copy_inv sys got sent S num input output socket s \<longleftrightarrow>
     descriptors_law sys got sent S {0, 1, num} \<and> num \<noteq> 0 \<and> num \<noteq> 1 \<and> distinct [input, output, socket] \<and>
     fdw_fd (os_wrappers s input) = 0 \<and> fdw_fd (os_wrappers s output) = 1 \<and> fdw_fd (os_wrappers s socket) = num \<and>
     copied (S 0) (got 0 (os_kernel s)) (sent num (os_kernel s)) (sc_outbound s) \<and>
     copied (S num) (got num (os_kernel s)) (sent 1 (os_kernel s)) (sc_inbound s)"

lemma copy_rule1_inv:
  assumes inv: "copy_inv sys got sent S num input output socket s"
  shows "copy_inv sys got sent S num input output socket (fst (copy_rule1 sys input s))"
proof -
  obtain s1 res where call: "FileDescriptor_read sys s input (ByteStream_remaining_capacity (sc_outbound s)) = (s1, res)"
    by fastforce
  have "0 \<in> {0, 1, num}" "FileDescriptor_fd_num s input = 0" "descriptors_law sys got sent S {0, 1, num}"
    "copied (S 0) (got 0 (os_kernel s)) (sent num (os_kernel s)) (sc_outbound s)"
    using inv by (simp_all add: copy_inv_def FileDescriptor_fd_num_def)
  from copy_read_call [OF this(3,1,2) call this(4)] obtain k w where
    s1: "s1 = s\<lparr>os_kernel := k, os_wrappers := (os_wrappers s)(input := w)\<rparr>" "fdw_fd w = 0"
    and same: "same_streams got sent ({0, 1, num} - {0}) (os_kernel s) k"
    and r: "case res of Inl e \<Rightarrow> got 0 k = got 0 (os_kernel s)
      | Inr data \<Rightarrow> copied (S 0) (got 0 k) (sent num (os_kernel s)) (fst (ByteStream_write (sc_outbound s) data))" by blast
  have "got num k = got num (os_kernel s)" "sent num k = sent num (os_kernel s)" "sent 1 k = sent 1 (os_kernel s)"
    using same inv by (auto simp: same_streams_def copy_inv_def)
  then show ?thesis using inv s1 r
    by (cases res) (auto simp: copy_rule1_def call copy_inv_def copied_end Let_def)
qed

lemma copy_rule3_inv:
  assumes inv: "copy_inv sys got sent S num input output socket s"
  shows "copy_inv sys got sent S num input output socket (fst (copy_rule3 sys socket s))"
proof -
  obtain s1 res where call: "FileDescriptor_read sys s socket (ByteStream_remaining_capacity (sc_inbound s)) = (s1, res)"
    by fastforce
  have "num \<in> {0, 1, num}" "FileDescriptor_fd_num s socket = num" "descriptors_law sys got sent S {0, 1, num}"
    "copied (S num) (got num (os_kernel s)) (sent 1 (os_kernel s)) (sc_inbound s)"
    using inv by (simp_all add: copy_inv_def FileDescriptor_fd_num_def)
  from copy_read_call [OF this(3,1,2) call this(4)] obtain k w where
    s1: "s1 = s\<lparr>os_kernel := k, os_wrappers := (os_wrappers s)(socket := w)\<rparr>" "fdw_fd w = num"
    and same: "same_streams got sent ({0, 1, num} - {num}) (os_kernel s) k" and sent: "sent num k = sent num (os_kernel s)"
    and r: "case res of Inl e \<Rightarrow> got num k = got num (os_kernel s)
      | Inr data \<Rightarrow> copied (S num) (got num k) (sent 1 (os_kernel s)) (fst (ByteStream_write (sc_inbound s) data))" by blast
  have "got 0 k = got 0 (os_kernel s)" "sent 1 k = sent 1 (os_kernel s)"
    using same inv by (auto simp: same_streams_def copy_inv_def)
  then show ?thesis using inv s1 r sent
    by (cases res) (auto simp: copy_rule3_def call copy_inv_def copied_end Let_def)
qed

lemma copy_rule2_inv:
  assumes inv: "copy_inv sys got sent S num input output socket s"
  shows "copy_inv sys got sent S num input output socket (fst (copy_rule2 sys socket s))"
proof -
  obtain s1 res where call: "FileDescriptor_write sys s socket (BufferViewList_of_view
      (ByteStream_peek_output (sc_outbound s) (min max_copy_length (ByteStream_buffer_size (sc_outbound s))))) False = (s1, res)"
    by fastforce
  have law: "num \<in> {0, 1, num}" "FileDescriptor_fd_num s socket = num" "descriptors_law sys got sent S {0, 1, num}"
    "copied (S 0) (got 0 (os_kernel s)) (sent num (os_kernel s)) (sc_outbound s)"
    using inv by (simp_all add: copy_inv_def FileDescriptor_fd_num_def)
  from copy_write_call [OF law(3,1,2) call law(4)] obtain k w where
    s1: "s1 = s\<lparr>os_kernel := k, os_wrappers := (os_wrappers s)(socket := w)\<rparr>" "fdw_fd w = num"
    and same: "same_streams got sent ({0, 1, num} - {num}) (os_kernel s) k" and got: "got num k = got num (os_kernel s)"
    and r: "case res of Inl e \<Rightarrow> sent num k = sent num (os_kernel s)
      | Inr n \<Rightarrow> copied (S 0) (got 0 (os_kernel s)) (sent num k) (ByteStream_pop_output (sc_outbound s) n)" by blast
  have k: "got 0 k = got 0 (os_kernel s)" "sent 1 k = sent 1 (os_kernel s)"
    using same inv by (auto simp: same_streams_def copy_inv_def)
  show ?thesis
  proof (cases res)
    case (Inl e)
    then show ?thesis using inv s1 r k got by (auto simp: copy_rule2_def call copy_inv_def Let_def)
  next
    case (Inr n)
    let ?s = "s1\<lparr>sc_outbound := ByteStream_pop_output (sc_outbound s) n\<rparr>"
    have i: "copy_inv sys got sent S num input output socket ?s" using inv s1 r k got Inr by (auto simp: copy_inv_def)
    obtain s2 res2 where sh: "Socket_shutdown sys ?s socket SHUT_WR = (s2, res2)" by fastforce
    have num: "FileDescriptor_fd_num ?s socket = num" using i by (simp add: copy_inv_def FileDescriptor_fd_num_def)
    from pipe_shutdown [OF descriptors_lawD(1) [OF law(3,1)] this sh] obtain k2 w2 where
      s2: "s2 = ?s\<lparr>os_kernel := k2, os_wrappers := (os_wrappers ?s)(socket := w2)\<rparr>" "fdw_fd w2 = num"
      "got num k2 = got num (os_kernel ?s)" "sent num k2 = sent num (os_kernel ?s)" by blast
    have "same_streams got sent ({0, 1, num} - {num}) (os_kernel ?s) k2"
      using descriptors_apart(3) [OF law(3) num, of SHUT_WR] by (simp add: sh s2(1))
    then have "got 0 k2 = got 0 (os_kernel ?s)" "sent 1 k2 = sent 1 (os_kernel ?s)"
      using inv by (auto simp: same_streams_def copy_inv_def)
    then have i2: "copy_inv sys got sent S num input output socket s2" using i s2 by (auto simp: copy_inv_def)
    then have "copy_inv sys got sent S num input output socket (s2\<lparr>sc_outbound_shutdown := True\<rparr>)"
      by (simp add: copy_inv_def)
    then show ?thesis using i i2 sh s1(1)
      by (cases res2) (auto simp: copy_rule2_def call Inr Let_def)
  qed
qed

lemma copy_rule4_inv:
  assumes inv: "copy_inv sys got sent S num input output socket s"
  shows "copy_inv sys got sent S num input output socket (fst (copy_rule4 sys output s))"
proof -
  obtain s1 res where call: "FileDescriptor_write sys s output (BufferViewList_of_view
      (ByteStream_peek_output (sc_inbound s) (min max_copy_length (ByteStream_buffer_size (sc_inbound s))))) False = (s1, res)"
    by fastforce
  have law: "1 \<in> {0, 1, num}" "FileDescriptor_fd_num s output = 1" "descriptors_law sys got sent S {0, 1, num}"
    "copied (S num) (got num (os_kernel s)) (sent 1 (os_kernel s)) (sc_inbound s)"
    using inv by (simp_all add: copy_inv_def FileDescriptor_fd_num_def)
  from copy_write_call [OF law(3,1,2) call law(4)] obtain k w where
    s1: "s1 = s\<lparr>os_kernel := k, os_wrappers := (os_wrappers s)(output := w)\<rparr>" "fdw_fd w = 1"
    and same: "same_streams got sent ({0, 1, num} - {1}) (os_kernel s) k"
    and r: "case res of Inl e \<Rightarrow> sent 1 k = sent 1 (os_kernel s)
      | Inr n \<Rightarrow> copied (S num) (got num (os_kernel s)) (sent 1 k) (ByteStream_pop_output (sc_inbound s) n)" by blast
  have k: "got 0 k = got 0 (os_kernel s)" "got num k = got num (os_kernel s)" "sent num k = sent num (os_kernel s)"
    using same inv by (auto simp: same_streams_def copy_inv_def)
  show ?thesis
  proof (cases res)
    case (Inl e)
    then show ?thesis using inv s1 r k by (auto simp: copy_rule4_def call copy_inv_def Let_def)
  next
    case (Inr n)
    let ?s = "s1\<lparr>sc_inbound := ByteStream_pop_output (sc_inbound s) n\<rparr>"
    have i: "copy_inv sys got sent S num input output socket ?s" using inv s1 r k Inr by (auto simp: copy_inv_def)
    obtain s2 res2 where cl: "FileDescriptor_close sys ?s output = (s2, res2)" by fastforce
    have same2: "same_streams got sent {0, 1, num} (os_kernel ?s) (os_kernel s2)"
      using descriptors_apart(4) [OF law(3) refl, of ?s "output"] by (simp add: cl)
    have "os_wrappers s2 fd = os_wrappers ?s fd" if "fd \<noteq> output" for fd
      using cl that by (auto simp: FileDescriptor_close_def FDWrapper_close_def os_call_def update_wrapper_def split: prod.splits sum.splits)
    moreover have "fdw_fd (os_wrappers s2 output) = fdw_fd (os_wrappers ?s output)" "sc_outbound s2 = sc_outbound ?s"
      "sc_inbound s2 = sc_inbound ?s"
      using cl by (auto simp: FileDescriptor_close_def FDWrapper_close_def os_call_def update_wrapper_def split: prod.splits sum.splits)
    ultimately have i2: "copy_inv sys got sent S num input output socket s2"
      using i same2 by (auto simp: copy_inv_def same_streams_def)
    then have "copy_inv sys got sent S num input output socket (s2\<lparr>sc_inbound_shutdown := True\<rparr>)"
      by (simp add: copy_inv_def)
    then show ?thesis using i i2 cl s1(1)
      by (cases res2) (auto simp: copy_rule4_def call Inr Let_def)
  qed
qed

lemma copy_cancel_inv:
  assumes "copy_inv sys got sent S num input output socket s"
  shows "copy_inv sys got sent S num input output socket (fst (copy_cancel_outbound s))"
    and "copy_inv sys got sent S num input output socket (fst (copy_cancel_inbound s))"
  using assms by (simp_all add: copy_cancel_outbound_def copy_cancel_inbound_def copy_inv_def copied_end)

lemma copy_poll_inv:
  assumes inv: "copy_inv sys got sent S num input output socket s"
    and poll: "sys_poll sys (os_kernel s) pollfds t = ((k, ret, errno), revents)"
  shows "copy_inv sys got sent S num input output socket (s\<lparr>os_kernel := k\<rparr>)"
proof -
  have law: "descriptors_law sys got sent S {0, 1, num}" using inv by (simp add: copy_inv_def)
  have "got n k = got n (os_kernel s) \<and> sent n k = sent n (os_kernel s)" if "n \<in> {0, 1, num}" for n
    using pipe_lawD(4) [OF descriptors_lawD(1) [OF law that] poll] .
  then show ?thesis using inv by (simp add: copy_inv_def)
qed

text \<open>All four rules keep the invariant, also when they are cancelled at any time.\<close>

interpretation copying: rule_loop sys "set (copy_rules sys fd0 fd1 socket)"
  "copy_inv sys got sent S num fd0 fd1 socket" "\<lambda>_ _. True"
  for sys fd0 fd1 socket got sent S num
  by unfold_locales (auto simp: copy_rules_def EventLoop_add_rule_def copy_rule1_inv copy_rule2_inv copy_rule3_inv
      copy_rule4_inv copy_cancel_inv intro: copy_poll_inv)

subsection \<open>The loop copies faithfully\<close>

lemma same_streams_trans:
  "same_streams got sent nums k k' \<Longrightarrow> same_streams got sent nums k' k'' \<Longrightarrow> same_streams got sent nums k k''"
  by (simp add: same_streams_def)

lemma set_blocking_kernel:
  assumes law: "descriptors_law sys got sent S nums" and call: "FileDescriptor_set_blocking sys s fd b = (s', res)"
  shows "s' = s\<lparr>os_kernel := os_kernel s'\<rparr>" and "same_streams got sent nums (os_kernel s) (os_kernel s')"
proof -
  have f: "same_streams got sent nums k k'" if "sys_fcntl sys k m cmd arg = (k', r, e)" for k k' m cmd arg r e
    using descriptors_lawD(6) [OF law, of _ k m cmd arg] that by (simp add: same_streams_def)
  show "s' = s\<lparr>os_kernel := os_kernel s'\<rparr>" and "same_streams got sent nums (os_kernel s) (os_kernel s')"
    using call by (auto simp: FileDescriptor_set_blocking_def os_call_def Let_def split: prod.splits sum.splits
        intro: f same_streams_trans [OF f f])
qed

text \<open>Nothing has been read or written before the loop.\<close>

definition fresh_descriptors ::
  "(int \<Rightarrow> 'k \<Rightarrow> bytes) \<Rightarrow> (int \<Rightarrow> 'k \<Rightarrow> bytes) \<Rightarrow> int \<Rightarrow> FileDescriptor \<Rightarrow> 'k os \<Rightarrow> bool" where
  "fresh_descriptors got sent num socket os \<longleftrightarrow>
     socket < os_next os \<and> fdw_fd (os_wrappers os socket) = num \<and> num \<noteq> 0 \<and> num \<noteq> 1 \<and>
     got 0 (os_kernel os) = [] \<and> got num (os_kernel os) = [] \<and> sent num (os_kernel os) = [] \<and> sent 1 (os_kernel os) = []"

lemma copy_start_inv:
  assumes law: "descriptors_law sys got sent S {0, 1, num}" and fresh: "fresh_descriptors got sent num socket os"
    and start: "copy_start sys os socket = (s, Inr (input, output))"
  shows "copy_inv sys got sent S num input output socket s"
proof -
  let ?w = "\<lambda>n. \<lparr>fdw_fd = n, fdw_eof = False, fdw_closed = False, fdw_read_count = 0, fdw_write_count = 0\<rparr>"
  let ?s0 = "\<lparr>os_kernel = os_kernel os, os_wrappers = (os_wrappers os)(os_next os := ?w 0, os_next os + 1 := ?w 1),
    os_next = os_next os + 2, sc_outbound = ByteStream_init buffer_size, sc_inbound = ByteStream_init buffer_size,
    sc_outbound_shutdown = False, sc_inbound_shutdown = False\<rparr>"
  obtain s1 r1 where b1: "FileDescriptor_set_blocking sys ?s0 socket False = (s1, r1)" by fastforce
  obtain s2 r2 where b2: "FileDescriptor_set_blocking sys s1 (os_next os) False = (s2, r2)" by fastforce
  obtain s3 r3 where b3: "FileDescriptor_set_blocking sys s2 (os_next os + 1) False = (s3, r3)" by fastforce
  have ends: "s = s3" "input = os_next os" "output = os_next os + 1"
    using start b1 b2 b3
    by (auto simp: copy_start_def FileDescriptor_of_fd_def FDWrapper_init_def Let_def split: sum.splits)
  have s: "s = ?s0\<lparr>os_kernel := os_kernel s3\<rparr>"
    using set_blocking_kernel(1) [OF law b1] set_blocking_kernel(1) [OF law b2] set_blocking_kernel(1) [OF law b3] ends(1)
    by (metis (no_types, lifting) stream_copy.surjective stream_copy.update_convs(1) os.surjective os.update_convs(1))
  have "same_streams got sent {0, 1, num} (os_kernel os) (os_kernel s3)"
    using set_blocking_kernel(2) [OF law b1] set_blocking_kernel(2) [OF law b2] set_blocking_kernel(2) [OF law b3]
    by (auto intro: same_streams_trans)
  then have k: "got 0 (os_kernel s3) = []" "got num (os_kernel s3) = []" "sent num (os_kernel s3) = []" "sent 1 (os_kernel s3) = []"
    using fresh by (auto simp: same_streams_def fresh_descriptors_def)
  show ?thesis using law fresh k ends(2,3)
    by (auto simp: copy_inv_def s fresh_descriptors_def copied_def ByteStream_init_def)
qed

text \<open>Leaving the function only closes descriptors.\<close>

lemma destroy_streams:
  assumes law: "descriptors_law sys got sent S nums"
  shows "same_streams got sent nums (os_kernel s) (os_kernel (FDWrapper_destroy sys s fd))"
  using descriptors_lawD(5) [OF law]
  by (auto simp: same_streams_def FDWrapper_destroy_def FDWrapper_close_def os_call_def update_wrapper_def
      split: prod.split sum.split) (metis fst_conv)+

lemma copy_destroy_streams:
  assumes law: "descriptors_law sys got sent S nums"
  shows "same_streams got sent nums (os_kernel s) (os_kernel (copy_destroy sys input output rules s))"
proof -
  have "same_streams got sent nums (os_kernel s) (os_kernel (foldl (FDWrapper_destroy sys) s fds))" for fds
  proof (induction fds arbitrary: s)
    case (Cons fd fds)
    show ?case using same_streams_trans [OF destroy_streams [OF law] Cons] by simp
  qed (simp add: same_streams_def)
  then show ?thesis unfolding copy_destroy_def Let_def .
qed

lemma copy_start_failed:
  assumes law: "descriptors_law sys got sent S nums" and start: "copy_start sys os socket = (s, Inl e)"
  shows "same_streams got sent nums (os_kernel os) (os_kernel s)"
proof -
  have blocking: "same_streams got sent nums (os_kernel s) (os_kernel s')"
    if "FileDescriptor_set_blocking sys s fd b = (s', res)" for s s' :: "'a stream_copy" and fd b res
    using set_blocking_kernel(2) [OF law that] .
  note after = same_streams_trans [OF _ copy_destroy_streams [OF law]]
  show ?thesis using start
    by (auto simp: copy_start_def FileDescriptor_of_fd_def FDWrapper_init_def Let_def
        split: sum.splits prod.splits dest!: blocking intro!: after intro: same_streams_trans)
qed

text \<open>The loop after \<open>n\<close> iterations: still running, or ended before.\<close>

fun copy_iterate ::
  "'k syscalls \<Rightarrow> nat \<Rightarrow> 'k stream_copy Rule list \<times> 'k stream_copy
    \<Rightarrow> ('k stream_copy Rule list \<times> 'k stream_copy) + ('k stream_copy Rule list \<times> 'k stream_copy \<times> unit result)" where
  "copy_iterate sys 0 rs = Inl rs"
| "copy_iterate sys (Suc n) rs = (case copy_step sys rs of Inl rs \<Rightarrow> copy_iterate sys n rs | Inr r \<Rightarrow> Inr r)"

lemma copy_iterate_inv:
  assumes "set rules \<subseteq> set (copy_rules sys input output socket)" and "copy_inv sys got sent S num input output socket s"
  shows "case copy_iterate sys n (rules, s) of
      Inl (_, s') \<Rightarrow> copy_inv sys got sent S num input output socket s'
    | Inr (_, s', _) \<Rightarrow> copy_inv sys got sent S num input output socket s'"
  using assms
proof (induction n arbitrary: rules s)
  case (Suc n)
  obtain s1 rules1 res where w: "EventLoop_wait_next_event sys rules s (-1) = (s1, rules1, res)" by (metis prod_cases3)
  note one = copying.wait_inv [OF Suc.prems w]
  show ?case using one Suc.IH [of rules1 s1] Suc.prems(1)
    by (auto simp: copy_step_def w split: sum.splits)
qed simp

lemma copy_loop_iterate: "copy_loop sys rs = Some r \<Longrightarrow> \<exists>n. copy_iterate sys n rs = Inr r"
proof -
  define P where "P sys rs r \<longleftrightarrow> (\<exists>n. copy_iterate sys n rs = Inr r)" for sys :: "'a syscalls" and rs r
  assume "copy_loop sys rs = Some r"
  then have "P sys rs r"
  proof (rule copy_loop.raw_induct [of P, rotated])
    fix loop and sys :: "'a syscalls" and rs r
    assume IH: "\<And>sys rs r. loop sys rs = Some r \<Longrightarrow> P sys rs r"
      and step: "(case copy_step sys rs of Inl rs \<Rightarrow> loop sys rs | Inr r \<Rightarrow> Some r) = Some r"
    show "P sys rs r"
    proof (cases "copy_step sys rs")
      case (Inl rs')
      then obtain n where "copy_iterate sys n rs' = Inr r" using IH [of sys rs' r] step by (auto simp: P_def)
      then have "copy_iterate sys (Suc n) rs = Inr r" using Inl by simp
      then show ?thesis unfolding P_def by blast
    next
      case (Inr r')
      then have "copy_iterate sys (Suc 0) rs = Inr r" using step by simp
      then show ?thesis unfolding P_def by blast
    qed
  qed
  then show ?thesis by (simp add: P_def)
qed

text \<open>What went out to the socket was read from the standard input in that order, what went to the standard
  output was read from the socket in that order, and nothing else was read.\<close>

definition faithful ::
  "(int \<Rightarrow> 'k \<Rightarrow> bytes) \<Rightarrow> (int \<Rightarrow> 'k \<Rightarrow> bytes) \<Rightarrow> (int \<Rightarrow> bytes) \<Rightarrow> int \<Rightarrow> 'k \<Rightarrow> bool" where
  "faithful got sent S num k \<longleftrightarrow>
     (\<exists>rest. got 0 k = sent num k @ rest) \<and> (\<exists>rest. S 0 = got 0 k @ rest) \<and>
     (\<exists>rest. got num k = sent 1 k @ rest) \<and> (\<exists>rest. S num = got num k @ rest)"

lemma copy_inv_faithful: "copy_inv sys got sent S num input output socket s \<Longrightarrow> faithful got sent S num (os_kernel s)"
  by (auto simp: copy_inv_def copied_def faithful_def)

lemma faithful_same:
  "same_streams got sent {0, 1, num} k k' \<Longrightarrow> faithful got sent S num k \<Longrightarrow> faithful got sent S num k'"
  by (auto simp: same_streams_def faithful_def)

lemma copy_start_faithful:
  assumes law: "descriptors_law sys got sent S {0, 1, num}" and fresh: "fresh_descriptors got sent num socket os"
  shows "copy_start sys os socket = (s, Inl e) \<Longrightarrow> faithful got sent S num (os_kernel s)"
    and "copy_start sys os socket = (s, Inr (input, out)) \<Longrightarrow>
      case copy_iterate sys n (copy_rules sys input out socket, s) of
        Inl (_, s') \<Rightarrow> faithful got sent S num (os_kernel s')
      | Inr (_, s', _) \<Rightarrow> faithful got sent S num (os_kernel s')"
proof -
  show "faithful got sent S num (os_kernel s)" if "copy_start sys os socket = (s, Inl e)"
    using faithful_same [OF copy_start_failed [OF law that]] fresh by (simp add: faithful_def fresh_descriptors_def)
  show "case copy_iterate sys n (copy_rules sys input out socket, s) of
        Inl (_, s') \<Rightarrow> faithful got sent S num (os_kernel s')
      | Inr (_, s', _) \<Rightarrow> faithful got sent S num (os_kernel s')"
    if "copy_start sys os socket = (s, Inr (input, out))"
    using copy_iterate_inv [OF subset_refl copy_start_inv [OF law fresh that], of n]
    by (auto split: sum.splits intro: copy_inv_faithful)
qed

lemma copy_returns_faithful:
  assumes law: "descriptors_law sys got sent S {0, 1, num}" and fresh: "fresh_descriptors got sent num socket os"
    and returns: "bidirectional_stream_copy sys os socket = Some (s', res)"
  shows "faithful got sent S num (os_kernel s')"
proof (cases "snd (copy_start sys os socket)")
  case (Inl e)
  then show ?thesis using returns copy_start_faithful(1) [OF law fresh]
    by (auto simp: bidirectional_stream_copy_def split: prod.splits)
next
  case (Inr io)
  then obtain s input out where st: "copy_start sys os socket = (s, Inr (input, out))" by (metis prod.collapse)
  then obtain rules s1 where "copy_loop sys (copy_rules sys input out socket, s) = Some (rules, s1, res)"
    and s': "s' = copy_destroy sys input out rules s1"
    using returns by (auto simp: bidirectional_stream_copy_def split: option.splits)
  then obtain n where "copy_iterate sys n (copy_rules sys input out socket, s) = Inr (rules, s1, res)"
    using copy_loop_iterate by blast
  then have "faithful got sent S num (os_kernel s1)" using copy_start_faithful(2) [OF law fresh st, of n] by simp
  then show ?thesis using faithful_same [OF copy_destroy_streams [OF law]] s' by blast
qed

text \<open>C18: In every state of the loop of \<open>bidirectional_stream_copy\<close>, after any number of iterations, under every
  schedule of poll, short reads and writes, failed calls and hang-ups, the bytes written to the
  socket are a prefix of those read from the standard input and the bytes written to the standard
  output a prefix of those read from the socket; the same holds when the function returns or throws,
  also from its set-up.\<close>

theorem stream_copy_faithful:
  assumes law: "descriptors_law sys got sent S {0, 1, num}" and fresh: "fresh_descriptors got sent num socket os"
  shows "(\<forall>n. case copy_start sys os socket of
      (s, Inl e) \<Rightarrow> faithful got sent S num (os_kernel s)
    | (s, Inr (input, out)) \<Rightarrow>
        (case copy_iterate sys n (copy_rules sys input out socket, s) of
           Inl (_, s') \<Rightarrow> faithful got sent S num (os_kernel s')
         | Inr (_, s', _) \<Rightarrow> faithful got sent S num (os_kernel s'))) \<and>
    (case bidirectional_stream_copy sys os socket of
       None \<Rightarrow> True
     | Some (s', _) \<Rightarrow> faithful got sent S num (os_kernel s'))"
proof (intro conjI allI, goal_cases)
  case (1 n)
  show ?case
  proof (cases "copy_start sys os socket")
    case (Pair s r)
    then show ?thesis
      using copy_start_faithful(1) [OF law fresh, of s] copy_start_faithful(2) [OF law fresh, of s _ _ n]
      by (cases r) auto
  qed
next
  case 2
  show ?case using copy_returns_faithful [OF law fresh] by (auto split: option.split)
qed

text \<open>A concrete operating system: every descriptor is readable and writable all the time, a call transfers at
  most three bytes, and the end of the stream follows its last byte.\<close>

type_synonym copy_kernel = "(int \<Rightarrow> bytes) \<times> (int \<Rightarrow> bytes)"

definition copy_syscalls :: "(int \<Rightarrow> bytes) \<Rightarrow> copy_kernel syscalls" where
  "copy_syscalls S = no_syscalls
     \<lparr>sys_read := \<lambda>(got, sent) fd limit.
        let data = take (unat (min 3 limit)) (drop (length (got fd)) (S fd))
        in (((got(fd := got fd @ data), sent), int (length data), 0), data),
      sys_writev := \<lambda>(got, sent) fd iov.
        let data = take 3 (concat (map fst iov)) in ((got, sent(fd := sent fd @ data)), int (length data), 0),
      sys_shutdown := \<lambda>k _ _. (k, 0, 0), sys_close := \<lambda>k _. (k, 0, 0), sys_fcntl := \<lambda>k _ _ _. (k, 0, 0),
      sys_poll := \<lambda>k pollfds t. ((k, int (length pollfds), 0), map snd pollfds)\<rparr>"

lemma copy_syscalls_law: "descriptors_law (copy_syscalls S) (\<lambda>n k. fst k n) (\<lambda>n k. snd k n) S nums"
proof -
  have hup: "\<not> hung_up (POLLIN, e)" if "e = POLLIN" for e
    using that by (simp add: hung_up_def POLLIN_def POLLHUP_def)
  have pipe: "pipe_law (copy_syscalls S) (\<lambda>k. fst k m) (\<lambda>k. snd k m) m (S m)" for m
    unfolding pipe_law_def
  proof (intro conjI allI, goal_cases)
    case (1 k n)
    have "0 < n \<Longrightarrow> 0 < unat (min 3 n)" "unat (min 3 n) \<le> unat n"
      by (simp_all add: unat_gt_0 word_gt_0 min_def word_le_nat_alt)
    moreover have "\<exists>xs'. xs = take i xs @ xs'" for i :: nat and xs :: bytes by (metis append_take_drop_id)
    ultimately show ?case by (cases k) (auto simp: copy_syscalls_def Let_def)
  next
    case (2 k iov)
    have "take (min 3 (length xs)) xs = take 3 xs" for xs :: bytes by (simp add: min_def)
    then show ?case
      by (cases k) (auto simp: copy_syscalls_def Let_def intro!: exI [of _ "min 3 (length (concat (map fst iov)))"])
  next
    case (3 k)
    then show ?case by (cases k) (auto simp: copy_syscalls_def)
  next
    case (4 k)
    then show ?case using hup by (cases k) (auto simp: copy_syscalls_def set_zip)
  qed
  show ?thesis unfolding descriptors_law_def
    by (auto simp: pipe) (auto simp: copy_syscalls_def Let_def split: prod.splits)
qed

definition sample_streams :: "int \<Rightarrow> bytes" where
  "sample_streams n = (if n = 0 then [1, 2, 3, 4, 5] else if n = 5 then [6, 7, 8, 9] else [])"

definition sample_copy :: "copy_kernel os" where
  "sample_copy = one_fd 5 (\<lambda>_. [], \<lambda>_. [])"

declare copy_loop.simps [code]

text \<open>The result string of a read, computed without the whole buffer.\<close>

definition read_result :: "nat \<Rightarrow> bytes \<Rightarrow> u64 \<Rightarrow> bytes" where
  "read_result n data limit = take n (data @ replicate (unat limit) 0)"

lemma read_result_code [code]:
  "read_result n data limit = (if n \<le> length data then take n data else data @ replicate (min (n - length data) (unat limit)) 0)"
  by (simp add: read_result_def)

lemma read_code [code]:
  "FileDescriptor_read sys os fd limit =
     (let size_to_read = min BUFFER_SIZE limit;
          (reply, data) = sys_read sys (os_kernel os) (FileDescriptor_fd_num os fd) size_to_read
      in case os_call os ''read'' reply 0 of
           (os, Inl e) \<Rightarrow> (os, Inl e)
         | (os, Inr bytes_read) \<Rightarrow>
             let os = (if limit > 0 \<and> bytes_read = 0
                       then update_wrapper fd (\<lambda>w. w\<lparr>fdw_eof := True\<rparr>) os else os)
             in if bytes_read > uint size_to_read
                then (os, Inl (Runtime_error ''read() read more than requested''))
                else if bytes_read < 0 then (os, Inl (Length_error ''basic_string::_M_replace_aux''))
                else (register_read fd os, Inr (read_result (nat bytes_read) data size_to_read)))"
  unfolding FileDescriptor_read_def read_result_def by (rule refl)

text \<open>A run in which both streams arrive completely.\<close>

lemma sample_copy_run:
  "case bidirectional_stream_copy (copy_syscalls sample_streams) sample_copy 0 of
     None \<Rightarrow> False
   | Some (s, res) \<Rightarrow> res = Inr () \<and> snd (os_kernel s) 5 = [1, 2, 3, 4, 5] \<and> snd (os_kernel s) 1 = [6, 7, 8, 9]"
  by code_simp

theorem stream_copy_faithful_witness:
  "\<exists>s. bidirectional_stream_copy (copy_syscalls sample_streams) sample_copy 0 = Some (s, Inr ()) \<and>
     snd (os_kernel s) 5 = [1, 2, 3, 4, 5] \<and> snd (os_kernel s) 1 = [6, 7, 8, 9] \<and>
     faithful (\<lambda>n k. fst k n) (\<lambda>n k. snd k n) sample_streams 5 (os_kernel s)"
proof -
  have fresh: "fresh_descriptors (\<lambda>n k. fst k n) (\<lambda>n k. snd k n) 5 0 sample_copy"
    by (simp add: fresh_descriptors_def sample_copy_def one_fd_def)
  note ok = stream_copy_faithful [OF copy_syscalls_law [of sample_streams "{0, 1, 5}"] fresh, THEN conjunct2]
  then show ?thesis using sample_copy_run by (auto split: option.splits)
qed

end
