(* ===== verification/Packet_Dump.thy ===== *)
theory Packet_Dump
  imports TCP_Segment Decimal
begin

unbundle bit_operations_syntax

text \<open>
  The packet decoder of \<open>src/apps/udp_tcpdump.cc\<close>: where in a captured packet the UDP payload is, for every link
  type and both versions of IP. The capture library is not part of the sources; a captured packet is the list of
  its bytes (\<open>caplen\<close> of them; the capture is opened for at most 65535, so that lengths fit an \<open>int\<close>). A
  read behind the packet is undefined behaviour, as a value. A specification says where the UDP header of a packet
  is (\<open>udp_header_at\<close>, with \<open>ipv6_udp\<close> for chains of IPv6 extension headers). The results: the decoder ends and
  finds exactly that header, for every packet whose IPv4 header, if it has one, is complete; on a short IPv4
  packet it reads behind the packet.
\<close>

definition packet_read :: "bytes \<Rightarrow> int \<Rightarrow> u8 result" where
  "packet_read data i =
     (if 0 \<le> i \<and> nat i < length data then Inr (data ! nat i) else Inl (Undefined_behaviour ''read behind the packet''))"

text \<open>\<open>inet_ntop\<close> is a parameter: it sees the address family and the bytes of the address.\<close>

type_synonym inet_ntop = "int \<Rightarrow> bytes \<Rightarrow> string option"

definition inet4_addr :: "inet_ntop \<Rightarrow> bytes \<Rightarrow> int \<Rightarrow> string result" where
  "inet4_addr ntop data i =
     (if nat i + 4 \<le> length data
      then Inr (case ntop 2 (take 4 (drop (nat i) data)) of None \<Rightarrow> ''unknown'' | Some s \<Rightarrow> s)
      else Inl (Undefined_behaviour ''read behind the packet''))"

definition inet6_addr :: "inet_ntop \<Rightarrow> bytes \<Rightarrow> int \<Rightarrow> string result" where
  "inet6_addr ntop data i =
     (if nat i + 16 \<le> length data
      then Inr (case ntop 10 (take 16 (drop (nat i) data)) of None \<Rightarrow> ''unknown'' | Some s \<Rightarrow> s)
      else Inl (Undefined_behaviour ''read behind the packet''))"

lemma extension_positive: "off < off + 8 * (1 + uint (l :: u8))"
proof -
  have "off < off + 8 * (1 + u)" if "0 \<le> u" for u :: int using that by presburger
  then show ?thesis using uint_ge_0 by blast
qed

text \<open>The loop over the extension headers of IPv6: \<open>None\<close> when it gives up, else where the UDP header starts.\<close>

function ipv6_loop :: "int \<Rightarrow> bytes \<Rightarrow> u8 \<Rightarrow> int \<Rightarrow> int option result" where
  "ipv6_loop len data nxt data_offset =
     (if nxt = 0x11 then Inr (Some data_offset)
      else if nxt \<noteq> 0 \<and> nxt \<noteq> 43 \<and> nxt \<noteq> 60 then Inr None
      else
        case packet_read data data_offset of
          Inl e \<Rightarrow> Inl e
        | Inr nxt \<Rightarrow>
            (case packet_read data (data_offset + 1) of
               Inl e \<Rightarrow> Inl e
             | Inr l \<Rightarrow>
                 let data_offset = data_offset + 8 * (1 + uint l)
                 in if len < data_offset + 2 then Inr None else ipv6_loop len data nxt data_offset))"
  by pat_completeness auto
termination
proof (relation "measure (\<lambda>(len, data, nxt, data_offset). nat (len - data_offset))", goal_cases)
  case (2 len data nxt data_offset nxt' l data_offset')
  then have "data_offset' = data_offset + 8 * (1 + uint l)" "\<not> len < data_offset' + 2" by (simp_all add: Let_def)
  moreover have "data_offset < data_offset + 8 * (1 + uint l)" by (rule extension_positive)
  ultimately have "nat (len - data_offset') < nat (len - data_offset)" by linarith
  then show ?case by simp
qed simp

declare ipv6_loop.simps [simp del]

text \<open>\<open>process_ipv4_ipv6\<close>: the return value, and the two addresses that are set.\<close>

definition process_ipv4_ipv6 :: "inet_ntop \<Rightarrow> int \<Rightarrow> bytes \<Rightarrow> (int \<times> string \<times> string) result" where
  "process_ipv4_ipv6 ntop len data =
     (if len < 1 then Inr (-1, [], [])
      else
        case packet_read data 0 of
          Inl e \<Rightarrow> Inl e
        | Inr d0 \<Rightarrow>
            if d0 AND 0xf0 = 0x40 then
              let data_offset = uint (d0 AND 0x0f) * 4
              in if len < data_offset then Inr (-1, [], [])
                 else
                   (case packet_read data 9 of
                      Inl e \<Rightarrow> Inl e
                    | Inr proto \<Rightarrow>
                        if proto \<noteq> 0x11 then Inr (-1, [], [])
                        else
                          (case inet4_addr ntop data 12 of
                             Inl e \<Rightarrow> Inl e
                           | Inr src \<Rightarrow>
                               (case inet4_addr ntop data 16 of
                                  Inl e \<Rightarrow> Inl e
                                | Inr dst \<Rightarrow> Inr (data_offset + 8, src, dst))))
            else if d0 AND 0xf0 = 0x60 then
              if len < 42 then Inr (-1, [], [])
              else
                (case packet_read data 6 of
                   Inl e \<Rightarrow> Inl e
                 | Inr nxt \<Rightarrow>
                     (case ipv6_loop len data nxt 40 of
                        Inl e \<Rightarrow> Inl e
                      | Inr None \<Rightarrow> Inr (-1, [], [])
                      | Inr (Some data_offset) \<Rightarrow>
                          (case inet6_addr ntop data 8 of
                             Inl e \<Rightarrow> Inl e
                           | Inr src \<Rightarrow>
                               (case inet6_addr ntop data 24 of
                                  Inl e \<Rightarrow> Inl e
                                | Inr dst \<Rightarrow> Inr (data_offset + 8, src, dst)))))
            else Inr (-1, [], []))"

subsection \<open>The payload of a captured packet\<close>

datatype datalink = DLT_NULL | DLT_EN10MB | DLT_LINUX_SLL | DLT_LINUX_SLL2 | DLT_RAW | DLT_OTHER

text \<open>The part of the main loop that finds the IP header: \<open>None\<close> skips the packet, \<open>Inl\<close> ends the program.\<close>

definition is_ip :: "u8 \<Rightarrow> u8 \<Rightarrow> bool" where
  "is_ip hi lo \<longleftrightarrow> (push_bit 8 (ucast hi) OR ucast lo :: u16) \<in> {0x0800, 0x86dd}"

definition link_header :: "datalink \<Rightarrow> bytes \<Rightarrow> nat option result" where
  "link_header dl_type pkt_data =
     (case dl_type of
        DLT_NULL \<Rightarrow>
          if length pkt_data < 4 then Inr None
          else if pkt_data ! 3 \<notin> {2, 24, 28, 30} then Inr None else Inr (Some 4)
      | DLT_EN10MB \<Rightarrow>
          if length pkt_data < 14 then Inr None
          else if \<not> is_ip (pkt_data ! 12) (pkt_data ! 13) then Inr None else Inr (Some 14)
      | DLT_LINUX_SLL \<Rightarrow>
          if length pkt_data < 16 then Inr None
          else if \<not> is_ip (pkt_data ! 14) (pkt_data ! 15) then Inr None else Inr (Some 16)
      | DLT_LINUX_SLL2 \<Rightarrow>
          if length pkt_data < 20 then Inr None
          else if \<not> is_ip (pkt_data ! 0) (pkt_data ! 1) then Inr None else Inr (Some 20)
      | DLT_RAW \<Rightarrow> Inr (Some 0)
      | DLT_OTHER \<Rightarrow> Inl (Runtime_error ''Mysterious datalink type. Giving up.''))"

text \<open>The payload, copied into a string: its length is computed as a \<open>size_t\<close>, and one that has wrapped below zero
  is more than the constructor of the string takes.\<close>

definition udp_payload :: "inet_ntop \<Rightarrow> datalink \<Rightarrow> bytes \<Rightarrow> (string \<times> string \<times> bytes) option result" where
  "udp_payload ntop dl_type pkt_data =
     (case link_header dl_type pkt_data of
        Inl e \<Rightarrow> Inl e
      | Inr None \<Rightarrow> Inr None
      | Inr (Some hdr_off) \<Rightarrow>
          (case process_ipv4_ipv6 ntop (int (length pkt_data) - int hdr_off) (drop hdr_off pkt_data) of
             Inl e \<Rightarrow> Inl e
           | Inr (start_off, src, dst) \<Rightarrow>
               if start_off < 0 then Inr None
               else
                 let payload_off = of_nat hdr_off + of_int start_off :: u64;
                     payload_len = sz pkt_data - payload_off
                 in if payload_len > 0x7fffffffffffffff then Inl (Length_error ''basic_string::_M_create'')
                    else Inr (Some (src, dst, take (unat payload_len) (drop (unat payload_off) pkt_data)))))"

subsection \<open>Where the UDP header is\<close>

text \<open>The specification. IPv4 gives the length of its header in words; in IPv6 a chain of extension headers
  (hop-by-hop options, routing, destination options) leads to the UDP header, each with the type of the
  next and its own length beyond the first eight bytes.\<close>

inductive ipv6_udp :: "bytes \<Rightarrow> u8 \<Rightarrow> nat \<Rightarrow> nat \<Rightarrow> bool" for ip where
  found: "ipv6_udp ip 17 off off"
| extension: "nxt \<in> {0, 43, 60} \<Longrightarrow> off' = off + 8 * (1 + unat (ip ! (off + 1))) \<Longrightarrow> off' + 2 \<le> length ip \<Longrightarrow>
    ipv6_udp ip (ip ! off) off' u \<Longrightarrow> ipv6_udp ip nxt off u"

inductive_simps ipv6_udp_simps: "ipv6_udp ip nxt off u"

definition version :: "bytes \<Rightarrow> u8" where
  "version ip = (if ip = [] then 0 else ip ! 0 AND 0xf0)"

definition udp_header_at :: "bytes \<Rightarrow> nat \<Rightarrow> bool" where
  "udp_header_at ip u \<longleftrightarrow>
     version ip = 0x40 \<and> u = 4 * unat (ip ! 0 AND 0x0f) \<and> u \<le> length ip \<and> ip ! 9 = 17 \<or>
     version ip = 0x60 \<and> 42 \<le> length ip \<and> ipv6_udp ip (ip ! 6) 40 u"

text \<open>The link layer: how long its header is, and which packets carry IP.\<close>

fun link_length :: "datalink \<Rightarrow> nat" where
  "link_length DLT_NULL = 4"
| "link_length DLT_EN10MB = 14"
| "link_length DLT_LINUX_SLL = 16"
| "link_length DLT_LINUX_SLL2 = 20"
| "link_length DLT_RAW = 0"
| "link_length DLT_OTHER = 0"

definition ether_type_ip :: "bytes \<Rightarrow> nat \<Rightarrow> bool" where
  "ether_type_ip pkt i \<longleftrightarrow> take 2 (drop i pkt) \<in> {[0x08, 0x00], [0x86, 0xdd]}"

fun carries_ip :: "datalink \<Rightarrow> bytes \<Rightarrow> bool" where
  "carries_ip DLT_NULL pkt \<longleftrightarrow> 4 \<le> length pkt \<and> pkt ! 3 \<in> {2, 24, 28, 30}"
| "carries_ip DLT_EN10MB pkt \<longleftrightarrow> 14 \<le> length pkt \<and> ether_type_ip pkt 12"
| "carries_ip DLT_LINUX_SLL pkt \<longleftrightarrow> 16 \<le> length pkt \<and> ether_type_ip pkt 14"
| "carries_ip DLT_LINUX_SLL2 pkt \<longleftrightarrow> 20 \<le> length pkt \<and> ether_type_ip pkt 0"
| "carries_ip DLT_RAW pkt \<longleftrightarrow> True"
| "carries_ip DLT_OTHER pkt \<longleftrightarrow> False"

definition udp_in :: "datalink \<Rightarrow> bytes \<Rightarrow> nat \<Rightarrow> bool" where
  "udp_in dl pkt u \<longleftrightarrow> carries_ip dl pkt \<and> udp_header_at (drop (link_length dl) pkt) u"

text \<open>The texts of the two addresses.\<close>

definition address_text :: "inet_ntop \<Rightarrow> bytes \<Rightarrow> nat \<Rightarrow> nat \<Rightarrow> string" where
  "address_text ntop ip at4 at6 =
     (case (if version ip = 0x40 then ntop 2 (take 4 (drop at4 ip)) else ntop 10 (take 16 (drop at6 ip))) of
        None \<Rightarrow> ''unknown'' | Some text \<Rightarrow> text)"

subsection \<open>IPv6\<close>

lemma packet_read_nat: "i < length data \<Longrightarrow> packet_read data (int i) = Inr (data ! i)"
  by (simp add: packet_read_def)

text \<open>The loop follows the chain. It stops where a header would lie behind the packet.\<close>

lemma ipv6_loop_step:
  assumes "off + 2 \<le> length ip" and "nxt \<in> {0, 43, 60}"
  defines "off' \<equiv> off + 8 * (1 + unat (ip ! (off + 1)))"
  shows "ipv6_loop (int (length ip)) ip nxt (int off)
    = (if length ip < off' + 2 then Inr None else ipv6_loop (int (length ip)) ip (ip ! off) (int off'))"
proof -
  have reads: "packet_read ip (int off) = Inr (ip ! off)" "packet_read ip (int off + 1) = Inr (ip ! (off + 1))"
    using packet_read_nat [of off ip] packet_read_nat [of "off + 1" ip] assms(1) by (simp_all add: add.commute)
  have off': "int off + 8 * (1 + uint (ip ! (off + 1))) = int off'" by (simp add: off'_def)
  have "ipv6_loop (int (length ip)) ip nxt (int off)
      = (if int (length ip) < int off' + 2 then Inr None else ipv6_loop (int (length ip)) ip (ip ! off) (int off'))"
    using assms(2) by (subst ipv6_loop.simps, unfold reads Let_def, simp only: sum.case off') auto
  moreover have "int (length ip) < int off' + 2 \<longleftrightarrow> length ip < off' + 2" by linarith
  ultimately show ?thesis by simp
qed

lemma ipv6_loop_chain:
  assumes "off + 2 \<le> length ip"
  shows "(\<exists>u. ipv6_loop (int (length ip)) ip nxt (int off) = Inr (Some (int u)) \<and> u + 2 \<le> length ip \<and>
      (\<forall>v. ipv6_udp ip nxt off v \<longleftrightarrow> v = u)) \<or>
    ipv6_loop (int (length ip)) ip nxt (int off) = Inr None \<and> (\<forall>v. \<not> ipv6_udp ip nxt off v)"
  using assms
proof (induction "length ip - off" arbitrary: off nxt rule: less_induct)
  case less
  let ?off = "off + 8 * (1 + unat (ip ! (off + 1)))"
  consider "nxt = 17" | (ext) "nxt \<in> {0, 43, 60}" | (other) "nxt \<noteq> 17" "nxt \<notin> {0, 43, 60}" by blast
  then show ?case
  proof cases
    case 1
    then have "ipv6_loop (int (length ip)) ip nxt (int off) = Inr (Some (int off))" by (subst ipv6_loop.simps) simp
    moreover have "ipv6_udp ip nxt off v \<longleftrightarrow> v = off" for v using 1 by (subst ipv6_udp_simps) auto
    ultimately show ?thesis using less.prems by blast
  next
    case ext
    have chain: "ipv6_udp ip nxt off v \<longleftrightarrow> ?off + 2 \<le> length ip \<and> ipv6_udp ip (ip ! off) ?off v" for v
      using ext by (subst ipv6_udp_simps) auto
    note loop = ipv6_loop_step [OF less.prems ext]
    show ?thesis
    proof (cases "length ip < ?off + 2")
      case True
      then show ?thesis using loop chain by auto
    next
      case False
      then show ?thesis using less.hyps [of ?off "ip ! off"] loop chain by auto
    qed
  next
    case other
    then have "ipv6_loop (int (length ip)) ip nxt (int off) = Inr None" by (subst ipv6_loop.simps) simp
    moreover have "\<not> ipv6_udp ip nxt off v" for v using other by (subst ipv6_udp_simps) auto
    ultimately show ?thesis by blast
  qed
qed

subsection \<open>The decoder finds it\<close>

text \<open>A complete header: IPv4 packets have at least the 20 bytes of their header.\<close>

definition complete_header :: "bytes \<Rightarrow> bool" where
  "complete_header ip \<longleftrightarrow> (version ip = 0x40 \<longrightarrow> 20 \<le> length ip)"

definition decoded :: "inet_ntop \<Rightarrow> bytes \<Rightarrow> nat \<Rightarrow> (int \<times> string \<times> string) result" where
  "decoded ntop ip u = Inr (int u + 8, address_text ntop ip 12 8, address_text ntop ip 16 24)"

lemma process_ipv4:
  assumes "version ip = 0x40" and "20 \<le> length ip"
  defines "u \<equiv> 4 * unat (ip ! 0 AND 0x0f)"
  shows "process_ipv4_ipv6 ntop (int (length ip)) ip
    = (if u \<le> length ip \<and> ip ! 9 = 17 then decoded ntop ip u else Inr (-1, [], []))"
proof -
  have ne: "ip \<noteq> []" using assms(2) by auto
  then have v: "ip ! 0 AND 0xf0 = 0x40" using assms(1) by (simp add: version_def)
  have u: "uint (ip ! 0 AND 0x0f) * 4 = int u" by (simp add: u_def)
  have reads: "packet_read ip 0 = Inr (ip ! 0)" "packet_read ip 9 = Inr (ip ! 9)"
    using packet_read_nat [of 0 ip] packet_read_nat [of 9 ip] assms(2) ne by simp_all
  have addr: "inet4_addr ntop ip 12 = Inr (address_text ntop ip 12 8)"
    "inet4_addr ntop ip 16 = Inr (address_text ntop ip 16 24)"
    using assms(1,2) by (simp_all add: inet4_addr_def address_text_def)
  have "process_ipv4_ipv6 ntop (int (length ip)) ip = (if int (length ip) < int u \<or> ip ! 9 \<noteq> 17 then Inr (-1, [], [])
      else decoded ntop ip u)"
    using v ne by (simp add: process_ipv4_ipv6_def reads addr u Let_def decoded_def Suc_le_eq)
  then show ?thesis by auto
qed

lemma process_ipv6:
  assumes "version ip = 0x60"
  shows "(\<exists>u. process_ipv4_ipv6 ntop (int (length ip)) ip = decoded ntop ip u \<and> u \<le> length ip \<and>
      (\<forall>v. udp_header_at ip v \<longleftrightarrow> v = u)) \<or>
    process_ipv4_ipv6 ntop (int (length ip)) ip = Inr (-1, [], []) \<and> (\<forall>v. \<not> udp_header_at ip v)"
proof -
  have ne: "ip \<noteq> []" and v: "ip ! 0 AND 0xf0 = 0x60" using assms by (auto simp: version_def split: if_splits)
  have d0: "packet_read ip 0 = Inr (ip ! 0)" using packet_read_nat [of 0 ip] ne by simp
  show ?thesis
  proof (cases "42 \<le> length ip")
    case True
    have reads: "packet_read ip 6 = Inr (ip ! 6)" using packet_read_nat [of 6 ip] True by simp
    have addr: "inet6_addr ntop ip 8 = Inr (address_text ntop ip 12 8)"
      "inet6_addr ntop ip 24 = Inr (address_text ntop ip 16 24)"
      using assms True by (simp_all add: inet6_addr_def address_text_def)
    have p: "process_ipv4_ipv6 ntop (int (length ip)) ip = (case ipv6_loop (int (length ip)) ip (ip ! 6) 40 of
        Inl e \<Rightarrow> Inl e | Inr None \<Rightarrow> Inr (-1, [], [])
      | Inr (Some off) \<Rightarrow> Inr (off + 8, address_text ntop ip 12 8, address_text ntop ip 16 24))"
      using True v ne by (auto simp: process_ipv4_ipv6_def d0 reads addr split: sum.split option.split)
    have at: "udp_header_at ip u \<longleftrightarrow> ipv6_udp ip (ip ! 6) 40 u" for u using True assms by (simp add: udp_header_at_def)
    show ?thesis using ipv6_loop_chain [of 40 ip "ip ! 6"] True by (auto simp: p at decoded_def)
  next
    case False
    then have "process_ipv4_ipv6 ntop (int (length ip)) ip = Inr (-1, [], [])"
      using ne v by (auto simp: process_ipv4_ipv6_def d0)
    then show ?thesis using False assms by (simp add: udp_header_at_def)
  qed
qed

lemma process_finds:
  assumes "complete_header ip"
  shows "(\<exists>u. process_ipv4_ipv6 ntop (int (length ip)) ip = decoded ntop ip u \<and> u \<le> length ip \<and>
      (\<forall>v. udp_header_at ip v \<longleftrightarrow> v = u)) \<or>
    process_ipv4_ipv6 ntop (int (length ip)) ip = Inr (-1, [], []) \<and> (\<forall>v. \<not> udp_header_at ip v)"
proof -
  consider "version ip = 0x40" | "version ip = 0x60" | (other) "version ip \<noteq> 0x40" "version ip \<noteq> 0x60" by blast
  then show ?thesis
  proof cases
    case 1
    then have "20 \<le> length ip" using assms by (simp add: complete_header_def)
    then show ?thesis using process_ipv4 [OF 1, of ntop] 1 by (auto simp: udp_header_at_def)
  next
    case 2
    then show ?thesis by (rule process_ipv6)
  next
    case other
    then have "process_ipv4_ipv6 ntop (int (length ip)) ip = Inr (-1, [], [])"
      by (auto simp: process_ipv4_ipv6_def version_def packet_read_def split: if_splits)
    then show ?thesis using other by (simp add: udp_header_at_def)
  qed
qed

lemma is_ip_bytes: "is_ip hi lo \<longleftrightarrow> [hi, lo] \<in> {[0x08, 0x00], [0x86, 0xdd]}"
proof -
  let ?w = "push_bit 8 (ucast hi) OR ucast lo :: u16"
  have "ucast ?w = lo" by (rule bit_word_eqI) (auto simp: bit_simps)
  moreover have "ucast (drop_bit 8 ?w) = hi" by (rule bit_word_eqI) (auto simp: bit_simps dest: bit_imp_le_length)
  ultimately have parts: "hi = ucast (drop_bit 8 v)" "lo = ucast v" if "?w = v" for v using that by simp_all
  have "?w \<in> {0x0800, 0x86dd} \<Longrightarrow> [hi, lo] \<in> {[0x08, 0x00], [0x86, 0xdd]}"
    using parts [of "0x0800"] parts [of "0x86dd"] by auto
  moreover have "[hi, lo] \<in> {[0x08, 0x00], [0x86, 0xdd]} \<Longrightarrow> ?w \<in> {0x0800, 0x86dd}" by auto
  ultimately show ?thesis unfolding is_ip_def by blast
qed

lemma link_header_spec:
  assumes "dl \<noteq> DLT_OTHER"
  shows "link_header dl pkt = Inr (if carries_ip dl pkt then Some (link_length dl) else None)"
    and "carries_ip dl pkt \<Longrightarrow> link_length dl \<le> length pkt"
proof -
  have two: "ether_type_ip pkt i \<longleftrightarrow> is_ip (pkt ! i) (pkt ! (i + 1))" if "i + 2 \<le> length pkt" for i
  proof -
    have "take 2 (drop i pkt) = [pkt ! i, pkt ! (i + 1)]"
      using that by (simp add: numeral_2_eq_2 take_Suc_conv_app_nth)
    then show ?thesis by (simp add: ether_type_ip_def is_ip_bytes)
  qed
  show "link_header dl pkt = Inr (if carries_ip dl pkt then Some (link_length dl) else None)"
    using assms two [of 12] two [of 14] two [of 0] by (cases dl) (auto simp: link_header_def)
  show "carries_ip dl pkt \<Longrightarrow> link_length dl \<le> length pkt" by (cases dl) auto
qed

lemma payload_length:
  assumes "length pkt < 2 ^ 63" and "off \<le> length pkt + 8"
  shows "off \<le> length pkt \<Longrightarrow> unat (sz pkt - of_nat off :: u64) = length pkt - off"
    and "length pkt < off \<Longrightarrow> (0x7fffffffffffffff :: u64) < sz pkt - of_nat off"
    and "off \<le> length pkt \<Longrightarrow> \<not> (0x7fffffffffffffff :: u64) < sz pkt - of_nat off"
proof -
  have u: "unat (of_nat off :: u64) = off" "unat (sz pkt) = length pkt" using assms by (simp_all add: unat_of_nat_u64 unat_sz)
  show le: "unat (sz pkt - of_nat off :: u64) = length pkt - off" if "off \<le> length pkt"
    using that u by (simp add: unat_sub word_le_nat_alt)
  show "\<not> (0x7fffffffffffffff :: u64) < sz pkt - of_nat off" if "off \<le> length pkt"
    using le [OF that] assms(1) by (simp add: word_less_nat_alt)
  assume gt: "length pkt < off"
  then obtain d where d: "off = length pkt + d" "0 < d" by (metis less_imp_add_positive)
  then have "d \<in> {1, 2, 3, 4, 5, 6, 7, 8}" using assms(2) by auto
  then have "(0x7fffffffffffffff :: u64) < - of_nat d" by auto
  then show "(0x7fffffffffffffff :: u64) < sz pkt - of_nat off" by (simp add: d(1))
qed

text \<open>The last part of the decoder, from the offset on.\<close>

definition payload_from ::
  "bytes \<Rightarrow> nat \<Rightarrow> int \<Rightarrow> string \<Rightarrow> string \<Rightarrow> (string \<times> string \<times> bytes) option result" where
  "payload_from pkt_data hdr_off start_off src dst =
     (if start_off < 0 then Inr None
      else
        let payload_off = of_nat hdr_off + of_int start_off :: u64;
            payload_len = sz pkt_data - payload_off
        in if payload_len > 0x7fffffffffffffff then Inl (Length_error ''basic_string::_M_create'')
           else Inr (Some (src, dst, take (unat payload_len) (drop (unat payload_off) pkt_data))))"

lemma payload_from_ok:
  assumes "u \<le> length pkt - h" and "h \<le> length pkt" and "length pkt < 2 ^ 31"
  shows "payload_from pkt h (int u + 8) src dst =
    (if h + u + 8 \<le> length pkt then Inr (Some (src, dst, drop (h + u + 8) pkt))
     else Inl (Length_error ''basic_string::_M_create''))"
proof -
  define n where "n = h + u + 8"
  have n: "n \<le> length pkt + 8" using assms(1,2) by (simp add: n_def)
  have w: "of_nat h + of_int (int u + 8) = (of_nat n :: u64)" by (simp add: n_def)
  have un: "unat (of_nat n :: u64) = n" using n assms(3) by (intro unat_of_nat_u64) simp
  note bounds = payload_length [OF _ n]
  show ?thesis
    unfolding payload_from_def w Let_def n_def [symmetric]
    using bounds assms(3) un by (auto simp: not_le)
qed

text \<open>C32: the decoder finds the UDP payload. On a captured packet of a supported link type whose IPv4 header, if it
  has one, is complete, the decoder ends without reading behind the packet. If the packet carries a UDP
  header, right behind the IPv4 header or at the end of a chain of IPv6 extension headers, the decoder
  hands on the two addresses and exactly the bytes behind the eight of the UDP header, and throws when
  the packet ends within these eight; every other packet is skipped.\<close>
theorem udp_payload_in_packet:
  assumes link: "dl \<noteq> DLT_OTHER" and header: "complete_header (drop (link_length dl) pkt)" and len: "length pkt < 2 ^ 31"
  shows "(\<forall>u. udp_in dl pkt u \<longrightarrow> udp_payload ntop dl pkt =
      (if link_length dl + u + 8 \<le> length pkt
       then Inr (Some (address_text ntop (drop (link_length dl) pkt) 12 8,
              address_text ntop (drop (link_length dl) pkt) 16 24, drop (link_length dl + u + 8) pkt))
       else Inl (Length_error ''basic_string::_M_create''))) \<and>
    ((\<forall>u. \<not> udp_in dl pkt u) \<longrightarrow> udp_payload ntop dl pkt = Inr None)"
proof (cases "carries_ip dl pkt")
  case False
  then show ?thesis using link by (simp add: udp_in_def udp_payload_def link_header_spec)
next
  case True
  let ?h = "link_length dl" and ?ip = "drop (link_length dl) pkt"
  have h: "?h \<le> length pkt" by (rule link_header_spec(2) [OF link True])
  have ip: "int (length pkt) - int ?h = int (length ?ip)" using h by (simp add: of_nat_diff)
  have at: "udp_in dl pkt u \<longleftrightarrow> udp_header_at ?ip u" for u using True by (simp add: udp_in_def)
  have p: "udp_payload ntop dl pkt = (case process_ipv4_ipv6 ntop (int (length ?ip)) ?ip of
      Inl e \<Rightarrow> Inl e | Inr (start_off, src, dst) \<Rightarrow> payload_from pkt ?h start_off src dst)"
    unfolding udp_payload_def link_header_spec(1) [OF link] payload_from_def using True by (simp only: if_True sum.case option.case ip)
  consider (found) u where "process_ipv4_ipv6 ntop (int (length ?ip)) ?ip = decoded ntop ?ip u" "u \<le> length ?ip"
      "\<And>v. udp_header_at ?ip v \<longleftrightarrow> v = u"
    | (none) "process_ipv4_ipv6 ntop (int (length ?ip)) ?ip = Inr (-1, [], [])" "\<And>v. \<not> udp_header_at ?ip v"
    using process_finds [OF header, of ntop] by blast
  then show ?thesis
  proof cases
    case found
    have "u \<le> length pkt - ?h" using found(2) by simp
    note from_u = payload_from_ok [OF this h len]
    show ?thesis unfolding p at found(1,3) decoded_def by (simp add: from_u del: length_drop)
  next
    case none
    then show ?thesis unfolding p at none(1) by (simp add: payload_from_def del: length_drop)
  qed
qed

text \<open>Without a complete header the decoder does read behind the packet, and the wrapped length does occur.\<close>

lemma short_ipv4_reads_behind:
  "process_ipv4_ipv6 ntop 1 [0x40] = Inl (Undefined_behaviour ''read behind the packet'')"
  by (simp add: process_ipv4_ipv6_def packet_read_def)

lemma cut_udp_header_throws:
  "udp_payload ntop DLT_RAW ([0x45] @ replicate 8 0 @ [0x11] @ replicate 10 0) = Inl (Length_error ''basic_string::_M_create'')"
  by (simp add: udp_payload_def link_header_def process_ipv4_ipv6_def packet_read_def inet4_addr_def nth_append Let_def)

theorem udp_payload_in_packet_witness:
  "let pkt = replicate 12 0 @ [0x86, 0xdd] @ [0x60] @ replicate 5 0 @ [43] @ replicate 33 0 @ [0x11] @ replicate 15 0 @ [1, 2, 3]
   in udp_payload (\<lambda>_ _. None) DLT_EN10MB pkt = Inr (Some (''unknown'', ''unknown'', [1, 2, 3]))"
proof -
  let ?pkt = "replicate 12 0 @ [0x86, 0xdd] @ [0x60] @ replicate 5 0 @ [43] @ replicate 33 0 @ [0x11] @ replicate 15 0 @ [1, 2, 3] :: bytes"
  let ?ip = "drop 14 ?pkt"
  have bytes: "?ip ! 6 = 43" "?ip ! 40 = 0x11" "?ip ! 41 = 0" "length ?ip = 59" "version ?ip = 0x60" by code_simp+
  have "ipv6_udp ?ip (?ip ! 40) 48 48" unfolding bytes(2) using ipv6_udp.found [of ?ip 48] by simp
  then have "ipv6_udp ?ip (?ip ! 6) 40 48" unfolding bytes(1)
    by (rule ipv6_udp.extension [rotated 3]) (use bytes(3,4) in simp_all)
  moreover have "carries_ip DLT_EN10MB ?pkt" by code_simp
  ultimately have "udp_in DLT_EN10MB ?pkt 48" using bytes(4,5) by (simp add: udp_in_def udp_header_at_def)
  moreover have "complete_header (drop (link_length DLT_EN10MB) ?pkt)" by code_simp
  ultimately have "udp_payload (\<lambda>_ _. None) DLT_EN10MB ?pkt =
      Inr (Some (address_text (\<lambda>_ _. None) ?ip 12 8, address_text (\<lambda>_ _. None) ?ip 16 24, drop 70 ?pkt))"
    using udp_payload_in_packet [of DLT_EN10MB ?pkt "\<lambda>_ _. None"] by simp
  moreover have "drop 70 ?pkt = [1, 2, 3]" by code_simp
  ultimately show ?thesis by (simp add: Let_def address_text_def)
qed

end
