(* ===== verification/Network_Simulator.thy ===== *)
theory Network_Simulator
  imports Router "HOL-Library.Multiset"
begin

unbundle bit_operations_syntax

text \<open>
  The network simulator \<open>src/apps/network_simulator.cc\<close>: a router with seven interfaces, six hosts, and the
  links between them, over which the frames are carried round by round. An exception ends the program, so
  the state at a throw is not kept. What the random generator gives and the order in which the hosts are
  checked at the end are arguments; of the texts for the log only those that an exception carries or that
  parse a packet are kept. Results: the check of a host compares the two multisets of datagrams, as bytes;
  logging a frame never throws; and rounds without traffic change nothing.
\<close>

definition and_then :: "'a result \<Rightarrow> ('a \<Rightarrow> 'b result) \<Rightarrow> 'b result" where
  "and_then r f = (case r of Inl e \<Rightarrow> Inl e | Inr x \<Rightarrow> f x)"

lemma and_then_simps [simp]: "and_then (Inl e) f = Inl e" "and_then (Inr x) f = f x"
  by (simp_all add: and_then_def)

subsection \<open>Addresses and texts\<close>

text \<open>The argument holds the six random bytes.\<close>

fun random_host_ethernet_address :: "EthernetAddress \<Rightarrow> EthernetAddress" where
  "random_host_ethernet_address (EthernetAddress a b c d e f) = EthernetAddress ((a OR 0x02) AND 0xfe) b c d e f"

fun random_router_ethernet_address :: "EthernetAddress \<Rightarrow> EthernetAddress" where
  "random_router_ethernet_address (EthernetAddress a b c d e f) = EthernetAddress 0x02 0 0 d e f"

definition ip :: "getaddrinfo \<Rightarrow> string \<Rightarrow> u32 result" where
  "ip gai str = and_then (Address_of_ip gai str 0) Address_ipv4_numeric"

definition clear :: "'a list \<Rightarrow> 'a list \<Rightarrow> 'a list" where
  "clear queue1 queue2 = drop (length queue1) queue2"

text \<open>Strings of the program as bytes and back.\<close>

definition to_bytes :: "string \<Rightarrow> bytes" where
  "to_bytes s = map of_char s"

definition to_text :: "bytes \<Rightarrow> string" where
  "to_text bs = map (\<lambda>b. char_of (unat b)) bs"

definition IPv4Header_summary :: "IPv4Header \<Rightarrow> string" where
  "IPv4Header_summary h =
     ''IPv'' @ hex (unat (ip_ver h)) @ '', '' @
     ''len='' @ hex (unat (ip_len h)) @ '', '' @
     ''protocol='' @ hex (unat (ip_proto h)) @ '', '' @
     (if ip_ttl h \<ge> 10 then [] else ''ttl='' @ dec (unat (ip_ttl h)) @ '', '') @
     ''src='' @ inet_ntoa (ip_src h) @ '', '' @
     ''dst='' @ inet_ntoa (ip_dst h)"

definition datagram_text :: "IPv4Datagram \<Rightarrow> string" where
  "datagram_text d =
     IPv4Header_summary (dg_header d) @ '' payload='' @ [CHR 0x22] @ to_text (BufferList_concatenate (dg_payload d)) @ [CHR 0x22]"

definition summary :: "EthernetFrame \<Rightarrow> string result" where
  "summary frame =
     (let ret = EthernetHeader_to_string (fr_header frame)
      in if eth_type (fr_header frame) = EthernetHeader_TYPE_IPv4 then
           and_then (BufferList_to_Buffer (fr_payload frame)) (\<lambda>payload.
             case IPv4Datagram_parse IPv4Datagram_default payload of
               (res, dgram) \<Rightarrow> Inr (if res = NoError then ret @ '' '' @ datagram_text dgram else ret @ '' (bad IPv4)''))
         else if eth_type (fr_header frame) = EthernetHeader_TYPE_ARP then
           and_then (BufferList_to_Buffer (fr_payload frame)) (\<lambda>payload.
             case ARPMessage_parse ARPMessage_default payload of
               (res, arp) \<Rightarrow> Inr (if res = NoError then ret @ '' '' @ ARPMessage_to_string arp else ret @ '' (bad ARP)''))
         else Inr ret)"

subsection \<open>Host\<close>

record Host =
  h_name :: string
  h_my_address :: Address
  h_interface :: AsyncNetworkInterface
  h_next_hop :: Address
  h_expecting_to_receive :: "IPv4Datagram list"

fun Host_expecting :: "IPv4Datagram list \<Rightarrow> IPv4Datagram \<Rightarrow> bool result" where
  "Host_expecting [] expected = Inr False"
| "Host_expecting (x # xs) expected =
     and_then (IPv4Datagram_serialize x) (\<lambda>a. and_then (IPv4Datagram_serialize expected) (\<lambda>b.
       if BufferList_concatenate a = BufferList_concatenate b then Inr True else Host_expecting xs expected))"

fun Host_remove_expectation :: "IPv4Datagram list \<Rightarrow> IPv4Datagram \<Rightarrow> IPv4Datagram list result" where
  "Host_remove_expectation [] expected = Inr []"
| "Host_remove_expectation (x # xs) expected =
     and_then (IPv4Datagram_serialize x) (\<lambda>a. and_then (IPv4Datagram_serialize expected) (\<lambda>b.
       if BufferList_concatenate a = BufferList_concatenate b then Inr xs
       else and_then (Host_remove_expectation xs expected) (\<lambda>ys. Inr (x # ys))))"

definition Host_init :: "getnameinfo \<Rightarrow> EthernetAddress \<Rightarrow> string \<Rightarrow> Address \<Rightarrow> Address \<Rightarrow> Host result" where
  "Host_init gni rnd name my_address next_hop =
     and_then (NetworkInterface_init gni (random_host_ethernet_address rnd) my_address) (\<lambda>ni.
       Inr \<lparr>h_name = name, h_my_address = my_address, h_interface = AsyncNetworkInterface_of ni,
            h_next_hop = next_hop, h_expecting_to_receive = []\<rparr>)"

definition Host_send_to ::
  "getnameinfo \<Rightarrow> Host \<Rightarrow> Address \<Rightarrow> u8 \<Rightarrow> u32 \<Rightarrow> (Host \<times> IPv4Datagram) result" where
  "Host_send_to gni h destination ttl rnd =
     and_then (Address_ipv4_numeric (h_my_address h)) (\<lambda>src.
     and_then (Address_ipv4_numeric destination) (\<lambda>dst.
       let dgram = IPv4Datagram_default;
           dgram = dgram\<lparr>dg_header := (dg_header dgram)\<lparr>ip_src := src, ip_dst := dst\<rparr>,
                         dg_payload := BufferList_of_string (to_bytes (''random payload: {'' @ dec (unat rnd) @ ''}''))\<rparr>;
           dgram = dgram\<lparr>dg_header := (dg_header dgram)
                     \<lparr>ip_len := ucast (ip_hlen (dg_header dgram)) * 4 + ucast (BufferList_size (dg_payload dgram)),
                      ip_ttl := ttl\<rparr>\<rparr>
       in case NetworkInterface_send_datagram (an_interface (h_interface h)) dgram (h_next_hop h) of
            (ni, Inl e) \<Rightarrow> Inl e
          | (ni, Inr _) \<Rightarrow>
              and_then (Address_ip gni (h_next_hop h)) (\<lambda>_.
                Inr (h\<lparr>h_interface := (h_interface h)\<lparr>an_interface := ni\<rparr>\<rparr>, dgram))))"

definition Host_expect :: "Host \<Rightarrow> IPv4Datagram \<Rightarrow> Host" where
  "Host_expect h expected = h\<lparr>h_expecting_to_receive := h_expecting_to_receive h @ [expected]\<rparr>"

text \<open>The loop of \<open>check\<close> over the received datagrams.\<close>

fun check_loop :: "string \<Rightarrow> IPv4Datagram list \<Rightarrow> IPv4Datagram list \<Rightarrow> IPv4Datagram list result" where
  "check_loop name [] expecting = Inr expecting"
| "check_loop name (dgram_received # ds) expecting =
     and_then (Host_expecting expecting dgram_received) (\<lambda>found.
       if \<not> found
       then Inl (Runtime_error (''Host '' @ name @ '' received unexpected Internet datagram: '' @ datagram_text dgram_received))
       else and_then (Host_remove_expectation expecting dgram_received) (check_loop name ds))"

definition Host_check :: "Host \<Rightarrow> Host result" where
  "Host_check h =
     and_then (check_loop (h_name h) (an_datagrams_out (h_interface h)) (h_expecting_to_receive h)) (\<lambda>expecting.
       case expecting of
         [] \<Rightarrow> Inr (h\<lparr>h_interface := (h_interface h)\<lparr>an_datagrams_out := []\<rparr>, h_expecting_to_receive := []\<rparr>)
       | expected # _ \<Rightarrow>
           Inl (Runtime_error (''Host '' @ h_name h @ '' did NOT receive an expected Internet datagram: '' @ datagram_text expected)))"

subsection \<open>Network\<close>

record Network =
  nw_router :: Router
  nw_default_id :: u64
  nw_eth0_id :: u64
  nw_eth1_id :: u64
  nw_eth2_id :: u64
  nw_uun3_id :: u64
  nw_hs4_id :: u64
  nw_mit5_id :: u64
  nw_hosts :: "string \<rightharpoonup> Host"

definition Network_host :: "Network \<Rightarrow> string \<Rightarrow> Host result" where
  "Network_host nw name =
     (case nw_hosts nw name of
        None \<Rightarrow> Inl (Runtime_error (''unknown host: '' @ name))
      | Some h \<Rightarrow> if h_name h \<noteq> name then Inl (Runtime_error (''invalid host: '' @ name)) else Inr h)"

text \<open>Writing back what a reference to a host or to an interface has changed.\<close>

definition set_host :: "Network \<Rightarrow> string \<Rightarrow> Host \<Rightarrow> Network" where
  "set_host nw name h = nw\<lparr>nw_hosts := (nw_hosts nw)(name \<mapsto> h)\<rparr>"

definition set_interface :: "Network \<Rightarrow> u64 \<Rightarrow> AsyncNetworkInterface \<Rightarrow> Network" where
  "set_interface nw N an = nw\<lparr>nw_router := (nw_router nw)
     \<lparr>rt_interfaces := (rt_interfaces (nw_router nw))[unat N := an]\<rparr>\<rparr>"

definition frames_out :: "AsyncNetworkInterface \<Rightarrow> EthernetFrame list" where
  "frames_out an = ni_frames_out (an_interface an)"

definition clear_frames :: "EthernetFrame list \<Rightarrow> AsyncNetworkInterface \<Rightarrow> AsyncNetworkInterface" where
  "clear_frames frames an = an\<lparr>an_interface := (an_interface an)\<lparr>ni_frames_out := clear frames (frames_out an)\<rparr>\<rparr>"

fun deliver :: "EthernetFrame list \<Rightarrow> AsyncNetworkInterface \<Rightarrow> AsyncNetworkInterface result" where
  "deliver [] dst = Inr dst"
| "deliver (frame # to_send) dst =
     (let frame = frame\<lparr>fr_payload := BufferList_of_string (BufferList_concatenate (fr_payload frame))\<rparr>
      in and_then (summary frame) (\<lambda>_.
           case AsyncNetworkInterface_recv_frame dst frame of
             (dst, Inl e) \<Rightarrow> Inl e
           | (dst, Inr _) \<Rightarrow> deliver to_send dst))"

definition exchange_frames ::
  "AsyncNetworkInterface \<Rightarrow> AsyncNetworkInterface \<Rightarrow> (AsyncNetworkInterface \<times> AsyncNetworkInterface) result" where
  "exchange_frames x y =
     (let x_frames = frames_out x; y_frames = frames_out y
      in and_then (deliver x_frames y) (\<lambda>y.
         and_then (deliver y_frames x) (\<lambda>x.
           Inr (clear_frames x_frames x, clear_frames y_frames y))))"

definition exchange_frames3 ::
  "AsyncNetworkInterface \<Rightarrow> AsyncNetworkInterface \<Rightarrow> AsyncNetworkInterface
    \<Rightarrow> (AsyncNetworkInterface \<times> AsyncNetworkInterface \<times> AsyncNetworkInterface) result" where
  "exchange_frames3 x y z =
     (let x_frames = frames_out x; y_frames = frames_out y; z_frames = frames_out z
      in and_then (deliver x_frames y) (\<lambda>y.
         and_then (deliver x_frames z) (\<lambda>z.
         and_then (deliver y_frames x) (\<lambda>x.
         and_then (deliver y_frames z) (\<lambda>z.
         and_then (deliver z_frames x) (\<lambda>x.
         and_then (deliver z_frames y) (\<lambda>y.
           Inr (clear_frames x_frames x, clear_frames y_frames y, clear_frames z_frames z))))))))"

text \<open>The constructor. An interface of the router, a host and a route each.\<close>

definition add_interface :: "getaddrinfo \<Rightarrow> getnameinfo \<Rightarrow> Router \<Rightarrow> EthernetAddress \<Rightarrow> string \<Rightarrow> (Router \<times> u64) result" where
  "add_interface gai gni rt rnd address =
     and_then (Address_of_ip gai address 0) (\<lambda>a.
     and_then (NetworkInterface_init gni (random_router_ethernet_address rnd) a) (\<lambda>ni.
       Inr (Router_add_interface rt (AsyncNetworkInterface_of ni))))"

definition insert_host ::
  "getaddrinfo \<Rightarrow> getnameinfo \<Rightarrow> Network \<Rightarrow> EthernetAddress \<Rightarrow> string \<Rightarrow> string \<Rightarrow> string \<Rightarrow> Network result" where
  "insert_host gai gni nw rnd name my_address next_hop =
     and_then (Address_of_ip gai my_address 0) (\<lambda>a.
     and_then (Address_of_ip gai next_hop 0) (\<lambda>n.
     and_then (Host_init gni rnd name a n) (\<lambda>h.
       Inr (if nw_hosts nw name = None then set_host nw name h else nw))))"

definition add_route ::
  "getaddrinfo \<Rightarrow> getnameinfo \<Rightarrow> (u32 \<Rightarrow> u32) \<Rightarrow> Network \<Rightarrow> string \<Rightarrow> u8 \<Rightarrow> Address option \<Rightarrow> u64 \<Rightarrow> Network result" where
  "add_route gai gni shift32 nw prefix prefix_length next_hop N =
     and_then (ip gai prefix) (\<lambda>route_prefix.
     and_then (Router_add_route shift32 gni (nw_router nw) route_prefix prefix_length next_hop N) (\<lambda>rt.
       Inr (nw\<lparr>nw_router := rt\<rparr>)))"

definition Network_interfaces :: "getaddrinfo \<Rightarrow> getnameinfo \<Rightarrow> (nat \<Rightarrow> EthernetAddress) \<Rightarrow> Network result" where
  "Network_interfaces gai gni rnd =
     and_then (add_interface gai gni Router_default (rnd 0) ''171.67.76.46'') (\<lambda>(rt, default_id).
     and_then (add_interface gai gni rt (rnd 1) ''10.0.0.1'') (\<lambda>(rt, eth0_id).
     and_then (add_interface gai gni rt (rnd 2) ''172.16.0.1'') (\<lambda>(rt, eth1_id).
     and_then (add_interface gai gni rt (rnd 3) ''192.168.0.1'') (\<lambda>(rt, eth2_id).
     and_then (add_interface gai gni rt (rnd 4) ''198.178.229.1'') (\<lambda>(rt, uun3_id).
     and_then (add_interface gai gni rt (rnd 5) ''143.195.0.2'') (\<lambda>(rt, hs4_id).
     and_then (add_interface gai gni rt (rnd 6) ''128.30.76.255'') (\<lambda>(rt, mit5_id).
       Inr \<lparr>nw_router = rt, nw_default_id = default_id, nw_eth0_id = eth0_id, nw_eth1_id = eth1_id, nw_eth2_id = eth2_id,
            nw_uun3_id = uun3_id, nw_hs4_id = hs4_id, nw_mit5_id = mit5_id, nw_hosts = Map.empty\<rparr>)))))))"

definition Network_hosts :: "getaddrinfo \<Rightarrow> getnameinfo \<Rightarrow> (nat \<Rightarrow> EthernetAddress) \<Rightarrow> Network \<Rightarrow> Network result" where
  "Network_hosts gai gni rnd nw =
     and_then (insert_host gai gni nw (rnd 7) ''applesauce'' ''10.0.0.2'' ''10.0.0.1'') (\<lambda>nw.
     and_then (insert_host gai gni nw (rnd 8) ''default_router'' ''171.67.76.1'' ''0'') (\<lambda>nw.
     and_then (insert_host gai gni nw (rnd 9) ''cherrypie'' ''192.168.0.2'' ''192.168.0.1'') (\<lambda>nw.
     and_then (insert_host gai gni nw (rnd 10) ''hs_router'' ''143.195.0.1'' ''0'') (\<lambda>nw.
     and_then (insert_host gai gni nw (rnd 11) ''dm42'' ''198.178.229.42'' ''198.178.229.1'') (\<lambda>nw.
       insert_host gai gni nw (rnd 12) ''dm43'' ''198.178.229.43'' ''198.178.229.1'')))))"

definition Network_routes :: "getaddrinfo \<Rightarrow> getnameinfo \<Rightarrow> (u32 \<Rightarrow> u32) \<Rightarrow> Network \<Rightarrow> Network result" where
  "Network_routes gai gni shift32 nw =
     and_then (Network_host nw ''default_router'') (\<lambda>default_router.
     and_then (add_route gai gni shift32 nw ''0.0.0.0'' 0 (Some (h_my_address default_router)) (nw_default_id nw)) (\<lambda>nw.
     and_then (add_route gai gni shift32 nw ''10.0.0.0'' 8 None (nw_eth0_id nw)) (\<lambda>nw.
     and_then (add_route gai gni shift32 nw ''172.16.0.0'' 16 None (nw_eth1_id nw)) (\<lambda>nw.
     and_then (add_route gai gni shift32 nw ''192.168.0.0'' 24 None (nw_eth2_id nw)) (\<lambda>nw.
     and_then (add_route gai gni shift32 nw ''198.178.229.0'' 24 None (nw_uun3_id nw)) (\<lambda>nw.
     and_then (Network_host nw ''hs_router'') (\<lambda>hs_router.
     and_then (add_route gai gni shift32 nw ''143.195.0.0'' 17 (Some (h_my_address hs_router)) (nw_hs4_id nw)) (\<lambda>nw.
     and_then (add_route gai gni shift32 nw ''143.195.128.0'' 18 (Some (h_my_address hs_router)) (nw_hs4_id nw)) (\<lambda>nw.
     and_then (add_route gai gni shift32 nw ''143.195.192.0'' 19 (Some (h_my_address hs_router)) (nw_hs4_id nw)) (\<lambda>nw.
     and_then (Address_of_ip gai ''128.30.0.1'' 0) (\<lambda>mit.
       add_route gai gni shift32 nw ''128.30.76.255'' 16 (Some mit) (nw_mit5_id nw))))))))))))"

definition Network_init ::
  "getaddrinfo \<Rightarrow> getnameinfo \<Rightarrow> (u32 \<Rightarrow> u32) \<Rightarrow> (nat \<Rightarrow> EthernetAddress) \<Rightarrow> Network result" where
  "Network_init gai gni shift32 rnd =
     and_then (Network_interfaces gai gni rnd) (\<lambda>nw.
     and_then (Network_hosts gai gni rnd nw) (Network_routes gai gni shift32))"

text \<open>The links: the interface of the router first, then the hosts.\<close>

definition connect2 :: "Network \<Rightarrow> u64 \<Rightarrow> string \<Rightarrow> Network result" where
  "connect2 nw N name =
     and_then (Router_interface (nw_router nw) N) (\<lambda>x.
     and_then (Network_host nw name) (\<lambda>h.
     and_then (exchange_frames x (h_interface h)) (\<lambda>(x, y).
       Inr (set_host (set_interface nw N x) name (h\<lparr>h_interface := y\<rparr>)))))"

definition connect3 :: "Network \<Rightarrow> u64 \<Rightarrow> string \<Rightarrow> string \<Rightarrow> Network result" where
  "connect3 nw N name1 name2 =
     and_then (Router_interface (nw_router nw) N) (\<lambda>x.
     and_then (Network_host nw name1) (\<lambda>h1.
     and_then (Network_host nw name2) (\<lambda>h2.
     and_then (exchange_frames3 x (h_interface h1) (h_interface h2)) (\<lambda>(x, y, z).
       Inr (set_host (set_host (set_interface nw N x) name1 (h1\<lparr>h_interface := y\<rparr>)) name2 (h2\<lparr>h_interface := z\<rparr>))))))"

definition simulate_physical_connections :: "Network \<Rightarrow> Network result" where
  "simulate_physical_connections nw =
     and_then (connect2 nw (nw_default_id nw) ''default_router'') (\<lambda>nw.
     and_then (connect2 nw (nw_eth0_id nw) ''applesauce'') (\<lambda>nw.
     and_then (connect2 nw (nw_eth2_id nw) ''cherrypie'') (\<lambda>nw.
     and_then (connect2 nw (nw_hs4_id nw) ''hs_router'') (\<lambda>nw.
       connect3 nw (nw_uun3_id nw) ''dm42'' ''dm43''))))"

fun simulate_rounds :: "nat \<Rightarrow> Network \<Rightarrow> Network result" where
  "simulate_rounds 0 nw = Inr nw"
| "simulate_rounds (Suc n) nw =
     (case Router_route (nw_router nw) of
        (rt, Inl e) \<Rightarrow> Inl e
      | (rt, Inr _) \<Rightarrow> and_then (simulate_physical_connections (nw\<lparr>nw_router := rt\<rparr>)) (simulate_rounds n))"

fun check_hosts :: "string list \<Rightarrow> Network \<Rightarrow> Network result" where
  "check_hosts [] nw = Inr nw"
| "check_hosts (name # names) nw =
     (case nw_hosts nw name of
        None \<Rightarrow> check_hosts names nw
      | Some h \<Rightarrow> and_then (Host_check h) (\<lambda>h. check_hosts names (set_host nw name h)))"

definition Network_simulate :: "string list \<Rightarrow> Network \<Rightarrow> Network result" where
  "Network_simulate order nw = and_then (simulate_rounds 256 nw) (check_hosts order)"

subsection \<open>The program\<close>

text \<open>One test: a host sends, another expects the datagram with its time to live decremented (or nobody does),
  and the network is simulated.\<close>

definition test_sending ::
  "getnameinfo \<Rightarrow> string list \<Rightarrow> Network \<Rightarrow> string \<Rightarrow> Address result \<Rightarrow> u8 \<Rightarrow> u32 \<Rightarrow> string option \<Rightarrow> Network result" where
  "test_sending gni order nw sender destination ttl rnd receiver =
     and_then (Network_host nw sender) (\<lambda>h.
     and_then destination (\<lambda>a.
     and_then (Host_send_to gni h a ttl rnd) (\<lambda>(h, dgram_sent).
       let nw = set_host nw sender h
       in case receiver of
            None \<Rightarrow> Network_simulate order nw
          | Some name \<Rightarrow>
              let dgram_sent = dgram_sent\<lparr>dg_header := (dg_header dgram_sent)\<lparr>ip_ttl := ip_ttl (dg_header dgram_sent) - 1\<rparr>\<rparr>
              in and_then (Network_host nw name) (\<lambda>r. Network_simulate order (set_host nw name (Host_expect r dgram_sent))))))"

definition host_address :: "Network \<Rightarrow> string \<Rightarrow> Address result" where
  "host_address nw name = and_then (Network_host nw name) (\<lambda>h. Inr (h_my_address h))"

definition network_simulator ::
  "getaddrinfo \<Rightarrow> getnameinfo \<Rightarrow> (u32 \<Rightarrow> u32) \<Rightarrow> string list \<Rightarrow> (nat \<Rightarrow> EthernetAddress) \<Rightarrow> (nat \<Rightarrow> u32) \<Rightarrow> Network result" where
  "network_simulator gai gni shift32 order rnd rd =
     and_then (Network_init gai gni shift32 rnd) (\<lambda>nw.
     and_then (test_sending gni order nw ''applesauce'' (host_address nw ''cherrypie'') 64 (rd 0) (Some ''cherrypie'')) (\<lambda>nw.
     and_then (test_sending gni order nw ''cherrypie'' (host_address nw ''applesauce'') 64 (rd 1) (Some ''applesauce'')) (\<lambda>nw.
     and_then (test_sending gni order nw ''applesauce'' (Address_of_ip gai ''1.2.3.4'' 0) 64 (rd 2) (Some ''default_router'')) (\<lambda>nw.
     and_then (test_sending gni order nw ''applesauce'' (Address_of_ip gai ''143.195.131.17'' 0) 64 (rd 3) (Some ''hs_router'')) (\<lambda>nw.
     and_then (test_sending gni order nw ''cherrypie'' (Address_of_ip gai ''143.195.193.52'' 0) 64 (rd 4) (Some ''hs_router'')) (\<lambda>nw.
     and_then (test_sending gni order nw ''cherrypie'' (Address_of_ip gai ''143.195.223.255'' 0) 64 (rd 5) (Some ''hs_router'')) (\<lambda>nw.
     and_then (test_sending gni order nw ''cherrypie'' (Address_of_ip gai ''143.195.224.0'' 0) 64 (rd 6) (Some ''default_router'')) (\<lambda>nw.
     and_then (test_sending gni order nw ''dm42'' (host_address nw ''dm43'') 64 (rd 7) (Some ''dm43'')) (\<lambda>nw.
     and_then (test_sending gni order nw ''applesauce'' (Address_of_ip gai ''1.2.3.4'' 0) 1 (rd 8) None) (\<lambda>nw.
       test_sending gni order nw ''applesauce'' (Address_of_ip gai ''1.2.3.4'' 0) 0 (rd 9) None))))))))))"

subsection \<open>Logging\<close>

text \<open>Logging a frame never throws: its payload has become a single buffer.\<close>

lemma summary_ok: "BufferList_to_Buffer (fr_payload frame) = Inr b \<Longrightarrow> \<exists>t. summary frame = Inr t"
  by (cases "eth_type (fr_header frame) = EthernetHeader_TYPE_IPv4"; cases "eth_type (fr_header frame) = EthernetHeader_TYPE_ARP")
    (auto simp: summary_def Let_def split: prod.split)

lemma deliver_step:
  "deliver (frame # to_send) dst =
     (case AsyncNetworkInterface_recv_frame dst
             (frame\<lparr>fr_payload := BufferList_of_string (BufferList_concatenate (fr_payload frame))\<rparr>) of
        (dst, Inl e) \<Rightarrow> Inl e
      | (dst, Inr _) \<Rightarrow> deliver to_send dst)"
proof -
  let ?frame = "frame\<lparr>fr_payload := BufferList_of_string (BufferList_concatenate (fr_payload frame))\<rparr>"
  obtain t where "summary ?frame = Inr t"
  proof -
    have "\<exists>b. BufferList_to_Buffer (fr_payload ?frame) = Inr b"
      by (simp add: BufferList_of_string_def BufferList_to_Buffer_def BufferList_of_Buffer_def BufferList_append_def)
    then show ?thesis using summary_ok that by blast
  qed
  then show "deliver (frame # to_send) dst =
     (case AsyncNetworkInterface_recv_frame dst
             (frame\<lparr>fr_payload := BufferList_of_string (BufferList_concatenate (fr_payload frame))\<rparr>) of
        (dst, Inl e) \<Rightarrow> Inl e
      | (dst, Inr _) \<Rightarrow> deliver to_send dst)"
    by (simp add: Let_def)
qed

subsection \<open>Rounds without traffic\<close>

definition quiet_host :: "Network \<Rightarrow> string \<Rightarrow> bool" where
  "quiet_host nw name =
     (case nw_hosts nw name of None \<Rightarrow> False | Some h \<Rightarrow> h_name h = name \<and> frames_out (h_interface h) = [])"

definition quiet :: "Network \<Rightarrow> bool" where
  "quiet nw \<longleftrightarrow>
     list_all (\<lambda>an. frames_out an = [] \<and> an_datagrams_out an = []) (rt_interfaces (nw_router nw)) \<and>
     list_all (\<lambda>N. N < sz (rt_interfaces (nw_router nw)) \<and> unat N < length (rt_interfaces (nw_router nw)))
       [nw_default_id nw, nw_eth0_id nw, nw_eth2_id nw, nw_hs4_id nw, nw_uun3_id nw] \<and>
     list_all (quiet_host nw) [''default_router'', ''applesauce'', ''cherrypie'', ''hs_router'', ''dm42'', ''dm43'']"

lemma clear_nothing [simp]: "clear_frames [] an = an"
  by (simp add: clear_frames_def clear_def frames_out_def)

lemma exchange_nothing:
  "frames_out x = [] \<Longrightarrow> frames_out y = [] \<Longrightarrow> exchange_frames x y = Inr (x, y)"
  "frames_out x = [] \<Longrightarrow> frames_out y = [] \<Longrightarrow> frames_out z = [] \<Longrightarrow> exchange_frames3 x y z = Inr (x, y, z)"
  by (simp_all add: exchange_frames_def exchange_frames3_def)

lemma set_interface_same: "unat N < length (rt_interfaces (nw_router nw)) \<Longrightarrow>
    set_interface nw N (rt_interfaces (nw_router nw) ! unat N) = nw"
  by (simp add: set_interface_def)

lemma set_host_same: "nw_hosts nw name = Some h \<Longrightarrow> set_host nw name h = nw"
  by (simp add: set_host_def fun_upd_idem)

lemma quiet_interface:
  assumes "list_all (\<lambda>an. frames_out an = [] \<and> an_datagrams_out an = []) (rt_interfaces (nw_router nw))"
    and "N < sz (rt_interfaces (nw_router nw))" and "unat N < length (rt_interfaces (nw_router nw))"
  shows "\<exists>x. Router_interface (nw_router nw) N = Inr x \<and> frames_out x = [] \<and> set_interface nw N x = nw"
  using assms by (auto simp: Router_interface_def set_interface_same list_all_length)

lemma quiet_hostD:
  "quiet_host nw name \<Longrightarrow> \<exists>h. nw_hosts nw name = Some h \<and> Network_host nw name = Inr h \<and> frames_out (h_interface h) = []"
  by (auto simp: quiet_host_def Network_host_def split: option.splits)

lemma quiet_connections:
  assumes "quiet nw"
  shows "simulate_physical_connections nw = Inr nw"
proof -
  have two: "connect2 nw N name = Inr nw"
    if N: "N < sz (rt_interfaces (nw_router nw))" "unat N < length (rt_interfaces (nw_router nw))"
      and q: "quiet_host nw name" for N name
  proof -
    obtain x where "Router_interface (nw_router nw) N = Inr x" "frames_out x = []" "set_interface nw N x = nw"
      using quiet_interface N assms by (auto simp: quiet_def)
    moreover obtain h where "nw_hosts nw name = Some h" "Network_host nw name = Inr h" "frames_out (h_interface h) = []"
      using quiet_hostD [OF q] by blast
    ultimately show ?thesis by (simp add: connect2_def exchange_nothing set_host_same)
  qed
  have "connect3 nw (nw_uun3_id nw) ''dm42'' ''dm43'' = Inr nw"
  proof -
    obtain x where "Router_interface (nw_router nw) (nw_uun3_id nw) = Inr x" "frames_out x = []"
        "set_interface nw (nw_uun3_id nw) x = nw"
      using quiet_interface [of nw "nw_uun3_id nw"] assms by (auto simp: quiet_def)
    moreover obtain h1 where "nw_hosts nw ''dm42'' = Some h1" "Network_host nw ''dm42'' = Inr h1" "frames_out (h_interface h1) = []"
      using quiet_hostD [of nw "''dm42''"] assms by (auto simp: quiet_def)
    moreover obtain h2 where "nw_hosts nw ''dm43'' = Some h2" "Network_host nw ''dm43'' = Inr h2" "frames_out (h_interface h2) = []"
      using quiet_hostD [of nw "''dm43''"] assms by (auto simp: quiet_def)
    ultimately show ?thesis by (simp add: connect3_def exchange_nothing set_host_same)
  qed
  then show ?thesis using assms two by (simp add: simulate_physical_connections_def quiet_def)
qed

lemma route_nothing:
  assumes "list_all (\<lambda>an. an_datagrams_out an = []) (rt_interfaces rt)"
  shows "Router_route rt = (rt, Inr ())"
proof -
  have "route_queue k rt = (rt, Inr ())" for k
    using assms by (subst route_queue.simps) (simp add: datagrams_out_def list_all_length)
  then have "route_all ks rt = (rt, Inr ())" for ks by (induction ks) simp_all
  then show ?thesis by (simp add: Router_route_def)
qed

lemma quiet_rounds: "quiet nw \<Longrightarrow> simulate_rounds n nw = Inr nw"
proof (induction n)
  case (Suc n)
  have "list_all (\<lambda>an. an_datagrams_out an = []) (rt_interfaces (nw_router nw))"
    using Suc.prems by (simp add: quiet_def list_all_length)
  then show ?case using Suc by (simp add: route_nothing quiet_connections)
qed simp

subsection \<open>The check of a host\<close>

definition on_wire :: "IPv4Datagram \<Rightarrow> bytes" where
  "on_wire d = (case IPv4Datagram_serialize d of Inl _ \<Rightarrow> [] | Inr out \<Rightarrow> BufferList_concatenate out)"

definition serialises :: "IPv4Datagram \<Rightarrow> bool" where
  "serialises d = (case IPv4Datagram_serialize d of Inl _ \<Rightarrow> False | Inr _ \<Rightarrow> True)"

lemma serialisesD: "serialises d \<Longrightarrow> \<exists>out. IPv4Datagram_serialize d = Inr out \<and> BufferList_concatenate out = on_wire d"
  by (auto simp: serialises_def on_wire_def split: sum.splits)

lemma expecting_member:
  assumes "list_all serialises xs" and "serialises d"
  shows "Host_expecting xs d = Inr (on_wire d \<in># image_mset on_wire (mset xs))"
  using assms(1)
proof (induction xs)
  case (Cons x xs)
  then show ?case using serialisesD [OF assms(2)] serialisesD [of x] by auto
qed simp

lemma remove_expectation_mset:
  assumes "list_all serialises xs" and "serialises d"
  shows "\<exists>ys. Host_remove_expectation xs d = Inr ys \<and> list_all serialises ys \<and>
    image_mset on_wire (mset ys) = image_mset on_wire (mset xs) - {#on_wire d#}"
  using assms(1)
proof (induction xs)
  case (Cons x xs)
  then obtain ys where "Host_remove_expectation xs d = Inr ys" "list_all serialises ys"
    "image_mset on_wire (mset ys) = image_mset on_wire (mset xs) - {#on_wire d#}" by auto
  then show ?case using Cons.prems serialisesD [OF assms(2)] serialisesD [of x] by auto
qed simp

lemma check_loop_mset:
  assumes "list_all serialises ds" and "list_all serialises xs"
  shows "if image_mset on_wire (mset ds) \<subseteq># image_mset on_wire (mset xs)
    then \<exists>ys. check_loop name ds xs = Inr ys \<and>
      image_mset on_wire (mset ys) = image_mset on_wire (mset xs) - image_mset on_wire (mset ds)
    else \<exists>what. check_loop name ds xs = Inl (Runtime_error what)"
  using assms
proof (induction ds arbitrary: xs)
  case (Cons d ds)
  let ?X = "image_mset on_wire (mset xs)" and ?D = "image_mset on_wire (mset ds)"
  note found = expecting_member [OF Cons.prems(2), of d]
  obtain ys where ys: "Host_remove_expectation xs d = Inr ys" "list_all serialises ys"
    "image_mset on_wire (mset ys) = ?X - {#on_wire d#}"
    using remove_expectation_mset [OF Cons.prems(2), of d] Cons.prems(1) by auto
  have le: "add_mset (on_wire d) ?D \<subseteq># ?X \<longleftrightarrow> on_wire d \<in># ?X \<and> ?D \<subseteq># ?X - {#on_wire d#}"
    by (simp add: insert_subset_eq_iff)
  show ?case
  proof (cases "on_wire d \<in># ?X")
    case True
    then have "check_loop name (d # ds) xs = check_loop name ds ys" using found ys Cons.prems(1) by simp
    then show ?thesis using Cons.IH [of ys] Cons.prems(1) ys le True by (auto split: if_splits)
  next
    case False
    then show ?thesis using found le Cons.prems(1) by simp
  qed
qed simp

text \<open>C33: the check of a host. When all datagrams can be serialised, \<open>Host::check\<close> passes exactly if the datagrams
  received are those expected, as multisets of byte strings: whatever their order, each as often as it was
  expected. It then leaves both lists empty; otherwise it throws.\<close>
theorem host_check_multiset:
  assumes "list_all serialises (an_datagrams_out (h_interface h))" and "list_all serialises (h_expecting_to_receive h)"
  shows "if image_mset on_wire (mset (an_datagrams_out (h_interface h)))
        = image_mset on_wire (mset (h_expecting_to_receive h))
    then Host_check h = Inr (h\<lparr>h_interface := (h_interface h)\<lparr>an_datagrams_out := []\<rparr>, h_expecting_to_receive := []\<rparr>)
    else \<exists>what. Host_check h = Inl (Runtime_error what)"
proof -
  let ?D = "image_mset on_wire (mset (an_datagrams_out (h_interface h)))"
    and ?X = "image_mset on_wire (mset (h_expecting_to_receive h))"
  note loop = check_loop_mset [OF assms, of "h_name h"]
  show ?thesis
  proof (cases "?D \<subseteq># ?X")
    case True
    then obtain ys where ys: "check_loop (h_name h) (an_datagrams_out (h_interface h)) (h_expecting_to_receive h) = Inr ys"
      "image_mset on_wire (mset ys) = ?X - ?D" using loop by auto
    have "ys = [] \<longleftrightarrow> ?D = ?X" using arg_cong [OF ys(2), of "\<lambda>M. M = {#}"] True
      by (auto simp: Diff_eq_empty_iff_mset)
    then show ?thesis by (cases ys) (auto simp: Host_check_def ys(1))
  next
    case False
    then have "?D \<noteq> ?X" by auto
    then show ?thesis using loop False by (auto simp: Host_check_def)
  qed
qed

definition sample_datagram :: "u8 \<Rightarrow> IPv4Datagram" where
  "sample_datagram b =
     \<lparr>dg_header = IPv4Header_default\<lparr>ip_len := 21, ip_src := 0x0a000002, ip_dst := 0xc0a80002\<rparr>,
      dg_payload = [Buffer_of_string [b]]\<rparr>"

definition sample_host :: Host where
  "sample_host =
     \<lparr>h_name = ''cherrypie'', h_my_address = ipv4_address 0 0xc0a80002,
      h_interface = \<lparr>an_interface = \<lparr>ni_ethernet_address = ETHERNET_BROADCAST, ni_ip_address = ipv4_address 0 0xc0a80002,
          ni_frames_out = [], ni_arp_forward_table = Map.empty, ni_arp_request_cache = Map.empty\<rparr>,
        an_datagrams_out = [sample_datagram 2, sample_datagram 1, sample_datagram 2]\<rparr>,
      h_next_hop = ipv4_address 0 0xc0a80001,
      h_expecting_to_receive = [sample_datagram 1, sample_datagram 2, sample_datagram 2]\<rparr>"

theorem host_check_multiset_witness:
  "Host_check sample_host = Inr (sample_host
     \<lparr>h_interface := (h_interface sample_host)\<lparr>an_datagrams_out := []\<rparr>, h_expecting_to_receive := []\<rparr>)"
proof -
  have "datagram_fits (sample_datagram b)" for b
    by (simp add: sample_datagram_def datagram_fits_def ip_legal_def IPv4Header_default_def IPv4Header_LENGTH_def)
  then have "serialises (sample_datagram b)" for b
    using serialize_datagram [of "sample_datagram b"] by (auto simp: serialises_def)
  then show ?thesis using host_check_multiset [of sample_host]
    by (simp add: sample_host_def add_mset_commute)
qed

end
