(* ===== verification/Spec2Isabelle.thy ===== *)
theory Spec2Isabelle
  imports Connection_Pair TCP_Over_IP Interface_Trace Router Full_Stack Socket_Delivery Benchmark Stream_Copy Packet_Dump
    Network_Simulator
begin

text \<open>
  Verification of the Sponge TCP/IP stack.

  \<^bold>\<open>The program.\<close> Sponge is a user-level TCP/IP stack in C++. An application writes into and reads from a
  \<open>TCPSpongeSocket\<close>, whose event loop moves bytes between the application and a \<open>TCPConnection\<close> and
  segments between the connection and an adapter. A connection is a \<open>TCPSender\<close> and a \<open>TCPReceiver\<close>, each
  with a \<open>ByteStream\<close>; the receiver puts segments into order with a \<open>StreamReassembler\<close>. The adapters carry
  segments over UDP, over IPv4 through a TUN device, or over IPv4 and Ethernet through a TAP device; the
  last one uses a \<open>NetworkInterface\<close>, which resolves addresses with ARP. A \<open>Router\<close> forwards datagrams
  between network interfaces.

  \<^bold>\<open>Conventions.\<close> A class is a record whose fields carry a short prefix (\<open>bs_\<close> for \<open>ByteStream\<close>, \<open>snd_\<close>
  for \<open>TCPSender\<close>), \<open>Class::method\<close> is the definition \<open>Class_method\<close>, a method that changes its object
  gives the new one. Machine integers are words of their width and wrap as in the source; \<open>size_t\<close> is
  \<open>u64\<close>; where the source computes with \<open>int\<close>, the conversions are written out. An exception is a value
  \<open>Inl\<close> of \<open>'a result\<close>, with the class of the exception (\<open>cpp_error\<close>); what has changed before a throw is
  returned beside it. Undefined behaviour and calls of \<open>std::terminate\<close> are values of that type too.
  A loop is a recursive function. \<open>std::map\<close> is a sorted association list, \<open>std::unordered_map\<close> a map,
  a queue or deque a list, a \<open>Buffer\<close> with its shared storage the value it shows.

  \<^bold>\<open>Theories.\<close> Paths are relative to \<open>src/libsponge\<close>.
  \<^item> \<open>Sponge_Prelude\<close>: word and list types, results, runs of a step function (\<open>run_steps\<close>, \<open>run_ok\<close>) and the
    locale \<open>step_system\<close>: an invariant kept by each step is kept by each run.
  \<^item> \<open>Wrapping_Integers\<close> (\<open>wrapping_integers\<close>): \<open>unwrap\<close> inverts \<open>wrap\<close> and finds the closest number.
  \<^item> \<open>Byte_Stream\<close> (\<open>byte_stream\<close>): refinement to a queue, as an interpretation of the locale \<open>flow_stream\<close>.
  \<^item> \<open>Stream_Reassembler\<close>, \<open>Reassembly\<close> (\<open>stream_reassembler\<close>): the operations; the invariant, the effect of
    one push, delivery in any order.
  \<^item> \<open>Packet_Buffer\<close>, \<open>Net_Parser\<close>, \<open>Internet_Checksum\<close> (\<open>util/buffer\<close>, \<open>util/parser\<close>, \<open>util/util\<close>): buffers with
    their common contract (\<open>droppable\<close>), big-endian codecs (\<open>int_codec\<close>), the checksum modulo 65535.
  \<^item> \<open>TCP_Segment\<close> (\<open>tcp_helpers/tcp_header\<close>, \<open>tcp_segment\<close>): wire format, round trip, corruption.
  \<^item> \<open>TCP_Receiver\<close> (\<open>tcp_receiver\<close>): what it delivers, acknowledges and advertises.
  \<^item> \<open>TCP_Sender\<close>, \<open>Sender_Correctness\<close>, \<open>Sender_Properties\<close> (\<open>tcp_sender\<close>): the operations; the invariant over
    all acknowledgments and timings; window, acknowledgment, retransmission and backoff.
  \<^item> \<open>Reliable_Delivery\<close>: a sender and a receiver over a network that loses, repeats and reorders.
  \<^item> \<open>TCP_State\<close>, \<open>TCP_Connection\<close> (\<open>tcp_helpers/tcp_state\<close>, \<open>tcp_connection\<close>): state summaries; all operations of
    a connection. \<open>Connection_Invariant\<close>, \<open>Connection_Properties\<close>: what holds of a connection whatever it
    receives, its states, TIME-WAIT, a silent peer. \<open>Connection_Pair\<close>: two connections over the network.
  \<^item> \<open>IPv4\<close> (\<open>tcp_helpers/ipv4_header\<close>, \<open>ipv4_datagram\<close>), \<open>Decimal\<close>, \<open>Address\<close> (\<open>util/address\<close>), \<open>TCP_Over_IP\<close>
    (\<open>tcp_helpers/tcp_over_ip\<close>, \<open>tcp_config\<close>, the base class of \<open>fd_adapter\<close>): wire formats, numerals and
    addresses, wrapping segments into datagrams and back.
  \<^item> \<open>Ethernet\<close> (\<open>tcp_helpers/ethernet_*\<close>, \<open>arp_message\<close>), \<open>Network_Interface\<close> (\<open>network_interface\<close>): wire formats;
    all operations of an interface. \<open>Interface_Properties\<close>: address resolution. \<open>Interface_Trace\<close>: what any
    history of calls guarantees. \<open>Router\<close> (\<open>router\<close>): longest-prefix match, and the
    draining of the queues up to the first datagram that throws; the undeclared index of its routing loop is read as
    the loop variable, and the undefined shift of \<open>get_mask\<close> is a parameter.
  \<^item> \<open>File_Descriptor\<close>, \<open>Sockets\<close>, \<open>Event_Loop\<close> (\<open>util/file_descriptor\<close>, \<open>util/socket\<close>, \<open>util/eventloop\<close>,
    \<open>SystemCall\<close> of \<open>util/util\<close>): everything over the system calls, which are a parameter; complete writes;
    what one round of the loop serves; the locale \<open>rule_loop\<close>: what the callbacks keep, the loop keeps.
  \<^item> \<open>Fd_Adapters\<close> (\<open>tcp_helpers/fd_adapter\<close>, \<open>lossy_fd_adapter\<close>, \<open>tuntap_adapter\<close>, \<open>util/tun\<close>): all adapters.
    \<open>Full_Stack\<close>: a segment from one Ethernet adapter to another, with address resolution on the way.
  \<^item> \<open>Sponge_Socket\<close> (\<open>tcp_helpers/tcp_sponge_socket\<close>): the socket. \<open>Socket_Refinement\<close>: each rule of its event loop
    is a legal call of the connection (the interpretation \<open>sponge_loop\<close> of \<open>rule_loop\<close>). \<open>Socket_Delivery\<close>: all
    adapters keep the socket pair apart, and the socket as a whole refines its connection.
  \<^item> Programs under \<open>src/apps\<close>. \<open>Benchmark\<close> (\<open>tcp_benchmark\<close>): its check of the received bytes never fails.
    \<open>Stream_Copy\<close> (\<open>bidirectional_stream_copy\<close>): both directions are copied faithfully, with a second
    interpretation (\<open>copying\<close>) of \<open>rule_loop\<close>. \<open>Packet_Dump\<close> (the decoder of \<open>udp_tcpdump\<close>): it finds
    the UDP payload where the IP headers put it. \<open>Network_Simulator\<close> (\<open>network_simulator\<close>): the router with hosts and links; what the
    check of a host compares.

  \<^bold>\<open>The operating system\<close> and the resolver are not part of the sources. The system calls are a record of
  functions on an abstract kernel state, \<open>getaddrinfo\<close> and \<open>getnameinfo\<close> functions, the clock a function
  of the kernel state, random numbers arguments. What the code relies on is stated as predicates:
  \<open>numeric_resolver\<close> (numeric hosts and services), \<open>writev_law\<close> (a write takes a prefix or fails), \<open>tap_law\<close>
  (a TAP device moves whole frames), \<open>pipe_law\<close> (a socket pair is two byte streams), \<open>others_law\<close> and
  \<open>descriptors_law\<close> (calls on one descriptor do not touch another). Each theorem that uses one has an
  instance with a concrete system. The order in which an \<open>unordered_map\<close> is visited is an argument.

  \<^bold>\<open>Bounds and termination.\<close> Loops are total functions with a termination proof, except three; no fuel
  is used. The loops of \<open>_tcp_main\<close>, \<open>bidirectional_stream_copy\<close> and \<open>main_loop\<close> of the benchmark run as long as
  their connection lives; they are partial functions, \<open>None\<close> when they do not end, and the results
  about them hold at every iteration. Streams have less than \<open>2 ^ 64 - 2\<close> bytes, so that absolute sequence
  numbers do not wrap; where a network may deliver old segments at any time, less than \<open>2 ^ 31 - 2\<close> bytes, so
  that 32-bit sequence numbers tell them apart. Packets are short enough for the 32-bit accumulator of
  the checksum (65535 bytes suffice).

  \<^bold>\<open>Not modelled.\<close> Threads: \<open>_tcp_main\<close> is modelled as the function the thread runs, the other thread as changes of
  the kernel state and of the abort flag between two iterations. Random number seeding and the system
  clock, which only produce numbers. Debug output, except where it evaluates something that may throw.
  \<open>MyBuffer\<close>, \<open>printSegment\<close>, \<open>printtable\<close> and \<open>hexdump\<close>, which are unused or only print; the long text forms of
  the TCP and IPv4 headers. The other programs under \<open>src/apps\<close>, which parse command lines and call the
  library and the stream copy; the command line, the capture and the printing of \<open>udp_tcpdump\<close>; and the
  examples under \<open>src/doctests\<close>.
\<close>

end
